(* ===== verification/Prelude.thy ===== *)
theory Prelude
  imports Main "HOL-Library.Word" "HOL-Library.AList" "HOL-Library.State_Monad"
begin

text \<open>
  What the component theories share: the widths of the C++ integers, the unit of the steady
  clock, the bounded diagnostic text, the outcome of a callback that may throw, association
  lists standing for the standard containers, runs of a step function with their invariants,
  and a small weakest-precondition calculus for the components that thread their state
  through many calls.
\<close>

subsection \<open>Machine integers and time\<close>

type_synonym u8 = "8 word"
type_synonym u16 = "16 word"
type_synonym u32 = "32 word"
type_synonym u64 = "64 word"

text \<open>
  A \<open>steady_clock::time_point\<close> is its count of nanoseconds since the clock's epoch, an
  integer; a default-constructed time point is \<open>0\<close>. Durations given in milliseconds are
  converted with \<open>ms\<close>. Overflow of the 64-bit nanosecond count (292 years) is not modelled.
\<close>

type_synonym time = int

definition ms :: "int \<Rightarrow> time" where
  "ms d = d * 1000000"

lemma ms_pos [simp]: "0 < ms d \<longleftrightarrow> 0 < d"
  by (simp add: ms_def)

lemma ms_less [simp]: "ms a < ms b \<longleftrightarrow> a < b"
  by (simp add: ms_def)

lemma ms_le [simp]: "ms a \<le> ms b \<longleftrightarrow> a \<le> b"
  by (simp add: ms_def)

lemma ms_0 [simp]: "ms 0 = 0"
  by (simp add: ms_def)

text \<open>Counters are incremented only below \<open>numeric_limits<uint64_t>::max()\<close>.\<close>

definition u64_max :: u64 where
  "u64_max = - 1"

lemma unat_u64_max: "unat u64_max = 18446744073709551615"
  by (simp add: u64_max_def unsigned_minus_1_eq_mask mask_eq_exp_minus_1)

lemma u64_le_max [simp]: "x \<le> u64_max"
  by (simp add: u64_max_def)

lemma unat_u64_succ: "(x::u64) \<noteq> u64_max \<Longrightarrow> unat (x + 1) = Suc (unat x)"
  by (metis u64_max_def unatSuc add.commute eq_neg_iff_add_eq_0)

lemma u64_succ_greater [simp]: "(x::u64) \<noteq> u64_max \<Longrightarrow> x < x + 1"
  by (simp add: word_less_nat_alt unat_u64_succ)

subsection \<open>Diagnostic text\<close>

definition bounded_detail :: "string \<Rightarrow> string" where
  "bounded_detail d = (if 160 < length d then take 160 d else d)"

lemma length_bounded_detail [simp]: "length (bounded_detail d) \<le> 160"
  by (simp add: bounded_detail_def)

lemma bounded_detail_short [simp]: "length d \<le> 160 \<Longrightarrow> bounded_detail d = d"
  by (simp add: bounded_detail_def)

subsection \<open>Callbacks that may throw\<close>

datatype 'a outcome = Returned 'a | Threw string | ThrewUnknown

subsection \<open>Hexadecimal text\<close>

definition hex_digit :: "nat \<Rightarrow> char" where
  "hex_digit n = (if n < 10 then char_of (48 + n) else char_of (87 + n))"

definition hex_value :: "char \<Rightarrow> nat" where
  "hex_value c = (if of_char c \<le> (57::nat) then of_char c - 48 else of_char c - 97 + 10)"

definition is_hex :: "char \<Rightarrow> bool" where
  "is_hex c = ((48 \<le> (of_char c :: nat) \<and> of_char c \<le> (57::nat))
     \<or> (97 \<le> (of_char c :: nat) \<and> of_char c \<le> (102::nat)))"

primrec hex_digits :: "nat \<Rightarrow> nat \<Rightarrow> string" where
  "hex_digits 0 v = []"
| "hex_digits (Suc n) v = hex_digits n (v div 16) @ [hex_digit (v mod 16)]"

lemma hex_value_digit [simp]: "n < 16 \<Longrightarrow> hex_value (hex_digit n) = n"
  by (simp add: hex_value_def hex_digit_def)

lemma is_hex_digit [simp]: "n < 16 \<Longrightarrow> is_hex (hex_digit n)"
  by (simp add: is_hex_def hex_digit_def)

lemma length_hex_digits [simp]: "length (hex_digits n v) = n"
  by (induction n arbitrary: v) auto

lemma is_hex_digits: "c \<in> set (hex_digits n v) \<Longrightarrow> is_hex c"
  by (induction n arbitrary: v) auto

lemma hex_digits_inj:
  assumes "hex_digits n v = hex_digits n w" and "v < 16 ^ n" and "w < 16 ^ n"
  shows "v = w"
  using assms
proof (induction n arbitrary: v w)
  case 0
  then show ?case by simp
next
  case (Suc n)
  from Suc.prems(1) have "hex_digits n (v div 16) = hex_digits n (w div 16)"
    and "hex_digit (v mod 16) = hex_digit (w mod 16)" by simp_all
  moreover have "v div 16 < 16 ^ n" "w div 16 < 16 ^ n"
    using Suc.prems(2,3) by (simp_all add: less_mult_imp_div_less)
  ultimately have "v div 16 = w div 16" and "v mod 16 = w mod 16"
    using Suc.IH hex_value_digit by (blast, metis mod_less_divisor zero_less_numeral)
  then show ?case by (metis div_mult_mod_eq)
qed

subsection \<open>Decimal text (\<open>std::to_string\<close>)\<close>

fun to_decimal :: "nat \<Rightarrow> string" where
  "to_decimal n = (if n < 10 then [hex_digit n] else to_decimal (n div 10) @ [hex_digit (n mod 10)])"

declare to_decimal.simps [simp del]

subsection \<open>Association lists for the standard maps\<close>

text \<open>
  \<open>std::map\<close> and \<open>std::unordered_map\<close> are association lists with distinct keys: \<open>find\<close> is
  \<open>map_of\<close>, \<open>erase\<close> is \<open>AList.delete\<close>, assignment through an iterator is \<open>AList.update\<close>,
  \<open>size\<close> is \<open>length\<close>, and \<open>emplace\<close> of an absent key is \<open>#\<close>.
\<close>

definition distinct_keys :: "('k \<times> 'v) list \<Rightarrow> bool" where
  "distinct_keys m \<longleftrightarrow> distinct (map fst m)"

lemma distinct_keys_Nil [simp]: "distinct_keys []"
  by (simp add: distinct_keys_def)

lemma distinct_keys_Cons [simp]:
  "distinct_keys ((k, v) # m) \<longleftrightarrow> map_of m k = None \<and> distinct_keys m"
  by (auto simp: distinct_keys_def map_of_eq_None_iff)

lemma distinct_keys_delete [simp]: "distinct_keys m \<Longrightarrow> distinct_keys (AList.delete k m)"
  by (simp add: distinct_keys_def distinct_delete)

lemma distinct_keys_update [simp]: "distinct_keys m \<Longrightarrow> distinct_keys (AList.update k v m)"
  by (simp add: distinct_keys_def distinct_update)

lemma keys_update_present: "k \<in> fst ` set m \<Longrightarrow> map fst (AList.update k v m) = map fst m"
  by (induction m) auto

lemma length_update_present: "k \<in> fst ` set m \<Longrightarrow> length (AList.update k v m) = length m"
  by (metis keys_update_present length_map)

lemma map_of_SomeI_key: "map_of m k = Some v \<Longrightarrow> k \<in> fst ` set m"
  by (metis domI dom_map_of_conv_image_fst)

lemma length_delete_present:
  "distinct_keys m \<Longrightarrow> k \<in> fst ` set m \<Longrightarrow> Suc (length (AList.delete k m)) = length m"
proof (induction m)
  case (Cons kv m)
  then show ?case
    by (cases kv) (auto simp: map_of_eq_None_iff delete_id)
qed simp

lemma length_delete_absent: "k \<notin> fst ` set m \<Longrightarrow> AList.delete k m = m"
  by (simp add: delete_id)

lemma keys_delete: "map fst (AList.delete k m) = removeAll k (map fst m)"
  by (induction m) auto

subsection \<open>Runs of a step function and their invariants\<close>

text \<open>
  A component whose operations are steps on one state: a run folds the step function over a
  list of events. The contract of an invariant is a locale, interpreted by each component on
  its own initial state, step function and invariant; a latch is a condition no step leaves.
\<close>

primrec run :: "('s \<Rightarrow> 'e \<Rightarrow> 's) \<Rightarrow> 's \<Rightarrow> 'e list \<Rightarrow> 's" where
  "run step s [] = s"
| "run step s (e # es) = run step (step s e) es"

lemma run_append: "run step s (es @ fs) = run step (run step s es) fs"
  by (induction es arbitrary: s) auto

locale invariant_machine =
  fixes step :: "'s \<Rightarrow> 'e \<Rightarrow> 's" and inv :: "'s \<Rightarrow> bool"
  assumes step_inv: "inv s \<Longrightarrow> inv (step s e)"
begin

lemma run_inv: "inv s \<Longrightarrow> inv (run step s es)"
  by (induction es arbitrary: s) (auto intro: step_inv)

lemma prefix_inv: "inv s \<Longrightarrow> inv (run step s (take n es))"
  by (rule run_inv)

end

locale latched_machine = invariant_machine +
  fixes latched :: "'a \<Rightarrow> bool"
  assumes step_latched: "inv s \<Longrightarrow> latched s \<Longrightarrow> latched (step s e)"
begin

lemma run_latched: "inv s \<Longrightarrow> latched s \<Longrightarrow> latched (run step s es)"
  by (induction es arbitrary: s) (auto intro: step_inv step_latched)

end

text \<open>A quantity no step decreases, such as a sequence number or an epoch.\<close>

locale monotone_machine = invariant_machine +
  fixes quantity :: "'a \<Rightarrow> nat"
  assumes step_mono: "inv s \<Longrightarrow> quantity s \<le> quantity (step s e)"
begin

lemma run_mono: "inv s \<Longrightarrow> quantity s \<le> quantity (run step s es)"
proof (induction es arbitrary: s)
  case (Cons e es)
  then have "quantity s \<le> quantity (step s e)" "quantity (step s e) \<le> quantity (run step (step s e) es)"
    by (auto intro: step_mono step_inv)
  then show ?case by simp
qed simp

end

subsection \<open>Logs\<close>

text \<open>A property of every entry of a log and of what precedes it.\<close>

definition each_entry :: "('a list \<Rightarrow> 'a \<Rightarrow> bool) \<Rightarrow> 'a list \<Rightarrow> bool" where
  "each_entry P l \<longleftrightarrow> (\<forall>as x bs. l = as @ x # bs \<longrightarrow> P as x)"

lemma each_entry_Nil [simp]: "each_entry P []"
  by (simp add: each_entry_def)

lemma each_entry_snoc [simp]: "each_entry P (l @ [x]) \<longleftrightarrow> each_entry P l \<and> P l x"
proof
  assume a: "each_entry P (l @ [x])"
  then have "each_entry P l" unfolding each_entry_def by (metis append_Cons append_assoc)
  moreover have "P l x" using a unfolding each_entry_def by blast
  ultimately show "each_entry P l \<and> P l x" ..
next
  assume b: "each_entry P l \<and> P l x"
  show "each_entry P (l @ [x])"
    unfolding each_entry_def
  proof (intro allI impI)
    fix as y bs
    assume e: "l @ [x] = as @ y # bs"
    show "P as y"
    proof (cases bs rule: rev_exhaust)
      case Nil
      then show ?thesis using e b by simp
    next
      case (snoc cs z)
      then show ?thesis using e b unfolding each_entry_def by auto
    qed
  qed
qed

lemma each_entryD: "each_entry P (as @ x # bs) \<Longrightarrow> P as x"
  unfolding each_entry_def by blast

subsection \<open>Loops that poll\<close>

text \<open>A loop whose body ends it with a result or goes on from a new state; \<open>None\<close> when it never ends.\<close>

partial_function (option) poll_loop :: "('s \<Rightarrow> 'a + 's) \<Rightarrow> 's \<Rightarrow> 'a option" where
  "poll_loop f s = (case f s of Inl r \<Rightarrow> Some r | Inr s \<Rightarrow> poll_loop f s)"

lemma poll_loop_inv:
  assumes "poll_loop f s = Some r" and "I s"
    and "\<And>s s'. I s \<Longrightarrow> f s = Inr s' \<Longrightarrow> I s'" and "\<And>s r. I s \<Longrightarrow> f s = Inl r \<Longrightarrow> Q r"
  shows "Q r"
proof -
  have "(\<forall>s s'. I s \<longrightarrow> f s = Inr s' \<longrightarrow> I s') \<longrightarrow> (\<forall>s r. I s \<longrightarrow> f s = Inl r \<longrightarrow> Q r) \<longrightarrow> I s \<longrightarrow> Q r"
    by (rule poll_loop.raw_induct [where P = "\<lambda>f s r. (\<forall>s s'. I s \<longrightarrow> f s = Inr s' \<longrightarrow> I s')
        \<longrightarrow> (\<forall>s r. I s \<longrightarrow> f s = Inl r \<longrightarrow> Q r) \<longrightarrow> I s \<longrightarrow> Q r", OF _ assms(1)])
      (auto split: sum.splits)
  then show ?thesis using assms(2-4) by blast
qed

lemma poll_loop_returns:
  assumes "I s" and "\<And>s s'. I s \<Longrightarrow> f s = Inr s' \<Longrightarrow> I s' \<and> m s' < (m s :: nat)"
  shows "\<exists>r. poll_loop f s = Some r"
  using assms(1)
proof (induction "m s" arbitrary: s rule: less_induct)
  case less
  show ?case
  proof (cases "f s")
    case (Inl r)
    then show ?thesis by (subst poll_loop.simps) simp
  next
    case (Inr s')
    then show ?thesis using less assms(2) [OF less.prems Inr] by (subst poll_loop.simps) simp
  qed
qed

end
