(* ===== verification/Binary_Float.thy ===== *)
theory Binary_Float
  imports Prelude "HOL-Library.Log_Nat"
begin

text \<open>
  The C++ types \<open>double\<close> and \<open>float\<close> (IEEE 754 binary64 and binary32): a value is a finite
  rational, an infinity or NaN. The two signed zeros compare equal and the program never
  divides by zero or reads a sign bit, so they are one value. Comparisons are exact;
  arithmetic is the exact rational result rounded to nearest, ties to even, with overflow to
  an infinity.
\<close>

datatype dbl = Fin rat | PInf | NInf | NaN

definition isfinite :: "dbl \<Rightarrow> bool" where
  "isfinite x = (case x of Fin _ \<Rightarrow> True | _ \<Rightarrow> False)"

definition dval :: "dbl \<Rightarrow> rat" where
  "dval x = (case x of Fin q \<Rightarrow> q | _ \<Rightarrow> 0)"

subsection \<open>Comparisons, as the C++ operators\<close>

fun dlt :: "dbl \<Rightarrow> dbl \<Rightarrow> bool" where
  "dlt NaN _ = False"
| "dlt _ NaN = False"
| "dlt (Fin a) (Fin b) = (a < b)"
| "dlt NInf NInf = False"
| "dlt NInf _ = True"
| "dlt _ NInf = False"
| "dlt PInf _ = False"
| "dlt _ PInf = True"

fun deq :: "dbl \<Rightarrow> dbl \<Rightarrow> bool" where
  "deq (Fin a) (Fin b) = (a = b)"
| "deq PInf PInf = True"
| "deq NInf NInf = True"
| "deq _ _ = False"

definition dle :: "dbl \<Rightarrow> dbl \<Rightarrow> bool" where
  "dle a b \<longleftrightarrow> dlt a b \<or> deq a b"

fun dneg :: "dbl \<Rightarrow> dbl" where
  "dneg (Fin a) = Fin (- a)"
| "dneg PInf = NInf"
| "dneg NInf = PInf"
| "dneg NaN = NaN"

fun dabs :: "dbl \<Rightarrow> dbl" where
  "dabs (Fin a) = Fin \<bar>a\<bar>"
| "dabs PInf = PInf"
| "dabs NInf = PInf"
| "dabs NaN = NaN"

text \<open>\<open>std::max(a, b)\<close>, \<open>std::min(a, b)\<close> and \<open>std::clamp(v, lo, hi)\<close>, by their definitions.\<close>

definition dmax :: "dbl \<Rightarrow> dbl \<Rightarrow> dbl" where
  "dmax a b = (if dlt a b then b else a)"

definition dmin :: "dbl \<Rightarrow> dbl \<Rightarrow> dbl" where
  "dmin a b = (if dlt b a then b else a)"

definition dclamp :: "dbl \<Rightarrow> dbl \<Rightarrow> dbl \<Rightarrow> dbl" where
  "dclamp v lo hi = (if dlt v lo then lo else if dlt hi v then hi else v)"

lemma isfinite_simps [simp]:
  "isfinite (Fin q)" "\<not> isfinite PInf" "\<not> isfinite NInf" "\<not> isfinite NaN"
  by (simp_all add: isfinite_def)

lemma isfiniteE: "isfinite x \<Longrightarrow> (\<And>q. x = Fin q \<Longrightarrow> P) \<Longrightarrow> P"
  by (cases x) auto

lemma isfinite_iff: "isfinite x \<longleftrightarrow> (\<exists>q. x = Fin q)"
  by (cases x) auto

lemma dval_Fin [simp]: "dval (Fin q) = q"
  by (simp add: dval_def)

lemma dle_Fin [simp]: "dle (Fin a) (Fin b) \<longleftrightarrow> a \<le> b"
  by (auto simp: dle_def)

lemma dlt_NaN_right [simp]: "\<not> dlt x NaN"
  by (cases x) auto

lemma dle_NaN [simp]: "\<not> dle NaN x" "\<not> dle x NaN"
  by (cases x; simp add: dle_def)+

lemma dle_Inf [simp]:
  "dle (Fin a) PInf" "dle NInf (Fin a)" "dle NInf PInf" "dle PInf PInf" "dle NInf NInf"
  "\<not> dle PInf (Fin a)" "\<not> dle (Fin a) NInf" "\<not> dle PInf NInf"
  by (simp_all add: dle_def)

lemma dle_trans: "dle a b \<Longrightarrow> dle b c \<Longrightarrow> dle a c"
  by (cases a; cases b; cases c) (auto simp: dle_def)

lemma dle_refl_iff: "dle a a \<longleftrightarrow> a \<noteq> NaN"
  by (cases a) (auto simp: dle_def)

lemma dclamp_range:
  assumes "dle lo hi" and "v \<noteq> NaN"
  shows "dle lo (dclamp v lo hi)" and "dle (dclamp v lo hi) hi"
  using assms by (cases lo; cases hi; cases v; auto simp: dclamp_def dle_def)+

lemma dclamp_finite:
  "isfinite lo \<Longrightarrow> isfinite hi \<Longrightarrow> isfinite v \<Longrightarrow> isfinite (dclamp v lo hi)"
  by (auto simp: dclamp_def)

lemma dclamp_id: "dle lo v \<Longrightarrow> dle v hi \<Longrightarrow> dclamp v lo hi = v"
  by (cases lo; cases hi; cases v; auto simp: dclamp_def dle_def)

lemma dclamp_NaN [simp]: "dclamp NaN lo hi = NaN"
  by (simp add: dclamp_def)

lemma dmax_mono_left: "a \<noteq> NaN \<Longrightarrow> dle a (dmax a b)"
  by (cases a; cases b) (auto simp: dmax_def dle_def)

lemma dmax_NaN_right [simp]: "dmax a NaN = a"
  by (cases a) (auto simp: dmax_def)

lemma dmax_not_NaN: "a \<noteq> NaN \<Longrightarrow> dmax a b \<noteq> NaN"
  by (cases a; cases b) (auto simp: dmax_def)

lemma dmax_le: "dle a c \<Longrightarrow> dle b c \<or> b = NaN \<Longrightarrow> dle (dmax a b) c"
  by (auto simp: dmax_def)

subsection \<open>Rounding\<close>

definition rne :: "rat \<Rightarrow> int" where
  "rne q = (let f = \<lfloor>q\<rfloor>; r = q - of_int f in
     if r < 1 / 2 then f else if 1 / 2 < r then f + 1 else if even f then f else f + 1)"

text \<open>The exponent of the leading bit of a positive rational.\<close>

definition ilog2 :: "rat \<Rightarrow> int" where
  "ilog2 q = (let (a, b) = quotient_of q; k = bitlen a - bitlen b in
     if 2 powi k \<le> q then k else k - 1)"

definition fround :: "int \<Rightarrow> int \<Rightarrow> int \<Rightarrow> rat \<Rightarrow> dbl" where
  "fround p emin emax q =
     (if q = 0 then Fin 0
      else let e = max (ilog2 \<bar>q\<bar>) emin;
               u = 2 powi (e - (p - 1));
               r = of_int (rne (q / u)) * u
           in if 2 powi (emax + 1) \<le> \<bar>r\<bar> then (if 0 < r then PInf else NInf) else Fin r)"

definition round64 :: "rat \<Rightarrow> dbl" where
  "round64 = fround 53 (- 1022) 1023"

definition round32 :: "rat \<Rightarrow> dbl" where
  "round32 = fround 24 (- 126) 127"

lemma two_powi_bitlen:
  assumes "0 < a"
  shows "2 powi (bitlen a - 1) \<le> (of_int a :: rat)" and "(of_int a :: rat) < 2 powi bitlen a"
proof -
  have pos: "1 \<le> bitlen a"
    using assms bitlen_eq_zero_iff bitlen_nonneg by (metis int_one_le_iff_zero_less leD order_less_le)
  have *: "2 ^ nat (bitlen a - 1) \<le> a" "a < 2 ^ nat (bitlen a)"
    using bitlen_bounds [OF assms] by auto
  have "(2 powi (bitlen a - 1) :: rat) = of_int (2 ^ nat (bitlen a - 1))"
    using pos by (simp add: power_int_def)
  also have "\<dots> \<le> of_int a" using *(1) by (simp only: of_int_le_iff)
  finally show "2 powi (bitlen a - 1) \<le> (of_int a :: rat)" .
  have "(of_int a :: rat) < of_int (2 ^ nat (bitlen a))" using *(2) by (simp only: of_int_less_iff)
  also have "\<dots> = 2 powi bitlen a"
    using pos by (simp add: power_int_def)
  finally show "(of_int a :: rat) < 2 powi bitlen a" .
qed

lemma ilog2_bounds:
  assumes "0 < q"
  shows "2 powi ilog2 q \<le> q" and "q < 2 powi (ilog2 q + 1)"
proof -
  obtain a b where ab: "quotient_of q = (a, b)" by force
  then have b: "0 < b" and q: "q = of_int a / of_int b"
    by (auto simp: quotient_of_denom_pos quotient_of_div)
  with assms have a: "0 < a" by (simp add: zero_less_divide_iff)
  define k where "k = bitlen a - bitlen b"
  have split: "(2 powi (k - 1) :: rat) = 2 powi (bitlen a - 1) / 2 powi bitlen b"
    "(2 powi (k + 1) :: rat) = 2 powi bitlen a / 2 powi (bitlen b - 1)"
    by (simp_all add: k_def power_int_diff power_int_add field_simps)
  have lo: "2 powi (k - 1) \<le> q"
    unfolding q split
    using two_powi_bitlen [OF a] two_powi_bitlen [OF b] a b
    by (intro frac_le) auto
  have hi: "q < 2 powi (k + 1)"
    unfolding q split
    using two_powi_bitlen [OF a] two_powi_bitlen [OF b] a
    by (intro frac_less) auto
  have il: "ilog2 q = (if 2 powi k \<le> q then k else k - 1)"
    by (simp add: ilog2_def ab k_def)
  show "2 powi ilog2 q \<le> q" using lo il by auto
  show "q < 2 powi (ilog2 q + 1)" using hi il by auto
qed

lemma ilog2_unique:
  assumes "2 powi e \<le> q" and "q < 2 powi (e + 1)"
  shows "ilog2 q = e"
proof -
  have q: "0 < q" using assms(1) by (meson less_le_trans zero_less_numeral zero_less_power_int)
  have "(2 powi ilog2 q :: rat) < 2 powi (e + 1)" "(2 powi e :: rat) < 2 powi (ilog2 q + 1)"
    using ilog2_bounds [OF q] assms by (meson le_less_trans)+
  then have "ilog2 q < e + 1" "e < ilog2 q + 1"
    by (metis less_le_not_le linorder_not_less one_le_numeral power_int_increasing)+
  then show ?thesis by simp
qed

lemma rne_eqI: "\<bar>q - of_int n\<bar> < 1 / 2 \<Longrightarrow> rne q = n"
proof -
  assume *: "\<bar>q - of_int n\<bar> < 1 / 2"
  show "rne q = n"
  proof (cases "of_int n \<le> q")
    case True
    with * have f: "\<lfloor>q\<rfloor> = n" by (intro floor_unique) auto
    from True * show ?thesis by (simp add: rne_def f Let_def)
  next
    case False
    with * have f: "\<lfloor>q\<rfloor> = n - 1" by (intro floor_unique) auto
    from False * show ?thesis by (simp add: rne_def f Let_def)
  qed
qed

lemma fround_eqI:
  assumes "ilog2 \<bar>q\<bar> = e" and "emin \<le> e" and "2 powi (e - (p - 1)) = u" and "q \<noteq> 0"
    and "\<bar>q / u - of_int n\<bar> < 1 / 2" and "\<bar>of_int n * u\<bar> < 2 powi (emax + 1)"
  shows "fround p emin emax q = Fin (of_int n * u)"
  using assms rne_eqI [OF assms(5)] by (simp add: fround_def Let_def max_def)

text \<open>The literals \<open>0.20\<close>, \<open>0.40\<close> and \<open>1.20\<close> of the program, as their binary64 values.\<close>

definition dbl_0_20 :: dbl where
  "dbl_0_20 = Fin (3602879701896397 / 18014398509481984)"

definition dbl_0_40 :: dbl where
  "dbl_0_40 = Fin (3602879701896397 / 9007199254740992)"

definition dbl_1_20 :: dbl where
  "dbl_1_20 = Fin (5404319552844595 / 4503599627370496)"

lemmas dbl_literal_defs = dbl_0_20_def dbl_0_40_def dbl_1_20_def

lemma round64_literals:
  "round64 (1 / 5) = dbl_0_20"
  "round64 (2 / 5) = dbl_0_40"
  "round64 (6 / 5) = dbl_1_20"
proof -
  have e: "ilog2 (1 / 5) = - 3" "ilog2 (2 / 5) = - 2" "ilog2 (6 / 5) = 0"
    by (rule ilog2_unique; simp add: power_int_def power_one_over)+
  have "fround 53 (- 1022) 1023 (1 / 5)
      = Fin (of_int 7205759403792794 * (1 / 36028797018963968))"
    by (rule fround_eqI [where e = "- 3"]) (simp_all add: e power_int_def power_one_over)
  then show "round64 (1 / 5) = dbl_0_20"
    by (simp add: round64_def dbl_0_20_def)
  have "fround 53 (- 1022) 1023 (2 / 5)
      = Fin (of_int 7205759403792794 * (1 / 18014398509481984))"
    by (rule fround_eqI [where e = "- 2"]) (simp_all add: e power_int_def power_one_over)
  then show "round64 (2 / 5) = dbl_0_40"
    by (simp add: round64_def dbl_0_40_def)
  have "fround 53 (- 1022) 1023 (6 / 5)
      = Fin (of_int 5404319552844595 * (1 / 4503599627370496))"
    by (rule fround_eqI [where e = 0]) (simp_all add: e power_int_def power_one_over)
  then show "round64 (6 / 5) = dbl_1_20"
    by (simp add: round64_def dbl_1_20_def)
qed

end
