(* ===== verification/Motion_Gate.thy ===== *)
theory Motion_Gate
  imports Binary_Float
begin

unbundle bit_operations_syntax

text \<open>
  The final velocity authority, \<open>MotionGateCore\<close> (motion_gate_core.hpp, motion_gate_core.cpp):
  a lease is prepared, opened by binding one writer, renewed and inhibited through requests
  that carry a compare-and-swap sequence number, candidates are clamped and kept fresh for a
  bounded time, and a tick selects the command that reaches the wheels. Every operation takes
  the gate and returns its result with the new gate.
\<close>

subsection \<open>Data\<close>

datatype gate_state = Inhibited | Prepared | Armed | Faulted

text \<open>A request carries the operation as a byte; the values outside the enumeration are \<open>OpOther\<close>.\<close>

datatype operation = OpPrepare | OpOpen | OpRenew | OpInhibit | OpOther u8

datatype result_code = CodeApplied | CodeDuplicate | CodeRejected | CodeFaulted

datatype reason =
    NoReason | InvalidRequest | StaleGate | StaleSequence | InvalidState | StaleLease
  | RequestIdCollision | PrepareExpired | AuthorityExpired | CandidateExpired
  | WriterUnavailable | WriterAmbiguous | WriterMismatch | WriterStillPresent
  | InvalidCandidate | SequenceExhausted | ConfigurationInvalid | PublishFailed
  | InternalFailure | WriterMetadataPending

text \<open>A writer GID is an array of 16 bytes.\<close>

type_synonym writer_gid = "u8 list"

definition zero_gid :: writer_gid where
  "zero_gid = replicate 16 0"

record gate_config =
  authority_lease :: int
  candidate_freshness :: int
  prepare_timeout :: int
  linear_x_min :: dbl
  linear_x_max :: dbl
  angular_z_min :: dbl
  angular_z_max :: dbl
  request_cache_size :: nat

definition default_gate_config :: gate_config where
  "default_gate_config = \<lparr>authority_lease = 250, candidate_freshness = 150, prepare_timeout = 1000,
     linear_x_min = dneg dbl_0_20, linear_x_max = dbl_0_40,
     angular_z_min = dneg dbl_1_20, angular_z_max = dbl_1_20,
     request_cache_size = 64\<rparr>"

record control_request =
  rq_operation :: operation
  rq_id :: string
  rq_gate :: string
  rq_expected_seq :: u64
  rq_lease :: string

record control_result =
  rs_code :: result_code
  rs_reason :: reason
  rs_gate :: string
  rs_seq :: u64
  rs_state :: gate_state
  rs_lease :: string
  rs_topic :: string
  rs_gid :: writer_gid
  rs_motion_inhibited :: bool
  rs_authority_live :: bool
  rs_candidate_fresh :: bool
  rs_writer_bound :: bool
  rs_zero_selected :: bool
  rs_detail :: string

record open_binding =
  ob_ready :: bool
  ob_reason :: reason
  ob_gid :: writer_gid
  ob_detail :: string

record prepare_admission =
  pa_allowed :: bool
  pa_reason :: reason
  pa_detail :: string

record candidate =
  cd_lease :: string
  cd_gid :: writer_gid
  cd_intra_process :: bool
  cd_linear_x :: dbl
  cd_linear_y :: dbl
  cd_linear_z :: dbl
  cd_angular_x :: dbl
  cd_angular_y :: dbl
  cd_angular_z :: dbl

record command =
  linear_x :: dbl
  angular_z :: dbl

definition is_zero :: "command \<Rightarrow> bool" where
  "is_zero c \<longleftrightarrow> deq (linear_x c) (Fin 0) \<and> deq (angular_z c) (Fin 0)"

definition zero_command :: command where
  "zero_command = \<lparr>linear_x = Fin 0, angular_z = Fin 0\<rparr>"

record candidate_result =
  cr_accepted :: bool
  cr_retired :: bool
  cr_reason :: reason
  cr_selected :: command

record gate_snapshot =
  sn_gate :: string
  sn_state_seq :: u64
  sn_seq :: u64
  sn_state :: gate_state
  sn_lease :: string
  sn_topic :: string
  sn_gid :: writer_gid
  sn_motion_inhibited :: bool
  sn_authority_live :: bool
  sn_candidate_fresh :: bool
  sn_writer_bound :: bool
  sn_zero_selected :: bool
  sn_reason :: reason
  sn_detail :: string

record cached_request =
  ca_fingerprint :: string
  ca_result :: control_result
  ca_replayable :: bool

record gate =
  g_config :: gate_config
  g_id :: string
  g_state :: gate_state
  g_state_seq :: u64
  g_seq :: u64
  g_lease :: string
  g_topic :: string
  g_gid :: writer_gid
  g_writer_bound :: bool
  g_candidate_seen :: bool
  g_candidate_fresh :: bool
  g_selected :: command
  g_reason :: reason
  g_detail :: string
  g_prepare_deadline :: time
  g_authority_deadline :: time
  g_candidate_deadline :: time
  g_cache :: "(string \<times> cached_request) list"
  g_order :: "string list"

subsection \<open>Predicates and identifiers\<close>

definition valid_identifier :: "string \<Rightarrow> bool" where
  "valid_identifier v \<longleftrightarrow> length v = 32 \<and> list_all is_hex v"

definition gid_is_nonzero :: "writer_gid \<Rightarrow> bool" where
  "gid_is_nonzero gid \<longleftrightarrow> list_ex (\<lambda>b. b \<noteq> 0) gid"

definition config_is_valid :: "gate_config \<Rightarrow> bool" where
  "config_is_valid c \<longleftrightarrow>
     (0 < authority_lease c \<and> 0 < candidate_freshness c \<and> 0 < prepare_timeout c \<and>
      candidate_freshness c < authority_lease c \<and> authority_lease c < 350 \<and>
      prepare_timeout c \<le> 10000) \<and>
     (isfinite (linear_x_min c) \<and> isfinite (linear_x_max c) \<and>
      isfinite (angular_z_min c) \<and> isfinite (angular_z_max c)) \<and>
     (dle (dneg dbl_0_20) (linear_x_min c) \<and> dle (linear_x_min c) (Fin 0) \<and>
      dle (Fin 0) (linear_x_max c) \<and> dle (linear_x_max c) (dbl_0_40) \<and>
      dle (linear_x_min c) (linear_x_max c) \<and>
      dle (dneg dbl_1_20) (angular_z_min c) \<and> dle (angular_z_min c) (Fin 0) \<and>
      dle (Fin 0) (angular_z_max c) \<and> dle (angular_z_max c) dbl_1_20 \<and>
      dle (angular_z_min c) (angular_z_max c)) \<and>
     0 < request_cache_size c \<and> request_cache_size c \<le> 1024"

definition logical_request_fingerprint :: "control_request \<Rightarrow> string" where
  "logical_request_fingerprint rq = to_decimal (case rq_operation rq of
     OpPrepare \<Rightarrow> 1 | OpOpen \<Rightarrow> 2 | OpRenew \<Rightarrow> 3 | OpInhibit \<Rightarrow> 4
   | OpOther b \<Rightarrow> unat b)"

text \<open>
  \<open>make_lease_id\<close>: the upper sixteen digits of the gate identifier, then its lower sixteen
  digits, read as a 64-bit number and combined with the sequence number by XOR.
\<close>

definition lower_half :: "string \<Rightarrow> u64" where
  "lower_half gid = foldl (\<lambda>acc c. push_bit 4 acc OR of_nat (hex_value c)) 0 (drop 16 gid)"

definition make_lease_id :: "string \<Rightarrow> u64 \<Rightarrow> string" where
  "make_lease_id gid seq = take 16 gid @ hex_digits 16 (unat (lower_half gid XOR seq))"

definition make_candidate_topic :: "string \<Rightarrow> string" where
  "make_candidate_topic lease = ''/voice_nav_internal/motion_gate/candidate/lease_'' @ lease"

subsection \<open>Sequence numbers, faults and lease retirement\<close>

definition advance_state_seq :: "gate \<Rightarrow> gate" where
  "advance_state_seq g =
     (if g_state_seq g \<noteq> u64_max then g\<lparr>g_state_seq := g_state_seq g + 1\<rparr> else g)"

definition clear_lease :: "gate \<Rightarrow> gate" where
  "clear_lease g = g\<lparr>g_lease := [], g_topic := [], g_gid := zero_gid, g_writer_bound := False,
     g_candidate_seen := False, g_candidate_fresh := False, g_selected := zero_command\<rparr>"

definition clear_deadlines :: "gate \<Rightarrow> gate" where
  "clear_deadlines g =
     g\<lparr>g_prepare_deadline := 0, g_authority_deadline := 0, g_candidate_deadline := 0\<rparr>"

definition advance_control_seq :: "gate \<Rightarrow> bool \<times> gate" where
  "advance_control_seq g =
     (if g_seq g = u64_max
      then (False, advance_state_seq
        ((clear_lease g)\<lparr>g_state := Faulted, g_reason := SequenceExhausted,
           g_detail := ''control sequence exhausted''\<rparr>))
      else (True, g\<lparr>g_seq := g_seq g + 1\<rparr>))"

definition retire_lease :: "reason \<Rightarrow> string \<Rightarrow> gate \<Rightarrow> gate" where
  "retire_lease r d g =
     (if g_state g = Faulted then g\<lparr>g_selected := zero_command\<rparr>
      else if g_state g \<noteq> Prepared \<and> g_state g \<noteq> Armed then g\<lparr>g_selected := zero_command\<rparr>
      else case advance_control_seq g of
        (False, g) \<Rightarrow> g
      | (True, g) \<Rightarrow> advance_state_seq (clear_deadlines ((clear_lease g)\<lparr>g_state := Inhibited,
            g_reason := r, g_detail := bounded_detail (if d = [] then ''lease retired'' else d)\<rparr>)))"

definition force_fault :: "reason \<Rightarrow> string \<Rightarrow> gate \<Rightarrow> gate" where
  "force_fault r d g =
     (if g_state g = Faulted then g
      else let (r, d, g) =
          (if g_seq g = u64_max
           then (SequenceExhausted, ''control sequence exhausted while entering fault'', g)
           else (r, d, g\<lparr>g_seq := g_seq g + 1\<rparr>))
        in advance_state_seq (clear_deadlines ((clear_lease g)\<lparr>g_state := Faulted,
             g_reason := (if r = NoReason then InternalFailure else r),
             g_detail := bounded_detail (if d = [] then ''MotionGate faulted'' else d)\<rparr>)))"

definition reconcile_deadlines :: "time \<Rightarrow> gate \<Rightarrow> gate" where
  "reconcile_deadlines now g =
     (if g_state g = Prepared \<and> g_prepare_deadline g \<le> now
      then retire_lease PrepareExpired ''prepared lease expired'' g
      else if g_state g = Armed \<and> g_authority_deadline g \<le> now
      then retire_lease AuthorityExpired ''authority lease expired'' g
      else if g_state g = Armed \<and> g_candidate_seen g \<and> g_candidate_deadline g \<le> now
      then retire_lease CandidateExpired ''candidate freshness expired'' g
      else g)"

subsection \<open>Snapshots, the replay cache and rejections\<close>

definition snapshot :: "gate \<Rightarrow> gate_snapshot" where
  "snapshot g = (let armed = (g_state g = Armed) in
     \<lparr>sn_gate = g_id g, sn_state_seq = g_state_seq g, sn_seq = g_seq g, sn_state = g_state g,
      sn_lease = g_lease g, sn_topic = g_topic g, sn_gid = g_gid g,
      sn_motion_inhibited = (\<not> armed), sn_authority_live = armed,
      sn_candidate_fresh = (armed \<and> g_candidate_fresh g),
      sn_writer_bound = (armed \<and> g_writer_bound g),
      sn_zero_selected = (\<not> armed \<or> \<not> g_candidate_fresh g \<or> is_zero (g_selected g)),
      sn_reason = g_reason g, sn_detail = g_detail g\<rparr>)"

definition result_from_snapshot :: "result_code \<Rightarrow> reason \<Rightarrow> string \<Rightarrow> gate \<Rightarrow> control_result" where
  "result_from_snapshot code r d g = (let s = snapshot g in
     \<lparr>rs_code = code, rs_reason = r, rs_gate = sn_gate s, rs_seq = sn_seq s,
      rs_state = sn_state s, rs_lease = sn_lease s, rs_topic = sn_topic s, rs_gid = sn_gid s,
      rs_motion_inhibited = sn_motion_inhibited s, rs_authority_live = sn_authority_live s,
      rs_candidate_fresh = sn_candidate_fresh s, rs_writer_bound = sn_writer_bound s,
      rs_zero_selected = sn_zero_selected s, rs_detail = bounded_detail d\<rparr>)"

definition replay_or_collision :: "control_request \<Rightarrow> gate \<Rightarrow> control_result option" where
  "replay_or_collision rq g =
     (if \<not> valid_identifier (rq_id rq) then None
      else case map_of (g_cache g) (rq_id rq) of
        None \<Rightarrow> None
      | Some c \<Rightarrow>
          if ca_fingerprint c \<noteq> logical_request_fingerprint rq
          then Some (result_from_snapshot CodeRejected RequestIdCollision
            ''request_id was reused with a different request body'' g)
          else if \<not> ca_replayable c then None
          else if g_state g = Faulted
          then Some (result_from_snapshot CodeFaulted (g_reason g) (g_detail g) g)
          else Some (result_from_snapshot CodeDuplicate (rs_reason (ca_result c))
            (rs_detail (ca_result c)) g))"

text \<open>
  The eviction loop of \<open>remember\<close>: while the cache is full its oldest request goes. The empty
  order with a full cache, which \<open>front()\<close> does not allow, is excluded by the invariant.
\<close>

fun evict_oldest :: "nat \<Rightarrow> (string \<times> cached_request) list \<Rightarrow> string list \<Rightarrow>
    (string \<times> cached_request) list \<times> string list" where
  "evict_oldest n cache [] = (cache, [])"
| "evict_oldest n cache (oldest # order) =
     (if n \<le> length cache then evict_oldest n (AList.delete oldest cache) order
      else (cache, oldest # order))"

definition remember :: "control_request \<Rightarrow> control_result \<Rightarrow> bool \<Rightarrow> gate \<Rightarrow> gate" where
  "remember rq res replayable g =
     (if \<not> valid_identifier (rq_id rq) \<or> request_cache_size (g_config g) = 0 then g
      else let fp = logical_request_fingerprint rq in
      case map_of (g_cache g) (rq_id rq) of
        Some c \<Rightarrow>
          if ca_fingerprint c = fp
          then g\<lparr>g_cache := AList.update (rq_id rq)
                 (c\<lparr>ca_result := res, ca_replayable := replayable\<rparr>) (g_cache g)\<rparr>
          else g
      | None \<Rightarrow>
          let (cache, order) = evict_oldest (request_cache_size (g_config g)) (g_cache g) (g_order g)
          in g\<lparr>g_order := order @ [rq_id rq],
               g_cache := (rq_id rq, \<lparr>ca_fingerprint = fp, ca_result = res,
                 ca_replayable = replayable\<rparr>) # cache\<rparr>)"

definition reject :: "control_request \<Rightarrow> reason \<Rightarrow> string \<Rightarrow> bool \<Rightarrow> gate \<Rightarrow> control_result \<times> gate" where
  "reject rq r d cache g =
     (let faulted = (g_state g = Faulted);
          res = result_from_snapshot (if faulted then CodeFaulted else CodeRejected)
            (if faulted then g_reason g else r) (if faulted then g_detail g else d) g;
          stale = (r = StaleGate \<or> r = StaleSequence \<or> r = StaleLease)
      in (res, if cache \<or> stale then remember rq res (\<not> stale) g else g))"

definition applied :: "control_request \<Rightarrow> gate \<Rightarrow> control_result" where
  "applied rq g = result_from_snapshot CodeApplied NoReason (g_detail g) g"

text \<open>The answer to a request is remembered with the request that caused it.\<close>

definition answer :: "control_request \<Rightarrow> control_result \<Rightarrow> gate \<Rightarrow> control_result \<times> gate" where
  "answer rq res g = (res, remember rq res True g)"

text \<open>\<open>validate_common\<close>: the rejection if the request is refused, and the gate.\<close>

definition validate_common ::
  "control_request \<Rightarrow> operation \<Rightarrow> bool \<Rightarrow> gate \<Rightarrow> control_result option \<times> gate" where
  "validate_common rq expected lease_required g =
     (if \<not> valid_identifier (rq_id rq)
      then apfst Some (reject rq InvalidRequest
        ''request_id must be exactly 32 lowercase hexadecimal characters'' False g)
      else if rq_operation rq \<noteq> expected
      then apfst Some (reject rq InvalidRequest
        ''operation does not match the selected control method'' True g)
      else if \<not> valid_identifier (rq_gate rq)
      then apfst Some (reject rq InvalidRequest
        ''gate_instance_id must be exactly 32 lowercase hexadecimal characters'' True g)
      else if rq_gate rq \<noteq> g_id g
      then apfst Some (reject rq StaleGate ''request targets a different Gate instance'' False g)
      else if g_state g = Faulted
      then apfst Some (reject rq (g_reason g) (g_detail g) True g)
      else if lease_required \<and> \<not> valid_identifier (rq_lease rq)
      then apfst Some (reject rq InvalidRequest
        ''lease_id must be exactly 32 lowercase hexadecimal characters'' True g)
      else if \<not> lease_required \<and> rq_lease rq \<noteq> []
      then apfst Some (reject rq InvalidRequest
        ''this operation must not carry a lease_id'' True g)
      else if rq_expected_seq rq \<noteq> g_seq g
      then apfst Some (reject rq StaleSequence
        ''expected_control_seq does not match the Gate control sequence'' False g)
      else (None, g))"

subsection \<open>Operations\<close>

text \<open>The constructor: an invalid configuration or identifier starts the gate faulted.\<close>

definition gate_init :: "gate_config \<Rightarrow> string \<Rightarrow> u64 \<Rightarrow> gate" where
  "gate_init cfg gid seq =
     (let g = \<lparr>g_config = cfg, g_id = gid, g_state = Inhibited, g_state_seq = 0, g_seq = seq,
        g_lease = [], g_topic = [], g_gid = zero_gid, g_writer_bound = False,
        g_candidate_seen = False, g_candidate_fresh = False, g_selected = zero_command,
        g_reason = NoReason, g_detail = ''motion inhibited'', g_prepare_deadline = 0,
        g_authority_deadline = 0, g_candidate_deadline = 0, g_cache = [], g_order = []\<rparr>
      in if \<not> config_is_valid cfg \<or> \<not> valid_identifier gid
         then advance_state_seq (g\<lparr>g_state := Faulted, g_reason := ConfigurationInvalid,
           g_detail := ''invalid MotionGate configuration or Gate instance identifier''\<rparr>)
         else g)"

text \<open>A provider that threw faults the gate and the fault is the remembered answer.\<close>

definition fault_answer :: "control_request \<Rightarrow> reason \<Rightarrow> string \<Rightarrow> gate \<Rightarrow> control_result \<times> gate" where
  "fault_answer rq r d g =
     (let g = force_fault r d g
      in answer rq (result_from_snapshot CodeFaulted (g_reason g) (g_detail g) g) g)"

definition prepare_lease :: "control_request \<Rightarrow> time \<Rightarrow> gate \<Rightarrow> control_result \<times> gate" where
  "prepare_lease rq now g =
     (case advance_control_seq g of
        (False, g) \<Rightarrow> answer rq (result_from_snapshot CodeFaulted SequenceExhausted
          ''control sequence exhausted while preparing'' g) g
      | (True, g) \<Rightarrow>
        let lease = make_lease_id (g_id g) (g_seq g);
            g = advance_state_seq (g\<lparr>g_lease := lease, g_topic := make_candidate_topic lease,
              g_gid := zero_gid, g_writer_bound := False, g_candidate_seen := False,
              g_candidate_fresh := False, g_selected := zero_command,
              g_prepare_deadline := now + ms (prepare_timeout (g_config g)),
              g_authority_deadline := 0, g_candidate_deadline := 0, g_state := Prepared,
              g_reason := NoReason, g_detail := ''lease prepared''\<rparr>)
        in answer rq (applied rq g) g)"

definition gate_prepare ::
  "control_request \<Rightarrow> time \<Rightarrow> prepare_admission outcome option \<Rightarrow> gate \<Rightarrow> control_result \<times> gate" where
  "gate_prepare rq now provider g =
     (let g = reconcile_deadlines now g in
      case replay_or_collision rq g of
        Some res \<Rightarrow> (res, g)
      | None \<Rightarrow>
      case validate_common rq OpPrepare False g of
        (Some rejection, g) \<Rightarrow> (rejection, g)
      | (None, g) \<Rightarrow>
      if g_state g \<noteq> Inhibited
      then reject rq InvalidState ''PREPARE requires the inhibited state'' True g
      else if rq_expected_seq rq \<noteq> g_seq g
      then reject rq StaleSequence ''PREPARE expected_control_seq is stale'' False g
      else case provider of
        None \<Rightarrow> prepare_lease rq now g
      | Some (Threw what) \<Rightarrow> fault_answer rq InternalFailure
          (''prepare admission provider failed: '' @ what) g
      | Some ThrewUnknown \<Rightarrow> fault_answer rq InternalFailure
          ''prepare admission provider failed with an unknown exception'' g
      | Some (Returned admission) \<Rightarrow>
          if \<not> pa_allowed admission
          then reject rq
            (if pa_reason admission = WriterStillPresent then pa_reason admission
             else InternalFailure)
            (if pa_detail admission = [] then ''PREPARE admission was rejected''
             else pa_detail admission) True g
          else prepare_lease rq now g)"

definition open_lease :: "control_request \<Rightarrow> time \<Rightarrow> writer_gid \<Rightarrow> gate \<Rightarrow> control_result \<times> gate" where
  "open_lease rq now gid g =
     (case advance_control_seq g of
        (False, g) \<Rightarrow> answer rq (result_from_snapshot CodeFaulted SequenceExhausted
          ''control sequence exhausted while opening'' g) g
      | (True, g) \<Rightarrow>
        let g = advance_state_seq (g\<lparr>g_gid := gid, g_writer_bound := True, g_state := Armed,
              g_authority_deadline := now + ms (authority_lease (g_config g)),
              g_candidate_deadline := 0, g_candidate_seen := False, g_candidate_fresh := False,
              g_selected := zero_command, g_reason := NoReason,
              g_detail := ''lease armed; awaiting a fresh candidate''\<rparr>)
        in answer rq (applied rq g) g)"

definition binding_reason :: "reason \<Rightarrow> reason" where
  "binding_reason r =
     (if r \<noteq> WriterUnavailable \<and> r \<noteq> WriterAmbiguous \<and> r \<noteq> WriterMismatch \<and>
         r \<noteq> WriterStillPresent \<and> r \<noteq> WriterMetadataPending
      then WriterUnavailable else r)"

definition gate_open ::
  "control_request \<Rightarrow> time \<Rightarrow> open_binding outcome option \<Rightarrow> gate \<Rightarrow> control_result \<times> gate" where
  "gate_open rq now provider g =
     (let g = reconcile_deadlines now g in
      case replay_or_collision rq g of
        Some res \<Rightarrow> (res, g)
      | None \<Rightarrow>
      case validate_common rq OpOpen True g of
        (Some rejection, g) \<Rightarrow> (rejection, g)
      | (None, g) \<Rightarrow>
      if g_state g \<noteq> Prepared
      then reject rq InvalidState ''OPEN requires the prepared state'' True g
      else if rq_expected_seq rq \<noteq> g_seq g
      then reject rq StaleSequence ''OPEN expected_control_seq is stale'' False g
      else if rq_lease rq \<noteq> g_lease g
      then reject rq StaleLease ''OPEN lease_id is not the current prepared lease'' False g
      else if g_prepare_deadline g \<le> now
      then reject rq PrepareExpired ''OPEN reached the prepare deadline'' True
        (retire_lease PrepareExpired ''prepared lease expired'' g)
      else case provider of
        None \<Rightarrow> reject rq WriterUnavailable
          ''OPEN has no Gate-local writer binding provider'' True g
      | Some (Threw what) \<Rightarrow> fault_answer rq InternalFailure
          (''writer binding provider failed: '' @ what) g
      | Some ThrewUnknown \<Rightarrow> fault_answer rq InternalFailure
          ''writer binding provider failed with an unknown exception'' g
      | Some (Returned binding) \<Rightarrow>
          if \<not> ob_ready binding
          then reject rq (binding_reason (ob_reason binding))
            (if ob_detail binding = [] then ''candidate writer is not ready''
             else ob_detail binding) True g
          else if ob_reason binding \<noteq> NoReason
          then fault_answer rq InternalFailure
            ''writer binding provider returned ready with a non-NONE reason'' g
          else if \<not> gid_is_nonzero (ob_gid binding)
          then reject rq WriterUnavailable ''candidate writer has an all-zero GID'' True g
          else open_lease rq now (ob_gid binding) g)"

definition start_armed_window :: "time \<Rightarrow> gate \<Rightarrow> gate" where
  "start_armed_window now g =
     (if g_state g \<noteq> Armed then g
      else advance_state_seq (g\<lparr>g_authority_deadline := now + ms (authority_lease (g_config g)),
        g_candidate_deadline := 0, g_candidate_seen := False, g_candidate_fresh := False,
        g_selected := zero_command, g_reason := NoReason,
        g_detail := ''lease armed; awaiting a fresh candidate''\<rparr>))"

definition gate_renew :: "control_request \<Rightarrow> time \<Rightarrow> gate \<Rightarrow> control_result \<times> gate" where
  "gate_renew rq now g =
     (let g = reconcile_deadlines now g in
      case replay_or_collision rq g of
        Some res \<Rightarrow> (res, g)
      | None \<Rightarrow>
      case validate_common rq OpRenew True g of
        (Some rejection, g) \<Rightarrow> (rejection, g)
      | (None, g) \<Rightarrow>
      if g_state g \<noteq> Armed
      then reject rq InvalidState ''RENEW requires the armed state'' True g
      else if rq_expected_seq rq \<noteq> g_seq g
      then reject rq StaleSequence ''RENEW expected_control_seq is stale'' False g
      else if rq_lease rq \<noteq> g_lease g
      then reject rq StaleLease ''RENEW lease_id is not the current armed lease'' False g
      else if g_authority_deadline g \<le> now
      then reject rq AuthorityExpired ''RENEW reached the authority deadline'' True
        (retire_lease AuthorityExpired ''authority lease expired'' g)
      else case advance_control_seq g of
        (False, g) \<Rightarrow> answer rq (result_from_snapshot CodeFaulted SequenceExhausted
          ''control sequence exhausted while renewing'' g) g
      | (True, g) \<Rightarrow>
        let g = advance_state_seq (g\<lparr>
              g_authority_deadline := now + ms (authority_lease (g_config g)),
              g_reason := NoReason, g_detail := ''authority renewed''\<rparr>)
        in answer rq (applied rq g) g)"

definition gate_inhibit :: "control_request \<Rightarrow> time \<Rightarrow> gate \<Rightarrow> control_result \<times> gate" where
  "gate_inhibit rq now g =
     (let g = reconcile_deadlines now g in
      case replay_or_collision rq g of
        Some res \<Rightarrow> (res, g)
      | None \<Rightarrow>
      case validate_common rq OpInhibit (g_state g \<noteq> Inhibited) g of
        (Some rejection, g) \<Rightarrow> (rejection, g)
      | (None, g) \<Rightarrow>
      if g_state g = Inhibited
      then (case advance_control_seq g of
          (False, g) \<Rightarrow> answer rq (result_from_snapshot CodeFaulted SequenceExhausted
            ''control sequence exhausted while inhibiting'' g) g
        | (True, g) \<Rightarrow>
          let g = advance_state_seq (g\<lparr>g_reason := NoReason, g_detail := ''inhibit reasserted''\<rparr>)
          in answer rq (applied rq g) g)
      else if g_state g \<noteq> Prepared \<and> g_state g \<noteq> Armed
      then reject rq InvalidState ''INHIBIT requires the current prepared or armed lease'' True g
      else if rq_expected_seq rq \<noteq> g_seq g
      then reject rq StaleSequence ''INHIBIT expected_control_seq is stale'' False g
      else if rq_lease rq \<noteq> g_lease g
      then reject rq StaleLease ''INHIBIT lease_id is not the current lease'' False g
      else let g = retire_lease NoReason ''lease inhibited'' g
           in answer rq (applied rq g) g)"

definition candidate_refused :: "bool \<Rightarrow> reason \<Rightarrow> candidate_result" where
  "candidate_refused retired r =
     \<lparr>cr_accepted = False, cr_retired = retired, cr_reason = r, cr_selected = zero_command\<rparr>"

definition candidate_finite :: "candidate \<Rightarrow> bool" where
  "candidate_finite c \<longleftrightarrow> isfinite (cd_linear_x c) \<and> isfinite (cd_linear_y c) \<and>
     isfinite (cd_linear_z c) \<and> isfinite (cd_angular_x c) \<and> isfinite (cd_angular_y c) \<and>
     isfinite (cd_angular_z c)"

definition unsupported_axes_zero :: "candidate \<Rightarrow> bool" where
  "unsupported_axes_zero c \<longleftrightarrow> deq (cd_linear_y c) (Fin 0) \<and> deq (cd_linear_z c) (Fin 0) \<and>
     deq (cd_angular_x c) (Fin 0) \<and> deq (cd_angular_y c) (Fin 0)"

definition clamp_candidate :: "gate_config \<Rightarrow> candidate \<Rightarrow> command" where
  "clamp_candidate cfg c =
     \<lparr>linear_x = dclamp (cd_linear_x c) (linear_x_min cfg) (linear_x_max cfg),
      angular_z = dclamp (cd_angular_z c) (angular_z_min cfg) (angular_z_max cfg)\<rparr>"

definition accept_candidate :: "candidate \<Rightarrow> time \<Rightarrow> gate \<Rightarrow> candidate_result \<times> gate" where
  "accept_candidate c now g =
     (let g = reconcile_deadlines now g in
      if \<not> valid_identifier (cd_lease c) then (candidate_refused False InvalidCandidate, g)
      else if g_state g \<noteq> Armed \<or> cd_lease c \<noteq> g_lease g
      then (candidate_refused False StaleLease, g)
      else if cd_intra_process c \<or> \<not> gid_is_nonzero (cd_gid c) \<or> cd_gid c \<noteq> g_gid g
      then (candidate_refused True WriterMismatch, retire_lease WriterMismatch
        ''current candidate did not match the bound inter-process writer'' g)
      else if \<not> candidate_finite c \<or> \<not> unsupported_axes_zero c
      then (candidate_refused True InvalidCandidate, retire_lease InvalidCandidate
        ''current candidate contained a non-finite or unsupported axis'' g)
      else let g = advance_state_seq (g\<lparr>g_selected := clamp_candidate (g_config g) c,
             g_candidate_deadline := now + ms (candidate_freshness (g_config g)),
             g_candidate_seen := True, g_candidate_fresh := True, g_reason := NoReason,
             g_detail := ''fresh candidate selected''\<rparr>)
           in (\<lparr>cr_accepted = True, cr_retired = False, cr_reason = NoReason,
                cr_selected = g_selected g\<rparr>, g))"

definition selected_command :: "gate \<Rightarrow> command" where
  "selected_command g =
     (if g_state g \<noteq> Armed \<or> \<not> g_candidate_fresh g then zero_command else g_selected g)"

definition gate_tick :: "time \<Rightarrow> gate \<Rightarrow> command \<times> gate" where
  "gate_tick now g = (let g = reconcile_deadlines now g in
     (if g_state g \<noteq> Armed \<or> \<not> g_candidate_fresh g then zero_command else g_selected g, g))"

subsection \<open>The gate as a machine\<close>

datatype gate_event =
    EvPrepare control_request time "prepare_admission outcome option"
  | EvOpen control_request time "open_binding outcome option"
  | EvStartWindow time
  | EvRenew control_request time
  | EvInhibit control_request time
  | EvCandidate candidate time
  | EvTick time
  | EvForceFault reason string

fun gate_step :: "gate \<Rightarrow> gate_event \<Rightarrow> gate" where
  "gate_step g (EvPrepare rq now p) = snd (gate_prepare rq now p g)"
| "gate_step g (EvOpen rq now p) = snd (gate_open rq now p g)"
| "gate_step g (EvStartWindow now) = start_armed_window now g"
| "gate_step g (EvRenew rq now) = snd (gate_renew rq now g)"
| "gate_step g (EvInhibit rq now) = snd (gate_inhibit rq now g)"
| "gate_step g (EvCandidate c now) = snd (accept_candidate c now g)"
| "gate_step g (EvTick now) = snd (gate_tick now g)"
| "gate_step g (EvForceFault r d) = force_fault r d g"

end
