(* ===== verification/Motion_Gate_Inv.thy ===== *)
theory Motion_Gate_Inv
  imports Motion_Gate
begin

text \<open>
  Correctness of the gate: what each operation does to the lease (one characterisation lemma
  per operation, over the gate without its replay cache), the invariant, the replay cache, and
  the refinement of an abstract lease protocol.
\<close>

subsection \<open>The gate without its replay cache\<close>

definition g_core :: "gate \<Rightarrow> gate" where
  "g_core g = g\<lparr>g_cache := [], g_order := []\<rparr>"

lemma core_fields:
  assumes "g_core g = g_core h"
  shows "g_config g = g_config h" "g_id g = g_id h" "g_state g = g_state h"
    "g_state_seq g = g_state_seq h" "g_seq g = g_seq h" "g_lease g = g_lease h"
    "g_topic g = g_topic h" "g_gid g = g_gid h" "g_writer_bound g = g_writer_bound h"
    "g_candidate_seen g = g_candidate_seen h" "g_candidate_fresh g = g_candidate_fresh h"
    "g_selected g = g_selected h" "g_reason g = g_reason h" "g_detail g = g_detail h"
    "g_prepare_deadline g = g_prepare_deadline h"
    "g_authority_deadline g = g_authority_deadline h"
    "g_candidate_deadline g = g_candidate_deadline h"
  using assms by (cases g; cases h; simp add: g_core_def)+

lemma core_remember [simp]: "g_core (remember rq r b g) = g_core g"
  by (auto simp: remember_def g_core_def Let_def split: option.splits prod.splits)

lemma core_reject [simp]: "g_core (snd (reject rq r d b g)) = g_core g"
  by (simp add: reject_def Let_def)

lemma core_answer [simp]: "g_core (snd (answer rq r g)) = g_core g" "fst (answer rq r g) = r"
  by (simp_all add: answer_def)

lemma code_reject [simp]: "rs_code (fst (reject rq r d b g)) \<in> {CodeRejected, CodeFaulted}"
  by (simp add: reject_def Let_def result_from_snapshot_def)

lemma rs_result_from_snapshot [simp]:
  "rs_code (result_from_snapshot c r d g) = c" "rs_reason (result_from_snapshot c r d g) = r"
  "rs_seq (result_from_snapshot c r d g) = g_seq g"
  "rs_state (result_from_snapshot c r d g) = g_state g"
  "rs_lease (result_from_snapshot c r d g) = g_lease g"
  "rs_topic (result_from_snapshot c r d g) = g_topic g"
  "rs_gate (result_from_snapshot c r d g) = g_id g"
  "rs_motion_inhibited (result_from_snapshot c r d g) \<longleftrightarrow> g_state g \<noteq> Armed"
  by (simp_all add: result_from_snapshot_def snapshot_def Let_def)

lemma replay_not_applied:
  "replay_or_collision rq g = Some r \<Longrightarrow> rs_code r \<in> {CodeRejected, CodeDuplicate, CodeFaulted}"
  by (auto simp: replay_or_collision_def split: if_splits option.splits)

lemma apfst_Some [simp]:
  "apfst Some p = (None, x) \<longleftrightarrow> False" "apfst Some p = (Some r, x) \<longleftrightarrow> p = (r, x)"
  by (cases p; simp)+

lemma validate_common_None:
  assumes "validate_common rq op b g = (None, g')"
  shows "g' = g" "valid_identifier (rq_id rq)" "rq_operation rq = op" "rq_gate rq = g_id g"
    "valid_identifier (g_id g)" "g_state g \<noteq> Faulted" "rq_expected_seq rq = g_seq g"
    "b \<Longrightarrow> valid_identifier (rq_lease rq)" "\<not> b \<Longrightarrow> rq_lease rq = []"
  using assms by (auto simp: validate_common_def split: if_splits)

lemma validate_common_Some:
  assumes "validate_common rq op b g = (Some r, g')"
  shows "g_core g' = g_core g" "rs_code r \<in> {CodeRejected, CodeFaulted}"
proof -
  from assms have "\<exists>x d c. apfst Some (reject rq x d c g) = (Some r, g')"
    by (simp add: validate_common_def split: if_splits; blast)
  then obtain x d c where "apfst Some (reject rq x d c g) = (Some r, g')" by blast
  then have "r = fst (reject rq x d c g)" "g' = snd (reject rq x d c g)"
    by (cases "reject rq x d c g"; simp)+
  then show "g_core g' = g_core g" "rs_code r \<in> {CodeRejected, CodeFaulted}"
    using code_reject by (simp, blast)
qed

subsection \<open>What each operation does\<close>

text \<open>The states an applied request commits, written out over the gate before it.\<close>

definition exhausted :: "gate \<Rightarrow> gate" where
  "exhausted g = advance_state_seq ((clear_lease g)\<lparr>g_state := Faulted,
     g_reason := SequenceExhausted, g_detail := ''control sequence exhausted''\<rparr>)"

definition prepared :: "time \<Rightarrow> gate \<Rightarrow> gate" where
  "prepared now g = (let lease = make_lease_id (g_id g) (g_seq g + 1) in
     advance_state_seq (g\<lparr>g_seq := g_seq g + 1, g_lease := lease,
       g_topic := make_candidate_topic lease, g_gid := zero_gid, g_writer_bound := False,
       g_candidate_seen := False, g_candidate_fresh := False, g_selected := zero_command,
       g_prepare_deadline := now + ms (prepare_timeout (g_config g)),
       g_authority_deadline := 0, g_candidate_deadline := 0, g_state := Prepared,
       g_reason := NoReason, g_detail := ''lease prepared''\<rparr>))"

definition opened :: "time \<Rightarrow> writer_gid \<Rightarrow> gate \<Rightarrow> gate" where
  "opened now gid g = advance_state_seq (g\<lparr>g_seq := g_seq g + 1, g_gid := gid,
     g_writer_bound := True, g_state := Armed,
     g_authority_deadline := now + ms (authority_lease (g_config g)),
     g_candidate_deadline := 0, g_candidate_seen := False, g_candidate_fresh := False,
     g_selected := zero_command, g_reason := NoReason,
     g_detail := ''lease armed; awaiting a fresh candidate''\<rparr>)"

definition renewed :: "time \<Rightarrow> gate \<Rightarrow> gate" where
  "renewed now g = advance_state_seq (g\<lparr>g_seq := g_seq g + 1,
     g_authority_deadline := now + ms (authority_lease (g_config g)),
     g_reason := NoReason, g_detail := ''authority renewed''\<rparr>)"

definition reasserted :: "gate \<Rightarrow> gate" where
  "reasserted g = advance_state_seq (g\<lparr>g_seq := g_seq g + 1, g_reason := NoReason,
     g_detail := ''inhibit reasserted''\<rparr>)"

lemma advance_cases:
  obtains (full) "g_seq g = u64_max" "advance_control_seq g = (False, exhausted g)"
  | (more) "g_seq g \<noteq> u64_max" "advance_control_seq g = (True, g\<lparr>g_seq := g_seq g + 1\<rparr>)"
  by (cases "g_seq g = u64_max") (auto simp: advance_control_seq_def exhausted_def)

text \<open>What an operation that is not applied leaves: the reconciled gate, or a fault.\<close>

definition unapplied :: "control_result \<Rightarrow> gate \<Rightarrow> gate \<Rightarrow> bool" where
  "unapplied r g g' \<longleftrightarrow> rs_code r \<noteq> CodeApplied \<and>
     (g_core g' = g_core g \<or> (g_seq g = u64_max \<and> g_core g' = g_core (exhausted g))
       \<or> (\<exists>x d. g_core g' = g_core (force_fault x d g)))"

text \<open>An applied request named this gate, its current sequence number and its lease.\<close>

definition current_request :: "control_request \<Rightarrow> operation \<Rightarrow> gate \<Rightarrow> bool" where
  "current_request rq op g \<longleftrightarrow> rq_operation rq = op \<and> rq_gate rq = g_id g \<and>
     rq_expected_seq rq = g_seq g \<and> g_seq g \<noteq> u64_max \<and> replay_or_collision rq g = None"

lemma code_reject' [simp]: "rs_code (fst (reject rq r d b g)) \<noteq> CodeApplied"
  using code_reject [of rq r d b g] by auto

lemma unapplied_reject: "unapplied (fst (reject rq r d b g)) g (snd (reject rq r d b g))"
  by (simp add: unapplied_def)

lemma unapplied_fault: "unapplied (fst (fault_answer rq r d g)) g (snd (fault_answer rq r d g))"
  by (auto simp: unapplied_def fault_answer_def Let_def)

lemma unapplied_exhausted:
  "g_seq g = u64_max \<Longrightarrow> unapplied (result_from_snapshot CodeFaulted x d h) g
     (snd (answer rq (result_from_snapshot CodeFaulted x d h) (exhausted g)))"
  by (simp add: unapplied_def)

text \<open>Every request first tries the replay cache and the common checks; the rest is its body.\<close>

lemma request_prefix:
  assumes "call = (case replay_or_collision rq g1 of
        Some res \<Rightarrow> (res, g1)
      | None \<Rightarrow> (case validate_common rq op b g1 of
          (Some rejection, g) \<Rightarrow> (rejection, g)
        | (None, g) \<Rightarrow> body g))"
  shows "unapplied (fst call) g1 (snd call) \<or>
    (call = body g1 \<and> replay_or_collision rq g1 = None \<and> rq_operation rq = op \<and>
     rq_gate rq = g_id g1 \<and> valid_identifier (g_id g1) \<and> g_state g1 \<noteq> Faulted \<and>
     rq_expected_seq rq = g_seq g1 \<and> (b \<longrightarrow> valid_identifier (rq_lease rq)))"
proof (cases "replay_or_collision rq g1")
  case (Some r)
  then show ?thesis
    using replay_not_applied [OF Some] assms by (auto simp: unapplied_def)
next
  case None
  show ?thesis
  proof (cases "validate_common rq op b g1")
    case (Pair rej g2)
    show ?thesis
    proof (cases rej)
      case (Some r)
      with Pair None validate_common_Some [of rq op b g1 r g2] assms show ?thesis
        by (auto simp: unapplied_def)
    next
      case None': None
      with Pair have v: "validate_common rq op b g1 = (None, g2)" by simp
      show ?thesis
        using validate_common_None [OF v] assms None v by simp
    qed
  qed
qed

lemma reconciled_live:
  fixes g now
  defines "g1 \<equiv> reconcile_deadlines now g"
  shows "g_state g1 = Prepared \<Longrightarrow> now < g_prepare_deadline g1"
    and "g_state g1 = Armed \<Longrightarrow> now < g_authority_deadline g1"
    and "g_state g1 = Armed \<Longrightarrow> g_candidate_seen g1 \<Longrightarrow> now < g_candidate_deadline g1"
  by (auto simp: g1_def reconcile_deadlines_def retire_lease_def advance_control_seq_def
      advance_state_seq_def clear_deadlines_def clear_lease_def not_le split: if_splits)

lemma gate_prepare_cases:
  fixes g now rq p
  defines "g1 \<equiv> reconcile_deadlines now g"
  shows "unapplied (fst (gate_prepare rq now p g)) g1 (snd (gate_prepare rq now p g)) \<or>
    (current_request rq OpPrepare g1 \<and> g_state g1 = Inhibited \<and> valid_identifier (g_id g1) \<and>
     g_core (snd (gate_prepare rq now p g)) = g_core (prepared now g1) \<and>
     fst (gate_prepare rq now p g) = applied rq (prepared now g1))"
proof -
  have lease: "unapplied (fst (prepare_lease rq now g1)) g1 (snd (prepare_lease rq now g1)) \<or>
      (g_seq g1 \<noteq> u64_max \<and> g_core (snd (prepare_lease rq now g1)) = g_core (prepared now g1) \<and>
       fst (prepare_lease rq now g1) = applied rq (prepared now g1))"
    by (rule advance_cases [of g1])
      (simp_all add: prepare_lease_def unapplied_exhausted prepared_def Let_def)
  show ?thesis
    using request_prefix [OF gate_prepare_def [unfolded Let_def, of rq now p g, folded g1_def]]
      lease unapplied_reject unapplied_fault
    by (auto simp: current_request_def split: option.splits outcome.splits if_splits)
qed

lemma gate_open_cases:
  fixes g now rq p
  defines "g1 \<equiv> reconcile_deadlines now g"
  shows "unapplied (fst (gate_open rq now p g)) g1 (snd (gate_open rq now p g)) \<or>
    (\<exists>b. p = Some (Returned b) \<and> ob_ready b \<and> gid_is_nonzero (ob_gid b) \<and>
     current_request rq OpOpen g1 \<and> g_state g1 = Prepared \<and> rq_lease rq = g_lease g1 \<and>
     now < g_prepare_deadline g1 \<and>
     g_core (snd (gate_open rq now p g)) = g_core (opened now (ob_gid b) g1) \<and>
     fst (gate_open rq now p g) = applied rq (opened now (ob_gid b) g1))"
proof -
  have lease: "unapplied (fst (open_lease rq now gid g1)) g1 (snd (open_lease rq now gid g1)) \<or>
      (g_seq g1 \<noteq> u64_max \<and> g_core (snd (open_lease rq now gid g1)) = g_core (opened now gid g1) \<and>
       fst (open_lease rq now gid g1) = applied rq (opened now gid g1))" for gid
    by (rule advance_cases [of g1])
      (simp_all add: open_lease_def unapplied_exhausted opened_def Let_def)
  have live: "g_state g1 = Prepared \<Longrightarrow> now < g_prepare_deadline g1"
    unfolding g1_def by (rule reconciled_live)
  show ?thesis
    using request_prefix [OF gate_open_def [unfolded Let_def, of rq now p g, folded g1_def]]
      lease [of "case p of Some (Returned b) \<Rightarrow> ob_gid b | _ \<Rightarrow> []"]
      live unapplied_reject unapplied_fault
    by (auto simp: current_request_def split: option.splits outcome.splits if_splits)
qed

lemma gate_renew_cases:
  fixes g now rq
  defines "g1 \<equiv> reconcile_deadlines now g"
  shows "unapplied (fst (gate_renew rq now g)) g1 (snd (gate_renew rq now g)) \<or>
    (current_request rq OpRenew g1 \<and> g_state g1 = Armed \<and> rq_lease rq = g_lease g1 \<and>
     now < g_authority_deadline g1 \<and>
     g_core (snd (gate_renew rq now g)) = g_core (renewed now g1) \<and>
     fst (gate_renew rq now g) = applied rq (renewed now g1))"
proof -
  have live: "g_state g1 = Armed \<Longrightarrow> now < g_authority_deadline g1"
    unfolding g1_def by (rule reconciled_live)
  show ?thesis
    using request_prefix [OF gate_renew_def [unfolded Let_def, of rq now g, folded g1_def]]
      live unapplied_reject unapplied_exhausted
    by (cases rule: advance_cases [of g1])
      (auto simp: current_request_def renewed_def split: if_splits)
qed

text \<open>A retired lease: the gate inhibited, or faulted when the sequence number is used up.\<close>

definition retired :: "reason \<Rightarrow> string \<Rightarrow> gate \<Rightarrow> gate" where
  "retired r d g = advance_state_seq (clear_deadlines ((clear_lease (g\<lparr>g_seq := g_seq g + 1\<rparr>))\<lparr>
     g_state := Inhibited, g_reason := r,
     g_detail := bounded_detail (if d = [] then ''lease retired'' else d)\<rparr>))"

lemma retire_lease_cases:
  assumes "g_state g = Prepared \<or> g_state g = Armed"
  shows "(g_seq g \<noteq> u64_max \<and> retire_lease r d g = retired r d g) \<or>
    (g_seq g = u64_max \<and> retire_lease r d g = exhausted g)"
  using assms
  by (cases rule: advance_cases [of g])
    (auto simp: retire_lease_def retired_def clear_lease_def clear_deadlines_def)

lemma gate_inhibit_cases:
  fixes g now rq
  defines "g1 \<equiv> reconcile_deadlines now g"
  shows "unapplied (fst (gate_inhibit rq now g)) g1 (snd (gate_inhibit rq now g)) \<or>
    (rq_operation rq = OpInhibit \<and> rq_gate rq = g_id g1 \<and> rq_expected_seq rq = g_seq g1 \<and>
     replay_or_collision rq g1 = None \<and>
     ((g_state g1 = Inhibited \<and> g_seq g1 \<noteq> u64_max \<and>
       g_core (snd (gate_inhibit rq now g)) = g_core (reasserted g1) \<and>
       fst (gate_inhibit rq now g) = applied rq (reasserted g1)) \<or>
      ((g_state g1 = Prepared \<or> g_state g1 = Armed) \<and> rq_lease rq = g_lease g1 \<and>
       g_core (snd (gate_inhibit rq now g)) =
         g_core (retire_lease NoReason ''lease inhibited'' g1) \<and>
       fst (gate_inhibit rq now g) =
         applied rq (retire_lease NoReason ''lease inhibited'' g1))))"
proof -
  show ?thesis
    using request_prefix [OF gate_inhibit_def [unfolded Let_def, of rq now g, folded g1_def]]
      unapplied_reject unapplied_exhausted
    by (cases rule: advance_cases [of g1])
      (auto simp: reasserted_def split: if_splits)
qed

definition selecting :: "candidate \<Rightarrow> time \<Rightarrow> gate \<Rightarrow> gate" where
  "selecting c now g = advance_state_seq (g\<lparr>g_selected := clamp_candidate (g_config g) c,
     g_candidate_deadline := now + ms (candidate_freshness (g_config g)),
     g_candidate_seen := True, g_candidate_fresh := True, g_reason := NoReason,
     g_detail := ''fresh candidate selected''\<rparr>)"

lemma accept_candidate_cases:
  fixes g now c
  defines "g1 \<equiv> reconcile_deadlines now g"
  shows "snd (accept_candidate c now g) = g1 \<and> \<not> cr_accepted (fst (accept_candidate c now g)) \<or>
    (g_state g1 = Armed \<and> cd_lease c = g_lease g1 \<and>
      \<not> cr_accepted (fst (accept_candidate c now g)) \<and>
      (\<exists>r d. snd (accept_candidate c now g) = retire_lease r d g1)) \<or>
    (g_state g1 = Armed \<and> cd_lease c = g_lease g1 \<and> cd_gid c = g_gid g1 \<and>
     \<not> cd_intra_process c \<and> gid_is_nonzero (cd_gid c) \<and>
     candidate_finite c \<and> unsupported_axes_zero c \<and>
     cr_accepted (fst (accept_candidate c now g)) \<and>
     snd (accept_candidate c now g) = selecting c now g1)"
  unfolding accept_candidate_def g1_def [symmetric] Let_def
  by (auto simp: candidate_refused_def selecting_def)

subsection \<open>One relation for every operation\<close>

text \<open>
  The effect of an event on the gate, up to the replay cache: nothing, a retired lease, a fault,
  or the transition the operation is for. Every step is at most two effects, the reconciliation
  of the deadlines and the operation itself, so a fact about all operations is proved by one
  rule induction.
\<close>

inductive gate_effect :: "gate_event \<Rightarrow> gate \<Rightarrow> gate \<Rightarrow> bool" where
  eff_keep: "g_core g' = g_core g \<Longrightarrow> gate_effect e g g'"
| eff_retire: "g_state g = Prepared \<or> g_state g = Armed \<Longrightarrow> g_seq g \<noteq> u64_max \<Longrightarrow>
    g_core g' = g_core (retired r d g) \<Longrightarrow> gate_effect e g g'"
| eff_fault: "g_core g' = g_core (force_fault r d g) \<Longrightarrow> gate_effect e g g'"
| eff_exhaust: "g_seq g = u64_max \<Longrightarrow> g_core g' = g_core (exhausted g) \<Longrightarrow> gate_effect e g g'"
| eff_prepare: "g_state g = Inhibited \<Longrightarrow> g_seq g \<noteq> u64_max \<Longrightarrow>
    g_core g' = g_core (prepared now g) \<Longrightarrow> gate_effect (EvPrepare rq now p) g g'"
| eff_open: "g_state g = Prepared \<Longrightarrow> g_seq g \<noteq> u64_max \<Longrightarrow> now < g_prepare_deadline g \<Longrightarrow>
    gid_is_nonzero gid \<Longrightarrow> g_core g' = g_core (opened now gid g) \<Longrightarrow>
    gate_effect (EvOpen rq now p) g g'"
| eff_renew: "g_state g = Armed \<Longrightarrow> g_seq g \<noteq> u64_max \<Longrightarrow> now < g_authority_deadline g \<Longrightarrow>
    g_core g' = g_core (renewed now g) \<Longrightarrow> gate_effect (EvRenew rq now) g g'"
| eff_reassert: "g_state g = Inhibited \<Longrightarrow> g_seq g \<noteq> u64_max \<Longrightarrow>
    g_core g' = g_core (reasserted g) \<Longrightarrow> gate_effect (EvInhibit rq now) g g'"
| eff_window: "g_state g = Armed \<Longrightarrow> g_core g' = g_core (start_armed_window now g) \<Longrightarrow>
    gate_effect (EvStartWindow now) g g'"
| eff_select: "g_state g = Armed \<Longrightarrow> now < g_authority_deadline g \<Longrightarrow> cd_lease c = g_lease g \<Longrightarrow>
    cd_gid c = g_gid g \<Longrightarrow> candidate_finite c \<Longrightarrow> unsupported_axes_zero c \<Longrightarrow>
    g_core g' = g_core (selecting c now g) \<Longrightarrow> gate_effect (EvCandidate c now) g g'"

lemma effect_refl [simp]: "gate_effect e g g"
  by (rule eff_keep) simp

lemma unapplied_effect: "unapplied r g g' \<Longrightarrow> gate_effect e g g'"
  unfolding unapplied_def by (blast intro: eff_keep eff_fault eff_exhaust)

lemma retire_effect: "g_core g' = g_core (retire_lease r d g) \<Longrightarrow>
    g_state g = Prepared \<or> g_state g = Armed \<Longrightarrow> gate_effect e g g'"
  using retire_lease_cases [of g r d] by (auto intro: eff_retire eff_exhaust)

lemma reconcile_effect: "gate_effect e g (reconcile_deadlines now g)"
  by (auto simp: reconcile_deadlines_def intro: retire_effect)

lemma gate_step_effects:
  "\<exists>h. gate_effect e g h \<and> gate_effect e h (gate_step g e)"
proof (cases e)
  case (EvPrepare rq now p)
  show ?thesis
    using gate_prepare_cases [of rq now p g] reconcile_effect [of e g now] EvPrepare
    by (simp add: current_request_def; metis unapplied_effect eff_prepare)
next
  case (EvOpen rq now p)
  show ?thesis
    using gate_open_cases [of rq now p g] reconcile_effect [of e g now] EvOpen
    by (simp add: current_request_def; metis unapplied_effect eff_open)
next
  case (EvRenew rq now)
  show ?thesis
    using gate_renew_cases [of rq now g] reconcile_effect [of e g now] EvRenew
    by (simp add: current_request_def; metis unapplied_effect eff_renew)
next
  case (EvInhibit rq now)
  show ?thesis
    using gate_inhibit_cases [of rq now g] reconcile_effect [of e g now] EvInhibit
    by (simp; metis unapplied_effect eff_reassert retire_effect)
next
  case (EvCandidate c now)
  show ?thesis
    using accept_candidate_cases [of c now g] reconcile_effect [of e g now]
      reconciled_live(2) [of now g] EvCandidate
    by (simp; metis effect_refl eff_select retire_effect)
next
  case (EvStartWindow now)
  then show ?thesis
    by (cases "g_state g = Armed")
      (auto simp: start_armed_window_def [of now g] intro: eff_window effect_refl)
next
  case (EvTick now)
  then show ?thesis
    using reconcile_effect [of e g now] by (auto simp: gate_tick_def Let_def intro: effect_refl)
next
  case (EvForceFault r d)
  then show ?thesis by (auto intro: eff_fault effect_refl)
qed

lemma effects_preserve:
  assumes "\<And>g g'. P g \<Longrightarrow> gate_effect e g g' \<Longrightarrow> P g'" and "P g"
  shows "P (gate_step g e)"
  using gate_step_effects [of e g] assms by blast

subsection \<open>The invariant\<close>

definition within_limits :: "gate_config \<Rightarrow> command \<Rightarrow> bool" where
  "within_limits cfg c \<longleftrightarrow>
     dle (linear_x_min cfg) (linear_x c) \<and> dle (linear_x c) (linear_x_max cfg) \<and>
     dle (angular_z_min cfg) (angular_z c) \<and> dle (angular_z c) (angular_z_max cfg)"

text \<open>No lease: what an inhibited or faulted gate holds.\<close>

definition no_candidate :: "gate \<Rightarrow> bool" where
  "no_candidate g \<longleftrightarrow> \<not> g_candidate_seen g \<and> \<not> g_candidate_fresh g \<and> g_selected g = zero_command"

definition no_lease :: "gate \<Rightarrow> bool" where
  "no_lease g \<longleftrightarrow> g_lease g = [] \<and> g_topic g = [] \<and> g_gid g = zero_gid \<and>
     \<not> g_writer_bound g \<and> no_candidate g"

definition holds_lease :: "gate \<Rightarrow> bool" where
  "holds_lease g \<longleftrightarrow> valid_identifier (g_lease g) \<and> g_topic g = make_candidate_topic (g_lease g) \<and>
     (\<exists>s. s \<le> g_seq g \<and> g_lease g = make_lease_id (g_id g) s)"

definition gate_core_inv :: "gate \<Rightarrow> bool" where
  "gate_core_inv g \<longleftrightarrow>
     (g_state g \<noteq> Faulted \<longrightarrow> config_is_valid (g_config g) \<and> valid_identifier (g_id g)) \<and>
     (g_state g = Inhibited \<or> g_state g = Faulted \<longrightarrow> no_lease g) \<and>
     (g_state g = Prepared \<longrightarrow>
        holds_lease g \<and> g_gid g = zero_gid \<and> \<not> g_writer_bound g \<and> no_candidate g) \<and>
     (g_state g = Armed \<longrightarrow>
        holds_lease g \<and> g_writer_bound g \<and> gid_is_nonzero (g_gid g) \<and>
        g_candidate_seen g = g_candidate_fresh g \<and>
        (\<not> g_candidate_fresh g \<longrightarrow> g_selected g = zero_command) \<and>
        within_limits (g_config g) (g_selected g))"

lemma core_inv_core:
  assumes "g_core g = g_core h"
  shows "gate_core_inv g = gate_core_inv h"
  using core_fields [OF assms]
  by (simp add: gate_core_inv_def no_lease_def no_candidate_def holds_lease_def)

lemmas inv_defs = gate_core_inv_def no_lease_def no_candidate_def holds_lease_def

lemma advance_state_seq_fields [simp]:
  "g_config (advance_state_seq g) = g_config g" "g_id (advance_state_seq g) = g_id g"
  "g_state (advance_state_seq g) = g_state g" "g_seq (advance_state_seq g) = g_seq g"
  "g_lease (advance_state_seq g) = g_lease g" "g_topic (advance_state_seq g) = g_topic g"
  "g_gid (advance_state_seq g) = g_gid g"
  "g_writer_bound (advance_state_seq g) = g_writer_bound g"
  "g_candidate_seen (advance_state_seq g) = g_candidate_seen g"
  "g_candidate_fresh (advance_state_seq g) = g_candidate_fresh g"
  "g_selected (advance_state_seq g) = g_selected g" "g_reason (advance_state_seq g) = g_reason g"
  "g_detail (advance_state_seq g) = g_detail g"
  "g_prepare_deadline (advance_state_seq g) = g_prepare_deadline g"
  "g_authority_deadline (advance_state_seq g) = g_authority_deadline g"
  "g_candidate_deadline (advance_state_seq g) = g_candidate_deadline g"
  "g_cache (advance_state_seq g) = g_cache g" "g_order (advance_state_seq g) = g_order g"
  by (simp_all add: advance_state_seq_def)

lemmas effect_defs =
  exhausted_def prepared_def opened_def renewed_def reasserted_def retired_def selecting_def
  clear_lease_def clear_deadlines_def Let_def

lemma make_lease_id_valid: "valid_identifier gid \<Longrightarrow> valid_identifier (make_lease_id gid seq)"
  by (auto simp: valid_identifier_def make_lease_id_def list_all_iff is_hex_digits
      dest: in_set_takeD)

lemma zero_within_limits: "config_is_valid cfg \<Longrightarrow> within_limits cfg zero_command"
  by (simp add: config_is_valid_def within_limits_def zero_command_def)

lemma clamp_within_limits:
  assumes "config_is_valid cfg" and "candidate_finite c"
  shows "within_limits cfg (clamp_candidate cfg c)"
  using assms
  by (auto simp: config_is_valid_def within_limits_def clamp_candidate_def candidate_finite_def
      intro!: dclamp_range)

lemma exhausted_inv: "gate_core_inv (exhausted g)"
  by (simp add: inv_defs effect_defs)

lemma force_fault_inv: "gate_core_inv g \<Longrightarrow> gate_core_inv (force_fault r d g)"
  by (simp add: force_fault_def inv_defs effect_defs)

lemma retired_inv:
  "gate_core_inv g \<Longrightarrow> g_state g \<noteq> Faulted \<Longrightarrow> gate_core_inv (retired r d g)"
  by (auto simp: inv_defs effect_defs)

lemma prepared_inv:
  assumes "gate_core_inv g" "g_state g = Inhibited"
  shows "gate_core_inv (prepared now g)"
  using assms make_lease_id_valid [of "g_id g"]
  by (auto simp: inv_defs effect_defs)

lemma le_succ_u64: "(s::u64) \<le> x \<Longrightarrow> x \<noteq> u64_max \<Longrightarrow> s \<le> x + 1"
  using u64_succ_greater [of x] by (meson le_less_trans less_imp_le)

lemma opened_inv:
  assumes "gate_core_inv g" "g_state g = Prepared" "g_seq g \<noteq> u64_max" "gid_is_nonzero gid"
  shows "gate_core_inv (opened now gid g)"
  using assms zero_within_limits le_succ_u64 by (auto simp: inv_defs effect_defs)

lemma renewed_inv:
  assumes "gate_core_inv g" "g_state g = Armed" "g_seq g \<noteq> u64_max"
  shows "gate_core_inv (renewed now g)"
  using assms le_succ_u64 by (auto simp: inv_defs effect_defs)

lemma reasserted_inv:
  assumes "gate_core_inv g" "g_state g = Inhibited"
  shows "gate_core_inv (reasserted g)"
  using assms by (auto simp: inv_defs effect_defs)

lemma selecting_inv:
  assumes "gate_core_inv g" "g_state g = Armed" "candidate_finite c"
  shows "gate_core_inv (selecting c now g)"
  using assms clamp_within_limits by (auto simp: inv_defs effect_defs)

lemma start_armed_window_inv: "gate_core_inv g \<Longrightarrow> gate_core_inv (start_armed_window now g)"
  using zero_within_limits by (auto simp: inv_defs start_armed_window_def)


lemma effect_core_inv: "gate_effect e g g' \<Longrightarrow> gate_core_inv g \<Longrightarrow> gate_core_inv g'"
proof (induction rule: gate_effect.induct)
  case (eff_retire g g' r d e)
  then show ?case using core_inv_core retired_inv by (metis gate_state.distinct)
qed (use core_inv_core exhausted_inv force_fault_inv prepared_inv opened_inv renewed_inv
    reasserted_inv start_armed_window_inv selecting_inv in metis)+

lemma gate_step_core_inv: "gate_core_inv g \<Longrightarrow> gate_core_inv (gate_step g e)"
  by (rule effects_preserve) (auto intro: effect_core_inv)

lemma gate_init_core_inv: "gate_core_inv (gate_init cfg gid seq)"
  by (simp add: gate_init_def inv_defs Let_def)

subsection \<open>What no step changes or decreases\<close>

lemma force_fault_fields [simp]:
  "g_config (force_fault r d g) = g_config g" "g_id (force_fault r d g) = g_id g"
  "g_state (force_fault r d g) = Faulted"
  by (auto simp: force_fault_def effect_defs)

lemma u64_le_succ [simp]: "(x::u64) \<noteq> u64_max \<Longrightarrow> x \<le> x + 1"
  by (simp add: le_succ_u64)

lemma force_fault_seq: "g_seq g \<le> g_seq (force_fault r d g)"
  by (auto simp: force_fault_def effect_defs)

lemma core_main: "g_core g = g_core h \<Longrightarrow>
    g_config g = g_config h \<and> g_id g = g_id h \<and> g_state g = g_state h \<and> g_seq g = g_seq h"
  by (intro conjI; rule core_fields)

lemma effect_frame: "gate_effect e g g' \<Longrightarrow> g_config g' = g_config g \<and> g_id g' = g_id g"
  by (induction rule: gate_effect.induct; drule core_main)
    (simp_all add: effect_defs start_armed_window_def)

lemma effect_seq: "gate_effect e g g' \<Longrightarrow> g_seq g \<le> g_seq g'"
  by (induction rule: gate_effect.induct; drule core_main)
    (simp_all add: effect_defs start_armed_window_def force_fault_seq)

lemma effect_faulted: "gate_effect e g g' \<Longrightarrow> g_state g = Faulted \<Longrightarrow> g_state g' = Faulted"
  by (induction rule: gate_effect.induct; drule core_main) (simp_all add: effect_defs)

lemma gate_step_config [simp]: "g_config (gate_step g e) = g_config g"
  and gate_step_id [simp]: "g_id (gate_step g e) = g_id g"
  using gate_step_effects [of e g] effect_frame by metis+

lemma gate_step_seq: "g_seq g \<le> g_seq (gate_step g e)"
  using gate_step_effects [of e g] effect_seq by (meson order_trans)

lemma gate_step_faulted: "g_state g = Faulted \<Longrightarrow> g_state (gate_step g e) = Faulted"
  using gate_step_effects [of e g] effect_faulted by blast

lemma gate_run_config [simp]: "g_config (run gate_step g es) = g_config g"
  and gate_run_id [simp]: "g_id (run gate_step g es) = g_id g"
  by (induction es arbitrary: g) auto

lemma gate_init_fields [simp]:
  "g_config (gate_init cfg gid seq) = cfg" "g_id (gate_init cfg gid seq) = gid"
  "g_seq (gate_init cfg gid seq) = seq"
  by (simp_all add: gate_init_def Let_def)

subsection \<open>The replay cache\<close>

text \<open>
  The cache holds at most its configured number of requests, one entry per request identifier,
  and the eviction order lists exactly the cached identifiers, oldest first.
\<close>

definition cache_inv :: "gate \<Rightarrow> bool" where
  "cache_inv g \<longleftrightarrow> map fst (g_cache g) = rev (g_order g) \<and> distinct (g_order g) \<and>
     length (g_order g) \<le> request_cache_size (g_config g) \<and>
     list_all valid_identifier (g_order g)"

lemma cache_frame [simp]:
  "g_cache (clear_lease g) = g_cache g" "g_order (clear_lease g) = g_order g"
  "g_cache (clear_deadlines g) = g_cache g" "g_order (clear_deadlines g) = g_order g"
  "g_cache (snd (advance_control_seq g)) = g_cache g"
  "g_order (snd (advance_control_seq g)) = g_order g"
  by (simp_all add: clear_lease_def clear_deadlines_def advance_control_seq_def)

lemma cache_frame_lease [simp]:
  "g_cache (retire_lease r d g) = g_cache g" "g_order (retire_lease r d g) = g_order g"
  "g_cache (force_fault r d g) = g_cache g" "g_order (force_fault r d g) = g_order g"
  "g_cache (reconcile_deadlines now g) = g_cache g"
  "g_order (reconcile_deadlines now g) = g_order g"
  by (auto simp: retire_lease_def force_fault_def reconcile_deadlines_def advance_control_seq_def
      Let_def)

lemma config_frame [simp]:
  "g_config (retire_lease r d g) = g_config g" "g_config (reconcile_deadlines now g) = g_config g"
  "g_config (snd (advance_control_seq g)) = g_config g"
  by (auto simp: retire_lease_def reconcile_deadlines_def advance_control_seq_def clear_lease_def
      clear_deadlines_def)

lemma cache_inv_cong:
  "g_cache g' = g_cache g \<Longrightarrow> g_order g' = g_order g \<Longrightarrow> g_config g' = g_config g \<Longrightarrow>
   cache_inv g' = cache_inv g"
  by (simp add: cache_inv_def)

lemma evict_keys:
  assumes "map fst cache = rev order" "distinct order" "evict_oldest n cache order = (cache', order')"
  shows "map fst cache' = rev order' \<and> distinct order' \<and> set order' \<subseteq> set order \<and>
    (0 < n \<longrightarrow> length order' < n)"
  using assms
proof (induction n cache order rule: evict_oldest.induct)
  case (2 n cache oldest order)
  have len: "length cache = Suc (length order)"
    using 2(2) by (metis length_Cons length_map length_rev)
  show ?case
  proof (cases "n \<le> length cache")
    case True
    have "map fst (AList.delete oldest cache) = rev order"
      using 2(2,3) by (simp add: keys_delete removeAll_append)
    with 2 True show ?thesis by fastforce
  next
    case False
    with 2 len show ?thesis by auto
  qed
qed auto

lemma cache_inv_remember: "cache_inv g \<Longrightarrow> cache_inv (remember rq r b g)"
proof (cases "valid_identifier (rq_id rq) \<and> request_cache_size (g_config g) \<noteq> 0")
  case False
  then show "cache_inv g \<Longrightarrow> cache_inv (remember rq r b g)" by (auto simp: remember_def)
next
  case True
  assume inv: "cache_inv g"
  show ?thesis
  proof (cases "map_of (g_cache g) (rq_id rq)")
    case (Some c)
    then have "map fst (AList.update (rq_id rq) x (g_cache g)) = map fst (g_cache g)" for x
      by (intro keys_update_present map_of_SomeI_key)
    with True Some inv show ?thesis
      by (simp add: remember_def cache_inv_def Let_def)
  next
    case None
    obtain cache order where ev:
      "evict_oldest (request_cache_size (g_config g)) (g_cache g) (g_order g) = (cache, order)"
      by force
    have fresh: "rq_id rq \<notin> set (g_order g)"
      using None inv by (metis cache_inv_def list.set_map map_of_eq_None_iff set_rev)
    show ?thesis
      using evict_keys [OF _ _ ev] inv True None fresh ev
      by (fastforce simp: remember_def cache_inv_def Let_def list_all_iff)
  qed
qed

end
