(* ===== verification/Motion_Gate_Spec.thy ===== *)
theory Motion_Gate_Spec
  imports Motion_Gate_Inv
begin

text \<open>
  The contract of the gate: the cache invariant of every operation, the machine interpretations,
  the abstract lease protocol the gate refines, and the properties of the component.
\<close>

subsection \<open>The cache invariant of every operation\<close>

lemma cache_inv_lease [simp]:
  "cache_inv (retire_lease r d g) = cache_inv g" "cache_inv (force_fault r d g) = cache_inv g"
  "cache_inv (reconcile_deadlines now g) = cache_inv g"
  "cache_inv (snd (advance_control_seq g)) = cache_inv g"
  "cache_inv (advance_state_seq g) = cache_inv g"
  by (rule cache_inv_cong; simp)+

lemma cache_inv_advance:
  "advance_control_seq g = (b, g') \<Longrightarrow> cache_inv g' = cache_inv g"
  using cache_inv_lease(4) [of g] by simp

lemma cache_inv_answer [simp]:
  "cache_inv g \<Longrightarrow> cache_inv (snd (answer rq r g))"
  "cache_inv g \<Longrightarrow> cache_inv (snd (reject rq x d b g))"
  "cache_inv g \<Longrightarrow> cache_inv (snd (fault_answer rq x d g))"
  by (simp_all add: answer_def reject_def fault_answer_def Let_def cache_inv_remember)

lemma cache_inv_validate:
  assumes "validate_common rq op b g = (rej, g')" and "cache_inv g"
  shows "cache_inv g'"
proof -
  have "g' = snd (validate_common rq op b g)" using assms(1) by simp
  moreover have "cache_inv (snd (validate_common rq op b g))"
    using assms(2) by (simp add: validate_common_def)
  ultimately show ?thesis by simp
qed

lemma cache_inv_update [simp]:
  "cache_inv (g\<lparr>g_state := x0\<rparr>) = cache_inv g"
  "cache_inv (g\<lparr>g_state_seq := x1\<rparr>) = cache_inv g"
  "cache_inv (g\<lparr>g_seq := x2\<rparr>) = cache_inv g"
  "cache_inv (g\<lparr>g_lease := x3\<rparr>) = cache_inv g"
  "cache_inv (g\<lparr>g_topic := x4\<rparr>) = cache_inv g"
  "cache_inv (g\<lparr>g_gid := x5\<rparr>) = cache_inv g"
  "cache_inv (g\<lparr>g_writer_bound := x6\<rparr>) = cache_inv g"
  "cache_inv (g\<lparr>g_candidate_seen := x7\<rparr>) = cache_inv g"
  "cache_inv (g\<lparr>g_candidate_fresh := x8\<rparr>) = cache_inv g"
  "cache_inv (g\<lparr>g_selected := x9\<rparr>) = cache_inv g"
  "cache_inv (g\<lparr>g_reason := x10\<rparr>) = cache_inv g"
  "cache_inv (g\<lparr>g_detail := x11\<rparr>) = cache_inv g"
  "cache_inv (g\<lparr>g_prepare_deadline := x12\<rparr>) = cache_inv g"
  "cache_inv (g\<lparr>g_authority_deadline := x13\<rparr>) = cache_inv g"
  "cache_inv (g\<lparr>g_candidate_deadline := x14\<rparr>) = cache_inv g"
  by (simp_all add: cache_inv_def)

lemma cache_inv_prefix:
  assumes "cache_inv g1" and "\<And>g. cache_inv g \<Longrightarrow> cache_inv (snd (body g))"
  shows "cache_inv (snd (case replay_or_collision rq g1 of
        Some res \<Rightarrow> (res, g1)
      | None \<Rightarrow> (case validate_common rq op b g1 of
          (Some rejection, g) \<Rightarrow> (rejection, g)
        | (None, g) \<Rightarrow> body g)))"
  using assms cache_inv_validate [of rq op b g1]
  by (auto split: option.splits prod.splits)

lemma cache_inv_commit:
  assumes "cache_inv g"
  shows "cache_inv (snd (prepare_lease rq now g))" "cache_inv (snd (open_lease rq now gid g))"
  using assms
  by (auto simp: prepare_lease_def open_lease_def Let_def cache_inv_advance
      intro!: cache_inv_answer split: prod.splits bool.splits)

lemma gate_step_cache_inv: "cache_inv g \<Longrightarrow> cache_inv (gate_step g e)"
proof (cases e)
  case (EvPrepare rq now p)
  assume "cache_inv g"
  then show ?thesis
    unfolding EvPrepare gate_step.simps gate_prepare_def Let_def
    by (intro cache_inv_prefix)
      (auto simp: cache_inv_commit split: option.splits outcome.splits)
next
  case (EvOpen rq now p)
  assume "cache_inv g"
  then show ?thesis
    unfolding EvOpen gate_step.simps gate_open_def Let_def
    by (intro cache_inv_prefix)
      (auto simp: cache_inv_commit split: option.splits outcome.splits)
next
  case (EvRenew rq now)
  assume "cache_inv g"
  then show ?thesis
    unfolding EvRenew gate_step.simps gate_renew_def Let_def
    by (intro cache_inv_prefix)
      (auto simp: cache_inv_advance intro!: cache_inv_answer
        split: prod.splits bool.splits)
next
  case (EvInhibit rq now)
  assume "cache_inv g"
  then show ?thesis
    unfolding EvInhibit gate_step.simps gate_inhibit_def Let_def
    by (intro cache_inv_prefix)
      (auto simp: cache_inv_advance intro!: cache_inv_answer
        split: prod.splits bool.splits)
next
  case (EvCandidate c now)
  assume "cache_inv g"
  then show ?thesis
    using accept_candidate_cases [of c now g] EvCandidate
    by (auto simp: selecting_def)
qed (auto simp: gate_tick_def start_armed_window_def Let_def)

lemma gate_init_cache_inv: "cache_inv (gate_init cfg gid seq)"
  by (simp add: gate_init_def cache_inv_def Let_def)

subsection \<open>The gate as an invariant machine\<close>

definition gate_inv :: "gate \<Rightarrow> bool" where
  "gate_inv g \<longleftrightarrow> gate_core_inv g \<and> cache_inv g"

interpretation gate_machine: invariant_machine gate_step gate_inv
  by unfold_locales (simp add: gate_inv_def gate_step_core_inv gate_step_cache_inv)

interpretation gate_latch: latched_machine gate_step gate_inv "\<lambda>g. g_state g = Faulted"
  by unfold_locales (simp add: gate_step_faulted)

interpretation gate_sequence: monotone_machine gate_step gate_inv "\<lambda>g. unat (g_seq g)"
  by unfold_locales (use gate_step_seq word_le_nat_alt in blast)

lemma gate_init_inv: "gate_inv (gate_init cfg gid seq)"
  by (simp add: gate_inv_def gate_init_core_inv gate_init_cache_inv)

lemma gate_reachable_inv: "gate_inv (run gate_step (gate_init cfg gid seq) es)"
  by (rule gate_machine.run_inv) (rule gate_init_inv)

subsection \<open>The abstract lease protocol\<close>

datatype phase =
    PInhibited
  | PPrepared string time
  | PArmed string writer_gid time "(command \<times> time) option"
  | PFaulted

definition gate_phase :: "gate \<Rightarrow> phase" where
  "gate_phase g = (case g_state g of
     Inhibited \<Rightarrow> PInhibited
   | Prepared \<Rightarrow> PPrepared (g_lease g) (g_prepare_deadline g)
   | Armed \<Rightarrow> PArmed (g_lease g) (g_gid g) (g_authority_deadline g)
       (if g_candidate_fresh g then Some (g_selected g, g_candidate_deadline g) else None)
   | Faulted \<Rightarrow> PFaulted)"

text \<open>The protocol a client may rely on, without requests, caches, sequence numbers or texts.\<close>

inductive lease_step :: "gate_config \<Rightarrow> phase \<Rightarrow> phase \<Rightarrow> bool" for cfg where
  fault: "lease_step cfg p PFaulted"
| drop_prepared: "lease_step cfg (PPrepared l d) PInhibited"
| drop_armed: "lease_step cfg (PArmed l w a x) PInhibited"
| prepare: "valid_identifier l \<Longrightarrow>
    lease_step cfg PInhibited (PPrepared l (now + ms (prepare_timeout cfg)))"
| arm: "now < d \<Longrightarrow> gid_is_nonzero w \<Longrightarrow>
    lease_step cfg (PPrepared l d) (PArmed l w (now + ms (authority_lease cfg)) None)"
| rewindow: "lease_step cfg (PArmed l w a x) (PArmed l w (now + ms (authority_lease cfg)) None)"
| renew: "now < a \<Longrightarrow>
    lease_step cfg (PArmed l w a x) (PArmed l w (now + ms (authority_lease cfg)) x)"
| select: "now < a \<Longrightarrow> candidate_finite c \<Longrightarrow> cd_lease c = l \<Longrightarrow> cd_gid c = w \<Longrightarrow>
    lease_step cfg (PArmed l w a x)
      (PArmed l w a (Some (clamp_candidate cfg c, now + ms (candidate_freshness cfg))))"

inductive_cases lease_from_inhibited: "lease_step cfg PInhibited p"
inductive_cases lease_from_prepared: "lease_step cfg (PPrepared l d) p"
inductive_cases lease_from_faulted: "lease_step cfg PFaulted p"
inductive_simps lease_to_armed: "lease_step cfg p (PArmed l w a x)"

lemma phase_core:
  assumes "g_core g' = g_core g"
  shows "gate_phase g' = gate_phase g"
  by (simp add: gate_phase_def core_fields [OF assms] split: gate_state.split)

lemma effect_simulates:
  "gate_effect e g g' \<Longrightarrow> gate_core_inv g \<Longrightarrow>
   (lease_step (g_config g))\<^sup>*\<^sup>* (gate_phase g) (gate_phase g')"
proof (induction rule: gate_effect.induct)
  case (eff_keep g' g e)
  then show ?case by (simp add: phase_core [OF eff_keep(1)])
next
  case (eff_retire g g' r d e)
  then show ?case
    unfolding phase_core [OF eff_retire(3)]
    by (auto simp: gate_phase_def effect_defs
        intro!: r_into_rtranclp lease_step.drop_prepared lease_step.drop_armed)
next
  case (eff_fault g' r d g e)
  then show ?case
    unfolding phase_core [OF eff_fault(1)]
    by (auto simp: gate_phase_def intro: r_into_rtranclp fault)
next
  case (eff_exhaust g g' e)
  then show ?case
    unfolding phase_core [OF eff_exhaust(2)]
    by (auto simp: gate_phase_def effect_defs intro: r_into_rtranclp fault)
next
  case (eff_prepare g g' now rq p)
  then show ?case
    unfolding phase_core [OF eff_prepare(3)]
    by (auto simp: gate_phase_def effect_defs inv_defs make_lease_id_valid
        intro!: r_into_rtranclp lease_step.prepare)
next
  case (eff_open g now gid g' rq p)
  then show ?case
    unfolding phase_core [OF eff_open(5)]
    by (auto simp: gate_phase_def effect_defs intro: r_into_rtranclp arm)
next
  case (eff_renew g now g' rq)
  then show ?case
    unfolding phase_core [OF eff_renew(4)]
    by (auto simp: gate_phase_def effect_defs intro: r_into_rtranclp lease_step.renew)
next
  case (eff_reassert g g' rq now)
  then show ?case
    unfolding phase_core [OF eff_reassert(3)]
    by (simp add: gate_phase_def effect_defs)
next
  case (eff_window g g' now)
  then show ?case
    unfolding phase_core [OF eff_window(2)]
    by (auto simp: gate_phase_def start_armed_window_def intro: r_into_rtranclp rewindow)
next
  case (eff_select g now c g')
  then show ?case
    unfolding phase_core [OF eff_select(7)]
    by (auto simp: gate_phase_def effect_defs intro: r_into_rtranclp select)
qed

lemma gate_step_simulates:
  assumes "gate_core_inv g"
  shows "(lease_step (g_config g))\<^sup>*\<^sup>* (gate_phase g) (gate_phase (gate_step g e))"
proof -
  obtain h where h: "gate_effect e g h" "gate_effect e h (gate_step g e)"
    using gate_step_effects by blast
  with assms have "gate_core_inv h" "g_config h = g_config g"
    using effect_core_inv effect_frame by blast+
  with assms h show ?thesis
    using effect_simulates by (metis rtranclp_trans)
qed

subsection \<open>What a moving gate has behind it\<close>

text \<open>The time at which an event starts or extends the authority of a lease.\<close>

fun grant_time :: "gate_event \<Rightarrow> time option" where
  "grant_time (EvOpen rq now p) = Some now"
| "grant_time (EvStartWindow now) = Some now"
| "grant_time (EvRenew rq now) = Some now"
| "grant_time _ = None"

definition justified :: "gate_event list \<Rightarrow> gate \<Rightarrow> bool" where
  "justified es g \<longleftrightarrow>
     (g_state g = Armed \<longrightarrow> (\<exists>e \<in> set es. \<exists>t. grant_time e = Some t \<and>
        g_authority_deadline g = t + ms (authority_lease (g_config g)))) \<and>
     (g_state g = Armed \<and> g_candidate_fresh g \<longrightarrow> (\<exists>c t. EvCandidate c t \<in> set es \<and>
        candidate_finite c \<and> unsupported_axes_zero c \<and> cd_lease c = g_lease g \<and>
        cd_gid c = g_gid g \<and> g_selected g = clamp_candidate (g_config g) c \<and>
        g_candidate_deadline g = t + ms (candidate_freshness (g_config g))))"

lemma justified_core:
  assumes "g_core g' = g_core g"
  shows "justified es g' = justified es g"
  by (simp add: justified_def core_fields [OF assms])

lemma justified_not_armed: "g_state g \<noteq> Armed \<Longrightarrow> justified es g"
  by (simp add: justified_def)

lemma effect_justified:
  "gate_effect e g g' \<Longrightarrow> justified es g \<Longrightarrow> e \<in> set es \<Longrightarrow> justified es g'"
proof (induction rule: gate_effect.induct)
  case (eff_keep g' g e)
  then show ?case using justified_core by blast
next
  case (eff_retire g g' r d e)
  then show ?case using justified_core [OF eff_retire(3)]
    by (simp add: justified_not_armed effect_defs)
next
  case (eff_fault g' r d g e)
  then show ?case using justified_core [OF eff_fault(1)] by (simp add: justified_not_armed)
next
  case (eff_exhaust g g' e)
  then show ?case using justified_core [OF eff_exhaust(2)]
    by (simp add: justified_not_armed effect_defs)
next
  case (eff_prepare g g' now rq p)
  then show ?case using justified_core [OF eff_prepare(3)]
    by (simp add: justified_not_armed effect_defs)
next
  case (eff_open g now gid g' rq p)
  then have "justified es (opened now gid g)"
    by (force simp: justified_def effect_defs)
  then show ?case using justified_core [OF eff_open(5)] by simp
next
  case (eff_renew g now g' rq)
  then have "justified es (renewed now g)"
    by (force simp: justified_def effect_defs)
  then show ?case using justified_core [OF eff_renew(4)] by simp
next
  case (eff_reassert g g' rq now)
  then show ?case using justified_core [OF eff_reassert(3)]
    by (simp add: justified_not_armed effect_defs)
next
  case (eff_window g g' now)
  then have "justified es (start_armed_window now g)"
    by (force simp: justified_def start_armed_window_def)
  then show ?case using justified_core [OF eff_window(2)] by simp
next
  case (eff_select g now c g')
  then have "justified es (selecting c now g)"
    by (force simp: justified_def effect_defs)
  then show ?case using justified_core [OF eff_select(7)] by simp
qed

lemma justified_mono: "justified es g \<Longrightarrow> set es \<subseteq> set fs \<Longrightarrow> justified fs g"
  unfolding justified_def by blast

lemma gate_step_justified: "justified es g \<Longrightarrow> justified (es @ [e]) (gate_step g e)"
  using gate_step_effects [of e g] justified_mono [of es g "es @ [e]"] effect_justified
  by (metis in_set_conv_decomp set_append sup_ge1)

lemma gate_run_justified: "justified es (run gate_step (gate_init cfg gid seq) es)"
proof (induction es rule: rev_induct)
  case Nil
  then show ?case by (simp add: gate_init_def Let_def justified_not_armed)
next
  case (snoc e es)
  then show ?case by (simp add: run_append gate_step_justified)
qed

lemma reconcile_armed:
  assumes "g_state (reconcile_deadlines now g) = Armed"
  shows "reconcile_deadlines now g = g"
  using assms
  by (auto simp: reconcile_deadlines_def retire_lease_def advance_control_seq_def effect_defs
      split: if_splits)

lemma zero_command_is_zero [simp]: "is_zero zero_command"
  by (simp add: is_zero_def zero_command_def)

lemma tick_moving:
  assumes "\<not> is_zero (fst (gate_tick now g))"
  shows "g_state g = Armed" "g_candidate_fresh g" "fst (gate_tick now g) = g_selected g"
    "snd (gate_tick now g) = g" "now < g_authority_deadline g"
    "g_candidate_seen g \<Longrightarrow> now < g_candidate_deadline g"
proof -
  let ?g = "reconcile_deadlines now g"
  have st: "g_state ?g = Armed" "g_candidate_fresh ?g"
    using assms by (auto simp: gate_tick_def Let_def split: if_splits)
  then have eq: "?g = g" using reconcile_armed by blast
  with st show "g_state g = Armed" "g_candidate_fresh g" by simp_all
  then show "fst (gate_tick now g) = g_selected g" "snd (gate_tick now g) = g"
    using eq by (simp_all add: gate_tick_def Let_def)
  show "now < g_authority_deadline g" "g_candidate_seen g \<Longrightarrow> now < g_candidate_deadline g"
    using reconciled_live [of now g] st eq by simp_all
qed



subsection \<open>Applied requests\<close>

lemma applied_code [simp]: "rs_code (applied rq g) = CodeApplied" "rs_seq (applied rq g) = g_seq g"
  "rs_lease (applied rq g) = g_lease g" "rs_state (applied rq g) = g_state g"
  by (simp_all add: applied_def)

lemma unapplied_code: "unapplied r g g' \<Longrightarrow> rs_code r \<noteq> CodeApplied"
  by (simp add: unapplied_def)

text \<open>
  The dispatch of a request to the core, as the node's control service does it (the switch of
  \<open>on_control\<close> in motion_gate_node.cpp): the operation byte chooses the method, and an unknown
  byte is sent to PREPARE, whose common checks refuse it.
\<close>

definition gate_handle :: "control_request \<Rightarrow> time \<Rightarrow> prepare_admission outcome option \<Rightarrow>
    open_binding outcome option \<Rightarrow> gate \<Rightarrow> control_result \<times> gate" where
  "gate_handle rq now pa ob g = (case rq_operation rq of
     OpPrepare \<Rightarrow> gate_prepare rq now pa g
   | OpOpen \<Rightarrow> gate_open rq now ob g
   | OpRenew \<Rightarrow> gate_renew rq now g
   | OpInhibit \<Rightarrow> gate_inhibit rq now g
   | OpOther _ \<Rightarrow> gate_prepare rq now pa g)"

lemma gate_handle_step:
  "snd (gate_handle rq now pa ob g) \<in> {gate_step g (EvPrepare rq now pa),
     gate_step g (EvOpen rq now ob), gate_step g (EvRenew rq now), gate_step g (EvInhibit rq now)}"
  by (simp add: gate_handle_def split: operation.split)

lemma gate_handle_inv: "gate_inv g \<Longrightarrow> gate_inv (snd (gate_handle rq now pa ob g))"
  using gate_handle_step [of rq now pa ob g] gate_machine.step_inv by (metis insertE empty_iff)

lemma effects_seq_fields:
  "g_seq (prepared now g) = g_seq g + 1" "g_seq (opened now gid g) = g_seq g + 1"
  "g_seq (renewed now g) = g_seq g + 1" "g_seq (reasserted g) = g_seq g + 1"
  "g_seq (retired r d g) = g_seq g + 1" "g_state (exhausted g) = Faulted"
  by (simp_all add: effect_defs)

text \<open>Requests are compare-and-swap on the gate's sequence number.\<close>

lemma applied_request_was_current:
  assumes "rs_code (fst (gate_handle rq now pa ob g)) = CodeApplied"
  shows "rq_gate rq = g_id g \<and> rq_expected_seq rq = g_seq (reconcile_deadlines now g) \<and>
    (rs_seq (fst (gate_handle rq now pa ob g)) = rq_expected_seq rq + 1 \<or>
     rs_state (fst (gate_handle rq now pa ob g)) = Faulted)"
proof -
  let ?g = "reconcile_deadlines now g"
  have id: "g_id ?g = g_id g" using effect_frame [OF reconcile_effect] by blast
  show ?thesis
  proof (cases "rq_operation rq")
    case OpPrepare
    with assms show ?thesis
      using gate_prepare_cases [of rq now pa g] id
      by (auto simp: gate_handle_def current_request_def effects_seq_fields dest: unapplied_code)
  next
    case OpOpen
    with assms show ?thesis
      using gate_open_cases [of rq now ob g] id
      by (auto simp: gate_handle_def current_request_def effects_seq_fields dest: unapplied_code)
  next
    case OpRenew
    with assms show ?thesis
      using gate_renew_cases [of rq now g] id
      by (auto simp: gate_handle_def current_request_def effects_seq_fields dest: unapplied_code)
  next
    case OpInhibit
    with assms show ?thesis
      using gate_inhibit_cases [of rq now g] id
        retire_lease_cases [of ?g NoReason "''lease inhibited''"]
      by (auto simp: gate_handle_def effects_seq_fields dest: unapplied_code)
  next
    case OpOther
    with assms show ?thesis
      using gate_prepare_cases [of rq now pa g]
      by (auto simp: gate_handle_def current_request_def dest: unapplied_code)
  qed
qed

lemma prepare_applied:
  assumes "rs_code (fst (gate_prepare rq now p g)) = CodeApplied"
  shows "rs_lease (fst (gate_prepare rq now p g)) =
      make_lease_id (g_id g) (g_seq (snd (gate_prepare rq now p g)))"
    and "g_seq g < g_seq (snd (gate_prepare rq now p g))"
proof -
  let ?g = "reconcile_deadlines now g"
  have c: "g_core (snd (gate_prepare rq now p g)) = g_core (prepared now ?g)"
    "fst (gate_prepare rq now p g) = applied rq (prepared now ?g)" "g_seq ?g \<noteq> u64_max"
    using gate_prepare_cases [of rq now p g] assms unapplied_code
    by (auto simp: current_request_def)
  have id: "g_id ?g = g_id g" and le: "g_seq g \<le> g_seq ?g"
    using effect_frame [OF reconcile_effect] effect_seq [OF reconcile_effect] by blast+
  have seq: "g_seq (snd (gate_prepare rq now p g)) = g_seq ?g + 1"
    using core_fields(5) [OF c(1)] by (simp add: effects_seq_fields)
  show "rs_lease (fst (gate_prepare rq now p g)) =
      make_lease_id (g_id g) (g_seq (snd (gate_prepare rq now p g)))"
    using c(2) seq id by (simp add: prepared_def Let_def)
  show "g_seq g < g_seq (snd (gate_prepare rq now p g))"
    using seq le u64_succ_greater [OF c(3)] by (simp add: le_less_trans)
qed

lemma make_lease_id_inj:
  assumes "make_lease_id gid s = make_lease_id gid t"
  shows "s = t"
proof -
  have "hex_digits 16 (unat (lower_half gid XOR s)) = hex_digits 16 (unat (lower_half gid XOR t))"
    using assms by (simp add: make_lease_id_def)
  then have "unat (lower_half gid XOR s) = unat (lower_half gid XOR t)"
    by (rule hex_digits_inj) (use unsigned_less [where 'b=64 and 'a=nat] in \<open>simp_all\<close>)
  then have "lower_half gid XOR s = lower_half gid XOR t"
    by (simp add: word_unat_eq_iff)
  then have "lower_half gid XOR (lower_half gid XOR s) = lower_half gid XOR (lower_half gid XOR t)"
    by simp
  then show ?thesis by (simp add: xor.assoc [symmetric])
qed

text \<open>C8: a lease identifier is never granted twice by one gate.\<close>

theorem leases_never_reused:
  assumes "gate_inv g"
    and first: "rs_code (fst (gate_prepare rq now p g)) = CodeApplied"
    and later: "g' = run gate_step (snd (gate_prepare rq now p g)) es"
    and again: "rs_code (fst (gate_prepare rq' now' p' g')) = CodeApplied"
  shows "rs_lease (fst (gate_prepare rq' now' p' g')) \<noteq> rs_lease (fst (gate_prepare rq now p g))"
proof -
  let ?g1 = "snd (gate_prepare rq now p g)"
  have inv: "gate_inv ?g1"
    using gate_machine.step_inv [OF assms(1), of "EvPrepare rq now p"] by simp
  have "unat (g_seq ?g1) \<le> unat (g_seq g')"
    unfolding later by (rule gate_sequence.run_mono [OF inv])
  then have lt: "g_seq ?g1 < g_seq (snd (gate_prepare rq' now' p' g'))"
    using prepare_applied(2) [OF again] by (simp add: word_less_nat_alt)
  have "g_id g' = g_id g"
    unfolding later using gate_step_id [of g "EvPrepare rq now p"] by simp
  then show ?thesis
    using prepare_applied(1) [OF first] prepare_applied(1) [OF again] lt make_lease_id_inj
    by (metis less_irrefl)
qed

subsection \<open>Stopping and faults\<close>

lemma effect_stopped:
  "gate_effect e g g' \<Longrightarrow> g_state g = Inhibited \<or> g_state g = Faulted \<Longrightarrow>
   (\<forall>rq now p. e \<noteq> EvPrepare rq now p) \<Longrightarrow> g_state g' = Inhibited \<or> g_state g' = Faulted"
  by (induction rule: gate_effect.induct; drule core_main) (auto simp: effect_defs)

lemma run_stopped:
  "g_state g = Inhibited \<or> g_state g = Faulted \<Longrightarrow>
   \<forall>e \<in> set es. \<forall>rq now p. e \<noteq> EvPrepare rq now p \<Longrightarrow>
   g_state (run gate_step g es) = Inhibited \<or> g_state (run gate_step g es) = Faulted"
proof (induction es arbitrary: g)
  case (Cons e es)
  have "g_state (gate_step g e) = Inhibited \<or> g_state (gate_step g e) = Faulted"
    using gate_step_effects [of e g] effect_stopped Cons.prems by (metis list.set_intros(1))
  then show ?case using Cons by simp
qed simp

lemma tick_stopped: "g_state g \<noteq> Armed \<Longrightarrow> fst (gate_tick now g) = zero_command"
  using reconcile_armed [of now g] by (auto simp: gate_tick_def Let_def)


text \<open>A fault is permanent: no event and no request moves a faulted gate.\<close>

lemma gate_fault_is_latched:
  assumes "gate_inv g" and "g_state g = Faulted"
  shows "g_state (run gate_step g es) = Faulted \<and>
    fst (gate_tick now (run gate_step g es)) = zero_command \<and>
    rs_code (fst (gate_handle rq now pa ob (run gate_step g es))) \<noteq> CodeApplied"
proof -
  let ?g = "run gate_step g es"
  have f: "g_state ?g = Faulted" by (rule gate_latch.run_latched [OF assms])
  have r: "reconcile_deadlines now ?g = ?g" using f by (simp add: reconcile_deadlines_def)
  have "rs_code (fst (gate_handle rq now pa ob ?g)) \<noteq> CodeApplied"
    using gate_prepare_cases [of rq now pa ?g] gate_open_cases [of rq now ob ?g]
      gate_renew_cases [of rq now ?g] gate_inhibit_cases [of rq now ?g] f r unapplied_code
    by (auto simp: gate_handle_def split: operation.split)
  then show ?thesis using f by (simp add: tick_stopped)
qed

subsection \<open>The handover that lets the robot move\<close>

lemma fresh_replay: "map_of (g_cache g) (rq_id rq) = None \<Longrightarrow> replay_or_collision rq g = None"
  by (simp add: replay_or_collision_def)

lemma evict_subset: "fst ` set (fst (evict_oldest n cache order)) \<subseteq> fst ` set cache"
proof (induction n cache order rule: evict_oldest.induct)
  case (2 n cache oldest order)
  have "fst ` set (AList.delete oldest cache) \<subseteq> fst ` set cache"
    by (metis delete_keys image_set set_removeAll Diff_subset keys_delete)
  with 2 show ?case by auto
qed simp

lemma remember_other:
  assumes "k \<noteq> rq_id rq" and "map_of (g_cache g) k = None"
  shows "map_of (g_cache (remember rq r b g)) k = None"
proof -
  have "map_of (fst (evict_oldest n (g_cache g) (g_order g))) k = None" for n
    using assms(2) evict_subset [of n "g_cache g" "g_order g"]
    by (auto simp: map_of_eq_None_iff)
  then show ?thesis
    using assms
    by (auto simp: remember_def Let_def map_of_eq_None_iff dom_update
        split: option.splits prod.splits) (metis fst_conv image_eqI)
qed

lemma validate_common_ok:
  assumes "valid_identifier (rq_id rq)" "rq_operation rq = op" "rq_gate rq = g_id g"
    "valid_identifier (g_id g)" "g_state g \<noteq> Faulted" "rq_expected_seq rq = g_seq g"
    "if b then valid_identifier (rq_lease rq) else rq_lease rq = []"
  shows "validate_common rq op b g = (None, g)"
  using assms by (simp add: validate_common_def split: if_splits)

lemma gate_prepare_succeeds:
  assumes "map_of (g_cache g) (rq_id rq) = None" "valid_identifier (rq_id rq)"
    "rq_operation rq = OpPrepare" "rq_gate rq = g_id g" "valid_identifier (g_id g)"
    "g_state g = Inhibited" "rq_expected_seq rq = g_seq g" "rq_lease rq = []" "g_seq g \<noteq> u64_max"
  shows "gate_prepare rq now None g =
    (applied rq (prepared now g), remember rq (applied rq (prepared now g)) True (prepared now g))"
proof -
  have r: "reconcile_deadlines now g = g" using assms by (simp add: reconcile_deadlines_def)
  have v: "validate_common rq OpPrepare False g = (None, g)"
    using assms by (simp add: validate_common_ok)
  have "gate_prepare rq now None g = prepare_lease rq now g"
    using assms by (simp add: gate_prepare_def r fresh_replay v)
  then show ?thesis
    using assms by (simp add: prepare_lease_def advance_control_seq_def answer_def prepared_def Let_def)
qed

lemma gate_open_succeeds:
  assumes "map_of (g_cache g) (rq_id rq) = None" "valid_identifier (rq_id rq)"
    "rq_operation rq = OpOpen" "rq_gate rq = g_id g" "valid_identifier (g_id g)"
    "g_state g = Prepared" "rq_expected_seq rq = g_seq g" "g_seq g \<noteq> u64_max"
    "rq_lease rq = g_lease g" "valid_identifier (g_lease g)" "now < g_prepare_deadline g"
    "ob_ready b" "ob_reason b = NoReason" "gid_is_nonzero (ob_gid b)"
  shows "gate_open rq now (Some (Returned b)) g =
    (applied rq (opened now (ob_gid b) g),
     remember rq (applied rq (opened now (ob_gid b) g)) True (opened now (ob_gid b) g))"
proof -
  have r: "reconcile_deadlines now g = g" using assms by (simp add: reconcile_deadlines_def)
  have v: "validate_common rq OpOpen True g = (None, g)"
    using assms by (simp add: validate_common_ok)
  have "gate_open rq now (Some (Returned b)) g = open_lease rq now (ob_gid b) g"
    using assms by (simp add: gate_open_def r fresh_replay v)
  then show ?thesis
    using assms by (simp add: open_lease_def advance_control_seq_def answer_def opened_def Let_def)
qed

lemma accept_candidate_succeeds:
  assumes "g_state g = Armed" "now < g_authority_deadline g" "\<not> g_candidate_seen g"
    "cd_lease c = g_lease g" "valid_identifier (g_lease g)" "\<not> cd_intra_process c"
    "cd_gid c = g_gid g" "gid_is_nonzero (g_gid g)" "candidate_finite c" "unsupported_axes_zero c"
  shows "snd (accept_candidate c now g) = selecting c now g"
  using assms
  by (simp add: accept_candidate_def reconcile_deadlines_def selecting_def Let_def)

lemma remember_fields [simp]:
  "g_config (remember rq r b g) = g_config g" "g_id (remember rq r b g) = g_id g"
  "g_state (remember rq r b g) = g_state g" "g_seq (remember rq r b g) = g_seq g"
  "g_lease (remember rq r b g) = g_lease g" "g_gid (remember rq r b g) = g_gid g"
  "g_candidate_seen (remember rq r b g) = g_candidate_seen g"
  "g_prepare_deadline (remember rq r b g) = g_prepare_deadline g"
  "g_authority_deadline (remember rq r b g) = g_authority_deadline g"
  by (rule core_fields [OF core_remember])+

end
