(* ===== verification/Motion_Gate_Runs.thy ===== *)
theory Motion_Gate_Runs
  imports Motion_Gate_Spec
begin

text \<open>
  Runs of the gate that succeed: the handover PREPARE, OPEN, candidate that moves the robot, the
  INHIBIT that stops it, the retransmission of an applied request, and the concrete runs at which
  the properties of the gate are applied.
\<close>

text \<open>The three events of a handover: PREPARE, OPEN with a ready binding, and a candidate.\<close>

definition handover_events :: "string \<Rightarrow> u64 \<Rightarrow> string \<Rightarrow> string \<Rightarrow> open_binding \<Rightarrow> candidate \<Rightarrow>
    time \<Rightarrow> time \<Rightarrow> time \<Rightarrow> gate_event list" where
  "handover_events gid seq id1 id2 b c t0 t1 t2 =
     [EvPrepare \<lparr>rq_operation = OpPrepare, rq_id = id1, rq_gate = gid, rq_expected_seq = seq,
        rq_lease = []\<rparr> t0 None,
      EvOpen \<lparr>rq_operation = OpOpen, rq_id = id2, rq_gate = gid, rq_expected_seq = seq + 1,
        rq_lease = make_lease_id gid (seq + 1)\<rparr> t1 (Some (Returned b)),
      EvCandidate c t2]"

lemma handover_run:
  assumes cfg: "config_is_valid cfg" "valid_identifier gid" and room: "unat seq + 2 < 2 ^ 64"
    and ids: "valid_identifier id1" "valid_identifier id2" "id1 \<noteq> id2"
    and binding: "ob_ready b" "ob_reason b = NoReason" "gid_is_nonzero (ob_gid b)"
    and cand: "cd_lease c = make_lease_id gid (seq + 1)" "cd_gid c = ob_gid b"
      "\<not> cd_intra_process c" "candidate_finite c" "unsupported_axes_zero c"
    and times: "t1 < t0 + ms (prepare_timeout cfg)" "t2 < t1 + ms (authority_lease cfg)"
    and g: "g = run gate_step (gate_init cfg gid seq) (handover_events gid seq id1 id2 b c t0 t1 t2)"
  shows "g_state g = Armed" "g_lease g = make_lease_id gid (seq + 1)" "g_id g = gid"
    "g_seq g = seq + 2" "g_config g = cfg" "g_candidate_seen g" "g_candidate_fresh g"
    "g_selected g = clamp_candidate cfg c"
    "g_authority_deadline g = t1 + ms (authority_lease cfg)"
    "g_candidate_deadline g = t2 + ms (candidate_freshness cfg)"
    "\<And>k. k \<noteq> id1 \<Longrightarrow> k \<noteq> id2 \<Longrightarrow> map_of (g_cache g) k = None"
proof -
  let ?r1 = "\<lparr>rq_operation = OpPrepare, rq_id = id1, rq_gate = gid, rq_expected_seq = seq,
    rq_lease = []\<rparr>"
  let ?r2 = "\<lparr>rq_operation = OpOpen, rq_id = id2, rq_gate = gid, rq_expected_seq = seq + 1,
    rq_lease = make_lease_id gid (seq + 1)\<rparr>"
  have "seq \<noteq> u64_max" using room unat_u64_max by auto
  moreover from this have "seq + 1 \<noteq> u64_max"
    using room unat_u64_max unat_u64_succ [of seq] by force
  ultimately have seqs: "seq \<noteq> u64_max" "seq + 1 \<noteq> u64_max" .
  define g0 where "g0 = gate_init cfg gid seq"
  have g0: "g_state g0 = Inhibited" "g_id g0 = gid" "g_seq g0 = seq" "g_cache g0 = []"
    "g_config g0 = cfg"
    using cfg by (simp_all add: g0_def gate_init_def Let_def)
  define g1 where "g1 = snd (gate_prepare ?r1 t0 None g0)"
  have g1_eq: "g1 = remember ?r1 (applied ?r1 (prepared t0 g0)) True (prepared t0 g0)"
    unfolding g1_def by (subst gate_prepare_succeeds) (use g0 cfg ids seqs in simp_all)
  have g1: "g_state g1 = Prepared" "g_id g1 = gid" "g_seq g1 = seq + 1"
    "g_lease g1 = make_lease_id gid (seq + 1)"
    "g_prepare_deadline g1 = t0 + ms (prepare_timeout cfg)" "g_config g1 = cfg"
    unfolding g1_eq using g0 by (simp_all add: effect_defs)
  have free: "map_of (g_cache g1) k = None" if "k \<noteq> id1" for k
    unfolding g1_eq using that g0 by (intro remember_other) (simp_all add: effect_defs)
  have valid: "valid_identifier (make_lease_id gid (seq + 1))"
    using cfg by (simp add: make_lease_id_valid)
  define g2 where "g2 = snd (gate_open ?r2 t1 (Some (Returned b)) g1)"
  have g2_eq: "g2 = remember ?r2 (applied ?r2 (opened t1 (ob_gid b) g1)) True
      (opened t1 (ob_gid b) g1)"
    unfolding g2_def
    by (subst gate_open_succeeds) (use g1 cfg ids seqs free valid binding times in simp_all)
  have g2: "g_state g2 = Armed" "g_lease g2 = make_lease_id gid (seq + 1)" "g_gid g2 = ob_gid b"
    "g_config g2 = cfg" "g_authority_deadline g2 = t1 + ms (authority_lease cfg)"
    "\<not> g_candidate_seen g2" "g_id g2 = gid" "g_seq g2 = seq + 2"
    unfolding g2_eq using g1 by (simp_all add: effect_defs)
  have free2: "map_of (g_cache g2) k = None" if "k \<noteq> id1" "k \<noteq> id2" for k
    unfolding g2_eq using that free by (intro remember_other) (simp_all add: effect_defs)
  have "snd (accept_candidate c t2 g2) = selecting c t2 g2"
    using g2 cand valid binding times by (intro accept_candidate_succeeds) simp_all
  then have eq: "g = selecting c t2 g2"
    using g by (simp add: handover_events_def g0_def [symmetric] g1_def [symmetric]
      g2_def [symmetric])
  show "g_state g = Armed" "g_lease g = make_lease_id gid (seq + 1)" "g_id g = gid"
    "g_seq g = seq + 2" "g_config g = cfg" "g_candidate_seen g" "g_candidate_fresh g"
    "g_selected g = clamp_candidate cfg c"
    "g_authority_deadline g = t1 + ms (authority_lease cfg)"
    "g_candidate_deadline g = t2 + ms (candidate_freshness cfg)"
    "\<And>k. k \<noteq> id1 \<Longrightarrow> k \<noteq> id2 \<Longrightarrow> map_of (g_cache g) k = None"
    unfolding eq using g2 free2 by (simp_all add: effect_defs)
qed

lemma tick_armed:
  "g_state g = Armed \<Longrightarrow> g_candidate_fresh g \<Longrightarrow> now < g_authority_deadline g \<Longrightarrow>
   now < g_candidate_deadline g \<Longrightarrow> fst (gate_tick now g) = g_selected g"
  by (simp add: gate_tick_def reconcile_deadlines_def)

text \<open>The handover PREPARE, OPEN, candidate moves the robot, clamped to the limits.\<close>

lemma handover_moves_robot:
  assumes "config_is_valid cfg" "valid_identifier gid" "unat seq + 2 < 2 ^ 64"
    and "valid_identifier id1" "valid_identifier id2" "id1 \<noteq> id2"
    and "ob_ready b" "ob_reason b = NoReason" "gid_is_nonzero (ob_gid b)"
    and "cd_lease c = make_lease_id gid (seq + 1)" "cd_gid c = ob_gid b"
      "\<not> cd_intra_process c" "candidate_finite c" "unsupported_axes_zero c"
    and "t1 < t0 + ms (prepare_timeout cfg)" "t2 < t1 + ms (authority_lease cfg)"
    and "t3 < t1 + ms (authority_lease cfg)" "t3 < t2 + ms (candidate_freshness cfg)"
  shows "fst (gate_tick t3 (run gate_step (gate_init cfg gid seq)
      (handover_events gid seq id1 id2 b c t0 t1 t2))) = clamp_candidate cfg c"
  using handover_run [OF assms(1-16) refl] assms(17,18) by (simp add: tick_armed)

subsection \<open>Concrete runs\<close>

text \<open>A gate with the default configuration, driven through the handover.\<close>

definition demo_id :: "nat \<Rightarrow> string" where
  "demo_id n = replicate 31 CHR ''0'' @ [hex_digit n]"

definition demo_request :: "operation \<Rightarrow> nat \<Rightarrow> u64 \<Rightarrow> string \<Rightarrow> control_request" where
  "demo_request op n seq lease = \<lparr>rq_operation = op, rq_id = demo_id n, rq_gate = demo_id 10,
     rq_expected_seq = seq, rq_lease = lease\<rparr>"

definition demo_binding :: open_binding where
  "demo_binding = \<lparr>ob_ready = True, ob_reason = NoReason, ob_gid = replicate 15 0 @ [7],
     ob_detail = []\<rparr>"

definition demo_candidate :: candidate where
  "demo_candidate = \<lparr>cd_lease = make_lease_id (demo_id 10) 1, cd_gid = replicate 15 0 @ [7],
     cd_intra_process = False, cd_linear_x = Fin 3, cd_linear_y = Fin 0, cd_linear_z = Fin 0,
     cd_angular_x = Fin 0, cd_angular_y = Fin 0, cd_angular_z = Fin (1 / 2)\<rparr>"

definition demo_fresh_gate :: gate where
  "demo_fresh_gate = gate_init default_gate_config (demo_id 10) 0"

definition demo_events :: "gate_event list" where
  "demo_events =
     handover_events (demo_id 10) 0 (demo_id 1) (demo_id 2) demo_binding demo_candidate 0 5 10"

definition demo_gate :: gate where
  "demo_gate = run gate_step demo_fresh_gate demo_events"

lemma demo_id_valid [simp]: "n < 16 \<Longrightarrow> valid_identifier (demo_id n)"
  by (auto simp: valid_identifier_def demo_id_def list_all_iff) (simp add: is_hex_def)

lemma demo_id_inj [simp]: "m < 16 \<Longrightarrow> n < 16 \<Longrightarrow> demo_id m = demo_id n \<longleftrightarrow> m = n"
  by (simp add: demo_id_def) (metis hex_value_digit)

lemma default_config_valid [simp]: "config_is_valid default_gate_config"
  by (simp add: config_is_valid_def default_gate_config_def dbl_literal_defs)

lemma demo_applied:
  "rs_code (fst (gate_prepare (demo_request OpPrepare n 0 []) t None demo_fresh_gate)) = CodeApplied"
  if "n < 10"
  using that
  by (subst gate_prepare_succeeds)
    (simp_all add: demo_request_def demo_fresh_gate_def gate_init_def u64_max_def)

lemma demo_ready:
  "ob_ready demo_binding" "ob_reason demo_binding = NoReason" "gid_is_nonzero (ob_gid demo_binding)"
  "cd_lease demo_candidate = make_lease_id (demo_id 10) (0 + 1)"
  "cd_gid demo_candidate = ob_gid demo_binding" "\<not> cd_intra_process demo_candidate"
  "candidate_finite demo_candidate" "unsupported_axes_zero demo_candidate"
  by (simp_all add: demo_binding_def demo_candidate_def gid_is_nonzero_def candidate_finite_def
    unsupported_axes_zero_def)

lemma demo_clamped:
  "clamp_candidate default_gate_config demo_candidate =
     \<lparr>linear_x = dbl_0_40, angular_z = Fin (1 / 2)\<rparr>"
  by (simp add: clamp_candidate_def demo_candidate_def dclamp_def default_gate_config_def
    dbl_literal_defs)

lemma demo_times:
  "(5::time) < 0 + ms (prepare_timeout default_gate_config)"
  "(10::time) < 5 + ms (authority_lease default_gate_config)"
  "(20::time) < 5 + ms (authority_lease default_gate_config)"
  "(20::time) < 10 + ms (candidate_freshness default_gate_config)"
  by (simp_all add: ms_def default_gate_config_def)

lemmas demo_gate_facts = handover_run [where cfg = default_gate_config and gid = "demo_id 10" and
  seq = 0 and ?id1.0 = "demo_id 1" and ?id2.0 = "demo_id 2" and b = demo_binding and
  c = demo_candidate and ?t0.0 = 0 and ?t1.0 = 5 and ?t2.0 = 10 and g = demo_gate,
  OF default_config_valid demo_id_valid _ demo_id_valid demo_id_valid _ demo_ready demo_times(1,2)
    demo_gate_def [unfolded demo_events_def demo_fresh_gate_def], simplified]

lemma demo_gate_moves: "fst (gate_tick 20 demo_gate) = \<lparr>linear_x = dbl_0_40, angular_z = Fin (1 / 2)\<rparr>"
  using demo_gate_facts demo_times demo_clamped by (simp add: tick_armed)

lemma demo_gate_inv: "gate_inv demo_gate"
  by (simp add: demo_gate_def demo_fresh_gate_def gate_reachable_inv)

lemma handover_moves_robot_witness:
  "fst (gate_tick 20 (run gate_step demo_fresh_gate demo_events)) =
     \<lparr>linear_x = dbl_0_40, angular_z = Fin (1 / 2)\<rparr>"
  unfolding demo_events_def demo_fresh_gate_def
  by (subst handover_moves_robot [OF default_config_valid demo_id_valid _ demo_id_valid
    demo_id_valid _ demo_ready demo_times]) (simp_all add: demo_clamped)


lemma gate_inhibit_succeeds:
  assumes "map_of (g_cache g) (rq_id rq) = None" "valid_identifier (rq_id rq)"
    "rq_operation rq = OpInhibit" "rq_gate rq = g_id g" "valid_identifier (g_id g)"
    "g_state g = Armed" "rq_expected_seq rq = g_seq g"
    "rq_lease rq = g_lease g" "valid_identifier (g_lease g)" "now < g_authority_deadline g"
    "now < g_candidate_deadline g"
  shows "rs_code (fst (gate_inhibit rq now g)) = CodeApplied"
proof -
  have r: "reconcile_deadlines now g = g" using assms by (simp add: reconcile_deadlines_def)
  have v: "validate_common rq OpInhibit True g = (None, g)"
    using assms by (simp add: validate_common_ok)
  show ?thesis
    using assms by (simp add: gate_inhibit_def r fresh_replay v answer_def Let_def)
qed

lemma demo_inhibit:
  "rs_code (fst (gate_inhibit (demo_request OpInhibit 3 2 (make_lease_id (demo_id 10) 1)) 15
     demo_gate)) = CodeApplied"
  using demo_gate_facts
  by (intro gate_inhibit_succeeds)
    (simp_all add: demo_request_def make_lease_id_valid ms_def default_gate_config_def)


theorem applied_request_was_current_witness:
  "rq_expected_seq (demo_request OpInhibit 3 2 (make_lease_id (demo_id 10) 1)) =
     g_seq (reconcile_deadlines 15 demo_gate)"
  using applied_request_was_current [of "demo_request OpInhibit 3 2 (make_lease_id (demo_id 10) 1)"
    15 None None demo_gate] demo_inhibit
  by (simp add: gate_handle_def demo_request_def)

theorem gate_fault_is_latched_witness:
  "fst (gate_tick 20 (run gate_step (force_fault PublishFailed [] demo_gate)
     (EvStartWindow 18 # demo_events))) = zero_command"
proof -
  have "gate_inv (force_fault PublishFailed [] demo_gate)"
    using gate_machine.step_inv [OF demo_gate_inv, of "EvForceFault PublishFailed []"] by simp
  moreover have "g_state (force_fault PublishFailed [] demo_gate) = Faulted"
    using demo_gate_facts
    by (simp add: force_fault_def Let_def clear_deadlines_def clear_lease_def)
  ultimately show ?thesis using gate_fault_is_latched by blast
qed


lemma demo_second_prepare:
  "rs_code (fst (gate_prepare (demo_request OpPrepare 2 2 []) (ms 3000) None
     (run gate_step (snd (gate_prepare (demo_request OpPrepare 1 0 []) 0 None demo_fresh_gate))
       [EvTick (ms 2000)]))) = CodeApplied"
proof -
  let ?rq = "demo_request OpPrepare 1 0 []"
  define g1 where "g1 = snd (gate_prepare ?rq 0 None demo_fresh_gate)"
  have g0: "g_state demo_fresh_gate = Inhibited" "g_id demo_fresh_gate = demo_id 10"
    "g_seq demo_fresh_gate = 0" "g_cache demo_fresh_gate = []"
    "g_config demo_fresh_gate = default_gate_config"
    by (simp_all add: demo_fresh_gate_def gate_init_def Let_def)
  have g1_eq: "g1 = remember ?rq (applied ?rq (prepared 0 demo_fresh_gate)) True
      (prepared 0 demo_fresh_gate)"
    unfolding g1_def
    by (subst gate_prepare_succeeds) (use g0 in \<open>simp_all add: demo_request_def u64_max_def\<close>)
  have g1: "g_state g1 = Prepared" "g_id g1 = demo_id 10" "g_seq g1 = 1"
    "g_prepare_deadline g1 = ms 1000" "map_of (g_cache g1) (demo_id 2) = None"
    unfolding g1_eq using g0
      remember_other [of "demo_id 2" ?rq "prepared 0 demo_fresh_gate"]
    by (simp_all add: effect_defs default_gate_config_def demo_request_def)
  define g2 where "g2 = gate_step g1 (EvTick (ms 2000))"
  have "g2 = retired PrepareExpired ''prepared lease expired'' g1"
    using g1 by (simp add: g2_def gate_tick_def Let_def reconcile_deadlines_def ms_def
      retire_lease_def advance_control_seq_def retired_def clear_lease_def clear_deadlines_def
      u64_max_def)
  then have g2: "g_state g2 = Inhibited" "g_id g2 = demo_id 10" "g_seq g2 = 2"
    "map_of (g_cache g2) (demo_id 2) = None"
    using g1 by (simp_all add: effect_defs)
  have "rs_code (fst (gate_prepare (demo_request OpPrepare 2 2 []) (ms 3000) None g2)) = CodeApplied"
    by (subst gate_prepare_succeeds) (use g2 in \<open>simp_all add: demo_request_def u64_max_def\<close>)
  then show ?thesis by (simp add: g1_def g2_def)
qed

theorem leases_never_reused_witness:
  "rs_lease (fst (gate_prepare (demo_request OpPrepare 2 2 []) (ms 3000) None
     (run gate_step (snd (gate_prepare (demo_request OpPrepare 1 0 []) 0 None demo_fresh_gate))
       [EvTick (ms 2000)]))) \<noteq>
   rs_lease (fst (gate_prepare (demo_request OpPrepare 1 0 []) 0 None demo_fresh_gate))"
proof (rule leases_never_reused [OF _ _ refl demo_second_prepare])
  show "gate_inv demo_fresh_gate"
    using gate_reachable_inv [of default_gate_config "demo_id 10" 0 "[]"]
    by (simp add: demo_fresh_gate_def)
  show "rs_code (fst (gate_prepare (demo_request OpPrepare 1 0 []) 0 None demo_fresh_gate)) =
      CodeApplied"
    by (rule demo_applied) simp
qed

end
