(* ===== verification/Mission_Authority.thy ===== *)
theory Mission_Authority
  imports Motion_Gate
begin

text \<open>
  The mission side of the authority boundary: the Gate snapshots, operations and results of
  mission_runtime_core.hpp, the trust rule \<open>inhibit_result_proves_zero\<close> and the bounded retry
  loop \<open>MissionAuthorityConvergence::run\<close> with its four-operation adapter
  (mission_authority_convergence.hpp). The clock, the service attempt and the refresh are
  functions of an environment \<open>'e\<close>, which every call returns changed: what happens between two
  calls is part of the environment.
\<close>

subsection \<open>Snapshots, operations and results\<close>

record auth_snapshot =
  as_gate :: string
  as_seq :: u64
  as_lease :: string
  as_state :: gate_state
  as_endpoint :: bool
  as_inhibited :: bool
  as_zero_selected :: bool
  as_zero_published :: bool
  as_topic :: string
  as_authority_live :: bool
  as_writer_bound :: bool

definition default_snapshot :: auth_snapshot where
  "default_snapshot = \<lparr>as_gate = [], as_seq = 0, as_lease = [], as_state = Faulted,
     as_endpoint = False, as_inhibited = True, as_zero_selected = True, as_zero_published = False,
     as_topic = [], as_authority_live = False, as_writer_bound = False\<rparr>"

record auth_op =
  ao_id :: string
  ao_gate :: string
  ao_seq :: u64
  ao_lease :: string
  ao_bound :: bool

record auth_result =
  ar_applied :: bool
  ar_zero_proven :: bool
  ar_retryable :: bool
  ar_snapshot :: auth_snapshot
  ar_lease :: string
  ar_detail :: string
  ar_stale :: bool
  ar_unavailable :: bool

datatype op_kind = KPrepare | KOpen | KRenew | KInhibit

text \<open>The trust rule: what makes the result of an INHIBIT a proof that the wheels are at zero.\<close>

definition complete_zero :: "auth_op \<Rightarrow> auth_result \<Rightarrow> bool" where
  "complete_zero op r \<longleftrightarrow> ar_zero_proven r \<and> \<not> ar_unavailable r \<and> ao_gate op \<noteq> [] \<and>
     as_gate (ar_snapshot r) = ao_gate op \<and> as_endpoint (ar_snapshot r) \<and>
     as_state (ar_snapshot r) = Inhibited \<and> as_inhibited (ar_snapshot r) \<and>
     as_zero_selected (ar_snapshot r) \<and> as_zero_published (ar_snapshot r)"

definition inhibit_result_proves_zero :: "auth_op \<Rightarrow> auth_result \<Rightarrow> bool" where
  "inhibit_result_proves_zero op r \<longleftrightarrow>
     (if \<not> complete_zero op r then False
      else if ar_applied r then ao_seq op \<le> as_seq (ar_snapshot r)
      else ar_stale r \<and> ao_seq op < as_seq (ar_snapshot r))"

subsection \<open>The retry loop\<close>

record 'e authority_ports =
  cv_now :: "'e \<Rightarrow> time \<times> 'e"
  cv_attempt :: "auth_op \<Rightarrow> op_kind \<Rightarrow> time \<Rightarrow> time \<Rightarrow> 'e \<Rightarrow> auth_result \<times> 'e"
  cv_refresh :: "('e \<Rightarrow> 'e) option"

definition initial_result :: auth_result where
  "initial_result = \<lparr>ar_applied = False, ar_zero_proven = False, ar_retryable = True,
     ar_snapshot = default_snapshot, ar_lease = [],
     ar_detail = ''MotionGate control operation did not complete before its steady deadline'',
     ar_stale = False, ar_unavailable = False\<rparr>"

text \<open>A result that is revoked: nothing it says can be used as a proof.\<close>

definition revoked :: "string \<Rightarrow> auth_result \<Rightarrow> auth_result" where
  "revoked d r = r\<lparr>ar_applied := False, ar_zero_proven := False, ar_retryable := False,
     ar_detail := d\<rparr>"

text \<open>The operation rebuilt from the latest response: same request, the tuple the Gate reported.\<close>

definition rebuild :: "op_kind \<Rightarrow> auth_snapshot \<Rightarrow> auth_op \<Rightarrow> auth_op" where
  "rebuild kind s op = op\<lparr>ao_gate := as_gate s, ao_seq := as_seq s,
     ao_lease := (if kind = KPrepare then [] else as_lease s)\<rparr>"

text \<open>
  The tail of an iteration, after an attempt that ended before the deadline: the answer to
  return, or the operation of the next attempt.
\<close>

definition converge_next :: "op_kind \<Rightarrow> auth_op \<Rightarrow> auth_result \<Rightarrow> auth_result + auth_op" where
  "converge_next kind current r =
     (if ar_applied r \<and> (kind \<noteq> KInhibit \<or> ar_zero_proven r) then Inl r
      else if kind = KInhibit \<and> \<not> ar_applied r \<and> inhibit_result_proves_zero current r then Inl r
      else if \<not> ar_retryable r then Inl r
      else if ar_stale r \<and> as_endpoint (ar_snapshot r) then
        (if ao_bound current \<and> as_gate (ar_snapshot r) \<noteq> ao_gate current
         then Inl (revoked ''MotionGate identity changed during a generation-bound operation'' r)
         else Inr (rebuild kind (ar_snapshot r) current))
      else Inr current)"

definition refreshed :: "'e authority_ports \<Rightarrow> op_kind \<Rightarrow> 'e \<Rightarrow> 'e" where
  "refreshed P kind e =
     (if kind = KInhibit then (case cv_refresh P of Some f \<Rightarrow> f e | None \<Rightarrow> e) else e)"

partial_function (option) converge_loop :: "'e authority_ports \<Rightarrow> op_kind \<Rightarrow> time \<Rightarrow> time \<Rightarrow>
    auth_op \<Rightarrow> auth_result \<Rightarrow> 'e \<Rightarrow> (auth_result \<times> 'e) option" where
  "converge_loop C kind single deadline current prev e =
     (case cv_now C e of (t, e1) \<Rightarrow>
      if \<not> t < deadline then Some (prev, e1)
      else case cv_now C (refreshed C kind e1) of (started, e2) \<Rightarrow>
      case cv_attempt C current kind (min deadline (started + single)) deadline e2 of (r, e3) \<Rightarrow>
      case cv_now C e3 of (t', e4) \<Rightarrow>
      if deadline \<le> t'
      then Some (revoked ''MotionGate control operation reached its steady deadline'' r, e4)
      else case converge_next kind current r of
        Inl ans \<Rightarrow> Some (ans, e4)
      | Inr nxt \<Rightarrow> converge_loop C kind single deadline nxt r e4)"

declare converge_loop.simps [code]

text \<open>The run: an invalid policy is the exception; otherwise the answer, if the loop ends.\<close>

definition converge :: "'e authority_ports \<Rightarrow> auth_op \<Rightarrow> op_kind \<Rightarrow> int \<Rightarrow> int \<Rightarrow> 'e \<Rightarrow>
    string + (auth_result \<times> 'e) option" where
  "converge P op kind overall single e =
     (if overall \<le> 0 \<or> single \<le> 0 then Inl ''invalid Mission Authority convergence policy''
      else case cv_now P e of (t, e1) \<Rightarrow>
        Inr (converge_loop P kind (ms single) (t + ms overall) op initial_result e1))"

text \<open>The adapter: its constructor checks the policy once, the four operations share it.\<close>

record 'e authority_adapter =
  aa_overall :: int
  aa_single :: int
  aa_ports :: "'e authority_ports"

definition adapter_init :: "int \<Rightarrow> int \<Rightarrow> 'e authority_ports \<Rightarrow> string + 'e authority_adapter" where
  "adapter_init overall single P =
     (if overall \<le> 0 \<or> single \<le> 0 then Inl ''invalid Mission Authority Adapter policy''
      else Inr \<lparr>aa_overall = overall, aa_single = single, aa_ports = P\<rparr>)"

definition adapter_run :: "'e authority_adapter \<Rightarrow> op_kind \<Rightarrow> auth_op \<Rightarrow> 'e \<Rightarrow>
    string + (auth_result \<times> 'e) option" where
  "adapter_run A kind op e = converge (aa_ports A) op kind (aa_overall A) (aa_single A) e"


subsection \<open>What an accepted answer proves\<close>

text \<open>The answers the loop accepts as the outcome of an operation.\<close>

definition accepted :: "op_kind \<Rightarrow> auth_result \<Rightarrow> bool" where
  "accepted kind r \<longleftrightarrow> ar_applied r \<and> (kind \<noteq> KInhibit \<or> ar_zero_proven r)"

text \<open>The operations one run may send: one request identifier, and one Gate when it is bound.\<close>

definition same_request :: "auth_op \<Rightarrow> auth_op \<Rightarrow> bool" where
  "same_request op op' \<longleftrightarrow> ao_id op' = ao_id op \<and> ao_bound op' = ao_bound op \<and>
     (ao_bound op \<longrightarrow> ao_gate op' = ao_gate op)"

definition timely_attempt :: "'e authority_ports \<Rightarrow> op_kind \<Rightarrow> time \<Rightarrow> auth_op \<Rightarrow> auth_result \<Rightarrow> bool" where
  "timely_attempt P kind deadline op r \<longleftrightarrow> (\<exists>op' e1 e2 d. same_request op op' \<and> d \<le> deadline \<and>
     cv_attempt P op' kind d deadline e1 = (r, e2) \<and> fst (cv_now P e2) < deadline)"

lemma same_request_refl [simp]: "same_request op op"
  by (simp add: same_request_def)

lemma not_accepted_revoked [simp]: "\<not> accepted kind (revoked d r)"
  by (simp add: accepted_def revoked_def)

lemma converge_next_same:
  assumes "converge_next kind current r = Inr nxt"
  shows "same_request current nxt" "\<not> accepted kind r"
  using assms
  by (auto simp: converge_next_def same_request_def rebuild_def accepted_def split: if_splits)

lemma converge_next_answer:
  assumes "converge_next kind current r = Inl ans" "accepted kind ans"
  shows "ans = r"
  using assms by (auto simp: converge_next_def split: if_splits)

lemma timely_attempt_other: "same_request op op' \<Longrightarrow> timely_attempt P kind d op' r \<Longrightarrow> timely_attempt P kind d op r"
  unfolding timely_attempt_def same_request_def by metis

lemma converge_loop_timely:
  assumes "converge_loop P kind single deadline current prev e = Some y"
  shows "\<not> accepted kind prev \<longrightarrow> accepted kind (fst y) \<longrightarrow>
    timely_attempt P kind deadline current (fst y)"
proof (rule converge_loop.raw_induct [where P = "\<lambda>P kind single deadline current prev e y.
    \<not> accepted kind prev \<longrightarrow> accepted kind (fst y) \<longrightarrow>
    timely_attempt P kind deadline current (fst y)", OF _ assms], intro impI)
  fix loop P kind single deadline current prev e y
  assume IH: "\<And>P kind single deadline current prev e y.
      loop P kind single deadline current prev e = Some y \<Longrightarrow>
      \<not> accepted kind prev \<longrightarrow> accepted kind (fst y) \<longrightarrow>
      timely_attempt P kind deadline current (fst y)"
    and body: "(case cv_now P e of (t, e1) \<Rightarrow>
      if \<not> t < deadline then Some (prev, e1)
      else case cv_now P (refreshed P kind e1) of (started, e2) \<Rightarrow>
      case cv_attempt P current kind (min deadline (started + single)) deadline e2 of (r, e3) \<Rightarrow>
      case cv_now P e3 of (t', e4) \<Rightarrow>
      if deadline \<le> t'
      then Some (revoked ''MotionGate control operation reached its steady deadline'' r, e4)
      else case converge_next kind current r of
        Inl ans \<Rightarrow> Some (ans, e4)
      | Inr nxt \<Rightarrow> loop P kind single deadline nxt r e4) = Some y"
    and prev: "\<not> accepted kind prev" and acc: "accepted kind (fst y)"
  obtain t e1 where n1: "cv_now P e = (t, e1)" by force
  obtain started e2 where n2: "cv_now P (refreshed P kind e1) = (started, e2)" by force
  obtain r e3 where a: "cv_attempt P current kind (min deadline (started + single)) deadline e2 =
      (r, e3)" by force
  obtain t' e4 where n3: "cv_now P e3 = (t', e4)" by force
  consider (late) "y = (prev, e1)"
    | (revoked) "fst y = revoked ''MotionGate control operation reached its steady deadline'' r"
    | (ans) "t' < deadline" "converge_next kind current r = Inl (fst y)"
    | (again) nxt where "t' < deadline" "converge_next kind current r = Inr nxt"
        "loop P kind single deadline nxt r e4 = Some y"
    using body by (auto simp: n1 n2 a n3 not_le split: if_splits sum.splits)
  then show "timely_attempt P kind deadline current (fst y)"
  proof cases
    case ans
    from converge_next_answer [OF ans(2) acc] show ?thesis
      using a n3 ans(1) unfolding timely_attempt_def
      by (metis fst_conv min.cobounded1 same_request_refl)
  next
    case again
    then show ?thesis
      using IH [OF again(3)] acc converge_next_same [OF again(2)] timely_attempt_other by blast
  qed (use prev acc in auto)
qed

text \<open>What a run returns as applied was answered before the deadline of the run.\<close>

lemma accepted_answer_is_timely:
  assumes "converge P op kind overall single e = Inr (Some (r, e'))"
    and "ar_applied r" and "kind \<noteq> KInhibit \<or> ar_zero_proven r"
  shows "\<exists>op' e1 e2 d. ao_id op' = ao_id op \<and> (ao_bound op \<longrightarrow> ao_gate op' = ao_gate op) \<and>
    cv_attempt P op' kind d (fst (cv_now P e) + ms overall) e1 = (r, e2) \<and>
    fst (cv_now P e2) < fst (cv_now P e) + ms overall"
proof -
  obtain t e1 where n: "cv_now P e = (t, e1)" by force
  have "converge_loop P kind (ms single) (t + ms overall) op initial_result e1 = Some (r, e')"
    using assms(1) n by (auto simp: converge_def split: if_splits)
  from converge_loop_timely [OF this] have "timely_attempt P kind (t + ms overall) op r"
    using assms(2,3) by (simp add: accepted_def initial_result_def)
  then show ?thesis
    using n unfolding timely_attempt_def same_request_def by auto
qed

subsection \<open>Termination\<close>

text \<open>
  A clock that never goes back and that every attempt moves by a nanosecond or more: what a
  steady clock and a service call are.
\<close>

definition steady_ports :: "'e authority_ports \<Rightarrow> ('e \<Rightarrow> time) \<Rightarrow> bool" where
  "steady_ports P tm \<longleftrightarrow> (\<forall>e. fst (cv_now P e) = tm e \<and> tm e \<le> tm (snd (cv_now P e)) \<and>
     (\<forall>f. cv_refresh P = Some f \<longrightarrow> tm e \<le> tm (f e)) \<and>
     (\<forall>op kind d d'. tm e < tm (snd (cv_attempt P op kind d d' e))))"

lemma steady_portsD:
  assumes "steady_ports P tm"
  shows "cv_now P e = (t, e') \<Longrightarrow> t = tm e \<and> tm e \<le> tm e'"
    and "tm e \<le> tm (refreshed P kind e)"
    and "cv_attempt P op kind d d' e = (r, e') \<Longrightarrow> tm e < tm e'"
proof -
  show "cv_now P e = (t, e') \<Longrightarrow> t = tm e \<and> tm e \<le> tm e'"
    using assms unfolding steady_ports_def by (metis fst_conv snd_conv)
  show "tm e \<le> tm (refreshed P kind e)"
    using assms by (auto simp: steady_ports_def refreshed_def split: option.split)
  show "cv_attempt P op kind d d' e = (r, e') \<Longrightarrow> tm e < tm e'"
    using assms unfolding steady_ports_def by (metis snd_conv)
qed

lemma converge_loop_terminates:
  assumes "steady_ports P tm"
  shows "\<exists>y. converge_loop P kind single deadline current prev e = Some y"
proof (induction "nat (deadline - tm e)" arbitrary: current prev e rule: less_induct)
  case less
  note d = steady_portsD [OF assms]
  obtain t e1 where n1: "cv_now P e = (t, e1)" by force
  obtain started e2 where n2: "cv_now P (refreshed P kind e1) = (started, e2)" by force
  obtain r e3 where a: "cv_attempt P current kind (min deadline (started + single)) deadline e2 =
      (r, e3)" by force
  obtain t' e4 where n3: "cv_now P e3 = (t', e4)" by force
  have "tm e \<le> tm e1" "tm e1 \<le> tm (refreshed P kind e1)" "tm (refreshed P kind e1) \<le> tm e2"
    "tm e2 < tm e3" "tm e3 \<le> tm e4" "t = tm e" "t' = tm e3"
    using d(1) [OF n1] d(2) [of e1] d(1) [OF n2] d(3) [OF a] d(1) [OF n3] by auto
  then have "t < deadline \<Longrightarrow> nat (deadline - tm e4) < nat (deadline - tm e)" by simp
  then show ?case
    using less by (subst converge_loop.simps) (auto simp: n1 n2 a n3 split: sum.split)
qed



subsection \<open>A proof kept past the deadline\<close>

text \<open>A scripted boundary: the readings of the clock and the answers of the Gate, in order.\<close>

definition scripted_ports :: "(time list \<times> auth_result list) authority_ports" where
  "scripted_ports = \<lparr>cv_now = (\<lambda>(ts, rs). (hd ts, (tl ts, rs))),
     cv_attempt = (\<lambda>op kind d d' (ts, rs). (hd rs, (ts, tl rs))), cv_refresh = None\<rparr>"

definition zero_snapshot :: "u64 \<Rightarrow> auth_snapshot" where
  "zero_snapshot seq = default_snapshot\<lparr>as_gate := ''g'', as_seq := seq, as_state := Inhibited,
     as_endpoint := True, as_zero_published := True\<rparr>"

definition stale_zero :: "u64 \<Rightarrow> auth_result" where
  "stale_zero seq = initial_result\<lparr>ar_zero_proven := True, ar_snapshot := zero_snapshot seq,
     ar_stale := True\<rparr>"

definition demo_op :: auth_op where
  "demo_op = \<lparr>ao_id = ''r'', ao_gate = ''g'', ao_seq = 5, ao_lease = [], ao_bound = False\<rparr>"

text \<open>
  The deadline check of the loop head does not revoke. A stale answer that proved nothing to
  the rebuilt operation is returned after the deadline with its zero proof, and the caller, who
  tests it against the operation it asked for, accepts it.
\<close>

lemma proof_survives_deadline:
  "\<exists>r e'. converge scripted_ports demo_op KInhibit 1 1
      ([0, 1, 2, 3, 4, 5, 6, 1000000], [stale_zero 7\<lparr>ar_zero_proven := False\<rparr>, stale_zero 7]) =
      Inr (Some (r, e')) \<and> inhibit_result_proves_zero demo_op r \<and> fst e' = [] \<and>
      ms 1 \<le> (1000000::time)"
  by (simp add: converge_def converge_loop.simps scripted_ports_def refreshed_def converge_next_def
    inhibit_result_proves_zero_def complete_zero_def stale_zero_def zero_snapshot_def
    initial_result_def demo_op_def rebuild_def default_snapshot_def ms_def)

text \<open>An answer that was applied before the deadline, at which the first property is used.\<close>

definition applied_zero :: auth_result where
  "applied_zero = (stale_zero 6)\<lparr>ar_applied := True, ar_stale := False\<rparr>"

lemma accepted_answer_is_timely_witness:
  "\<exists>op' e1 e2 d. ao_id op' = ''r'' \<and>
     cv_attempt scripted_ports op' KInhibit d (0 + ms 1) e1 = (applied_zero, e2) \<and>
     fst (cv_now scripted_ports e2) < 0 + ms 1"
proof -
  have run: "converge scripted_ports demo_op KInhibit 1 1 ([0, 1, 2, 3], [applied_zero]) =
      Inr (Some (applied_zero, ([], [])))"
    by (simp add: converge_def converge_loop.simps scripted_ports_def refreshed_def
      converge_next_def stale_zero_def applied_zero_def initial_result_def ms_def)
  have ok: "ar_applied applied_zero" "KInhibit \<noteq> KInhibit \<or> ar_zero_proven applied_zero"
    by (simp_all add: applied_zero_def stale_zero_def)
  have start: "fst (cv_now scripted_ports ([0, 1, 2, 3], [applied_zero])) = 0"
    by (simp add: scripted_ports_def)
  from accepted_answer_is_timely [OF run ok, unfolded start] show ?thesis
    by (auto simp: demo_op_def)
qed

text \<open>A Gate that never answers in time, on a clock that counts the attempts.\<close>

definition silent_ports :: "time authority_ports" where
  "silent_ports = \<lparr>cv_now = (\<lambda>t. (t, t)),
     cv_attempt = (\<lambda>op kind d d' t. (initial_result, t + 1)), cv_refresh = Some (\<lambda>t. t)\<rparr>"


end
