(* ===== verification/State_Calculus.thy ===== *)
theory State_Calculus
  imports Prelude "HOL-Library.State_Monad"
begin

text \<open>
  A small calculus for the components written in the state monad: \<open>post m Q s\<close> says that
  running \<open>m\<close> from \<open>s\<close> ends with a result and a state that satisfy \<open>Q\<close>; a preorder \<open>R\<close> that
  every statement of a program respects relates the first state to the last. Invariants, frame
  conditions and monotone quantities are all such preorders.
\<close>

definition post :: "('s, 'a) state \<Rightarrow> ('a \<Rightarrow> 's \<Rightarrow> bool) \<Rightarrow> 's \<Rightarrow> bool" where
  "post m Q s \<longleftrightarrow> Q (fst (run_state m s)) (snd (run_state m s))"

abbreviation exec :: "('s, 'a) state \<Rightarrow> 's \<Rightarrow> 's" where
  "exec m s \<equiv> snd (run_state m s)"

abbreviation result :: "('s, 'a) state \<Rightarrow> 's \<Rightarrow> 'a" where
  "result m s \<equiv> fst (run_state m s)"

lemma run_state_update [simp]: "run_state (State_Monad.update f) s = ((), f s)"
  by (simp add: State_Monad.update_def)

lemma post_return [simp]: "post (State_Monad.return a) Q s = Q a s"
  by (simp add: post_def)

lemma post_bind [simp]: "post (State_Monad.bind m f) Q s = post m (\<lambda>a. post (f a) Q) s"
  by (simp add: post_def split_beta)

lemma post_get [simp]: "post State_Monad.get Q s = Q s s"
  by (simp add: post_def)

lemma post_update [simp]: "post (State_Monad.update f) Q s = Q () (f s)"
  by (simp add: post_def)

lemma post_mono: "post m P s \<Longrightarrow> (\<And>a t. P a t \<Longrightarrow> Q a t) \<Longrightarrow> post m Q s"
  by (simp add: post_def)

lemma post_conj: "post m P s \<Longrightarrow> post m Q s \<Longrightarrow> post m (\<lambda>a t. P a t \<and> Q a t) s"
  by (simp add: post_def)

text \<open>\<open>kept R m\<close>: from every state, the run of \<open>m\<close> stays within the relation \<open>R\<close>.\<close>

definition kept :: "('s \<Rightarrow> 's \<Rightarrow> bool) \<Rightarrow> ('s, 'a) state \<Rightarrow> bool" where
  "kept R m \<longleftrightarrow> (\<forall>s. R s (exec m s))"

lemma kept_exec: "kept R m \<Longrightarrow> R s (exec m s)"
  by (simp add: kept_def)

lemma kept_state_io_rel: "kept R m \<longleftrightarrow> state_io_rel R m"
  by (simp add: kept_def state_io_rel_def)

locale step_preorder =
  fixes R :: "'s \<Rightarrow> 's \<Rightarrow> bool"
  assumes refl: "R s s" and trans: "R s t \<Longrightarrow> R t u \<Longrightarrow> R s u"
begin

lemma kept_return: "kept R (State_Monad.return a)"
  by (simp add: kept_def refl)

lemma kept_get: "kept R State_Monad.get"
  by (simp add: kept_def refl)

lemma kept_update: "(\<And>s. R s (f s)) \<Longrightarrow> kept R (State_Monad.update f)"
  by (simp add: kept_def)

lemma kept_bind: "kept R m \<Longrightarrow> (\<And>a. kept R (f a)) \<Longrightarrow> kept R (State_Monad.bind m f)"
  unfolding kept_def by (auto simp: split_beta intro: trans)

lemma kept_if: "(b \<Longrightarrow> kept R m) \<Longrightarrow> (\<not> b \<Longrightarrow> kept R n) \<Longrightarrow> kept R (if b then m else n)"
  by simp

lemma kept_option: "kept R m \<Longrightarrow> (\<And>a. kept R (f a)) \<Longrightarrow>
    kept R (case x of None \<Rightarrow> m | Some a \<Rightarrow> f a)"
  by (simp split: option.split)

lemma kept_outcome: "(\<And>a. kept R (f a)) \<Longrightarrow> (\<And>w. kept R (g w)) \<Longrightarrow> kept R m \<Longrightarrow>
    kept R (case x of Returned a \<Rightarrow> f a | Threw w \<Rightarrow> g w | ThrewUnknown \<Rightarrow> m)"
  by (simp split: outcome.split)

lemma kept_prod: "(\<And>a b. kept R (f a b)) \<Longrightarrow> kept R (case x of (a, b) \<Rightarrow> f a b)"
  by (simp split: prod.split)

lemmas kept_rules = kept_return kept_get kept_bind kept_if kept_option kept_outcome kept_prod

end

end
