(* ===== verification/Float_Arithmetic.thy ===== *)
theory Float_Arithmetic
  imports Binary_Float
begin

text \<open>
  The arithmetic operators of \<open>double\<close>: the exact result rounded to nearest, with the
  infinities and NaN of IEEE 754, and the conversions the program uses. A division by zero
  takes the positive zero.
\<close>

fun dadd :: "dbl \<Rightarrow> dbl \<Rightarrow> dbl" where
  "dadd (Fin a) (Fin b) = round64 (a + b)"
| "dadd NaN _ = NaN"
| "dadd _ NaN = NaN"
| "dadd PInf NInf = NaN"
| "dadd NInf PInf = NaN"
| "dadd PInf _ = PInf"
| "dadd NInf _ = NInf"
| "dadd _ PInf = PInf"
| "dadd _ NInf = NInf"

definition dsub :: "dbl \<Rightarrow> dbl \<Rightarrow> dbl" where
  "dsub a b = dadd a (dneg b)"

definition dsigned_inf :: "bool \<Rightarrow> dbl" where
  "dsigned_inf positive = (if positive then PInf else NInf)"

fun dmul :: "dbl \<Rightarrow> dbl \<Rightarrow> dbl" where
  "dmul (Fin a) (Fin b) = round64 (a * b)"
| "dmul NaN _ = NaN"
| "dmul _ NaN = NaN"
| "dmul (Fin a) x = (if a = 0 then NaN else dsigned_inf (0 < a \<longleftrightarrow> x = PInf))"
| "dmul x (Fin a) = (if a = 0 then NaN else dsigned_inf (0 < a \<longleftrightarrow> x = PInf))"
| "dmul x y = dsigned_inf (x = y)"

fun ddiv :: "dbl \<Rightarrow> dbl \<Rightarrow> dbl" where
  "ddiv (Fin a) (Fin b) = (if b \<noteq> 0 then round64 (a / b) else if a = 0 then NaN
     else dsigned_inf (0 < a))"
| "ddiv NaN _ = NaN"
| "ddiv _ NaN = NaN"
| "ddiv (Fin a) _ = Fin 0"
| "ddiv x (Fin b) = dsigned_inf (0 \<le> b \<longleftrightarrow> x = PInf)"
| "ddiv _ _ = NaN"

definition dof_nat :: "nat \<Rightarrow> dbl" where
  "dof_nat n = round64 (of_nat n)"

text \<open>\<open>static_cast<float>\<close> of a \<open>double\<close>.\<close>

fun to_float :: "dbl \<Rightarrow> dbl" where
  "to_float (Fin q) = round32 q"
| "to_float x = x"

subsection \<open>Rounding is monotone\<close>

lemma rne_int [simp]: "rne (of_int n) = n"
  by (simp add: rne_def)

lemma rne_floor: "rne q = \<lfloor>q\<rfloor> \<or> rne q = \<lfloor>q\<rfloor> + 1"
  by (auto simp: rne_def Let_def)

lemma rne_mono:
  assumes "a \<le> b"
  shows "rne a \<le> rne b"
proof (cases "\<lfloor>a\<rfloor> = \<lfloor>b\<rfloor>")
  case True
  with assms show ?thesis by (auto simp: rne_def Let_def)
next
  case False
  moreover have "\<lfloor>a\<rfloor> \<le> \<lfloor>b\<rfloor>" using assms by (rule floor_mono)
  ultimately have "\<lfloor>a\<rfloor> + 1 \<le> \<lfloor>b\<rfloor>" by simp
  then show ?thesis using rne_floor [of a] rne_floor [of b] by auto
qed

lemma rne_le_int: "q \<le> of_int n \<Longrightarrow> rne q \<le> n"
  using rne_mono [of q "of_int n"] by simp

lemma rne_ge_int: "of_int n \<le> q \<Longrightarrow> n \<le> rne q"
  using rne_mono [of "of_int n" q] by simp

lemma rne_nonneg: "0 \<le> q \<Longrightarrow> 0 \<le> rne q"
  using rne_ge_int [of 0 q] by simp

lemma ilog2_mono:
  assumes "0 < a" "a \<le> b"
  shows "ilog2 a \<le> ilog2 b"
proof -
  have "(2 powi ilog2 a :: rat) < 2 powi (ilog2 b + 1)"
    using ilog2_bounds(1) [OF assms(1)] ilog2_bounds(2) [of b] assms by linarith
  then have "ilog2 a < ilog2 b + 1"
    by (metis linorder_not_less one_le_numeral power_int_increasing)
  then show ?thesis by simp
qed

text \<open>The magnitude a positive rational is rounded to, before the overflow check.\<close>

definition fmag :: "int \<Rightarrow> int \<Rightarrow> rat \<Rightarrow> rat" where
  "fmag p emin q = (let u = 2 powi (max (ilog2 q) emin - (p - 1)) in of_int (rne (q / u)) * u)"

lemma fround_pos:
  assumes "0 < q"
  shows "fround p emin emax q = (if 2 powi (emax + 1) \<le> fmag p emin q then PInf else Fin (fmag p emin q))"
proof -
  have nn: "0 \<le> fmag p emin q"
    using assms by (simp add: fmag_def Let_def rne_nonneg)
  have "0 < fmag p emin q" if "2 powi (emax + 1) \<le> fmag p emin q"
    using that by (meson less_le_trans zero_less_numeral zero_less_power_int)
  then show ?thesis
    using assms nn by (simp add: fround_def fmag_def Let_def)
qed

lemma powi_split: "(2 powi a :: rat) = 2 powi (a - b) * 2 powi b"
  by (simp add: power_int_add [symmetric])

lemma powi_int:
  assumes "0 \<le> k"
  shows "\<exists>n. (2 powi k :: rat) = of_int n"
  using assms by (metis nonneg_int_cases of_int_numeral of_int_power power_int_of_nat)

lemma fmag_le:
  assumes q: "0 < q" "q \<le> 2 powi k" and k: "emin - (p - 1) \<le> k" "1 \<le> p"
  shows "fmag p emin q \<le> 2 powi k"
proof -
  define e where "e = max (ilog2 q) emin"
  define u where "u = (2 powi (e - (p - 1)) :: rat)"
  have u: "0 < u" by (simp add: u_def)
  have "(2 powi ilog2 q :: rat) \<le> 2 powi k" using ilog2_bounds(1) [OF q(1)] q(2) by linarith
  then have "ilog2 q \<le> k"
    by (metis linorder_not_less one_less_numeral_iff power_int_strict_increasing semiring_norm(76))
  then have "0 \<le> k - (e - (p - 1))" using k by (simp add: e_def)
  from powi_int [OF this] obtain n where n: "(2 powi k :: rat) = of_int n * u"
    unfolding u_def by (metis powi_split)
  have "q / u \<le> of_int n" using q(2) u n by (simp add: divide_le_eq)
  then have "rne (q / u) \<le> n" by (rule rne_le_int)
  then have "of_int (rne (q / u)) * u \<le> of_int n * u"
    using u by (intro mult_right_mono) (simp_all add: of_int_le_iff)
  then show ?thesis by (simp add: fmag_def Let_def n flip: e_def u_def)
qed

lemma fmag_ge:
  assumes q: "0 < q" "2 powi k \<le> q" and k: "emin - (p - 1) \<le> k" "1 \<le> p"
    and e: "max (ilog2 q) emin - (p - 1) \<le> k"
  shows "2 powi k \<le> fmag p emin q"
proof -
  define u where "u = (2 powi (max (ilog2 q) emin - (p - 1)) :: rat)"
  have u: "0 < u" by (simp add: u_def)
  from e have "0 \<le> k - (max (ilog2 q) emin - (p - 1))" by simp
  from powi_int [OF this] obtain n where n: "(2 powi k :: rat) = of_int n * u"
    unfolding u_def by (metis powi_split)
  have "of_int n \<le> q / u" using q(2) u n by (simp add: le_divide_eq)
  then have "n \<le> rne (q / u)" by (rule rne_ge_int)
  then have "of_int n * u \<le> of_int (rne (q / u)) * u"
    using u by (intro mult_right_mono) (simp_all add: of_int_le_iff)
  then show ?thesis by (simp add: fmag_def Let_def n flip: u_def)
qed

lemma fmag_mono:
  assumes q: "0 < a" "a \<le> b" and p: "1 \<le> p"
  shows "fmag p emin a \<le> fmag p emin b"
proof (cases "max (ilog2 a) emin = max (ilog2 b) emin")
  case True
  define u where "u = (2 powi (max (ilog2 b) emin - (p - 1)) :: rat)"
  have u: "0 < u" by (simp add: u_def)
  have "rne (a / u) \<le> rne (b / u)" using q(2) u by (intro rne_mono) (simp add: divide_right_mono)
  then show ?thesis
    using u True by (simp add: fmag_def Let_def mult_right_mono of_int_le_iff flip: u_def)
next
  case False
  define k where "k = ilog2 b"
  have lt: "max (ilog2 a) emin < k" "emin < k"
    using False ilog2_mono [OF q] by (auto simp: k_def)
  have b: "2 powi k \<le> b" using ilog2_bounds(1) q by (simp add: k_def)
  have "a < 2 powi (ilog2 a + 1)" using ilog2_bounds(2) q(1) by simp
  also have "\<dots> \<le> 2 powi k" using lt by (intro power_int_increasing) auto
  finally have "fmag p emin a \<le> 2 powi k"
    using q(1) lt p by (intro fmag_le) auto
  also have "2 powi k \<le> fmag p emin b"
    using b q lt p by (intro fmag_ge) (auto simp: k_def)
  finally show ?thesis .
qed

lemma fround_mono_nonneg:
  assumes "0 \<le> a" "a \<le> b" "1 \<le> p"
  shows "dle (fround p emin emax a) (fround p emin emax b)"
proof (cases "a = 0")
  case True
  show ?thesis
  proof (cases "b = 0")
    case False
    with assms True have b: "0 < b" by simp
    then have "0 \<le> fmag p emin b" by (simp add: fmag_def Let_def rne_nonneg)
    then show ?thesis
      using True b by (auto simp: fround_pos fround_def [of _ _ _ 0] dle_def)
  qed (use True in \<open>simp add: fround_def\<close>)
next
  case False
  with assms have "0 < a" "0 < b" by auto
  then show ?thesis
    using fmag_mono [of a b p emin] assms by (auto simp: fround_pos dle_def)
qed

lemma fround_unit:
  assumes "0 \<le> q" "q \<le> 1" "1 \<le> p" "emin \<le> 0" "0 \<le> emax"
  shows "\<exists>r. fround p emin emax q = Fin r \<and> 0 \<le> r \<and> r \<le> 1"
proof (cases "q = 0")
  case False
  with assms have q: "0 < q" by simp
  have "fmag p emin q \<le> 2 powi 0" using q assms by (intro fmag_le) auto
  then have le: "fmag p emin q \<le> 1" by simp
  have nn: "0 \<le> fmag p emin q" using q by (simp add: fmag_def Let_def rne_nonneg)
  have "(1::rat) < 2 powi (emax + 1)"
    using assms(5) by (metis add_nonneg_pos one_less_numeral_iff one_less_power_int semiring_norm(76)
      zero_less_one)
  then show ?thesis using le nn q by (auto simp: fround_pos)
qed (simp add: fround_def)

lemma round32_unit: "0 \<le> q \<Longrightarrow> q \<le> 1 \<Longrightarrow> \<exists>r. round32 q = Fin r \<and> 0 \<le> r \<and> r \<le> 1"
  unfolding round32_def by (rule fround_unit) auto

lemma round32_mono: "0 \<le> a \<Longrightarrow> a \<le> b \<Longrightarrow> dle (round32 a) (round32 b)"
  unfolding round32_def by (rule fround_mono_nonneg) auto

end
