(* ===== verification/Mission_Runtime.thy ===== *)
theory Mission_Runtime
  imports Mission_Authority State_Calculus Float_Arithmetic
begin

text \<open>
  The mission runtime, \<open>RuntimeCore\<close> (mission_runtime_core.hpp, mission_runtime_core.cpp): one
  mission slot, the admission of goals, the steps of the active mission, STOP with its
  idempotency cache, the observation of the Gate, and the fail-closed paths. The core is a
  record that holds the environment of its ports and the log of what its callbacks were given;
  every method is a program in the state monad over that record. A port call is a function of
  the environment that returns it changed, so that anything may happen between two calls; a
  port that may throw returns an outcome.
\<close>

subsection \<open>Data\<close>

datatype mode = Mapping | Navigation

datatype availability = AvUnavailable | AvAvailable | AvBusy | AvFaulted

datatype result_kind =
    Succeeded | InvalidPlan | Busy | ModeMismatch | UnknownTarget | StaleRequest
  | UnsupportedStep | DependencyUnavailable | ExecutionFailed | Timeout | Canceled | Stopped
  | SafetyFault | InternalError

datatype phase_kind = Validating | Executing | SafeStopping

text \<open>The step kinds are bytes of the wire format; the values outside 1..4 are refused.\<close>

definition k_move :: u8 where "k_move = 1"
definition k_rotate :: u8 where "k_rotate = 2"
definition k_navigate :: u8 where "k_navigate = 3"
definition k_save_map :: u8 where "k_save_map = 4"

lemmas kind_defs = k_move_def k_rotate_def k_navigate_def k_save_map_def

text \<open>The floats of a step are values of \<open>dbl\<close> (every binary32 value is one).\<close>

record mission_step =
  ms_kind :: u8
  ms_distance :: dbl
  ms_angle :: dbl
  ms_target :: string

record mission_goal =
  mg_source :: string
  mg_seq :: u64
  mg_runtime :: string
  mg_epoch :: u64
  mg_steps :: "mission_step list"

record mission_result =
  mr_code :: result_kind
  mr_failed_step :: int
  mr_detail :: string

record mission_feedback =
  mf_phase :: phase_kind
  mf_step :: nat
  mf_progress :: dbl

record stop_request =
  sr_id :: string
  sr_source :: string
  sr_seq :: u64
  sr_reason :: string

record stop_response =
  sp_code :: nat
  sp_runtime :: string
  sp_epoch :: u64
  sp_inhibited :: bool
  sp_detail :: string

record runtime_state =
  rs_runtime :: string
  rs_epoch :: u64
  rs_mode :: mode
  rs_availability :: availability
  rs_gate_state :: gate_state
  rs_active_step :: u32
  rs_step_mask :: u32
  rs_max_steps :: nat
  rs_places :: "string list"

definition no_active_step :: u32 where
  "no_active_step = - 1"

record motion_token =
  tk_mission :: u64
  tk_epoch :: u64
  tk_generation :: u64
  tk_step_generation :: u64
  tk_admission_generation :: u64

definition no_token :: motion_token where
  "no_token = \<lparr>tk_mission = 0, tk_epoch = 0, tk_generation = 0, tk_step_generation = 0,
     tk_admission_generation = 0\<rparr>"

datatype child_code = ChSucceeded | ChFailed | ChTimeout | ChDependency | ChSafety | ChInternal

record child_result =
  ch_code :: child_code
  ch_detail :: string

text \<open>What a child port hands back through its callbacks while it is being called.\<close>

datatype child_call = ChildFeedback motion_token dbl | ChildDone motion_token child_result

text \<open>What the callbacks of the core and its dispatchers are given, in order.\<close>

datatype core_output =
    OutState runtime_state
  | OutFeedback u64 mission_feedback
  | OutResult u64 mission_result
  | OutDispatchFeedback motion_token dbl
  | OutDispatchDone motion_token child_result

record runtime_config =
  rc_mode :: mode
  rc_mission_deadline :: int
  rc_gate_discovery_deadline :: int
  rc_control_response_deadline :: int
  rc_stop_barrier :: int
  rc_cancel_grace :: int
  rc_stationarity_deadline :: int
  rc_source_cache :: nat
  rc_stop_cache :: nat
  rc_max_steps :: nat
  rc_initial_epoch :: u64
  rc_move_min :: dbl
  rc_move_max :: dbl
  rc_rotate_min :: dbl
  rc_rotate_max :: dbl
  rc_places :: "string list"
  rc_runtime_id :: string

type_synonym 'e check = "'e \<Rightarrow> bool \<times> 'e"

text \<open>
  The two child ports share their interface; the motion port also owns the Gate transaction in
  production and can prove zero. \<open>start\<close> returns the callbacks it made before it returned or
  threw, \<open>tick\<close> those it made.
\<close>

record 'e child_port =
  cp_healthy :: "'e check"
  cp_safety_faulted :: "'e check"
  cp_external :: bool
  cp_start :: "motion_token \<Rightarrow> mission_step \<Rightarrow> 'e \<Rightarrow> (child_call list \<times> unit outcome) \<times> 'e"
  cp_cancel :: "motion_token \<Rightarrow> time \<Rightarrow> 'e \<Rightarrow> bool outcome \<times> 'e"
  cp_tick :: "time \<Rightarrow> 'e \<Rightarrow> child_call list \<times> 'e"

record 'e runtime_ports =
  rp_config :: runtime_config
  rp_now :: "'e \<Rightarrow> time \<times> 'e"
  rp_snapshot :: "'e \<Rightarrow> auth_snapshot \<times> 'e"
  rp_prepare :: "auth_op \<Rightarrow> 'e \<Rightarrow> auth_result \<times> 'e"
  rp_open :: "auth_op \<Rightarrow> 'e \<Rightarrow> auth_result \<times> 'e"
  rp_renew :: "auth_op \<Rightarrow> 'e \<Rightarrow> auth_result \<times> 'e"
  rp_inhibit :: "auth_op \<Rightarrow> 'e \<Rightarrow> auth_result \<times> 'e"
  rp_motion :: "'e child_port"
  rp_owns_authority :: bool
  rp_zero_proven :: "'e check"
  rp_rearm :: "auth_snapshot \<Rightarrow> 'e \<Rightarrow> (bool \<times> auth_snapshot) \<times> 'e"
  rp_navigation :: "'e child_port option"
  rp_map_store :: "(string \<Rightarrow> 'e \<Rightarrow> child_result outcome \<times> 'e) option"
  rp_has_state :: bool
  rp_has_feedback :: bool
  rp_has_result :: bool
  rp_feedback_dispatcher :: bool
  rp_result_dispatcher :: bool
  rp_fence :: "(u64 \<Rightarrow> 'e check) option"
  rp_registrar :: "(motion_token \<Rightarrow> 'e check) option"
  rp_unregistrar :: "(motion_token \<Rightarrow> 'e \<Rightarrow> 'e) option"
  rp_identifier :: "('e \<Rightarrow> string \<times> 'e) option"
  rp_random :: "'e \<Rightarrow> u8 list \<times> 'e"
  rp_epoch_advance :: "(u64 \<Rightarrow> u64 \<Rightarrow> 'e check) option"

record 'e active_mission =
  am_id :: u64
  am_generation :: u64
  am_step_generation :: u64
  am_step_index :: nat
  am_completed :: nat
  am_epoch :: u64
  am_admission_generation :: u64
  am_steps :: "mission_step list"
  am_deadline :: time
  am_token :: motion_token
  am_permit :: "'e check option"
  am_child_started :: bool
  am_terminal :: bool

record 'e core =
  c_env :: 'e
  c_out :: "core_output list"
  c_state :: runtime_state
  c_gate :: auth_snapshot
  c_gate_bound :: bool
  c_gate_fault_handled :: bool
  c_replacement_pending :: bool
  c_fault_snapshot :: "auth_snapshot option"
  c_health_known :: bool
  c_last_healthy :: bool
  c_discovery_started :: time
  c_discovery_timed_out :: bool
  c_sources :: "(string \<times> u64) list"
  c_stops :: "(string \<times> string) list"
  c_active :: "'e active_mission option"
  c_next_mission :: u64
  c_next_generation :: u64
  c_progress :: dbl
  c_lease :: string

type_synonym ('e, 'a) runtime = "('e core, 'a) state"

subsection \<open>Statements of the core\<close>

text \<open>A port call, an output, a change of the core, of its published state and of its mission.\<close>

definition ask :: "('e \<Rightarrow> 'a \<times> 'e) \<Rightarrow> ('e, 'a) runtime" where
  "ask f = do {
     s \<leftarrow> State_Monad.get;
     let r = f (c_env s);
     State_Monad.update (\<lambda>s. s\<lparr>c_env := snd r\<rparr>);
     State_Monad.return (fst r)
   }"

abbreviation skip :: "('e, unit) runtime" where
  "skip \<equiv> State_Monad.return ()"

definition emit :: "core_output \<Rightarrow> ('e, unit) runtime" where
  "emit x = State_Monad.update (\<lambda>s. s\<lparr>c_out := c_out s @ [x]\<rparr>)"

definition set_availability :: "availability \<Rightarrow> ('e, unit) runtime" where
  "set_availability a = State_Monad.update (\<lambda>s. s\<lparr>c_state := (c_state s)\<lparr>rs_availability := a\<rparr>\<rparr>)"

definition set_gate_state :: "gate_state \<Rightarrow> ('e, unit) runtime" where
  "set_gate_state g = State_Monad.update (\<lambda>s. s\<lparr>c_state := (c_state s)\<lparr>rs_gate_state := g\<rparr>\<rparr>)"

definition set_gate :: "auth_snapshot \<Rightarrow> ('e, unit) runtime" where
  "set_gate g = State_Monad.update (\<lambda>s. s\<lparr>c_gate := g\<rparr>)"

definition change_active ::
  "('e active_mission \<Rightarrow> 'e active_mission) \<Rightarrow> ('e, unit) runtime" where
  "change_active f = State_Monad.update (\<lambda>s. s\<lparr>c_active := map_option f (c_active s)\<rparr>)"

definition publish_state :: "'e runtime_ports \<Rightarrow> ('e, unit) runtime" where
  "publish_state P = do {
     s \<leftarrow> State_Monad.get;
     if rp_has_state P then emit (OutState (c_state s)) else skip
   }"

text \<open>\<open>std::string\<close> limits and the identifiers.\<close>

definition valid_bounded_id :: "string \<Rightarrow> nat \<Rightarrow> bool \<Rightarrow> bool" where
  "valid_bounded_id v maximum allow_empty \<longleftrightarrow> (allow_empty \<or> v \<noteq> []) \<and> length v \<le> maximum"

definition make_random_identifier :: "'e runtime_ports \<Rightarrow> 'e \<Rightarrow> string \<times> 'e" where
  "make_random_identifier P e =
     apfst (\<lambda>bytes. concat (map (\<lambda>b. hex_digits 2 (unat b)) bytes)) (rp_random P e)"

definition new_identifier :: "'e runtime_ports \<Rightarrow> ('e, string) runtime" where
  "new_identifier P = (case rp_identifier P of
     Some f \<Rightarrow> ask f
   | None \<Rightarrow> ask (make_random_identifier P))"

definition make_operation :: "'e runtime_ports \<Rightarrow> string \<Rightarrow> ('e, auth_op) runtime" where
  "make_operation P lease = do {
     rid \<leftarrow> new_identifier P;
     s \<leftarrow> State_Monad.get;
     State_Monad.return \<lparr>ao_id = rid, ao_gate = as_gate (c_gate s), ao_seq = as_seq (c_gate s),
       ao_lease = (if lease = [] then as_lease (c_gate s) else lease), ao_bound = False\<rparr>
   }"

definition visible_gate_state :: "auth_snapshot \<Rightarrow> gate_state" where
  "visible_gate_state g = (if as_endpoint g then as_state g else Faulted)"

definition inhibit_and_prove_zero :: "'e runtime_ports \<Rightarrow> ('e, bool) runtime" where
  "inhibit_and_prove_zero P = do {
     g \<leftarrow> ask (rp_snapshot P);
     set_gate g;
     op \<leftarrow> make_operation P [];
     r \<leftarrow> ask (rp_inhibit P op);
     set_gate (ar_snapshot r);
     set_gate_state (visible_gate_state (ar_snapshot r));
     State_Monad.return (inhibit_result_proves_zero op r)
   }"

subsection \<open>The Gate predicates\<close>

definition zero_is_proven :: "auth_snapshot \<Rightarrow> bool" where
  "zero_is_proven g \<longleftrightarrow> as_endpoint g \<and> as_inhibited g \<and> as_zero_selected g \<and> as_zero_published g"

definition gate_is_healthy :: "auth_snapshot \<Rightarrow> bool" where
  "gate_is_healthy g \<longleftrightarrow> as_endpoint g \<and> as_gate g \<noteq> [] \<and> as_state g \<noteq> Faulted \<and>
     (as_state g = Armed \<or> zero_is_proven g)"

definition startup_gate_is_ready :: "auth_snapshot \<Rightarrow> bool" where
  "startup_gate_is_ready g \<longleftrightarrow> as_endpoint g \<and> as_gate g \<noteq> [] \<and> as_state g = Inhibited \<and>
     zero_is_proven g"

definition replacement_gate_can_reassert :: "auth_snapshot \<Rightarrow> bool" where
  "replacement_gate_can_reassert g \<longleftrightarrow> as_endpoint g \<and> as_gate g \<noteq> [] \<and>
     as_state g = Inhibited \<and> as_inhibited g \<and> as_zero_selected g"

subsection \<open>Epochs and availability\<close>

definition set_epoch :: "u64 \<Rightarrow> ('e, unit) runtime" where
  "set_epoch x = State_Monad.update (\<lambda>s. s\<lparr>c_state := (c_state s)\<lparr>rs_epoch := x\<rparr>\<rparr>)"

definition commit_next_epoch :: "'e runtime_ports \<Rightarrow> ('e, bool) runtime" where
  "commit_next_epoch P = do {
     s \<leftarrow> State_Monad.get;
     let current = rs_epoch (c_state s);
     if current = u64_max
     then do { set_availability AvFaulted; State_Monad.return False }
     else do {
       ok \<leftarrow> (case rp_epoch_advance P of None \<Rightarrow> State_Monad.return True
             | Some f \<Rightarrow> ask (f current (current + 1)));
       if \<not> ok then do { set_availability AvFaulted; State_Monad.return False }
       else do { set_epoch (current + 1); State_Monad.return True }
     }
   }"

definition rotate_epoch :: "'e runtime_ports \<Rightarrow> ('e, bool) runtime" where
  "rotate_epoch P = do {
     ok \<leftarrow> commit_next_epoch P;
     publish_state P;
     State_Monad.return ok
   }"

definition admission_allowed :: "'e runtime_ports \<Rightarrow> u64 \<Rightarrow> ('e, bool) runtime" where
  "admission_allowed P epoch = (case rp_fence P of
     None \<Rightarrow> State_Monad.return True
   | Some f \<Rightarrow> ask (f epoch))"

definition availability_of :: "auth_snapshot \<Rightarrow> bool \<Rightarrow> availability" where
  "availability_of g healthy =
     (if \<not> as_endpoint g then AvUnavailable
      else if as_state g = Faulted \<or> (as_state g \<noteq> Armed \<and> \<not> zero_is_proven g) then AvFaulted
      else if \<not> gate_is_healthy g \<or> \<not> healthy then AvUnavailable
      else AvAvailable)"

text \<open>The health of the motion port is read last, and only when the Gate does not decide.\<close>

definition set_availability_from_dependencies ::
  "'e runtime_ports \<Rightarrow> bool \<Rightarrow> auth_snapshot option \<Rightarrow> ('e, unit) runtime" where
  "set_availability_from_dependencies P allow_fault_rearm accepted_gate = do {
     s \<leftarrow> State_Monad.get;
     if rs_availability (c_state s) = AvFaulted \<and> \<not> allow_fault_rearm then skip
     else if c_active s \<noteq> None then set_availability AvBusy
     else do {
       faulted \<leftarrow> ask (cp_safety_faulted (rp_motion P));
       if faulted then set_availability AvFaulted
       else do {
         g \<leftarrow> (case accepted_gate of None \<Rightarrow> ask (rp_snapshot P)
              | Some g \<Rightarrow> State_Monad.return g);
         set_gate g;
         set_gate_state (visible_gate_state g);
         healthy \<leftarrow> (if availability_of g True = AvAvailable
                    then ask (cp_healthy (rp_motion P)) else State_Monad.return True);
         set_availability (availability_of g healthy)
       }
     }
   }"

subsection \<open>Feedback\<close>

text \<open>
  The progress of a mission: completed steps plus the clamped progress of the child, over the
  number of steps, never below what was published before.
\<close>

definition mission_progress :: "phase_kind \<Rightarrow> dbl \<Rightarrow> nat \<Rightarrow> nat \<Rightarrow> dbl \<Rightarrow> dbl" where
  "mission_progress phase published completed steps progress =
     (if phase = SafeStopping then published
      else ddiv (dadd (dof_nat completed) (dclamp progress (Fin 0) (Fin 1))) (dof_nat steps))"

definition monotonic_progress :: "dbl \<Rightarrow> dbl \<Rightarrow> dbl" where
  "monotonic_progress published progress = dclamp (dmax published progress) (Fin 0) (Fin 1)"

definition set_progress :: "dbl \<Rightarrow> ('e, unit) runtime" where
  "set_progress x = State_Monad.update (\<lambda>s. s\<lparr>c_progress := x\<rparr>)"

definition publish_feedback ::
  "'e runtime_ports \<Rightarrow> phase_kind \<Rightarrow> nat \<Rightarrow> dbl \<Rightarrow> ('e, unit) runtime" where
  "publish_feedback P phase step progress = do {
     s \<leftarrow> State_Monad.get;
     case c_active s of
       None \<Rightarrow> skip
     | Some a \<Rightarrow>
         if \<not> rp_has_feedback P then skip
         else do {
           let monotonic = monotonic_progress (c_progress s)
             (mission_progress phase (c_progress s) (am_completed a) (length (am_steps a)) progress);
           set_progress monotonic;
           emit (OutFeedback (am_id a) \<lparr>mf_phase = phase, mf_step = max (am_step_index a) step,
             mf_progress = to_float monotonic\<rparr>)
         }
   }"

subsection \<open>The terminal barrier\<close>

definition finish_active :: "'e runtime_ports \<Rightarrow> mission_result \<Rightarrow> ('e, unit) runtime" where
  "finish_active P res = do {
     s \<leftarrow> State_Monad.get;
     case c_active s of
       None \<Rightarrow> skip
     | Some a \<Rightarrow> do {
         State_Monad.update (\<lambda>s. s\<lparr>c_active := None,
           c_state := (c_state s)\<lparr>rs_active_step := no_active_step\<rparr>\<rparr>);
         set_availability_from_dependencies P False None;
         publish_state P;
         if rp_has_result P then emit (OutResult (am_id a) res) else skip
       }
   }"

record terminal_outcome =
  to_zero :: bool
  to_canceled :: bool
  to_epoch :: bool

definition no_outcome :: terminal_outcome where
  "no_outcome = \<lparr>to_zero = False, to_canceled = False, to_epoch = True\<rparr>"

definition acknowledged :: "bool outcome \<Rightarrow> bool" where
  "acknowledged r = (case r of Returned b \<Rightarrow> b | _ \<Rightarrow> False)"

text \<open>The child port a token belongs to is asked to cancel; a port that throws did not.\<close>

definition cancel_child ::
  "'e runtime_ports \<Rightarrow> bool \<Rightarrow> motion_token \<Rightarrow> int \<Rightarrow> ('e, bool) runtime" where
  "cancel_child P navigation_step token grace = do {
     now \<leftarrow> ask (rp_now P);
     if navigation_step
     then (case rp_navigation P of
         None \<Rightarrow> State_Monad.return False
       | Some nav \<Rightarrow> do {
           r \<leftarrow> ask (cp_cancel nav token (now + ms grace));
           State_Monad.return (acknowledged r)
         })
     else do {
       r \<leftarrow> ask (cp_cancel (rp_motion P) token (now + ms grace));
       State_Monad.return (acknowledged r)
     }
   }"

text \<open>The barrier of a terminal: the pair of the zero proof and the cancel acknowledgement.\<close>

definition terminal_barrier ::
  "'e runtime_ports \<Rightarrow> bool \<Rightarrow> motion_token \<Rightarrow> ('e, bool \<times> bool) runtime" where
  "terminal_barrier P navigation_step token =
     (if rp_owns_authority P
      then do {
        canceled \<leftarrow> cancel_child P navigation_step token (rc_stationarity_deadline (rp_config P));
        zero \<leftarrow> (if canceled then ask (rp_zero_proven P) else State_Monad.return False);
        State_Monad.return (zero, canceled)
      }
      else do {
        zero \<leftarrow> inhibit_and_prove_zero P;
        canceled \<leftarrow> cancel_child P navigation_step token (rc_cancel_grace (rp_config P));
        State_Monad.return (zero, canceled)
      })"

definition failed_step :: "'e active_mission \<Rightarrow> int" where
  "failed_step a = (if am_child_started a then int (am_step_index a) else - 1)"

text \<open>
  The epoch part of a terminal: the code and detail of the result, replaced when the rotation of
  the epoch failed, and whether it advanced.
\<close>

definition terminal_epoch :: "'e runtime_ports \<Rightarrow> result_kind \<Rightarrow> string \<Rightarrow> bool \<Rightarrow>
    ('e, result_kind \<times> string \<times> bool) runtime" where
  "terminal_epoch P code detail rotates =
     (if \<not> rotates then State_Monad.return (code, detail, True)
      else do {
        ok \<leftarrow> commit_next_epoch P;
        if ok then State_Monad.return (code, detail, True)
        else do {
          set_availability AvFaulted;
          publish_state P;
          State_Monad.return
            (SafetyFault, ''admission epoch exhausted while stopping Mission'', False)
        }
      })"

definition terminal_result ::
  "result_kind \<Rightarrow> string \<Rightarrow> bool \<Rightarrow> bool \<Rightarrow> 'e active_mission \<Rightarrow> mission_result" where
  "terminal_result code detail zero canceled a =
     (if \<not> zero \<or> \<not> canceled
      then \<lparr>mr_code = SafetyFault, mr_failed_step = failed_step a,
        mr_detail = (if \<not> zero then ''terminal barrier could not prove Gate inhibit and zero''
          else ''relative-motion cancel did not acknowledge before its deadline'')\<rparr>
      else \<lparr>mr_code = code, mr_failed_step = (if code \<noteq> Succeeded then failed_step a else - 1),
        mr_detail = bounded_detail detail\<rparr>)"

definition select_terminal_and_stop :: "'e runtime_ports \<Rightarrow> result_kind \<Rightarrow> string \<Rightarrow> bool \<Rightarrow>
    ('e, terminal_outcome) runtime" where
  "select_terminal_and_stop P code detail rotates = do {
     s \<leftarrow> State_Monad.get;
     case c_active s of
       None \<Rightarrow> State_Monad.return no_outcome
     | Some a \<Rightarrow>
         if am_terminal a then State_Monad.return no_outcome
         else do {
           change_active (\<lambda>a. a\<lparr>am_terminal := True, am_generation := am_generation a + 1\<rparr>);
           (code, detail, epoch_advanced) \<leftarrow> terminal_epoch P code detail rotates;
           publish_feedback P SafeStopping (am_step_index a) (Fin 0);
           (zero, canceled) \<leftarrow> terminal_barrier P
             (am_child_started a \<and> ms_kind (am_steps a ! am_step_index a) = k_navigate) (am_token a);
           (if \<not> zero \<or> \<not> canceled then set_availability AvFaulted else skip);
           finish_active P (terminal_result code detail zero canceled a);
           State_Monad.return \<lparr>to_zero = zero, to_canceled = canceled, to_epoch = epoch_advanced\<rparr>
         }
   }"

text \<open>A terminal whose outcome the caller drops.\<close>

definition terminate :: "'e runtime_ports \<Rightarrow> result_kind \<Rightarrow> string \<Rightarrow> ('e, unit) runtime" where
  "terminate P code detail = do {
     _ \<leftarrow> select_terminal_and_stop P code detail False;
     skip
   }"

subsection \<open>The steps of a mission\<close>

definition token_current :: "motion_token \<Rightarrow> 'e active_mission \<Rightarrow> bool" where
  "token_current t a \<longleftrightarrow> tk_mission t = am_id a \<and> tk_epoch t = am_epoch a \<and>
     tk_generation t = am_generation a \<and> tk_step_generation t = am_step_generation a"

definition on_child_feedback ::
  "'e runtime_ports \<Rightarrow> motion_token \<Rightarrow> dbl \<Rightarrow> ('e, unit) runtime" where
  "on_child_feedback P t progress = do {
     s \<leftarrow> State_Monad.get;
     case c_active s of
       None \<Rightarrow> skip
     | Some a \<Rightarrow>
         if \<not> token_current t a then skip
         else publish_feedback P Executing (am_step_index a) progress
   }"

definition result_of_child :: "child_code \<Rightarrow> result_kind" where
  "result_of_child c = (case c of ChDependency \<Rightarrow> DependencyUnavailable | ChTimeout \<Rightarrow> Timeout
     | ChSafety \<Rightarrow> SafetyFault | ChInternal \<Rightarrow> InternalError | _ \<Rightarrow> ExecutionFailed)"

text \<open>The result of a child; \<open>next_step\<close> is what starts the following step.\<close>

definition child_result_with :: "'e runtime_ports \<Rightarrow> ('e, unit) runtime \<Rightarrow> motion_token \<Rightarrow>
    child_result \<Rightarrow> ('e, unit) runtime" where
  "child_result_with P next_step t r = do {
     s \<leftarrow> State_Monad.get;
     case c_active s of
       None \<Rightarrow> skip
     | Some a \<Rightarrow>
         if \<not> token_current t a then skip
         else if ch_code r \<noteq> ChSucceeded
         then do {
           (if result_of_child (ch_code r) = SafetyFault then set_availability AvFaulted else skip);
           terminate P (result_of_child (ch_code r))
             (if ch_detail r = [] then ''mission child failed'' else ch_detail r)
         }
         else do {
           publish_feedback P Executing (am_step_index a) (Fin 1);
           change_active (\<lambda>a. a\<lparr>am_completed := am_completed a + 1\<rparr>);
           if length (am_steps a) \<le> am_completed a + 1
           then terminate P Succeeded ''Mission completed''
           else do {
             change_active (\<lambda>a. a\<lparr>am_step_index := am_step_index a + 1,
               am_step_generation := am_step_generation a + 1\<rparr>);
             next_step
           }
         }
   }"

text \<open>
  The callbacks a child port makes while it is called. A child that reports through the
  completion registry was given no result callback.
\<close>

fun deliver :: "'e runtime_ports \<Rightarrow> bool \<Rightarrow> (motion_token \<Rightarrow> child_result \<Rightarrow> ('e, unit) runtime) \<Rightarrow>
    child_call \<Rightarrow> ('e, unit) runtime" where
  "deliver P external on_result (ChildFeedback t x) =
     (if rp_feedback_dispatcher P then emit (OutDispatchFeedback t x)
      else on_child_feedback P t x)"
| "deliver P external on_result (ChildDone t r) =
     (if external then skip
      else if rp_result_dispatcher P then emit (OutDispatchDone t r)
      else on_result t r)"

primrec deliver_all :: "'e runtime_ports \<Rightarrow> bool \<Rightarrow>
    (motion_token \<Rightarrow> child_result \<Rightarrow> ('e, unit) runtime) \<Rightarrow> child_call list \<Rightarrow> ('e, unit) runtime" where
  "deliver_all P external on_result [] = skip"
| "deliver_all P external on_result (c # cs) = do {
     deliver P external on_result c;
     deliver_all P external on_result cs
   }"

definition check_permit :: "'e check option \<Rightarrow> ('e, bool) runtime" where
  "check_permit p = (case p of None \<Rightarrow> State_Monad.return True | Some f \<Rightarrow> ask f)"

definition current_step :: "'e active_mission \<Rightarrow> mission_step" where
  "current_step a = am_steps a ! am_step_index a"

text \<open>A map step runs to its end inside the call.\<close>

definition start_map_child :: "'e runtime_ports \<Rightarrow> (motion_token \<Rightarrow> child_result \<Rightarrow> ('e, unit) runtime) \<Rightarrow>
    (string \<Rightarrow> 'e \<Rightarrow> child_result outcome \<times> 'e) \<Rightarrow> motion_token \<Rightarrow> 'e active_mission \<Rightarrow>
    ('e, unit) runtime" where
  "start_map_child P on_result save token a = do {
     change_active (\<lambda>a. a\<lparr>am_child_started := True\<rparr>);
     publish_feedback P Executing (am_step_index a) (Fin 0);
     r \<leftarrow> ask (save (ms_target (current_step a)));
     case r of
       Returned res \<Rightarrow> on_result token res
     | Threw what \<Rightarrow> do {
         change_active (\<lambda>a. a\<lparr>am_child_started := False\<rparr>);
         terminate P InternalError (''map save threw: '' @ what)
       }
     | ThrewUnknown \<Rightarrow> do {
         change_active (\<lambda>a. a\<lparr>am_child_started := False\<rparr>);
         terminate P InternalError ''map save threw an unknown exception''
       }
   }"

definition register_child :: "'e runtime_ports \<Rightarrow> bool \<Rightarrow> motion_token \<Rightarrow> ('e, bool) runtime" where
  "register_child P external token =
     (if \<not> external then State_Monad.return True
      else case rp_registrar P of None \<Rightarrow> State_Monad.return False | Some f \<Rightarrow> ask (f token))"

definition child_start_threw :: "'e runtime_ports \<Rightarrow> bool \<Rightarrow> motion_token \<Rightarrow> string \<Rightarrow>
    ('e, unit) runtime" where
  "child_start_threw P external token detail = do {
     (case rp_unregistrar P of
        None \<Rightarrow> skip
      | Some f \<Rightarrow> if external then ask (\<lambda>e. ((), f token e)) else skip);
     s \<leftarrow> State_Monad.get;
     (case c_active s of
        None \<Rightarrow> skip
      | Some a \<Rightarrow> if am_id a = tk_mission token
          then change_active (\<lambda>a. a\<lparr>am_child_started := False\<rparr>) else skip);
     terminate P InternalError detail
   }"

definition start_motion_child :: "'e runtime_ports \<Rightarrow>
    (motion_token \<Rightarrow> child_result \<Rightarrow> ('e, unit) runtime) \<Rightarrow> 'e child_port \<Rightarrow> motion_token \<Rightarrow>
    'e active_mission \<Rightarrow> ('e, unit) runtime" where
  "start_motion_child P on_result port token a = do {
     registered \<leftarrow> register_child P (cp_external port) token;
     if \<not> registered
     then terminate P SafetyFault ''Node completion registry rejected child start''
     else do {
       change_active (\<lambda>a. a\<lparr>am_child_started := True\<rparr>);
       (calls, out) \<leftarrow> ask (cp_start port token (current_step a));
       deliver_all P (cp_external port) on_result calls;
       case out of
         Returned _ \<Rightarrow> do {
           s \<leftarrow> State_Monad.get;
           case c_active s of
             None \<Rightarrow> skip
           | Some b \<Rightarrow>
               if am_id b = tk_mission token \<and> am_generation b = tk_generation token \<and>
                 am_step_generation b = tk_step_generation token
               then do {
                 State_Monad.update (\<lambda>s. s\<lparr>c_state :=
                   (c_state s)\<lparr>rs_active_step := of_nat (am_step_index b)\<rparr>\<rparr>);
                 publish_state P
               }
               else skip
         }
       | Threw what \<Rightarrow>
           child_start_threw P (cp_external port) token (''child start threw: '' @ what)
       | ThrewUnknown \<Rightarrow>
           child_start_threw P (cp_external port) token ''child start threw an unknown exception''
     }
   }"

definition token_of :: "'e active_mission \<Rightarrow> motion_token" where
  "token_of a = \<lparr>tk_mission = am_id a, tk_epoch = am_epoch a, tk_generation = am_generation a,
     tk_step_generation = am_step_generation a,
     tk_admission_generation = am_admission_generation a\<rparr>"

definition start_step_with :: "'e runtime_ports \<Rightarrow> (motion_token \<Rightarrow> child_result \<Rightarrow> ('e, unit) runtime) \<Rightarrow>
    ('e, unit) runtime" where
  "start_step_with P on_result = do {
     s \<leftarrow> State_Monad.get;
     case c_active s of
       None \<Rightarrow> skip
     | Some a \<Rightarrow>
       let map_step = ms_kind (current_step a) = k_save_map;
           navigation_step = ms_kind (current_step a) = k_navigate
       in if map_step \<and> rp_map_store P = None
       then terminate P DependencyUnavailable ''MapStorePort is unavailable before map save''
       else if navigation_step \<and> rp_navigation P = None
       then terminate P DependencyUnavailable ''NavigationPort is unavailable before child start''
       else do {
         allowed \<leftarrow> admission_allowed P (am_epoch a);
         if \<not> allowed
         then terminate P SafetyFault ''Runtime admission fence raised before child start''
         else do {
           permitted \<leftarrow> check_permit (am_permit a);
           if \<not> permitted
           then terminate P SafetyFault ''Runtime start permit was revoked before child start''
           else do {
             publish_feedback P Validating (am_step_index a) (Fin 0);
             change_active (\<lambda>b. b\<lparr>am_token := token_of a\<rparr>);
             allowed \<leftarrow> admission_allowed P (am_epoch a);
             if \<not> allowed
             then terminate P SafetyFault ''Runtime admission fence raised before child start''
             else if map_step
             then start_map_child P on_result (the (rp_map_store P)) (token_of a) a
             else start_motion_child P on_result
               (if navigation_step then the (rp_navigation P) else rp_motion P) (token_of a) a
           }
         }
       }
   }"

text \<open>
  A child that succeeds inside its own start begins the next step within the call, so the depth
  of the recursion is at most the number of steps left, which is the fuel.
\<close>

primrec start_step_fuel :: "'e runtime_ports \<Rightarrow> nat \<Rightarrow> ('e, unit) runtime" where
  "start_step_fuel P 0 = skip"
| "start_step_fuel P (Suc n) = start_step_with P (child_result_with P (start_step_fuel P n))"

definition steps_left :: "'e core \<Rightarrow> nat" where
  "steps_left s = (case c_active s of None \<Rightarrow> 0 | Some a \<Rightarrow> length (am_steps a) - am_completed a)"

definition start_step :: "'e runtime_ports \<Rightarrow> ('e, unit) runtime" where
  "start_step P = do {
     s \<leftarrow> State_Monad.get;
     start_step_fuel P (steps_left s)
   }"

definition on_child_result ::
  "'e runtime_ports \<Rightarrow> motion_token \<Rightarrow> child_result \<Rightarrow> ('e, unit) runtime" where
  "on_child_result P = child_result_with P (start_step P)"

subsection \<open>Validation of a goal\<close>

definition refusal :: "result_kind \<Rightarrow> string \<Rightarrow> mission_result" where
  "refusal code detail = \<lparr>mr_code = code, mr_failed_step = - 1, mr_detail = bounded_detail detail\<rparr>"

text \<open>A signed payload is in range when its magnitude lies between the two limits.\<close>

definition signed_in_range :: "dbl \<Rightarrow> dbl \<Rightarrow> dbl \<Rightarrow> bool" where
  "signed_in_range lo hi x \<longleftrightarrow> (dle (dneg hi) x \<and> dle x (dneg lo)) \<or> (dle lo x \<and> dle x hi)"

definition validate_step :: "runtime_config \<Rightarrow> mission_step \<Rightarrow> mission_result option" where
  "validate_step cfg st =
     (if 64 < length (ms_target st)
      then Some (refusal InvalidPlan ''step target_id is outside the 64-character bound'')
      else if ms_kind st = k_move then
        (if \<not> isfinite (ms_distance st) \<or>
            \<not> signed_in_range (rc_move_min cfg) (rc_move_max cfg) (ms_distance st) \<or>
            \<not> deq (ms_angle st) (Fin 0) \<or> ms_target st \<noteq> []
         then Some (refusal InvalidPlan ''MOVE_DISTANCE has an invalid distance or unused payload'')
         else None)
      else if ms_kind st = k_rotate then
        (if \<not> isfinite (ms_angle st) \<or>
            \<not> signed_in_range (rc_rotate_min cfg) (rc_rotate_max cfg) (ms_angle st) \<or>
            \<not> deq (ms_distance st) (Fin 0) \<or> ms_target st \<noteq> []
         then Some (refusal InvalidPlan ''ROTATE_ANGLE has an invalid angle or unused payload'')
         else None)
      else if ms_kind st = k_navigate \<or> ms_kind st = k_save_map then
        (if \<not> isfinite (ms_distance st) \<or> \<not> isfinite (ms_angle st) \<or>
            \<not> deq (ms_distance st) (Fin 0) \<or> \<not> deq (ms_angle st) (Fin 0) \<or> ms_target st = []
         then Some (refusal InvalidPlan ''unsupported step has an invalid union payload'')
         else None)
      else Some (refusal InvalidPlan ''unknown Mission step kind''))"

definition validate_in_mode :: "runtime_config \<Rightarrow> mission_step \<Rightarrow> mission_result option" where
  "validate_in_mode cfg st =
     (if ms_kind st = k_save_map \<and> rc_mode cfg \<noteq> Mapping
      then Some (refusal UnsupportedStep ''SAVE_MAP requires mapping operating mode'')
      else if ms_kind st = k_navigate \<and> rc_mode cfg \<noteq> Navigation
      then Some (refusal UnsupportedStep ''NAVIGATE_TO requires navigation operating mode'')
      else if ms_kind st = k_navigate \<and> ms_target st \<notin> set (rc_places cfg)
      then Some (refusal UnknownTarget ''NAVIGATE_TO target is not a configured named place'')
      else None)"

fun validate_steps :: "runtime_config \<Rightarrow> mission_step list \<Rightarrow> mission_result option" where
  "validate_steps cfg [] = None"
| "validate_steps cfg (st # sts) = (case validate_step cfg st of
     Some r \<Rightarrow> Some r
   | None \<Rightarrow> (case validate_in_mode cfg st of
       Some r \<Rightarrow> Some r
     | None \<Rightarrow> validate_steps cfg sts))"

definition save_map_count :: "mission_step list \<Rightarrow> nat" where
  "save_map_count sts = length (filter (\<lambda>st. ms_kind st = k_save_map) sts)"

definition validate_goal :: "runtime_config \<Rightarrow> mission_goal \<Rightarrow> mission_result option" where
  "validate_goal cfg g =
     (if mg_steps g = [] \<or> rc_max_steps cfg < length (mg_steps g)
      then Some (refusal InvalidPlan ''Mission must contain between one and three steps'')
      else if save_map_count (mg_steps g) \<noteq> 0 \<and>
        (save_map_count (mg_steps g) \<noteq> 1 \<or> length (mg_steps g) \<noteq> 1)
      then Some (refusal InvalidPlan ''SAVE_MAP must be the only step in its Mission'')
      else validate_steps cfg (mg_steps g))"

definition consume_source_sequence ::
  "'e runtime_ports \<Rightarrow> mission_goal \<Rightarrow> ('e, mission_result option) runtime" where
  "consume_source_sequence P g = do {
     s \<leftarrow> State_Monad.get;
     case map_of (c_sources s) (mg_source g) of
       None \<Rightarrow>
         if rc_source_cache (rp_config P) \<le> length (c_sources s)
         then State_Monad.return (Some (refusal DependencyUnavailable
           ''source sequence cache is full; no source was evicted''))
         else do {
           State_Monad.update (\<lambda>s. s\<lparr>c_sources := AList.update (mg_source g) (mg_seq g) (c_sources s)\<rparr>);
           State_Monad.return None
         }
     | Some last_seq \<Rightarrow>
         if mg_seq g \<le> last_seq
         then State_Monad.return (Some (refusal StaleRequest
           ''source_seq is not strictly greater than the last accepted sequence''))
         else do {
           State_Monad.update (\<lambda>s. s\<lparr>c_sources := AList.update (mg_source g) (mg_seq g) (c_sources s)\<rparr>);
           State_Monad.return None
         }
   }"

subsection \<open>Admission\<close>

record admission =
  ad_mission :: u64
  ad_accepted :: bool
  ad_result :: mission_result

definition refused :: "mission_result \<Rightarrow> ('e, admission) runtime" where
  "refused r = State_Monad.return \<lparr>ad_mission = 0, ad_accepted = False, ad_result = r\<rparr>"

definition refuse :: "result_kind \<Rightarrow> string \<Rightarrow> ('e, admission) runtime" where
  "refuse code detail = refused (refusal code detail)"

definition refuse_faulted ::
  "'e runtime_ports \<Rightarrow> result_kind \<Rightarrow> string \<Rightarrow> ('e, admission) runtime" where
  "refuse_faulted P code detail = do {
     set_availability AvFaulted;
     publish_state P;
     refuse code detail
   }"

definition map_only :: "mission_goal \<Rightarrow> bool" where
  "map_only g \<longleftrightarrow> list_all (\<lambda>st. ms_kind st = k_save_map) (mg_steps g)"

definition requires_navigation :: "mission_goal \<Rightarrow> bool" where
  "requires_navigation g \<longleftrightarrow> list_ex (\<lambda>st. ms_kind st = k_navigate) (mg_steps g)"

text \<open>The last step of an admission: the mission takes the slot and its first step starts.\<close>

definition admit_start :: "'e runtime_ports \<Rightarrow> mission_goal \<Rightarrow> 'e check option \<Rightarrow> u64 \<Rightarrow> u64 \<Rightarrow>
    ('e, admission) runtime" where
  "admit_start P g permit admission_generation mission = do {
     now \<leftarrow> ask (rp_now P);
     State_Monad.update (\<lambda>s. s\<lparr>
       c_active := Some \<lparr>am_id = mission, am_generation = c_next_generation s,
         am_step_generation = 1, am_step_index = 0, am_completed = 0,
         am_epoch = rs_epoch (c_state s), am_admission_generation = admission_generation,
         am_steps = mg_steps g, am_deadline = now + ms (rc_mission_deadline (rp_config P)),
         am_token = no_token, am_permit = permit, am_child_started = False, am_terminal = False\<rparr>,
       c_next_generation := c_next_generation s + 1, c_progress := Fin 0,
       c_state := (c_state s)\<lparr>rs_active_step := no_active_step, rs_availability := AvBusy\<rparr>\<rparr>);
     publish_state P;
     start_step P;
     State_Monad.return \<lparr>ad_mission = mission, ad_accepted = True,
       ad_result = \<lparr>mr_code = InternalError, mr_failed_step = - 1, mr_detail = []\<rparr>\<rparr>
   }"

text \<open>A refusal after PREPARE: the Gate is inhibited again and the runtime is faulted.\<close>

definition cleanup_faulted :: "'e runtime_ports \<Rightarrow> string \<Rightarrow> string \<Rightarrow> ('e, admission) runtime" where
  "cleanup_faulted P clean_detail dirty_detail = do {
     cleanup \<leftarrow> inhibit_and_prove_zero P;
     refuse_faulted P SafetyFault (if cleanup then clean_detail else dirty_detail)
   }"

definition admit_permitted :: "'e runtime_ports \<Rightarrow> mission_goal \<Rightarrow> 'e check option \<Rightarrow> u64 \<Rightarrow> u64 \<Rightarrow>
    ('e, admission) runtime" where
  "admit_permitted P g permit admission_generation mission = do {
     permitted \<leftarrow> check_permit permit;
     if \<not> permitted
     then cleanup_faulted P ''Runtime start permit was revoked after MotionGate OPEN''
       ''Runtime start permit was revoked and zero cleanup failed''
     else admit_start P g permit admission_generation mission
   }"

definition set_lease :: "string \<Rightarrow> ('e, unit) runtime" where
  "set_lease l = State_Monad.update (\<lambda>s. s\<lparr>c_lease := l\<rparr>)"

text \<open>The Gate handover of a mission whose core owns the authority: PREPARE, then OPEN.\<close>

definition admit_open :: "'e runtime_ports \<Rightarrow> mission_goal \<Rightarrow> 'e check option \<Rightarrow> u64 \<Rightarrow> u64 \<Rightarrow>
    ('e, admission) runtime" where
  "admit_open P g permit admission_generation mission = do {
     s \<leftarrow> State_Monad.get;
     op \<leftarrow> make_operation P (c_lease s);
     r \<leftarrow> ask (rp_open P op);
     if \<not> ar_applied r
     then do {
       cleanup \<leftarrow> inhibit_and_prove_zero P;
       if \<not> cleanup
       then refuse_faulted P SafetyFault
         ''MotionGate OPEN failed and zero cleanup could not be proven''
       else refuse DependencyUnavailable
         (if ar_detail r = [] then ''MotionGate OPEN failed'' else ar_detail r)
     }
     else do {
       set_gate (ar_snapshot r);
       admit_permitted P g permit admission_generation mission
     }
   }"

definition admit_handover :: "'e runtime_ports \<Rightarrow> mission_goal \<Rightarrow> 'e check option \<Rightarrow> u64 \<Rightarrow> u64 \<Rightarrow>
    ('e, admission) runtime" where
  "admit_handover P g permit admission_generation mission = do {
     op \<leftarrow> make_operation P [];
     r \<leftarrow> ask (rp_prepare P op);
     if \<not> ar_applied r
     then refuse DependencyUnavailable
       (if ar_detail r = [] then ''MotionGate PREPARE failed'' else ar_detail r)
     else do {
       set_gate (ar_snapshot r);
       set_lease (ar_lease r);
       s \<leftarrow> State_Monad.get;
       allowed \<leftarrow> admission_allowed P (rs_epoch (c_state s));
       permitted \<leftarrow> (if allowed then check_permit permit else State_Monad.return False);
       if \<not> permitted
       then cleanup_faulted P ''Runtime admission fence raised after MotionGate PREPARE''
         ''Runtime admission fence raised after PREPARE and zero cleanup failed''
       else do {
         permitted \<leftarrow> check_permit permit;
         if \<not> permitted
         then cleanup_faulted P ''Runtime start permit was revoked before MotionGate OPEN''
           ''Runtime start permit was revoked and zero cleanup failed''
         else admit_open P g permit admission_generation mission
       }
     }
   }"

text \<open>The mission identifier, after every check of the Gate.\<close>

definition admit_identified :: "'e runtime_ports \<Rightarrow> mission_goal \<Rightarrow> 'e check option \<Rightarrow> u64 \<Rightarrow>
    ('e, admission) runtime" where
  "admit_identified P g permit admission_generation = do {
     s \<leftarrow> State_Monad.get;
     let mission = c_next_mission s;
     State_Monad.update (\<lambda>s. s\<lparr>c_next_mission := c_next_mission s + 1\<rparr>);
     if mission = 0 \<or> c_next_generation s = 0
     then refuse_faulted P SafetyFault ''Mission generation exhausted''
     else if \<not> map_only g \<and> \<not> rp_owns_authority P
     then admit_handover P g permit admission_generation mission
     else admit_permitted P g permit admission_generation mission
   }"

definition admit_gate :: "'e runtime_ports \<Rightarrow> mission_goal \<Rightarrow> 'e check option \<Rightarrow> u64 \<Rightarrow>
    ('e, admission) runtime" where
  "admit_gate P g permit admission_generation = do {
     gate \<leftarrow> ask (rp_snapshot P);
     set_gate gate;
     if map_only g \<and> (as_state gate \<noteq> Inhibited \<or> \<not> zero_is_proven gate)
     then refuse DependencyUnavailable
       ''SAVE_MAP requires MotionGate to remain inhibited with a proven zero''
     else if as_state gate = Faulted \<and> as_endpoint gate
     then refuse SafetyFault ''MotionGate is faulted''
     else if \<not> gate_is_healthy gate
     then (if as_endpoint gate \<and> as_state gate \<noteq> Armed \<and> \<not> zero_is_proven gate
       then refuse_faulted P SafetyFault ''MotionGate zero proof is not trustworthy''
       else refuse DependencyUnavailable ''MotionGate endpoint is unavailable'')
     else do {
       State_Monad.update (\<lambda>s. s\<lparr>c_gate_bound := True, c_gate_fault_handled := False,
         c_fault_snapshot := None\<rparr>);
       permitted \<leftarrow> check_permit permit;
       if \<not> permitted
       then refuse SafetyFault (if map_only g
         then ''Runtime start permit was revoked before map-only admission''
         else ''Runtime start permit was revoked before MotionGate PREPARE'')
       else admit_identified P g permit admission_generation
     }
   }"

definition admit_motion :: "'e runtime_ports \<Rightarrow> mission_goal \<Rightarrow> 'e check option \<Rightarrow> u64 \<Rightarrow>
    ('e, admission) runtime" where
  "admit_motion P g permit admission_generation = do {
     healthy \<leftarrow> ask (cp_healthy (rp_motion P));
     if \<not> healthy then refuse DependencyUnavailable ''RelativeMotionPort is unavailable''
     else admit_gate P g permit admission_generation
   }"

definition admit_dependencies :: "'e runtime_ports \<Rightarrow> mission_goal \<Rightarrow> 'e check option \<Rightarrow> u64 \<Rightarrow>
    ('e, admission) runtime" where
  "admit_dependencies P g permit admission_generation = do {
     faulted \<leftarrow> ask (cp_safety_faulted (rp_motion P));
     if faulted
     then refuse_faulted P SafetyFault ''RelativeMotionPort is permanently safety-faulted''
     else if \<not> requires_navigation g then admit_motion P g permit admission_generation
     else case rp_navigation P of
       None \<Rightarrow> refuse DependencyUnavailable ''NavigationPort is unavailable''
     | Some nav \<Rightarrow> do {
         faulted \<leftarrow> ask (cp_safety_faulted nav);
         if faulted
         then refuse_faulted P SafetyFault ''NavigationPort is permanently safety-faulted''
         else do {
           healthy \<leftarrow> ask (cp_healthy nav);
           if \<not> healthy then refuse DependencyUnavailable ''NavigationPort is unavailable''
           else admit_motion P g permit admission_generation
         }
       }
   }"

definition admit :: "'e runtime_ports \<Rightarrow> mission_goal \<Rightarrow> 'e check option \<Rightarrow> u64 \<Rightarrow>
    ('e, admission) runtime" where
  "admit P g permit admission_generation = do {
     s \<leftarrow> State_Monad.get;
     if \<not> valid_bounded_id (mg_source g) 36 False
     then refuse InvalidPlan ''source_instance_id must be non-empty and within 36 characters''
     else if mg_runtime g \<noteq> rs_runtime (c_state s) \<or> mg_epoch g \<noteq> rs_epoch (c_state s)
     then refuse StaleRequest ''Runtime instance or admission epoch is stale''
     else do {
       allowed \<leftarrow> admission_allowed P (rs_epoch (c_state s));
       if \<not> allowed then refuse_faulted P SafetyFault ''Runtime admission fence is active''
       else do {
         stale \<leftarrow> consume_source_sequence P g;
         case stale of
           Some r \<Rightarrow> refused r
         | None \<Rightarrow> (case validate_goal (rp_config P) g of
             Some r \<Rightarrow> refused r
           | None \<Rightarrow> do {
               s \<leftarrow> State_Monad.get;
               if c_active s \<noteq> None
               then refuse Busy ''another Mission already owns the single execution slot''
               else if rs_availability (c_state s) = AvFaulted
               then refuse SafetyFault ''Runtime is faulted and remains fail-closed''
               else admit_dependencies P g permit admission_generation
             })
       }
     }
   }"

subsection \<open>Cancel and STOP\<close>

definition cancel_mission :: "'e runtime_ports \<Rightarrow> u64 \<Rightarrow> ('e, unit) runtime" where
  "cancel_mission P mission = do {
     s \<leftarrow> State_Monad.get;
     case c_active s of
       None \<Rightarrow> skip
     | Some a \<Rightarrow> if am_id a \<noteq> mission then skip
         else terminate P Canceled ''Mission canceled by the Action client''
   }"

text \<open>The terminal of a STOP: that of the active mission, or the barrier alone.\<close>

definition execute_terminal :: "'e runtime_ports \<Rightarrow> result_kind \<Rightarrow> string \<Rightarrow> bool \<Rightarrow>
    ('e, terminal_outcome) runtime" where
  "execute_terminal P code detail rotates = do {
     s \<leftarrow> State_Monad.get;
     if c_active s \<noteq> None then select_terminal_and_stop P code detail rotates
     else do {
       epoch_ok \<leftarrow> (if rotates then rotate_epoch P else State_Monad.return True);
       if rp_owns_authority P
       then do {
         canceled \<leftarrow> cancel_child P False no_token (rc_stationarity_deadline (rp_config P));
         zero \<leftarrow> (if canceled then ask (rp_zero_proven P) else State_Monad.return False);
         State_Monad.return \<lparr>to_zero = zero, to_canceled = canceled, to_epoch = epoch_ok\<rparr>
       }
       else do {
         zero \<leftarrow> inhibit_and_prove_zero P;
         State_Monad.return \<lparr>to_zero = zero, to_canceled = True, to_epoch = epoch_ok\<rparr>
       }
     }
   }"

definition stop_fingerprint :: "stop_request \<Rightarrow> string" where
  "stop_fingerprint r =
     (let encode = (\<lambda>v. to_decimal (length v) @ '':'' @ v)
      in encode (sr_source r) @ encode (to_decimal (unat (sr_seq r))) @ encode (sr_reason r))"

definition stop_response :: "nat \<Rightarrow> bool \<Rightarrow> string \<Rightarrow> ('e, stop_response) runtime" where
  "stop_response code inhibited detail = do {
     s \<leftarrow> State_Monad.get;
     State_Monad.return \<lparr>sp_code = code, sp_runtime = rs_runtime (c_state s),
       sp_epoch = rs_epoch (c_state s), sp_inhibited = inhibited,
       sp_detail = bounded_detail detail\<rparr>
   }"

text \<open>A STOP that is refused still stops: the runtime is faulted and the barrier executed.\<close>

definition stop_faulted :: "'e runtime_ports \<Rightarrow> string \<Rightarrow> ('e, stop_response) runtime" where
  "stop_faulted P detail = do {
     set_availability AvFaulted;
     out \<leftarrow> execute_terminal P SafetyFault detail False;
     publish_state P;
     stop_response 2 (to_zero out) detail
   }"

definition stop_repeated :: "'e runtime_ports \<Rightarrow> ('e, stop_response) runtime" where
  "stop_repeated P = do {
     out \<leftarrow> execute_terminal P Stopped ''duplicate STOP reasserted the current safety barrier'' False;
     (let safe = to_zero out \<and> to_canceled out
      in stop_response (if safe then 1 else 2) (to_zero out)
        (if safe then ''duplicate STOP reasserted Gate inhibit and zero''
         else ''duplicate STOP could not prove Gate zero''))
   }"

definition stop_fresh :: "'e runtime_ports \<Rightarrow> stop_request \<Rightarrow> ('e, stop_response) runtime" where
  "stop_fresh P r = do {
     State_Monad.update (\<lambda>s. s\<lparr>c_stops := AList.update (sr_id r) (stop_fingerprint r) (c_stops s)\<rparr>);
     out \<leftarrow> execute_terminal P Stopped ''Mission stopped by Operational Stop'' True;
     if \<not> (to_zero out \<and> to_canceled out \<and> to_epoch out)
     then do {
       set_availability AvFaulted;
       publish_state P;
       stop_response 2 (to_zero out) ''STOP transaction could not prove complete safe cleanup''
     }
     else do {
       set_availability_from_dependencies P False None;
       publish_state P;
       stop_response 0 True ''Operational Stop applied''
     }
   }"

definition stop_mission :: "'e runtime_ports \<Rightarrow> stop_request \<Rightarrow> ('e, stop_response) runtime" where
  "stop_mission P r =
     (if \<not> valid_bounded_id (sr_id r) 36 False
      then stop_faulted P ''STOP request_id is empty or outside the IDL bound''
      else if \<not> valid_bounded_id (sr_source r) 36 True \<or> 160 < length (sr_reason r)
      then stop_faulted P ''STOP metadata is outside the trusted bounds''
      else do {
        s \<leftarrow> State_Monad.get;
        case map_of (c_stops s) (sr_id r) of
          Some fingerprint \<Rightarrow>
            if fingerprint \<noteq> stop_fingerprint r
            then stop_faulted P ''STOP request_id collision; Runtime is faulted''
            else stop_repeated P
        | None \<Rightarrow>
            if rc_stop_cache (rp_config P) \<le> length (c_stops s)
            then stop_faulted P ''STOP idempotency cache is full; no request was evicted''
            else stop_fresh P r
      })"

subsection \<open>The Gate and the dependencies\<close>

definition try_rearm :: "'e runtime_ports \<Rightarrow> ('e, bool) runtime" where
  "try_rearm P = do {
     s \<leftarrow> State_Monad.get;
     if \<not> c_replacement_pending s \<or> c_active s \<noteq> None \<or>
       \<not> replacement_gate_can_reassert (c_gate s)
     then State_Monad.return False
     else do {
       (rearmed, accepted) \<leftarrow> ask (rp_rearm P (c_gate s));
       if \<not> rearmed then State_Monad.return False
       else do {
         rotated \<leftarrow> rotate_epoch P;
         if \<not> rotated then State_Monad.return False
         else do {
           State_Monad.update (\<lambda>s. s\<lparr>c_gate_fault_handled := False, c_fault_snapshot := None,
             c_replacement_pending := False, c_gate_bound := True\<rparr>);
           set_availability_from_dependencies P True (Some accepted);
           publish_state P;
           State_Monad.return True
         }
       }
     }
   }"

definition same_gate :: "'e core \<Rightarrow> auth_snapshot \<Rightarrow> bool" where
  "same_gate s g \<longleftrightarrow> c_gate_bound s \<and> as_gate (c_gate s) \<noteq> [] \<and> as_gate g \<noteq> [] \<and>
     as_gate (c_gate s) = as_gate g"

definition identity_changed :: "'e core \<Rightarrow> auth_snapshot \<Rightarrow> bool" where
  "identity_changed s g \<longleftrightarrow> c_gate_bound s \<and> as_gate (c_gate s) \<noteq> [] \<and> as_gate g \<noteq> [] \<and>
     as_gate (c_gate s) \<noteq> as_gate g"

text \<open>The samples of a Gate that are dropped: delayed ones, and repeated ones that say nothing new.\<close>

definition ignored_sample :: "'e core \<Rightarrow> auth_snapshot \<Rightarrow> bool" where
  "ignored_sample s g \<longleftrightarrow> same_gate s g \<and>
     (as_seq g < as_seq (c_gate s) \<or>
      (as_seq g = as_seq (c_gate s) \<and>
       \<not> (\<not> c_gate_fault_handled s \<and> gate_is_healthy (c_gate s) \<and> \<not> gate_is_healthy g) \<and>
       \<not> (c_replacement_pending s \<and> replacement_gate_can_reassert g)))"

definition set_binding :: "bool \<Rightarrow> bool \<Rightarrow> ('e, unit) runtime" where
  "set_binding bound handled =
     State_Monad.update (\<lambda>s. s\<lparr>c_gate_bound := bound, c_gate_fault_handled := handled\<rparr>)"

definition refresh_availability :: "'e runtime_ports \<Rightarrow> ('e, unit) runtime" where
  "refresh_availability P = do {
     set_availability_from_dependencies P False None;
     publish_state P
   }"

text \<open>The first samples: the Gate is bound once it is inhibited with a proven zero.\<close>

definition startup_barrier :: "'e runtime_ports \<Rightarrow> ('e, bool) runtime" where
  "startup_barrier P = do {
     proven \<leftarrow> inhibit_and_prove_zero P;
     g \<leftarrow> ask (rp_snapshot P);
     set_gate g;
     set_gate_state (visible_gate_state g);
     State_Monad.return proven
   }"

definition observe_unbound_gate :: "'e runtime_ports \<Rightarrow> auth_snapshot \<Rightarrow> ('e, unit) runtime" where
  "observe_unbound_gate P g = do {
     proven \<leftarrow> (if as_endpoint g \<and> as_state g \<noteq> Faulted \<and> \<not> startup_gate_is_ready g
               then startup_barrier P else State_Monad.return True);
     if \<not> proven
     then do {
       set_availability AvFaulted;
       set_binding False True;
       publish_state P
     }
     else do {
       s \<leftarrow> State_Monad.get;
       let ready = startup_gate_is_ready (c_gate s);
       set_binding ready (\<not> ready);
       if \<not> ready \<and> as_endpoint g
       then do { set_availability AvFaulted; publish_state P }
       else refresh_availability P
     }
   }"

definition trusted_recovery :: "'e core \<Rightarrow> auth_snapshot \<Rightarrow> bool" where
  "trusted_recovery s g = (case c_fault_snapshot s of
     None \<Rightarrow> False
   | Some f \<Rightarrow> gate_is_healthy g \<and> as_gate f \<noteq> [] \<and> as_gate g = as_gate f \<and>
       as_seq f < as_seq g)"

definition observe_faulted_gate ::
  "'e runtime_ports \<Rightarrow> bool \<Rightarrow> auth_snapshot \<Rightarrow> ('e, unit) runtime" where
  "observe_faulted_gate P changed g = do {
     (if changed then State_Monad.update (\<lambda>s. s\<lparr>c_replacement_pending := True\<rparr>) else skip);
     s \<leftarrow> State_Monad.get;
     if c_replacement_pending s then do { _ \<leftarrow> try_rearm P; skip }
     else if \<not> trusted_recovery s g then skip
     else do {
       State_Monad.update (\<lambda>s. s\<lparr>c_gate_fault_handled := False, c_fault_snapshot := None,
         c_replacement_pending := False, c_gate_bound := True\<rparr>);
       refresh_availability P
     }
   }"

definition gate_lost :: "'e runtime_ports \<Rightarrow> bool \<Rightarrow> auth_snapshot \<Rightarrow> ('e, unit) runtime" where
  "gate_lost P changed g = do {
     State_Monad.update (\<lambda>s. s\<lparr>c_replacement_pending := changed\<rparr>);
     rearmed \<leftarrow> try_rearm P;
     if rearmed then skip
     else do {
       State_Monad.update (\<lambda>s. s\<lparr>c_gate_fault_handled := True, c_fault_snapshot := Some g\<rparr>);
       _ \<leftarrow> rotate_epoch P;
       terminate P SafetyFault ''MotionGate health or identity changed during Mission'';
       set_availability (if as_state g = Faulted \<or> \<not> as_endpoint g \<or>
           (as_endpoint g \<and> \<not> zero_is_proven g)
         then AvFaulted else AvUnavailable);
       publish_state P
     }
   }"

definition observe_gate :: "'e runtime_ports \<Rightarrow> auth_snapshot \<Rightarrow> ('e, unit) runtime" where
  "observe_gate P g = do {
     s \<leftarrow> State_Monad.get;
     if ignored_sample s g then skip
     else do {
       set_gate g;
       set_gate_state (visible_gate_state g);
       if \<not> c_gate_bound s then observe_unbound_gate P g
       else if c_gate_fault_handled s then observe_faulted_gate P (identity_changed s g) g
       else if identity_changed s g \<or> (\<not> gate_is_healthy g \<and> gate_is_healthy (c_gate s))
       then gate_lost P (identity_changed s g) g
       else do {
         (if gate_is_healthy g then set_binding True False else skip);
         refresh_availability P
       }
     }
   }"

definition observe_dependencies :: "'e runtime_ports \<Rightarrow> ('e, unit) runtime" where
  "observe_dependencies P = do {
     healthy \<leftarrow> ask (cp_healthy (rp_motion P));
     s \<leftarrow> State_Monad.get;
     (if c_health_known s \<and> c_last_healthy s \<and> \<not> healthy
      then (if c_active s \<noteq> None
        then do {
          _ \<leftarrow> rotate_epoch P;
          terminate P SafetyFault ''RelativeMotionPort became unhealthy during Mission''
        }
        else do {
          faulted \<leftarrow> ask (cp_safety_faulted (rp_motion P));
          set_availability (if faulted then AvFaulted else AvUnavailable);
          _ \<leftarrow> rotate_epoch P;
          skip
        })
      else skip);
     State_Monad.update (\<lambda>s. s\<lparr>c_last_healthy := healthy, c_health_known := True\<rparr>);
     s \<leftarrow> State_Monad.get;
     if c_active s = None \<and> rs_availability (c_state s) \<noteq> AvFaulted
     then refresh_availability P else skip
   }"

subsection \<open>The tick and the fail-closed paths\<close>

definition tick_discovery :: "'e runtime_ports \<Rightarrow> time \<Rightarrow> ('e, unit) runtime" where
  "tick_discovery P now = do {
     s \<leftarrow> State_Monad.get;
     if \<not> c_gate_bound s \<and> \<not> as_endpoint (c_gate s) \<and> \<not> c_discovery_timed_out s \<and>
       c_discovery_started s + ms (rc_gate_discovery_deadline (rp_config P)) \<le> now
     then do {
       State_Monad.update (\<lambda>s. s\<lparr>c_discovery_timed_out := True\<rparr>);
       set_availability AvUnavailable;
       publish_state P
     }
     else skip
   }"

definition tick_port :: "'e runtime_ports \<Rightarrow> 'e child_port \<Rightarrow> time \<Rightarrow> ('e, unit) runtime" where
  "tick_port P port now = do {
     calls \<leftarrow> ask (cp_tick port now);
     deliver_all P (cp_external port) (on_child_result P) calls
   }"

definition tick_child :: "'e runtime_ports \<Rightarrow> time \<Rightarrow> ('e, unit) runtime" where
  "tick_child P now = do {
     s \<leftarrow> State_Monad.get;
     if (case c_active s of None \<Rightarrow> False
         | Some a \<Rightarrow> ms_kind (current_step a) = k_navigate)
     then (case rp_navigation P of None \<Rightarrow> skip | Some nav \<Rightarrow> tick_port P nav now)
     else tick_port P (rp_motion P) now
   }"

definition tick_active :: "'e runtime_ports \<Rightarrow> time \<Rightarrow> ('e, unit) runtime" where
  "tick_active P now = do {
     s \<leftarrow> State_Monad.get;
     case c_active s of
       None \<Rightarrow> skip
     | Some a \<Rightarrow>
         if am_deadline a \<le> now
         then terminate P Timeout ''Mission deadline elapsed on the injected steady clock''
         else if rp_owns_authority P then skip
         else do {
           op \<leftarrow> make_operation P (c_lease s);
           r \<leftarrow> ask (rp_renew P op);
           if ar_applied r then skip
           else terminate P SafetyFault
             (if ar_detail r = [] then ''MotionGate authority renewal failed'' else ar_detail r)
         }
   }"

definition on_tick :: "'e runtime_ports \<Rightarrow> ('e, unit) runtime" where
  "on_tick P = do {
     rearmed \<leftarrow> try_rearm P;
     (if rearmed then skip else observe_dependencies P);
     now \<leftarrow> ask (rp_now P);
     tick_discovery P now;
     tick_child P now;
     tick_active P now
   }"

definition fail_closed :: "'e runtime_ports \<Rightarrow> string \<Rightarrow> ('e, unit) runtime" where
  "fail_closed P detail = do {
     s \<leftarrow> State_Monad.get;
     if c_active s \<noteq> None then terminate P SafetyFault detail
     else do {
       set_availability AvFaulted;
       publish_state P
     }
   }"

definition fail_closed_at_epoch :: "'e runtime_ports \<Rightarrow> u64 \<Rightarrow> string \<Rightarrow> ('e, unit) runtime" where
  "fail_closed_at_epoch P epoch detail = do {
     s \<leftarrow> State_Monad.get;
     (if rs_epoch (c_state s) < epoch then set_epoch epoch else skip);
     (if c_active s \<noteq> None then terminate P SafetyFault detail else skip);
     set_availability AvFaulted;
     publish_state P
   }"

subsection \<open>Construction and the machine\<close>

definition config_trusted :: "runtime_config \<Rightarrow> bool" where
  "config_trusted c \<longleftrightarrow> rc_max_steps c \<noteq> 0 \<and> rc_max_steps c \<le> 3 \<and>
     rc_source_cache c \<noteq> 0 \<and> rc_source_cache c \<le> 64 \<and>
     rc_stop_cache c \<noteq> 0 \<and> rc_stop_cache c \<le> 64 \<and> rc_initial_epoch c \<noteq> 0 \<and>
     0 < rc_mission_deadline c \<and> 0 < rc_gate_discovery_deadline c \<and>
     0 < rc_control_response_deadline c \<and> 0 < rc_stop_barrier c \<and> 0 < rc_cancel_grace c \<and>
     0 < rc_stationarity_deadline c"

definition step_policy_trusted :: "runtime_config \<Rightarrow> bool" where
  "step_policy_trusted c \<longleftrightarrow>
     isfinite (rc_move_min c) \<and> isfinite (rc_move_max c) \<and>
     isfinite (rc_rotate_min c) \<and> isfinite (rc_rotate_max c) \<and>
     dlt (Fin 0) (rc_move_min c) \<and> dle (rc_move_min c) (rc_move_max c) \<and>
     dlt (Fin 0) (rc_move_max c) \<and>
     dlt (Fin 0) (rc_rotate_min c) \<and> dle (rc_rotate_min c) (rc_rotate_max c) \<and>
     dlt (Fin 0) (rc_rotate_max c)"

definition step_mask :: "mode \<Rightarrow> u32" where
  "step_mask m = (if m = Navigation then 3 OR push_bit 2 1 else 3 OR push_bit 3 1)"

definition initial_core :: "'e runtime_ports \<Rightarrow> string \<Rightarrow> 'e \<Rightarrow> 'e core" where
  "initial_core P rid e = \<lparr>c_env = e, c_out = [],
     c_state = \<lparr>rs_runtime = rid, rs_epoch = rc_initial_epoch (rp_config P),
       rs_mode = rc_mode (rp_config P), rs_availability = AvUnavailable, rs_gate_state = Faulted,
       rs_active_step = no_active_step, rs_step_mask = step_mask (rc_mode (rp_config P)),
       rs_max_steps = rc_max_steps (rp_config P), rs_places = rc_places (rp_config P)\<rparr>,
     c_gate = default_snapshot, c_gate_bound = False, c_gate_fault_handled = False,
     c_replacement_pending = False, c_fault_snapshot = None, c_health_known = False,
     c_last_healthy = False, c_discovery_started = 0, c_discovery_timed_out = False,
     c_sources = [], c_stops = [], c_active = None, c_next_mission = 1, c_next_generation = 1,
     c_progress = Fin 0, c_lease = []\<rparr>"

definition read_dependencies :: "'e runtime_ports \<Rightarrow> ('e, unit) runtime" where
  "read_dependencies P = do {
     g \<leftarrow> ask (rp_snapshot P);
     set_gate g;
     now \<leftarrow> ask (rp_now P);
     set_gate_state (visible_gate_state g);
     healthy \<leftarrow> ask (cp_healthy (rp_motion P));
     State_Monad.update (\<lambda>s. s\<lparr>c_discovery_started := now, c_last_healthy := healthy,
       c_health_known := True\<rparr>);
     publish_state P
   }"

definition runtime_init :: "'e runtime_ports \<Rightarrow> 'e \<Rightarrow> string + 'e core" where
  "runtime_init P e =
     (if \<not> config_trusted (rp_config P) then Inl ''invalid trusted Runtime configuration''
      else if \<not> step_policy_trusted (rp_config P)
      then Inl ''invalid trusted Mission step policy''
      else case (if rc_runtime_id (rp_config P) = [] then make_random_identifier P e
                 else (rc_runtime_id (rp_config P), e)) of (rid, e) \<Rightarrow>
      if \<not> valid_bounded_id rid 36 False
      then Inl ''runtime_instance_id is outside the IDL bound''
      else Inr (exec (read_dependencies P) (initial_core P rid e)))"

datatype 'e runtime_event =
    Admit mission_goal "'e check option" u64
  | Cancel u64
  | Stop stop_request
  | GateSample auth_snapshot
  | Dependencies
  | Tick
  | Feedback motion_token dbl
  | Done motion_token child_result
  | FailClosed string
  | FailClosedAt u64 string

fun runtime_call :: "'e runtime_ports \<Rightarrow> 'e runtime_event \<Rightarrow> ('e, unit) runtime" where
  "runtime_call P (Admit g permit n) = do { _ \<leftarrow> admit P g permit n; skip }"
| "runtime_call P (Cancel m) = cancel_mission P m"
| "runtime_call P (Stop r) = do { _ \<leftarrow> stop_mission P r; skip }"
| "runtime_call P (GateSample g) = observe_gate P g"
| "runtime_call P Dependencies = observe_dependencies P"
| "runtime_call P Tick = on_tick P"
| "runtime_call P (Feedback t x) = on_child_feedback P t x"
| "runtime_call P (Done t r) = on_child_result P t r"
| "runtime_call P (FailClosed d) = fail_closed P d"
| "runtime_call P (FailClosedAt n d) = fail_closed_at_epoch P n d"

definition runtime_step :: "'e runtime_ports \<Rightarrow> 'e core \<Rightarrow> 'e runtime_event \<Rightarrow> 'e core" where
  "runtime_step P s ev = exec (runtime_call P ev) s"

end
