(* ===== verification/Mission_Runtime_Steps.thy ===== *)
theory Mission_Runtime_Steps
  imports Mission_Runtime
begin

text \<open>
  What one call of the runtime can change, once and for all: a relation between the core before
  and after that is reflexive, transitive and holds of the few elementary changes the code makes
  holds of every method. The invariants, the monotone quantities and the latches of the runtime
  are instances.
\<close>

subsection \<open>Running the statements\<close>

lemma run_ask [simp]:
  "run_state (ask f) s = (fst (f (c_env s)), s\<lparr>c_env := snd (f (c_env s))\<rparr>)"
  by (simp add: ask_def Let_def)

lemma run_emit [simp]: "run_state (emit x) s = ((), s\<lparr>c_out := c_out s @ [x]\<rparr>)"
  by (simp add: emit_def)

lemma run_change_active [simp]:
  "run_state (change_active f) s = ((), s\<lparr>c_active := map_option f (c_active s)\<rparr>)"
  by (simp add: change_active_def)

lemma run_setters [simp]:
  "run_state (set_availability a) s = ((), s\<lparr>c_state := (c_state s)\<lparr>rs_availability := a\<rparr>\<rparr>)"
  "run_state (set_gate_state gs) s = ((), s\<lparr>c_state := (c_state s)\<lparr>rs_gate_state := gs\<rparr>\<rparr>)"
  "run_state (set_gate g) s = ((), s\<lparr>c_gate := g\<rparr>)"
  "run_state (set_epoch x) s = ((), s\<lparr>c_state := (c_state s)\<lparr>rs_epoch := x\<rparr>\<rparr>)"
  "run_state (set_progress p) s = ((), s\<lparr>c_progress := p\<rparr>)"
  "run_state (set_lease l) s = ((), s\<lparr>c_lease := l\<rparr>)"
  "run_state (set_binding b h) s = ((), s\<lparr>c_gate_bound := b, c_gate_fault_handled := h\<rparr>)"
  by (simp_all add: set_availability_def set_gate_state_def set_gate_def set_epoch_def
    set_progress_def set_lease_def set_binding_def)

lemma out_same: "(t :: 'e core)\<lparr>c_out := c_out t\<rparr> = t"
  by (cases t) simp

subsection \<open>Quiet changes\<close>

text \<open>
  A quiet change touches the environment, the Gate bookkeeping and the published fields that
  are derived from them, publishes states and dispatches callbacks; it does not clear a fault.
\<close>

fun quiet_output :: "core_output \<Rightarrow> bool" where
  "quiet_output (OutFeedback m f) = False"
| "quiet_output (OutResult m r) = False"
| "quiet_output _ = True"

definition faulted :: "'e core \<Rightarrow> bool" where
  "faulted s \<longleftrightarrow> rs_availability (c_state s) = AvFaulted"

definition same_mission :: "'e core \<Rightarrow> 'e core \<Rightarrow> bool" where
  "same_mission s t \<longleftrightarrow> rs_runtime (c_state t) = rs_runtime (c_state s) \<and>
     rs_epoch (c_state t) = rs_epoch (c_state s) \<and> c_sources t = c_sources s \<and>
     c_stops t = c_stops s \<and> c_active t = c_active s \<and> c_next_mission t = c_next_mission s \<and>
     c_next_generation t = c_next_generation s \<and> c_progress t = c_progress s"

definition quiet :: "'e core \<Rightarrow> 'e core \<Rightarrow> bool" where
  "quiet s t \<longleftrightarrow> same_mission s t \<and>
     (\<exists>xs. c_out t = c_out s @ xs \<and> list_all quiet_output xs) \<and> (faulted s \<longrightarrow> faulted t)"

interpretation quiet_steps: step_preorder quiet
proof
  show "quiet s s" for s :: "'a core" by (simp add: quiet_def same_mission_def)
  show "quiet s t \<Longrightarrow> quiet t u \<Longrightarrow> quiet s u" for s t u :: "'a core"
    unfolding quiet_def same_mission_def by (metis append.assoc list_all_append)
qed

lemma quiet_fields:
  assumes "quiet s t"
  shows "rs_runtime (c_state t) = rs_runtime (c_state s)"
    and "rs_epoch (c_state t) = rs_epoch (c_state s)"
    and "c_sources t = c_sources s" and "c_stops t = c_stops s"
    and "c_active t = c_active s" and "c_next_mission t = c_next_mission s"
    and "c_next_generation t = c_next_generation s" and "c_progress t = c_progress s"
    and "faulted s \<Longrightarrow> faulted t"
  using assms by (simp_all add: quiet_def same_mission_def)

lemma quiet_ask [intro]: "kept quiet (ask f)"
  by (simp add: kept_def quiet_def same_mission_def faulted_def)

lemma quiet_set [intro]:
  "kept quiet (set_gate g)" "kept quiet (set_gate_state gs)" "kept quiet (set_lease l)"
  "kept quiet (set_binding b h)" "kept quiet (set_availability AvFaulted)"
  by (simp_all add: kept_def quiet_def same_mission_def faulted_def)

lemma quiet_publish_state [intro]: "kept quiet (publish_state P)"
  by (simp add: kept_def publish_state_def quiet_def same_mission_def faulted_def)

lemma quiet_update [intro]:
  "kept quiet (State_Monad.update (\<lambda>s. s\<lparr>c_gate_bound := b, c_gate_fault_handled := h,
     c_fault_snapshot := f\<rparr>))"
  "kept quiet (State_Monad.update (\<lambda>s. s\<lparr>c_gate_fault_handled := h, c_fault_snapshot := f,
     c_replacement_pending := r, c_gate_bound := b\<rparr>))"
  "kept quiet (State_Monad.update (\<lambda>s. s\<lparr>c_replacement_pending := r\<rparr>))"
  "kept quiet (State_Monad.update (\<lambda>s. s\<lparr>c_gate_fault_handled := h, c_fault_snapshot := f\<rparr>))"
  "kept quiet (State_Monad.update (\<lambda>s. s\<lparr>c_last_healthy := b, c_health_known := h\<rparr>))"
  "kept quiet (State_Monad.update (\<lambda>s. s\<lparr>c_discovery_timed_out := b\<rparr>))"
  by (simp_all add: kept_def quiet_def same_mission_def faulted_def)

named_theorems quiet_ops

lemmas quiet_intros = quiet_steps.kept_rules quiet_ask quiet_set quiet_publish_state quiet_update

lemma quiet_make_operation [quiet_ops]: "kept quiet (make_operation P l)"
  unfolding make_operation_def new_identifier_def by (intro quiet_intros)

lemma quiet_inhibit [quiet_ops]: "kept quiet (inhibit_and_prove_zero P)"
  unfolding inhibit_and_prove_zero_def by (intro quiet_intros quiet_ops)

lemma quiet_admission_allowed [quiet_ops]: "kept quiet (admission_allowed P e)"
  unfolding admission_allowed_def by (intro quiet_intros)

lemma quiet_cancel_child [quiet_ops]: "kept quiet (cancel_child P b t g)"
  unfolding cancel_child_def by (intro quiet_intros)

lemma quiet_terminal_barrier [quiet_ops]: "kept quiet (terminal_barrier P b t)"
  unfolding terminal_barrier_def by (intro quiet_intros quiet_ops)

lemma quiet_check_permit [quiet_ops]: "kept quiet (check_permit p)"
  unfolding check_permit_def by (intro quiet_intros)

lemma quiet_register [quiet_ops]: "kept quiet (register_child P b t)"
  unfolding register_child_def by (intro quiet_intros)

lemma quiet_refuse [quiet_ops]:
  "kept quiet (refused r)" "kept quiet (refuse c d)"
  unfolding refuse_def refused_def by (intro quiet_intros)+

lemma quiet_refuse_faulted [quiet_ops]: "kept quiet (refuse_faulted P c d)"
  unfolding refuse_faulted_def by (intro quiet_intros quiet_ops)

lemma quiet_cleanup [quiet_ops]: "kept quiet (cleanup_faulted P c d)"
  unfolding cleanup_faulted_def by (intro quiet_intros quiet_ops)

lemma quiet_stop_response [quiet_ops]: "kept quiet (stop_response c b d)"
  unfolding stop_response_def by (intro quiet_intros)

lemma quiet_startup_barrier [quiet_ops]: "kept quiet (startup_barrier P)"
  unfolding startup_barrier_def by (intro quiet_intros quiet_ops)

text \<open>Deriving the availability does not clear a fault unless a rearm allows it.\<close>

lemma quiet_availability [quiet_ops]:
  "kept quiet (set_availability_from_dependencies P False g)"
  by (auto simp: kept_def set_availability_from_dependencies_def quiet_def same_mission_def
    faulted_def Let_def split: option.split)

lemma quiet_refresh [quiet_ops]: "kept quiet (refresh_availability P)"
  unfolding refresh_availability_def by (intro quiet_intros quiet_ops)

subsection \<open>The elementary changes\<close>

text \<open>What happens to the active mission while it holds the slot.\<close>

definition mission_moves :: "'e active_mission \<Rightarrow> 'e active_mission \<Rightarrow> bool" where
  "mission_moves a b \<longleftrightarrow> am_id b = am_id a \<and> am_epoch b = am_epoch a \<and>
     am_steps b = am_steps a \<and> am_deadline b = am_deadline a \<and>
     (am_step_index b = am_step_index a \<and> am_completed a \<le> am_completed b \<or>
      am_step_index b = am_step_index a + 1 \<and> am_completed b = am_completed a + 1 \<and>
      am_completed b < length (am_steps b))"

definition feedback_given :: "'e core \<Rightarrow> 'e active_mission \<Rightarrow> phase_kind \<Rightarrow> nat \<Rightarrow> dbl \<Rightarrow> 'e core" where
  "feedback_given s a phase step x = s\<lparr>c_progress := monotonic_progress (c_progress s) x,
     c_out := c_out s @ [OutFeedback (am_id a) \<lparr>mf_phase = phase, mf_step = step,
       mf_progress = to_float (monotonic_progress (c_progress s) x)\<rparr>]\<rparr>"

definition mission_taken :: "'e core \<Rightarrow> u64 \<Rightarrow> mission_goal \<Rightarrow> 'e check option \<Rightarrow> u64 \<Rightarrow> time \<Rightarrow> 'e core" where
  "mission_taken s m g permit n deadline = s\<lparr>
     c_active := Some \<lparr>am_id = m, am_generation = c_next_generation s,
       am_step_generation = 1, am_step_index = 0, am_completed = 0,
       am_epoch = rs_epoch (c_state s), am_admission_generation = n,
       am_steps = mg_steps g, am_deadline = deadline,
       am_token = no_token, am_permit = permit, am_child_started = False, am_terminal = False\<rparr>,
     c_next_generation := c_next_generation s + 1, c_progress := Fin 0,
     c_state := (c_state s)\<lparr>rs_active_step := no_active_step, rs_availability := AvBusy\<rparr>\<rparr>"

definition source_fresh :: "'e runtime_ports \<Rightarrow> 'e core \<Rightarrow> string \<Rightarrow> u64 \<Rightarrow> bool" where
  "source_fresh P s k n \<longleftrightarrow> (case map_of (c_sources s) k of
     None \<Rightarrow> length (c_sources s) < rc_source_cache (rp_config P)
   | Some m \<Rightarrow> m < n)"

text \<open>The relations every statement respects except the change of the active mission.\<close>

locale change_relation = step_preorder R for R :: "'e core \<Rightarrow> 'e core \<Rightarrow> bool" +
  fixes P :: "'e runtime_ports"
  assumes quiet: "quiet s t \<Longrightarrow> R s t"
    and feedback: "c_active s = Some a \<Longrightarrow> R s (feedback_given s a phase step x)"
    and epoch: "rs_epoch (c_state s) < e \<Longrightarrow> R s (s\<lparr>c_state := (c_state s)\<lparr>rs_epoch := e\<rparr>\<rparr>)"
begin

lemma kept_quiet: "kept quiet m \<Longrightarrow> kept R m"
  unfolding kept_def using quiet by blast

lemmas quietly = quiet_ask [THEN kept_quiet] quiet_set [THEN kept_quiet]
  quiet_publish_state [THEN kept_quiet] quiet_update [THEN kept_quiet] quiet_ops [THEN kept_quiet]

lemma kept_publish_feedback: "kept R (publish_feedback P phase step x)"
  using feedback refl
  by (auto simp: kept_def publish_feedback_def Let_def feedback_given_def split: option.split)

lemma kept_commit_next_epoch: "kept R (commit_next_epoch P)"
proof (unfold kept_def, intro allI)
  fix s :: "'e core"
  have env: "R s (s\<lparr>c_env := e\<rparr>)" for e
    by (intro quiet) (simp add: quiet_def same_mission_def faulted_def)
  have fault: "R s (s\<lparr>c_env := e, c_state := (c_state s)\<lparr>rs_availability := AvFaulted\<rparr>\<rparr>)" for e
    by (intro quiet) (simp add: quiet_def same_mission_def faulted_def)
  have fault': "R s (s\<lparr>c_state := (c_state s)\<lparr>rs_availability := AvFaulted\<rparr>\<rparr>)"
    by (intro quiet) (simp add: quiet_def same_mission_def faulted_def)
  have next_epoch: "R (s\<lparr>c_env := e\<rparr>)
      (s\<lparr>c_env := e, c_state := (c_state s)\<lparr>rs_epoch := rs_epoch (c_state s) + 1\<rparr>\<rparr>)"
    if "rs_epoch (c_state s) \<noteq> u64_max" for e
    using epoch [of "s\<lparr>c_env := e\<rparr>" "rs_epoch (c_state s) + 1"] that by simp
  have next_epoch': "R s (s\<lparr>c_state := (c_state s)\<lparr>rs_epoch := rs_epoch (c_state s) + 1\<rparr>\<rparr>)"
    if "rs_epoch (c_state s) \<noteq> u64_max"
    using epoch [of s "rs_epoch (c_state s) + 1"] that by simp
  show "R s (exec (commit_next_epoch P) s)"
    using fault fault' next_epoch next_epoch' env
    by (auto simp: commit_next_epoch_def Let_def split: option.split intro: trans)
qed

lemma kept_rotate_epoch: "kept R (rotate_epoch P)"
  unfolding rotate_epoch_def by (intro kept_rules kept_commit_next_epoch quietly)

lemma kept_terminal_epoch: "kept R (terminal_epoch P c d b)"
  unfolding terminal_epoch_def by (intro kept_rules kept_commit_next_epoch quietly)

end

text \<open>A terminal: the mission is marked, the barrier runs and the slot is freed with one result.\<close>

locale terminal_relation = change_relation R P for R :: "'e core \<Rightarrow> 'e core \<Rightarrow> bool" and P +
  assumes moves: "c_active s = Some a \<Longrightarrow> mission_moves a b \<Longrightarrow> R s (s\<lparr>c_active := Some b\<rparr>)"
    and finish: "c_active s = Some a \<Longrightarrow> quiet (s\<lparr>c_active := None\<rparr>) t \<Longrightarrow>
      R s (t\<lparr>c_out := c_out t @ (if rp_has_result P then [OutResult (am_id a) r] else [])\<rparr>)"
begin

lemma kept_change:
  "(\<And>a. mission_moves a (f a)) \<Longrightarrow> kept R (change_active f)"
proof (unfold kept_def, intro allI)
  fix s :: "'e core"
  assume f: "\<And>a. mission_moves a (f a)"
  show "R s (exec (change_active f) s)"
  proof (cases "c_active s")
    case None
    then have "quiet s (s\<lparr>c_active := None\<rparr>)"
      by (simp add: quiet_def same_mission_def faulted_def)
    with None quiet show ?thesis by simp
  next
    case (Some a)
    with moves [OF Some f] show ?thesis by simp
  qed
qed

lemma kept_finish_active: "kept R (finish_active P r)"
proof (unfold kept_def, intro allI)
  fix s :: "'e core"
  show "R s (exec (finish_active P r) s)"
  proof (cases "c_active s")
    case None
    then show ?thesis using refl by (simp add: finish_active_def)
  next
    case (Some a)
    let ?s = "s\<lparr>c_active := None, c_state := (c_state s)\<lparr>rs_active_step := no_active_step\<rparr>\<rparr>"
    let ?t = "exec (publish_state P) (exec (set_availability_from_dependencies P False None) ?s)"
    have "quiet (s\<lparr>c_active := None\<rparr>) ?s"
      by (simp add: quiet_def same_mission_def faulted_def)
    then have "quiet (s\<lparr>c_active := None\<rparr>) ?t"
      by (intro quiet_steps.trans [OF _ kept_exec [OF quiet_publish_state]]
        quiet_steps.trans [OF _ kept_exec [OF quiet_availability]])
    from finish [OF Some this, of r] show ?thesis
      by (cases "rp_has_result P") (simp_all add: finish_active_def Some split_beta out_same)
  qed
qed

lemma kept_select_terminal: "kept R (select_terminal_and_stop P c d b)"
  unfolding select_terminal_and_stop_def
  by (intro kept_rules kept_change kept_terminal_epoch kept_publish_feedback kept_finish_active
    quietly) (simp add: mission_moves_def)

end

text \<open>The methods that use the slot, given that a terminal respects the relation.\<close>

locale slot_relation = change_relation R P for R :: "'e core \<Rightarrow> 'e core \<Rightarrow> bool" and P +
  assumes works: "c_active s = Some a \<Longrightarrow> mission_moves a b \<Longrightarrow> am_terminal b = am_terminal a \<Longrightarrow>
      R s (s\<lparr>c_active := Some b\<rparr>)"
    and source: "source_fresh P s k n \<Longrightarrow> R s (s\<lparr>c_sources := AList.update k n (c_sources s)\<rparr>)"
    and stop: "map_of (c_stops s) k = None \<Longrightarrow> length (c_stops s) < rc_stop_cache (rp_config P) \<Longrightarrow>
      R s (s\<lparr>c_stops := AList.update k f (c_stops s)\<rparr>)"
    and kept_select_terminal: "kept R (select_terminal_and_stop P code detail rotates)"
begin

lemma kept_change:
  "(\<And>a. mission_moves a (f a) \<and> am_terminal (f a) = am_terminal a) \<Longrightarrow> kept R (change_active f)"
proof (unfold kept_def, intro allI)
  fix s :: "'e core"
  assume f: "\<And>a. mission_moves a (f a) \<and> am_terminal (f a) = am_terminal a"
  show "R s (exec (change_active f) s)"
  proof (cases "c_active s")
    case None
    then have "quiet s (s\<lparr>c_active := None\<rparr>)"
      by (simp add: quiet_def same_mission_def faulted_def)
    with None quiet show ?thesis by simp
  next
    case (Some a)
    with works [OF Some] f show ?thesis by simp
  qed
qed

lemma kept_terminate: "kept R (terminate P c d)"
  unfolding terminate_def by (intro kept_rules kept_select_terminal)

lemma kept_on_child_feedback: "kept R (on_child_feedback P t x)"
  unfolding on_child_feedback_def by (intro kept_rules kept_publish_feedback)

lemma feedback_active [simp]: "c_active (exec (publish_feedback P ph i x) s) = c_active s"
  by (simp add: publish_feedback_def Let_def split: option.split)

lemma kept_child_result_with:
  assumes "kept R next_step"
  shows "kept R (child_result_with P next_step t r)"
proof (unfold kept_def, intro allI)
  fix s :: "'e core"
  show "R s (exec (child_result_with P next_step t r) s)"
  proof (cases "c_active s")
    case None
    then show ?thesis using refl by (simp add: child_result_with_def)
  next
    case (Some a)
    let ?s1 = "exec (publish_feedback P Executing (am_step_index a) (Fin 1)) s"
    have act: "c_active ?s1 = Some a" using Some by simp
    have s1: "R s ?s1" by (rule kept_exec [OF kept_publish_feedback])
    have s2: "R s (?s1\<lparr>c_active := Some (a\<lparr>am_completed := am_completed a + 1\<rparr>)\<rparr>)"
      by (rule trans [OF s1 works [OF act]]) (simp_all add: mission_moves_def)
    have s3: "R s (?s1\<lparr>c_active := Some (a\<lparr>am_completed := am_completed a + 1,
        am_step_index := am_step_index a + 1, am_step_generation := am_step_generation a + 1\<rparr>)\<rparr>)"
      if "am_completed a + 1 < length (am_steps a)"
      by (rule trans [OF s1 works [OF act]]) (use that in \<open>simp_all add: mission_moves_def\<close>)
    have fault: "R s (s\<lparr>c_state := (c_state s)\<lparr>rs_availability := AvFaulted\<rparr>\<rparr>)"
      by (intro quiet) (simp add: quiet_def same_mission_def faulted_def)
    show ?thesis
      using Some act refl s2 s3 fault kept_exec [OF assms] kept_exec [OF kept_terminate]
      by (auto simp: child_result_with_def split_beta not_le intro: trans)
  qed
qed

lemma kept_deliver:
  "(\<And>t r. kept R (on_result t r)) \<Longrightarrow> kept R (deliver P ext on_result c)"
proof (cases c)
  case (ChildFeedback t x)
  have "kept quiet (emit (OutDispatchFeedback t x) :: ('e, unit) runtime)"
    by (simp add: kept_def quiet_def same_mission_def faulted_def)
  then show ?thesis
    using ChildFeedback by (auto intro: kept_quiet kept_on_child_feedback)
next
  case (ChildDone t r)
  have "kept quiet (emit (OutDispatchDone t r) :: ('e, unit) runtime)"
    by (simp add: kept_def quiet_def same_mission_def faulted_def)
  then show "(\<And>t r. kept R (on_result t r)) \<Longrightarrow> ?thesis"
    using ChildDone by (auto intro: kept_quiet kept_return)
qed

lemma kept_deliver_all:
  "(\<And>t r. kept R (on_result t r)) \<Longrightarrow> kept R (deliver_all P ext on_result cs)"
  by (induction cs) (auto intro!: kept_return kept_bind kept_deliver)

lemma kept_start_map_child:
  "(\<And>t r. kept R (on_result t r)) \<Longrightarrow> kept R (start_map_child P on_result save token a)"
  unfolding start_map_child_def
  by (intro kept_rules kept_change kept_publish_feedback kept_terminate quietly)
    (simp_all add: mission_moves_def)

lemma kept_child_start_threw: "kept R (child_start_threw P ext token d)"
  unfolding child_start_threw_def
  by (intro kept_rules kept_change kept_terminate quietly) (simp_all add: mission_moves_def)

lemma kept_active_step:
  "kept R (State_Monad.update (\<lambda>s. s\<lparr>c_state := (c_state s)\<lparr>rs_active_step := i\<rparr>\<rparr>))"
  by (intro kept_update quiet) (simp add: quiet_def same_mission_def faulted_def)

lemma kept_start_motion_child:
  "(\<And>t r. kept R (on_result t r)) \<Longrightarrow> kept R (start_motion_child P on_result port token a)"
  unfolding start_motion_child_def
  by (intro kept_rules kept_change kept_deliver_all kept_child_start_threw kept_terminate
    kept_active_step quietly) (simp_all add: mission_moves_def)

lemma kept_start_step_with:
  "(\<And>t r. kept R (on_result t r)) \<Longrightarrow> kept R (start_step_with P on_result)"
  unfolding start_step_with_def Let_def
  by (intro kept_rules kept_change kept_publish_feedback kept_terminate kept_start_map_child
    kept_start_motion_child quietly) (simp_all add: mission_moves_def)

lemma kept_start_step: "kept R (start_step P)"
proof -
  have "kept R (start_step_fuel P n)" for n
    by (induction n) (auto intro: kept_return kept_start_step_with kept_child_result_with)
  then show ?thesis unfolding start_step_def by (intro kept_rules)
qed

lemma kept_on_child_result: "kept R (on_child_result P t r)"
  unfolding on_child_result_def by (intro kept_child_result_with kept_start_step)

subsection \<open>Cancel, STOP and the fail-closed paths\<close>

lemma kept_cancel: "kept R (cancel_mission P m)"
  unfolding cancel_mission_def by (intro kept_rules kept_terminate)

lemma kept_execute_terminal: "kept R (execute_terminal P c d b)"
  unfolding execute_terminal_def
  by (intro kept_rules kept_select_terminal kept_rotate_epoch quietly)

lemma kept_stop_faulted: "kept R (stop_faulted P d)"
  unfolding stop_faulted_def by (intro kept_rules kept_execute_terminal quietly)

lemma kept_stop_repeated: "kept R (stop_repeated P)"
  unfolding stop_repeated_def Let_def by (intro kept_rules kept_execute_terminal quietly)

lemma kept_stop_tail: "kept R (do {
     out \<leftarrow> execute_terminal P Stopped d True;
     if \<not> (to_zero out \<and> to_canceled out \<and> to_epoch out)
     then do {
       set_availability AvFaulted;
       publish_state P;
       stop_response 2 (to_zero out) w
     }
     else do {
       set_availability_from_dependencies P False None;
       publish_state P;
       stop_response 0 True w'
     }
   })"
  by (intro kept_rules kept_execute_terminal quietly)

lemma stop_fresh_kept:
  assumes "map_of (c_stops s) (sr_id r) = None" "length (c_stops s) < rc_stop_cache (rp_config P)"
  shows "R s (exec (stop_fresh P r) s)"
  using trans [OF stop [OF assms] kept_exec [OF kept_stop_tail]]
  by (simp add: stop_fresh_def)

lemma kept_stop: "kept R (stop_mission P r)"
proof (unfold kept_def, intro allI)
  fix s :: "'e core"
  show "R s (exec (stop_mission P r) s)"
    using kept_exec [OF kept_stop_faulted] kept_exec [OF kept_stop_repeated] stop_fresh_kept
    by (auto simp: stop_mission_def not_le split: option.split)
qed

lemma kept_fail_closed: "kept R (fail_closed P d)"
  unfolding fail_closed_def by (intro kept_rules kept_terminate quietly)

lemma kept_raise_epoch:
  "R s (exec (if rs_epoch (c_state s) < e then set_epoch e else skip) s)"
  using epoch refl by simp

lemma kept_fail_closed_tail: "kept R (do {
      (if b then terminate P SafetyFault d else skip);
      set_availability AvFaulted;
      publish_state P
    })"
  by (intro kept_rules kept_terminate quietly)

lemma kept_fail_closed_at: "kept R (fail_closed_at_epoch P e d)"
proof (unfold kept_def, intro allI)
  fix s :: "'e core"
  let ?s = "exec (if rs_epoch (c_state s) < e then set_epoch e else skip) s"
  show "R s (exec (fail_closed_at_epoch P e d) s)"
    using trans [OF kept_raise_epoch [of s e] kept_exec [OF kept_fail_closed_tail
      [where b = "c_active s \<noteq> None" and d = d]]]
    by (simp add: fail_closed_at_epoch_def split_beta)
qed

end

text \<open>The methods that may clear a fault, when the Gate or the dependencies change.\<close>

locale gate_relation = slot_relation +
  assumes unlatch: "R s (s\<lparr>c_state := (c_state s)\<lparr>rs_availability := a\<rparr>\<rparr>)"
begin

lemma kept_set_availability: "kept R (set_availability a)"
  using unlatch by (simp add: kept_def)

lemma kept_availability: "kept R (set_availability_from_dependencies P b g)"
  unfolding set_availability_from_dependencies_def
  by (intro kept_rules kept_set_availability quietly)

lemma kept_try_rearm: "kept R (try_rearm P)"
  unfolding try_rearm_def
  by (intro kept_rules kept_rotate_epoch kept_availability quietly)

lemma kept_observe_unbound: "kept R (observe_unbound_gate P g)"
  unfolding observe_unbound_gate_def Let_def
  by (intro kept_rules quietly)

lemma kept_observe_faulted: "kept R (observe_faulted_gate P b g)"
  unfolding observe_faulted_gate_def by (intro kept_rules kept_try_rearm quietly)

lemma kept_gate_lost: "kept R (gate_lost P b g)"
  unfolding gate_lost_def
  by (intro kept_rules kept_try_rearm kept_rotate_epoch kept_terminate kept_set_availability quietly)

lemma kept_observe_gate: "kept R (observe_gate P g)"
  unfolding observe_gate_def
  by (intro kept_rules kept_observe_unbound kept_observe_faulted kept_gate_lost quietly)

lemma kept_observe_dependencies: "kept R (observe_dependencies P)"
  unfolding observe_dependencies_def
  by (intro kept_rules kept_rotate_epoch kept_terminate kept_set_availability quietly)

lemma kept_tick_discovery: "kept R (tick_discovery P now)"
  unfolding tick_discovery_def by (intro kept_rules kept_set_availability quietly)

lemma kept_tick_port: "kept R (tick_port P port now)"
  unfolding tick_port_def
  by (intro kept_rules kept_deliver_all kept_on_child_result quietly)

lemma kept_tick_child: "kept R (tick_child P now)"
  unfolding tick_child_def by (intro kept_rules kept_tick_port)

lemma kept_tick_active: "kept R (tick_active P now)"
  unfolding tick_active_def by (intro kept_rules kept_terminate quietly)

lemma kept_on_tick: "kept R (on_tick P)"
  unfolding on_tick_def
  by (intro kept_rules kept_try_rearm kept_observe_dependencies kept_tick_discovery
    kept_tick_child kept_tick_active quietly)

lemma kept_other_calls: "(\<forall>g permit n. ev \<noteq> Admit g permit n) \<Longrightarrow> kept R (runtime_call P ev)"
proof (cases ev)
  case (Stop r)
  show ?thesis unfolding Stop runtime_call.simps by (intro kept_rules kept_stop)
qed (simp_all add: kept_cancel kept_observe_gate kept_observe_dependencies kept_on_tick
  kept_on_child_feedback kept_on_child_result kept_fail_closed kept_fail_closed_at)

end

subsection \<open>Admission\<close>

text \<open>
  A program that runs after quiet changes of a core: what it does is judged from the core the
  quiet part began with.
\<close>

definition from_core :: "'e core \<Rightarrow> ('e core \<Rightarrow> bool) \<Rightarrow> ('e, 'a) runtime \<Rightarrow> bool" where
  "from_core s0 Q m \<longleftrightarrow> (\<forall>s. quiet s0 s \<longrightarrow> Q (exec m s))"

lemma from_core_bind:
  "kept quiet m \<Longrightarrow> (\<And>a. from_core s0 Q (f a)) \<Longrightarrow> from_core s0 Q (State_Monad.bind m f)"
  unfolding from_core_def kept_def by (auto simp: split_beta intro: quiet_steps.trans)

lemma from_core_if:
  "(b \<Longrightarrow> from_core s0 Q m) \<Longrightarrow> (\<not> b \<Longrightarrow> from_core s0 Q n) \<Longrightarrow>
   from_core s0 Q (if b then m else n)"
  by simp

lemma from_core_quiet: "kept quiet m \<Longrightarrow> (\<And>t. quiet s0 t \<Longrightarrow> Q t) \<Longrightarrow> from_core s0 Q m"
  unfolding from_core_def kept_def by (blast intro: quiet_steps.trans)

lemma quiet_get: "kept quiet State_Monad.get"
  by (rule quiet_steps.kept_get)

lemmas quiet_prefix = quiet_get quiet_ask quiet_set quiet_publish_state quiet_update quiet_ops

text \<open>Before the mission is identified, the availability is not touched except to fault.\<close>

definition calm :: "'e core \<Rightarrow> 'e core \<Rightarrow> bool" where
  "calm s t \<longleftrightarrow> quiet s t \<and> faulted t = faulted s"

definition from_calm :: "'e core \<Rightarrow> ('e core \<Rightarrow> bool) \<Rightarrow> ('e, 'a) runtime \<Rightarrow> bool" where
  "from_calm s0 Q m \<longleftrightarrow> (\<forall>s. calm s0 s \<longrightarrow> Q (exec m s))"

lemma calm_trans: "calm s t \<Longrightarrow> calm t u \<Longrightarrow> calm s u"
  unfolding calm_def by (auto intro: quiet_steps.trans)

lemma from_calm_bind:
  "kept calm m \<Longrightarrow> (\<And>a. from_calm s0 Q (f a)) \<Longrightarrow> from_calm s0 Q (State_Monad.bind m f)"
  unfolding from_calm_def kept_def by (auto simp: split_beta intro: calm_trans)

lemma from_calm_if:
  "(b \<Longrightarrow> from_calm s0 Q m) \<Longrightarrow> (\<not> b \<Longrightarrow> from_calm s0 Q n) \<Longrightarrow>
   from_calm s0 Q (if b then m else n)"
  by simp

lemma from_calm_quiet: "kept quiet m \<Longrightarrow> (\<And>t. quiet s0 t \<Longrightarrow> Q t) \<Longrightarrow> from_calm s0 Q m"
  unfolding from_calm_def kept_def calm_def by (blast intro: quiet_steps.trans)

lemma calm_ops:
  "kept calm (ask f)" "kept calm (set_gate x)" "kept calm (check_permit p)"
  "kept calm (State_Monad.update (\<lambda>s. s\<lparr>c_gate_bound := b, c_gate_fault_handled := h,
     c_fault_snapshot := fs\<rparr>))"
  by (auto simp: kept_def calm_def quiet_def same_mission_def faulted_def check_permit_def
    split: option.split)

text \<open>
  Admission, the only method that counts missions and fills the slot. A relation that is not
  \<open>tolerant\<close> is only asked of a runtime whose 64-bit mission counter has not wrapped to zero.
\<close>

locale mission_relation = slot_relation R P for R :: "'e core \<Rightarrow> 'e core \<Rightarrow> bool" and P +
  fixes tolerant :: bool
  assumes exhaust: "c_next_mission s \<noteq> 0 \<or> tolerant \<Longrightarrow> R s (s\<lparr>c_next_mission := c_next_mission s + 1\<rparr>)"
    and admits: "c_active s = None \<Longrightarrow> \<not> faulted s \<Longrightarrow> c_next_mission s \<noteq> 0 \<Longrightarrow>
      validate_goal (rp_config P) g = None \<Longrightarrow>
      quiet (s\<lparr>c_next_mission := c_next_mission s + 1\<rparr>) t \<Longrightarrow>
      R s (mission_taken t (c_next_mission s) g permit n deadline)"
begin

lemma admit_start_exec:
  "exec (admit_start P g permit n m) s = exec (start_step P) (exec (publish_state P)
     (mission_taken (s\<lparr>c_env := snd (rp_now P (c_env s))\<rparr>) m g permit n
       (fst (rp_now P (c_env s)) + ms (rc_mission_deadline (rp_config P)))))"
  by (simp add: admit_start_def mission_taken_def split_beta)

lemma admit_identified_kept:
  assumes "c_active s = None" "\<not> faulted s" "validate_goal (rp_config P) g = None"
    and live: "c_next_mission s \<noteq> 0 \<or> tolerant"
  shows "R s (exec (admit_identified P g permit n) s)"
proof -
  let ?s = "s\<lparr>c_next_mission := c_next_mission s + 1\<rparr>"
  have count: "quiet ?s t \<Longrightarrow> R s t" for t
    using exhaust [OF live] quiet by (blast intro: trans)
  have start: "from_core ?s (R s) (admit_start P g permit n (c_next_mission s))"
    if "c_next_mission s \<noteq> 0"
  proof (unfold from_core_def, intro allI impI)
    fix t :: "'e core"
    let ?t = "t\<lparr>c_env := snd (rp_now P (c_env t))\<rparr>"
    assume "quiet ?s t"
    then have "quiet ?s ?t"
      by (rule quiet_steps.trans) (simp add: quiet_def same_mission_def faulted_def)
    from admits [OF assms(1,2) that assms(3) this]
    show "R s (exec (admit_start P g permit n (c_next_mission s)) t)"
      unfolding admit_start_exec
      by (intro trans [OF _ kept_exec [OF kept_start_step]]
        trans [OF _ kept_exec [OF kept_quiet [OF quiet_publish_state]]])
  qed
  have permitted: "from_core ?s (R s) (admit_permitted P g permit n (c_next_mission s))"
    if "c_next_mission s \<noteq> 0"
    unfolding admit_permitted_def
    by (intro from_core_bind from_core_if from_core_quiet [OF quiet_cleanup] start [OF that]
      quiet_prefix count)
  have opens: "from_core ?s (R s) (admit_open P g permit n (c_next_mission s))"
    if "c_next_mission s \<noteq> 0"
    unfolding admit_open_def
    by (intro from_core_bind from_core_if from_core_quiet [OF quiet_refuse_faulted]
      from_core_quiet [OF quiet_refuse(2)] permitted [OF that] quiet_prefix count)
  have handover: "from_core ?s (R s) (admit_handover P g permit n (c_next_mission s))"
    if "c_next_mission s \<noteq> 0"
    unfolding admit_handover_def
    by (intro from_core_bind from_core_if from_core_quiet [OF quiet_refuse(2)]
      from_core_quiet [OF quiet_cleanup] opens [OF that] quiet_prefix
      quiet_steps.kept_if quiet_steps.kept_return count)
  have fault: "from_core ?s (R s) (refuse_faulted P c d)" for c d
    by (intro from_core_quiet [OF quiet_refuse_faulted] count)
  have now: "quiet ?s ?s" by (rule quiet_steps.refl)
  show ?thesis
    using fault handover permitted now
    by (auto simp: admit_identified_def Let_def from_core_def)
qed

lemma admit_kept_from:
  assumes "c_active s = None" "\<not> faulted s" "validate_goal (rp_config P) g = None"
    and live: "c_next_mission s \<noteq> 0 \<or> tolerant"
  shows "R s (exec (admit_dependencies P g permit n) s)"
proof -
  have q: "quiet s t \<Longrightarrow> R s t" for t by (rule quiet)
  have identified: "from_calm s (R s) (admit_identified P g permit n)"
  proof (unfold from_calm_def, intro allI impI)
    fix t :: "'e core"
    assume "calm s t"
    then have "c_active t = None" "\<not> faulted t" "quiet s t" "c_next_mission t \<noteq> 0 \<or> tolerant"
      using assms by (auto simp: calm_def quiet_def same_mission_def)
    then show "R s (exec (admit_identified P g permit n) t)"
      using admit_identified_kept [of t g] assms(3) quiet trans by blast
  qed
  note simple = from_calm_quiet [OF quiet_refuse(2) q] from_calm_quiet [OF quiet_refuse_faulted q]
  have gate: "from_calm s (R s) (admit_gate P g permit n)"
    unfolding admit_gate_def
    by (intro from_calm_bind from_calm_if simple calm_ops identified)
  have motion: "from_calm s (R s) (admit_motion P g permit n)"
    unfolding admit_motion_def by (intro from_calm_bind from_calm_if simple calm_ops gate)
  have dependencies: "from_calm s (R s) (admit_dependencies P g permit n)"
  proof (cases "rp_navigation P")
    case None
    show ?thesis
      unfolding admit_dependencies_def None option.case
      by (intro from_calm_bind from_calm_if simple calm_ops motion)
  next
    case (Some nav)
    show ?thesis
      unfolding admit_dependencies_def Some option.case
      by (intro from_calm_bind from_calm_if simple calm_ops motion)
  qed
  have "calm s s" by (simp add: calm_def quiet_steps.refl)
  with dependencies show ?thesis by (simp add: from_calm_def)
qed

lemma kept_consume_source: "kept R (consume_source_sequence P g)"
  using refl source
  by (auto simp: kept_def consume_source_sequence_def source_fresh_def not_le split: option.split)

lemma consume_next [simp]: "c_next_mission (exec (consume_source_sequence P g) s) = c_next_mission s"
  by (simp add: consume_source_sequence_def split: option.split)

lemma admit_related:
  assumes "c_next_mission s \<noteq> 0 \<or> tolerant"
  shows "R s (exec (admit P g permit n) s)"
proof -
  let ?s1 = "exec (admission_allowed P (rs_epoch (c_state s))) s"
  let ?s2 = "exec (consume_source_sequence P g) ?s1"
  have refuse: "R t (exec (refuse c d :: ('e, admission) runtime) t)"
    "R t (exec (refused r :: ('e, admission) runtime) t)"
    "R t (exec (refuse_faulted P c d) t)" for t c d r
    by (rule kept_exec; rule quietly)+
  have s1: "R s ?s1" by (rule kept_exec; rule quietly)
  have s2: "R s ?s2" by (rule trans [OF s1 kept_exec [OF kept_consume_source]])
  have "c_next_mission ?s1 = c_next_mission s"
    by (rule quiet_fields(6) [OF kept_exec [OF quiet_admission_allowed]])
  then have live: "c_next_mission ?s2 \<noteq> 0 \<or> tolerant" using assms by simp
  have dependencies: "R ?s2 (exec (admit_dependencies P g permit n) ?s2)"
    if "c_active ?s2 = None" "rs_availability (c_state ?s2) \<noteq> AvFaulted"
      "validate_goal (rp_config P) g = None"
    using admit_kept_from [OF that(1) _ that(3) live] that(2) by (simp add: faulted_def)
  show ?thesis
    using refuse s1 s2 dependencies trans
    by (auto simp: admit_def split_beta split: option.split)
qed

end

text \<open>All methods of the runtime.\<close>

locale runtime_relation = mission_relation R P tolerant + gate_relation R P
  for R :: "'e core \<Rightarrow> 'e core \<Rightarrow> bool" and P and tolerant
begin

lemma step_related:
  assumes "c_next_mission s \<noteq> 0 \<or> tolerant"
  shows "R s (runtime_step P s ev)"
proof (cases ev)
  case (Admit g permit n)
  then show ?thesis
    using admit_related [OF assms] by (simp add: runtime_step_def split_beta)
next
qed (simp_all add: runtime_step_def kept_exec [OF kept_other_calls] del: runtime_call.simps)

lemma run_related: "tolerant \<Longrightarrow> R s (run (runtime_step P) s evs)"
  by (induction evs arbitrary: s) (auto intro: refl trans [OF step_related])

end

text \<open>
  The relations that also accept the steps of a terminal one by one, which is the usual case.
\<close>

locale plain_gate_relation = terminal_relation R P
  for R :: "'e core \<Rightarrow> 'e core \<Rightarrow> bool" and P +
  assumes source: "source_fresh P s k n \<Longrightarrow> R s (s\<lparr>c_sources := AList.update k n (c_sources s)\<rparr>)"
    and stop: "map_of (c_stops s) k = None \<Longrightarrow> length (c_stops s) < rc_stop_cache (rp_config P) \<Longrightarrow>
      R s (s\<lparr>c_stops := AList.update k f (c_stops s)\<rparr>)"
    and unlatch: "R s (s\<lparr>c_state := (c_state s)\<lparr>rs_availability := a\<rparr>\<rparr>)"

sublocale plain_gate_relation \<subseteq> calls: gate_relation R P
  by unfold_locales (auto intro: moves source stop unlatch kept_select_terminal)

locale plain_relation = plain_gate_relation R P
  for R :: "'e core \<Rightarrow> 'e core \<Rightarrow> bool" and P +
  fixes tolerant :: bool
  assumes exhaust: "c_next_mission s \<noteq> 0 \<or> tolerant \<Longrightarrow> R s (s\<lparr>c_next_mission := c_next_mission s + 1\<rparr>)"
    and admits: "c_active s = None \<Longrightarrow> \<not> faulted s \<Longrightarrow> c_next_mission s \<noteq> 0 \<Longrightarrow>
      validate_goal (rp_config P) g = None \<Longrightarrow>
      quiet (s\<lparr>c_next_mission := c_next_mission s + 1\<rparr>) t \<Longrightarrow>
      R s (mission_taken t (c_next_mission s) g permit n deadline)"

sublocale plain_relation \<subseteq> calls: runtime_relation R P tolerant
  by unfold_locales (auto intro: exhaust admits)

end
