(* ===== verification/Mission_Runtime_Spec.thy ===== *)
theory Mission_Runtime_Spec
  imports Mission_Runtime_Steps
begin

text \<open>
  The contract of the mission runtime: what no call takes back (the epoch, the source sequence
  numbers, the STOP identifiers), the shape of the active mission, the accounting of results,
  the progress that is published, and what STOP, a terminal and an admission guarantee.
\<close>

subsection \<open>What no call takes back\<close>

definition kept_books :: "'e runtime_ports \<Rightarrow> 'e core \<Rightarrow> 'e core \<Rightarrow> bool" where
  "kept_books P s t \<longleftrightarrow> rs_runtime (c_state t) = rs_runtime (c_state s) \<and>
     rs_epoch (c_state s) \<le> rs_epoch (c_state t) \<and>
     (\<forall>k m. map_of (c_sources s) k = Some m \<longrightarrow> (\<exists>n \<ge> m. map_of (c_sources t) k = Some n)) \<and>
     (\<forall>k f. map_of (c_stops s) k = Some f \<longrightarrow> map_of (c_stops t) k = Some f) \<and>
     (length (c_sources s) \<le> rc_source_cache (rp_config P) \<longrightarrow>
      length (c_sources t) \<le> rc_source_cache (rp_config P)) \<and>
     (length (c_stops s) \<le> rc_stop_cache (rp_config P) \<longrightarrow>
      length (c_stops t) \<le> rc_stop_cache (rp_config P))"

lemma length_update_absent:
  "map_of m k = None \<Longrightarrow> length (AList.update k v m) = Suc (length m)"
  by (induction m) auto

lemma length_update_le: "length (AList.update k v m) \<le> Suc (length m)"
  by (induction m) auto

lemma books_trans: "kept_books P s t \<Longrightarrow> kept_books P t u \<Longrightarrow> kept_books P s u"
proof -
  assume st: "kept_books P s t" and tu: "kept_books P t u"
  have "\<exists>n \<ge> m. map_of (c_sources u) k = Some n" if sk: "map_of (c_sources s) k = Some m" for k m
  proof -
    from st sk obtain n where n: "m \<le> n" "map_of (c_sources t) k = Some n"
      unfolding kept_books_def by metis
    with tu obtain n' where "n \<le> n'" "map_of (c_sources u) k = Some n'"
      unfolding kept_books_def by metis
    then show ?thesis using n by (auto intro: order_trans)
  qed
  then show ?thesis using st tu by (auto simp: kept_books_def)
qed

lemma books_quiet: "quiet s t \<Longrightarrow> kept_books P s t"
  using quiet_fields [of s t] by (auto simp: kept_books_def)

interpretation books: plain_relation "kept_books P" P True for P :: "'e runtime_ports"
proof
  show "kept_books P s s" for s by (simp add: kept_books_def)
  show "kept_books P s t \<Longrightarrow> kept_books P t u \<Longrightarrow> kept_books P s u" for s t u
    by (rule books_trans)
  show "quiet s t \<Longrightarrow> kept_books P s t" for s t
    by (rule books_quiet)
  show "kept_books P s (feedback_given s a phase step x)" for s a phase step x
    by (simp add: kept_books_def feedback_given_def)
  show "rs_epoch (c_state s) < e \<Longrightarrow> kept_books P s (s\<lparr>c_state := (c_state s)\<lparr>rs_epoch := e\<rparr>\<rparr>)" for s e
    by (simp add: kept_books_def)
  show "kept_books P s (s\<lparr>c_active := Some b\<rparr>)" for s b
    by (simp add: kept_books_def)
  show "quiet (s\<lparr>c_active := None\<rparr>) t \<Longrightarrow>
      kept_books P s (t\<lparr>c_out := c_out t @ (if rp_has_result P then [OutResult (am_id a) r] else [])\<rparr>)"
    for s t a r
    using books_quiet [of "s\<lparr>c_active := None\<rparr>" t P] by (simp add: kept_books_def)
  show "source_fresh P s k n \<Longrightarrow> kept_books P s (s\<lparr>c_sources := AList.update k n (c_sources s)\<rparr>)" for s k n
    by (auto simp: kept_books_def source_fresh_def update_conv' length_update_absent
      length_update_present [OF map_of_SomeI_key] split: option.splits)
  show "map_of (c_stops s) k = None \<Longrightarrow> length (c_stops s) < rc_stop_cache (rp_config P) \<Longrightarrow>
      kept_books P s (s\<lparr>c_stops := AList.update k f (c_stops s)\<rparr>)" for s k f
    by (auto simp: kept_books_def update_conv' length_update_absent)
  show "kept_books P s (s\<lparr>c_next_mission := c_next_mission s + 1\<rparr>)" for s
    by (simp add: kept_books_def)
  show "quiet (s\<lparr>c_next_mission := c_next_mission s + 1\<rparr>) t \<Longrightarrow>
      kept_books P s (mission_taken t (c_next_mission s) g permit n deadline)" for s t g permit n deadline
    using books_quiet [of "s\<lparr>c_next_mission := c_next_mission s + 1\<rparr>" t P]
    by (simp add: kept_books_def mission_taken_def)
  show "kept_books P s (s\<lparr>c_state := (c_state s)\<lparr>rs_availability := a\<rparr>\<rparr>)" for s a
    by (simp add: kept_books_def)
qed

text \<open>The admission epoch never goes back and the runtime keeps its identity.\<close>

lemma epoch_never_goes_back:
  "rs_epoch (c_state s) \<le> rs_epoch (c_state (run (runtime_step P) s evs)) \<and>
   rs_runtime (c_state (run (runtime_step P) s evs)) = rs_runtime (c_state s)"
  using books.calls.run_related [of P s evs] by (simp add: kept_books_def)

lemma consume_stale:
  assumes "map_of (c_sources s) (mg_source g) = Some m" "mg_seq g \<le> m"
  shows "result (consume_source_sequence P g) s \<noteq> None"
  using assms by (simp add: consume_source_sequence_def)


subsection \<open>The shape of the active mission\<close>

definition mission_wf :: "'e runtime_ports \<Rightarrow> 'e core \<Rightarrow> bool" where
  "mission_wf P s \<longleftrightarrow> (\<forall>a. c_active s = Some a \<longrightarrow> am_step_index a < length (am_steps a) \<and>
     am_step_index a \<le> am_completed a \<and> length (am_steps a) \<le> rc_max_steps (rp_config P) \<and>
     validate_steps (rp_config P) (am_steps a) = None)"

lemma validate_goal_steps:
  "validate_goal cfg g = None \<Longrightarrow> 0 < length (mg_steps g) \<and>
     length (mg_steps g) \<le> rc_max_steps cfg \<and> validate_steps cfg (mg_steps g) = None"
  by (auto simp: validate_goal_def split: if_splits)

lemma wf_quiet: "quiet s t \<Longrightarrow> mission_wf P s \<Longrightarrow> mission_wf P t"
  using quiet_fields(5) [of s t] by (simp add: mission_wf_def)

lemma wf_moves:
  "c_active s = Some a \<Longrightarrow> mission_moves a b \<Longrightarrow> mission_wf P s \<Longrightarrow> mission_wf P (s\<lparr>c_active := Some b\<rparr>)"
  by (auto simp: mission_wf_def mission_moves_def)

lemma wf_finish: "quiet (s\<lparr>c_active := None\<rparr>) t \<Longrightarrow> mission_wf P (t\<lparr>c_out := out\<rparr>)"
  using quiet_fields(5) [of "s\<lparr>c_active := None\<rparr>" t] by (simp add: mission_wf_def)

lemma wf_taken:
  "validate_goal (rp_config P) g = None \<Longrightarrow> mission_wf P (mission_taken t m g permit n deadline)"
  using validate_goal_steps [of "rp_config P" g] by (simp add: mission_wf_def mission_taken_def)

lemma wf_irrelevant:
  "mission_wf P (s\<lparr>c_state := st\<rparr>) = mission_wf P s"
  "mission_wf P (s\<lparr>c_sources := xs\<rparr>) = mission_wf P s"
  "mission_wf P (s\<lparr>c_stops := ys\<rparr>) = mission_wf P s"
  "mission_wf P (s\<lparr>c_next_mission := n\<rparr>) = mission_wf P s"
  "mission_wf P (feedback_given s a phase step x) = mission_wf P s"
  by (simp_all add: mission_wf_def feedback_given_def)

interpretation wf: plain_relation "\<lambda>s t. mission_wf P s \<longrightarrow> mission_wf P t" P True
  for P :: "'e runtime_ports"
proof unfold_locales
  show "quiet (s\<lparr>c_active := None\<rparr>) t \<Longrightarrow> mission_wf P s \<longrightarrow>
      mission_wf P (t\<lparr>c_out := c_out t @ (if rp_has_result P then [OutResult (am_id a) r] else [])\<rparr>)"
    for s t a r
    by (intro impI wf_finish)
qed (auto intro: wf_quiet wf_moves wf_taken simp: wf_irrelevant)

lemma read_dependencies_quiet: "c_active (exec (read_dependencies P) s) = c_active s"
  by (simp add: read_dependencies_def publish_state_def split_beta)

text \<open>C24: the runtime works only on validated steps and never reads outside its plan.\<close>

theorem active_mission_is_valid:
  assumes "runtime_init P e = Inr s" and "c_active (run (runtime_step P) s evs) = Some a"
  shows "am_step_index a < length (am_steps a) \<and> length (am_steps a) \<le> 3 \<and>
    validate_steps (rp_config P) (am_steps a) = None"
proof -
  have "c_active s = None" and max: "rc_max_steps (rp_config P) \<le> 3"
    using assms(1)
    by (auto simp: runtime_init_def read_dependencies_quiet initial_core_def config_trusted_def
      split: if_splits prod.splits)
  then have "mission_wf P (run (runtime_step P) s evs)"
    using wf.calls.run_related [of P s evs] by (simp add: mission_wf_def)
  with assms(2) max show ?thesis by (auto simp: mission_wf_def)
qed

subsection \<open>Results and progress\<close>

fun result_id :: "core_output \<Rightarrow> u64 option" where
  "result_id (OutResult m r) = Some m"
| "result_id _ = None"

fun feedback_of :: "u64 \<Rightarrow> core_output \<Rightarrow> dbl option" where
  "feedback_of m (OutFeedback k f) = (if k = m then Some (mf_progress f) else None)"
| "feedback_of m _ = None"

text \<open>The missions that were given a result, and the progress a mission was given, in order.\<close>

definition results :: "core_output list \<Rightarrow> u64 list" where
  "results out = List.map_filter result_id out"

definition progress_of :: "u64 \<Rightarrow> core_output list \<Rightarrow> dbl list" where
  "progress_of m out = List.map_filter (feedback_of m) out"

lemma outputs_append [simp]:
  "results (xs @ ys) = results xs @ results ys"
  "progress_of m (xs @ ys) = progress_of m xs @ progress_of m ys"
  by (simp_all add: results_def progress_of_def map_filter_def)

lemma outputs_single [simp]:
  "results [] = []" "results [OutResult m r] = [m]" "results [OutFeedback k f] = []"
  "progress_of m [] = []" "progress_of m [OutResult k r] = []"
  "progress_of m [OutFeedback k f] = (if k = m then [mf_progress f] else [])"
  by (simp_all add: results_def progress_of_def map_filter_def)

lemma outputs_quiet:
  assumes "list_all quiet_output xs"
  shows "results xs = []" "progress_of m xs = []"
proof -
  have "quiet_output x \<Longrightarrow> result_id x = None \<and> feedback_of m x = None" for x
    by (cases x) auto
  with assms show "results xs = []" "progress_of m xs = []"
    by (induction xs) (auto simp: results_def progress_of_def map_filter_def)
qed

lemma quiet_outputs:
  assumes "quiet s t"
  shows "results (c_out t) = results (c_out s)" "progress_of m (c_out t) = progress_of m (c_out s)"
  using assms outputs_quiet by (auto simp: quiet_def)

definition used_ids :: "'e core \<Rightarrow> u64 set" where
  "used_ids s = set (results (c_out s)) \<union> {m. progress_of m (c_out s) \<noteq> []} \<union>
     {am_id a | a. c_active s = Some a}"

definition unit_interval :: "dbl \<Rightarrow> bool" where
  "unit_interval x \<longleftrightarrow> dle (Fin 0) x \<and> dle x (Fin 1)"

definition accounts :: "'e core \<Rightarrow> bool" where
  "accounts s \<longleftrightarrow> distinct (results (c_out s)) \<and>
     (\<forall>a. c_active s = Some a \<longrightarrow> am_id a \<notin> set (results (c_out s))) \<and>
     (c_next_mission s \<noteq> 0 \<longrightarrow> (\<forall>i \<in> used_ids s. i < c_next_mission s)) \<and>
     unit_interval (c_progress s) \<and>
     (\<forall>m. sorted_wrt dle (progress_of m (c_out s)) \<and> list_all unit_interval (progress_of m (c_out s))) \<and>
     (\<forall>a. c_active s = Some a \<longrightarrow>
        list_all (\<lambda>x. dle x (to_float (c_progress s))) (progress_of (am_id a) (c_out s)))"

lemma unit_interval_Fin: "unit_interval x \<longleftrightarrow> (\<exists>q. x = Fin q \<and> 0 \<le> q \<and> q \<le> 1)"
  by (cases x) (auto simp: unit_interval_def)

lemma monotonic_progress_bounds:
  assumes "unit_interval p"
  shows "unit_interval (monotonic_progress p x)" "dle (to_float p) (to_float (monotonic_progress p x))"
    "unit_interval (to_float (monotonic_progress p x))"
proof -
  obtain a where a: "p = Fin a" "0 \<le> a" "a \<le> 1" using assms by (auto simp: unit_interval_Fin)
  have "\<exists>b. monotonic_progress p x = Fin b \<and> a \<le> b \<and> b \<le> 1"
    using a by (cases x) (auto simp: monotonic_progress_def dmax_def dclamp_def)
  then obtain b where b: "monotonic_progress p x = Fin b" "a \<le> b" "b \<le> 1" by blast
  then show "unit_interval (monotonic_progress p x)" using a by (auto simp: unit_interval_Fin)
  show "dle (to_float p) (to_float (monotonic_progress p x))"
    using a b by (simp add: round32_mono)
  show "unit_interval (to_float (monotonic_progress p x))"
    using round32_unit [of b] a b by (auto simp: unit_interval_Fin)
qed

lemma accounts_quiet: "quiet s t \<Longrightarrow> accounts s \<Longrightarrow> accounts t"
  using quiet_fields [of s t] quiet_outputs [of s t] by (simp add: accounts_def used_ids_def)

lemma accounts_feedback:
  assumes "c_active s = Some a" "accounts s"
  shows "accounts (feedback_given s a phase step x)"
proof -
  let ?p = "monotonic_progress (c_progress s) x" and ?t = "feedback_given s a phase step x"
  have unit: "unit_interval (c_progress s)" using assms by (simp add: accounts_def)
  note b = monotonic_progress_bounds [OF unit, of x]
  have same: "c_active ?t = Some a" "c_next_mission ?t = c_next_mission s" "c_progress ?t = ?p"
    "results (c_out ?t) = results (c_out s)"
    using assms(1) by (simp_all add: feedback_given_def)
  have out: "progress_of m (c_out ?t) = progress_of m (c_out s) @
      (if m = am_id a then [to_float ?p] else [])" for m
    by (simp add: feedback_given_def)
  have used: "used_ids ?t = used_ids s"
    using assms(1) by (auto simp: used_ids_def out same)
  have below: "\<forall>y \<in> set (progress_of (am_id a) (c_out s)). dle y (to_float ?p)"
    using assms b(2) dle_trans by (auto simp: accounts_def list_all_iff)
  have self: "dle (to_float ?p) (to_float ?p)"
    using b(3) by (auto simp: unit_interval_Fin)
  have old: "sorted_wrt dle (progress_of m (c_out s))" "list_all unit_interval (progress_of m (c_out s))"
    for m
    using assms(2) unfolding accounts_def by blast+
  have "sorted_wrt dle (progress_of m (c_out ?t)) \<and> list_all unit_interval (progress_of m (c_out ?t))"
    for m
  proof (cases "m = am_id a")
    case True
    then show ?thesis
      using old [of m] below b(3) unfolding out by (simp add: sorted_wrt_append)
  next
    case False
    then show ?thesis using old [of m] unfolding out by simp
  qed
  moreover have "list_all (\<lambda>y. dle y (to_float ?p)) (progress_of (am_id a) (c_out ?t))"
    using below self by (simp add: out list_all_iff)
  moreover have "am_id a \<notin> set (results (c_out s))" "distinct (results (c_out s))"
    "c_next_mission s \<noteq> 0 \<longrightarrow> (\<forall>i \<in> used_ids s. i < c_next_mission s)"
    using assms by (simp_all add: accounts_def)
  ultimately show ?thesis
    using b(1) unfolding accounts_def used by (simp add: same)
qed

lemma accounts_finish:
  assumes "c_active s = Some a" "quiet (s\<lparr>c_active := None\<rparr>) t" "accounts s"
  shows "accounts (t\<lparr>c_out := c_out t @ (if h then [OutResult (am_id a) r] else [])\<rparr>)"
proof -
  note f = quiet_fields [OF assms(2)] quiet_outputs [OF assms(2)]
  have "used_ids (t\<lparr>c_out := c_out t @ (if h then [OutResult (am_id a) r] else [])\<rparr>) \<subseteq> used_ids s"
    using assms(1) f by (auto simp: used_ids_def)
  then show ?thesis using assms(1,3) f by (auto simp: accounts_def)
qed

lemma u64_next: "(n::u64) + 1 \<noteq> 0 \<Longrightarrow> n < n + 1" "(n::u64) + 1 \<noteq> 0 \<Longrightarrow> i < n \<Longrightarrow> i < n + 1"
proof -
  show less: "n < n + 1" if "n + 1 \<noteq> 0"
    using that by (intro u64_succ_greater) (auto simp: u64_max_def)
  show "i < n + 1" if "n + 1 \<noteq> 0" "i < n"
    using less [OF that(1)] that(2) by (rule less_trans [rotated])
qed

lemma accounts_taken:
  assumes "c_active s = None" "c_next_mission s \<noteq> 0" "accounts s"
    and "quiet (s\<lparr>c_next_mission := c_next_mission s + 1\<rparr>) t"
  shows "accounts (mission_taken t (c_next_mission s) g permit n deadline)"
proof -
  note f = quiet_fields [OF assms(4)] quiet_outputs [OF assms(4)]
  let ?t = "mission_taken t (c_next_mission s) g permit n deadline"
  have used: "used_ids ?t = insert (c_next_mission s) (used_ids s)"
    using assms(1) f by (auto simp: used_ids_def mission_taken_def)
  have bound: "\<forall>i \<in> used_ids s. i < c_next_mission s" using assms by (simp add: accounts_def)
  then have new: "c_next_mission s \<notin> set (results (c_out s))"
    "progress_of (c_next_mission s) (c_out s) = []"
    by (auto simp: used_ids_def)
  then show ?thesis
    using assms(3) f new bound u64_next [of "c_next_mission s"] unfolding accounts_def used
    by (auto simp: mission_taken_def unit_interval_def)
qed

lemma accounts_count:
  assumes "c_next_mission s \<noteq> 0" "accounts s"
  shows "accounts (s\<lparr>c_next_mission := c_next_mission s + 1\<rparr>)"
proof -
  have "used_ids (s\<lparr>c_next_mission := c_next_mission s + 1\<rparr>) = used_ids s"
    by (simp add: used_ids_def)
  then show ?thesis using assms u64_next(2) [of "c_next_mission s"] by (auto simp: accounts_def)
qed

lemma accounts_moves:
  assumes "c_active s = Some a" "mission_moves a b" "accounts s"
  shows "accounts (s\<lparr>c_active := Some b\<rparr>)"
proof -
  have "used_ids (s\<lparr>c_active := Some b\<rparr>) = used_ids s"
    using assms by (simp add: used_ids_def mission_moves_def)
  then show ?thesis using assms by (auto simp: accounts_def mission_moves_def)
qed

lemma accounts_irrelevant:
  "accounts (s\<lparr>c_state := st\<rparr>) = accounts s" "accounts (s\<lparr>c_sources := xs\<rparr>) = accounts s"
  "accounts (s\<lparr>c_stops := ys\<rparr>) = accounts s"
  by (simp_all add: accounts_def used_ids_def)

interpretation accounts: plain_relation "\<lambda>s t. accounts s \<longrightarrow> accounts t" P False
  for P :: "'e runtime_ports"
proof unfold_locales
  show "c_active s = Some a \<Longrightarrow> quiet (s\<lparr>c_active := None\<rparr>) t \<Longrightarrow> accounts s \<longrightarrow>
      accounts (t\<lparr>c_out := c_out t @ (if rp_has_result P then [OutResult (am_id a) r] else [])\<rparr>)"
    for s a t r
    by (intro impI accounts_finish)
qed (auto intro: accounts_quiet accounts_feedback accounts_taken accounts_count
  accounts_moves simp: accounts_irrelevant)

subsection \<open>The mission counter\<close>

definition same_next :: "'e core \<Rightarrow> 'e core \<Rightarrow> bool" where
  "same_next s t \<longleftrightarrow> c_next_mission t = c_next_mission s"

interpretation same_next: plain_gate_relation same_next P for P :: "'e runtime_ports"
proof unfold_locales
  show "quiet (s\<lparr>c_active := None\<rparr>) t \<Longrightarrow>
      same_next s (t\<lparr>c_out := c_out t @ (if rp_has_result P then [OutResult (am_id a) r] else [])\<rparr>)"
    for s t a r
    using quiet_fields(6) [of "s\<lparr>c_active := None\<rparr>" t] by (simp add: same_next_def)
qed (auto simp: same_next_def feedback_given_def quiet_fields)

text \<open>A program that counts at most one mission.\<close>

definition counts_one :: "('e, 'a) runtime \<Rightarrow> bool" where
  "counts_one m \<longleftrightarrow> (\<forall>s. c_next_mission (exec m s) = c_next_mission s \<or>
     c_next_mission (exec m s) = c_next_mission s + 1)"

lemma counts_none: "kept same_next m \<Longrightarrow> counts_one m"
  by (simp add: counts_one_def kept_def same_next_def)

lemma counts_bind:
  "kept same_next m \<Longrightarrow> (\<And>a. counts_one (f a)) \<Longrightarrow> counts_one (State_Monad.bind m f)"
  unfolding counts_one_def kept_def same_next_def by (simp add: split_beta) metis

lemma counts_if: "(b \<Longrightarrow> counts_one m) \<Longrightarrow> (\<not> b \<Longrightarrow> counts_one n) \<Longrightarrow> counts_one (if b then m else n)"
  by simp

lemma counts_option:
  "counts_one m \<Longrightarrow> (\<And>a. counts_one (f a)) \<Longrightarrow> counts_one (case x of None \<Rightarrow> m | Some a \<Rightarrow> f a)"
  by (simp split: option.split)

lemma same_next_start: "kept same_next (admit_start P g permit n m)"
proof -
  have "kept same_next (State_Monad.update (\<lambda>s. s\<lparr>c_active := f s, c_next_generation := h s,
      c_progress := i s, c_state := j s\<rparr>))" for f h i j
    by (simp add: kept_def same_next_def)
  then show ?thesis
    unfolding admit_start_def
    by (intro same_next.kept_rules same_next.calls.kept_start_step same_next.quietly)
qed

lemma same_next_permitted: "kept same_next (admit_permitted P g permit n m)"
  unfolding admit_permitted_def
  by (intro same_next.kept_rules same_next_start same_next.quietly)

lemma same_next_open: "kept same_next (admit_open P g permit n m)"
  unfolding admit_open_def
  by (intro same_next.kept_rules same_next_permitted same_next.quietly)

lemma same_next_handover: "kept same_next (admit_handover P g permit n m)"
  unfolding admit_handover_def
  by (intro same_next.kept_rules same_next_open same_next.quietly)

lemma same_next_exec: "kept same_next m \<Longrightarrow> c_next_mission (exec m s) = c_next_mission s"
  by (simp add: kept_def same_next_def)

lemmas same_next_execs = same_next_exec [OF same_next_handover] same_next_exec [OF same_next_permitted]
  same_next_exec [OF same_next.kept_quiet [OF quiet_refuse_faulted]]

lemma counts_identified: "counts_one (admit_identified P g permit n)"
  by (simp add: counts_one_def admit_identified_def Let_def same_next_execs)

lemma same_next_consume: "kept same_next (consume_source_sequence P g)"
  by (simp add: kept_def same_next_def consume_source_sequence_def split: option.split)

lemma counts_admit: "counts_one (admit P g permit n)"
proof -
  have gate: "counts_one (admit_gate P g permit n)"
    unfolding admit_gate_def by (intro counts_bind counts_if counts_identified
      same_next.quietly counts_none [OF same_next.kept_quiet [OF quiet_refuse(2)]]
      counts_none [OF same_next.kept_quiet [OF quiet_refuse_faulted]])
  have motion: "counts_one (admit_motion P g permit n)"
    unfolding admit_motion_def by (intro counts_bind counts_if gate
      same_next.quietly counts_none [OF same_next.kept_quiet [OF quiet_refuse(2)]])
  have dependencies: "counts_one (admit_dependencies P g permit n)"
    unfolding admit_dependencies_def by (intro counts_bind counts_if counts_option motion
      same_next.quietly counts_none [OF same_next.kept_quiet [OF quiet_refuse(2)]]
      counts_none [OF same_next.kept_quiet [OF quiet_refuse_faulted]])
  show ?thesis
    unfolding admit_def by (intro counts_bind counts_if counts_option dependencies
      same_next.quietly same_next.kept_get same_next_consume
      counts_none [OF same_next.kept_quiet [OF quiet_refuse(1)]]
      counts_none [OF same_next.kept_quiet [OF quiet_refuse(2)]]
      counts_none [OF same_next.kept_quiet [OF quiet_refuse_faulted]])
qed

lemma step_counts:
  "c_next_mission (runtime_step P s ev) = c_next_mission s \<or>
   c_next_mission (runtime_step P s ev) = c_next_mission s + 1"
proof (cases "\<exists>g permit n. ev = Admit g permit n")
  case True
  then show ?thesis
    using counts_admit [unfolded counts_one_def, rule_format, of P _ _ _ s]
    by (force simp: runtime_step_def split_beta)
next
  case False
  then have "kept same_next (runtime_call P ev)" by (intro same_next.calls.kept_other_calls) auto
  from kept_exec [OF this] show ?thesis by (simp add: runtime_step_def same_next_def)
qed

lemma run_accounts:
  assumes "accounts s" "c_next_mission s \<noteq> 0" "unat (c_next_mission s) + length evs < 2 ^ 64"
  shows "accounts (run (runtime_step P) s evs)"
  using assms
proof (induction evs arbitrary: s)
  case (Cons ev evs)
  let ?t = "runtime_step P s ev"
  have acc: "accounts ?t" using accounts.calls.step_related [of s P ev] Cons.prems by simp
  have "unat (c_next_mission s) < 2 ^ 64 - 1" using Cons.prems(3) by simp
  then have "c_next_mission s \<noteq> u64_max" using unat_u64_max by auto
  then have "unat (c_next_mission s + 1) = Suc (unat (c_next_mission s))"
    by (rule unat_u64_succ)
  moreover from this have "c_next_mission s + 1 \<noteq> 0" by (metis unat_0 nat.distinct(1))
  ultimately have "c_next_mission ?t \<noteq> 0" "unat (c_next_mission ?t) + length evs < 2 ^ 64"
    using step_counts [of P s ev] Cons.prems by auto
  with Cons.IH acc show ?case by simp
qed simp

lemma init_accounts:
  assumes "runtime_init P e = Inr s"
  shows "accounts s" "c_next_mission s = 1"
proof -
  have "results (c_out (exec (read_dependencies P) (initial_core P rid e'))) = []"
    "progress_of m (c_out (exec (read_dependencies P) (initial_core P rid e'))) = []" for rid e' m
    by (simp_all add: read_dependencies_def publish_state_def split_beta initial_core_def
      results_def progress_of_def map_filter_def)
  moreover have "c_next_mission (exec (read_dependencies P) (initial_core P rid e')) = 1"
    "c_progress (exec (read_dependencies P) (initial_core P rid e')) = Fin 0"
    "c_active (exec (read_dependencies P) (initial_core P rid e')) = None" for rid e'
    by (simp_all add: read_dependencies_def publish_state_def split_beta initial_core_def)
  ultimately show "accounts s" "c_next_mission s = 1"
    using assms
    by (auto simp: runtime_init_def accounts_def used_ids_def unit_interval_Fin
      split: if_splits prod.splits)
qed

text \<open>C5: a mission is given at most one result, and none while it is active.\<close>

theorem at_most_one_result:
  assumes "runtime_init P e = Inr s" and "length evs < 2 ^ 64 - 1"
  shows "distinct (results (c_out (run (runtime_step P) s evs))) \<and>
    (\<forall>a. c_active (run (runtime_step P) s evs) = Some a \<longrightarrow>
      am_id a \<notin> set (results (c_out (run (runtime_step P) s evs))))"
  using run_accounts [OF init_accounts(1) [OF assms(1)], of evs P] init_accounts(2) [OF assms(1)]
    assms(2) by (simp add: accounts_def)

text \<open>The progress a mission publishes never falls and stays between zero and one.\<close>

lemma progress_is_monotone:
  assumes "runtime_init P e = Inr s" and "length evs < 2 ^ 64 - 1"
  shows "sorted_wrt dle (progress_of m (c_out (run (runtime_step P) s evs))) \<and>
    (\<forall>x \<in> set (progress_of m (c_out (run (runtime_step P) s evs))). dle (Fin 0) x \<and> dle x (Fin 1))"
  using run_accounts [OF init_accounts(1) [OF assms(1)], of evs P] init_accounts(2) [OF assms(1)]
    assms(2) by (simp add: accounts_def list_all_iff unit_interval_def)

subsection \<open>Every admitted mission is answered\<close>

definition answered :: "'e core \<Rightarrow> u64 set" where
  "answered s = set (results (c_out s)) \<union> {am_id a | a. c_active s = Some a}"

lemma answered_quiet: "quiet s t \<Longrightarrow> answered t = answered s"
  using quiet_fields(5) [of s t] quiet_outputs(1) [of s t] by (simp add: answered_def)

lemma answered_finish:
  assumes "c_active s = Some a" "quiet (s\<lparr>c_active := None\<rparr>) t"
  shows "answered s \<subseteq> answered (t\<lparr>c_out := c_out t @ [OutResult (am_id a) r]\<rparr>)"
  using assms(1) quiet_fields(5) [OF assms(2)] quiet_outputs(1) [OF assms(2)]
  by (auto simp: answered_def)

lemma answered_taken:
  assumes "c_active s = None" "quiet (s\<lparr>c_next_mission := c_next_mission s + 1\<rparr>) t"
  shows "answered s \<subseteq> answered (mission_taken t m g permit n deadline)"
  using assms(1) quiet_fields(5) [OF assms(2)] quiet_outputs(1) [OF assms(2)]
  by (auto simp: answered_def mission_taken_def)

lemma answered_irrelevant:
  "answered (s\<lparr>c_state := st\<rparr>) = answered s" "answered (s\<lparr>c_sources := xs\<rparr>) = answered s"
  "answered (s\<lparr>c_stops := ys\<rparr>) = answered s" "answered (s\<lparr>c_next_mission := k\<rparr>) = answered s"
  "c_active s = Some a \<Longrightarrow> mission_moves a b \<Longrightarrow> answered (s\<lparr>c_active := Some b\<rparr>) = answered s"
  "answered (feedback_given s a phase step x) = answered s"
  by (simp_all add: answered_def mission_moves_def feedback_given_def)

text \<open>A mission is answered or active for good, once the result callback is there.\<close>

definition keeps_answered :: "'e runtime_ports \<Rightarrow> 'e core \<Rightarrow> 'e core \<Rightarrow> bool" where
  "keeps_answered P s t \<longleftrightarrow> (rp_has_result P \<longrightarrow> answered s \<subseteq> answered t)"

interpretation answers: plain_relation "keeps_answered P" P True for P :: "'e runtime_ports"
proof unfold_locales
  show "c_active s = Some a \<Longrightarrow> quiet (s\<lparr>c_active := None\<rparr>) t \<Longrightarrow>
      keeps_answered P s (t\<lparr>c_out := c_out t @ (if rp_has_result P then [OutResult (am_id a) r] else [])\<rparr>)"
    for s t a r
    using answered_finish [of s a t r] by (simp add: keeps_answered_def)
  show "c_active s = None \<Longrightarrow> quiet (s\<lparr>c_next_mission := c_next_mission s + 1\<rparr>) t \<Longrightarrow>
      keeps_answered P s (mission_taken t (c_next_mission s) g permit n deadline)"
    for s t g permit n deadline
    using answered_taken [of s t] by (simp add: keeps_answered_def)
qed (auto simp: keeps_answered_def answered_quiet answered_irrelevant)

end
