(* ===== verification/Mission_Runtime_Stop.thy ===== *)
theory Mission_Runtime_Stop
  imports Mission_Runtime_Spec
begin

text \<open>
  What the calls of the runtime guarantee when they return: the truth of a terminal result, STOP,
  the conditions of an admission, the answer to every admitted mission, and the fault latch.
\<close>

subsection \<open>Every call frees the slot or leaves a live mission\<close>

definition no_zombie :: "'e core \<Rightarrow> bool" where
  "no_zombie s \<longleftrightarrow> (\<forall>a. c_active s = Some a \<longrightarrow> \<not> am_terminal a)"

lemma finish_idle [simp]: "c_active (exec (finish_active P r) s) = None"
proof (cases "c_active s")
  case (Some a)
  let ?s = "s\<lparr>c_active := None, c_state := (c_state s)\<lparr>rs_active_step := no_active_step\<rparr>\<rparr>"
  have "c_active (exec (publish_state P) (exec (set_availability_from_dependencies P False None) ?s)) = None"
    by (simp add: quiet_fields(5) [OF kept_exec [OF quiet_publish_state]]
      quiet_fields(5) [OF kept_exec [OF quiet_availability]])
  then show ?thesis by (simp add: finish_active_def Some split_beta)
qed (simp add: finish_active_def)

lemma terminal_idle:
  "no_zombie s \<Longrightarrow> c_active (exec (select_terminal_and_stop P code detail rotates) s) = None"
  by (auto simp: select_terminal_and_stop_def no_zombie_def split_beta split: option.split)

lemma zombie_quiet: "quiet s t \<Longrightarrow> no_zombie s \<Longrightarrow> no_zombie t"
  using quiet_fields(5) [of s t] by (simp add: no_zombie_def)

lemma zombie_terminal:
  "no_zombie s \<Longrightarrow> no_zombie (exec (select_terminal_and_stop P code detail rotates) s)"
  using terminal_idle by (metis no_zombie_def option.distinct(1))

lemma zombie_irrelevant:
  "no_zombie (s\<lparr>c_state := st\<rparr>) = no_zombie s" "no_zombie (s\<lparr>c_sources := xs\<rparr>) = no_zombie s"
  "no_zombie (s\<lparr>c_stops := ys\<rparr>) = no_zombie s" "no_zombie (s\<lparr>c_next_mission := k\<rparr>) = no_zombie s"
  "no_zombie (feedback_given s a phase step x) = no_zombie s"
  "no_zombie (mission_taken s m g permit n deadline)"
  by (simp_all add: no_zombie_def feedback_given_def mission_taken_def)

lemma zombie_works:
  "c_active s = Some a \<Longrightarrow> am_terminal b = am_terminal a \<Longrightarrow> no_zombie s \<Longrightarrow>
   no_zombie (s\<lparr>c_active := Some b\<rparr>)"
  by (simp add: no_zombie_def)

interpretation live: runtime_relation "\<lambda>s t. no_zombie s \<longrightarrow> no_zombie t" P True
  for P :: "'e runtime_ports"
proof unfold_locales
  show "kept (\<lambda>s t. no_zombie s \<longrightarrow> no_zombie t) (select_terminal_and_stop P code detail rotates)"
    for code detail rotates
    by (simp add: kept_def zombie_terminal)
qed (auto simp: zombie_irrelevant intro: zombie_quiet zombie_works)

lemma init_idle: "runtime_init P e = Inr s \<Longrightarrow> c_active s = None"
  by (auto simp: runtime_init_def read_dependencies_quiet initial_core_def split: if_splits prod.splits)

lemma reachable_live:
  assumes "runtime_init P e = Inr s"
  shows "no_zombie (run (runtime_step P) s evs)"
  using live.run_related [where P = P and s = s and evs = evs] init_idle [OF assms] by (simp add: no_zombie_def)

subsection \<open>The truth of a terminal\<close>

definition same_active :: "'e core \<Rightarrow> 'e core \<Rightarrow> bool" where
  "same_active s t \<longleftrightarrow> c_active t = c_active s"

interpretation same_active: change_relation same_active P for P :: "'e runtime_ports"
  by unfold_locales (auto simp: same_active_def feedback_given_def quiet_fields)

text \<open>The books that a call without a rotation or a new STOP leaves as they are.\<close>

definition still :: "'e core \<Rightarrow> 'e core \<Rightarrow> bool" where
  "still s t \<longleftrightarrow> rs_runtime (c_state t) = rs_runtime (c_state s) \<and>
     rs_epoch (c_state t) = rs_epoch (c_state s) \<and> c_sources t = c_sources s \<and> c_stops t = c_stops s"

interpretation still: step_preorder still
  by unfold_locales (auto simp: still_def)

lemma quiet_still: "quiet s t \<Longrightarrow> still s t"
  using quiet_fields(1-4) [of s t] by (simp add: still_def)

lemma still_quiet: "kept quiet m \<Longrightarrow> kept still m"
  unfolding kept_def using quiet_still by blast

lemma still_change: "kept still (change_active f)"
  by (simp add: kept_def still_def)

lemma still_feedback: "kept still (publish_feedback P ph i x)"
  by (auto simp: kept_def still_def publish_feedback_def Let_def split: option.split)

lemma finish_run:
  assumes "c_active s = Some a"
  shows "\<exists>t. quiet (s\<lparr>c_active := None\<rparr>) t \<and> exec (finish_active P r) s =
    t\<lparr>c_out := c_out t @ (if rp_has_result P then [OutResult (am_id a) r] else [])\<rparr>"
proof -
  let ?s = "s\<lparr>c_active := None, c_state := (c_state s)\<lparr>rs_active_step := no_active_step\<rparr>\<rparr>"
  let ?t = "exec (publish_state P) (exec (set_availability_from_dependencies P False None) ?s)"
  have "quiet (s\<lparr>c_active := None\<rparr>) ?s"
    by (simp add: quiet_def same_mission_def faulted_def)
  then have "quiet (s\<lparr>c_active := None\<rparr>) ?t"
    by (intro quiet_steps.trans [OF _ kept_exec [OF quiet_publish_state]]
      quiet_steps.trans [OF _ kept_exec [OF quiet_availability]])
  moreover have "exec (finish_active P r) s =
      ?t\<lparr>c_out := c_out ?t @ (if rp_has_result P then [OutResult (am_id a) r] else [])\<rparr>"
    by (cases "rp_has_result P") (simp_all add: finish_active_def assms split_beta out_same)
  ultimately show ?thesis by blast
qed

lemma still_finish: "kept still (finish_active P r)"
proof (unfold kept_def, intro allI)
  fix s :: "'a core"
  show "still s (exec (finish_active P r) s)"
  proof (cases "c_active s")
    case None
    then show ?thesis by (simp add: finish_active_def still_def)
  next
    case (Some a)
    from finish_run [OF this, of P r] show ?thesis
      using quiet_fields(1-4) by (fastforce simp: still_def)
  qed
qed

lemma still_terminal: "kept still (select_terminal_and_stop P code detail False)"
proof -
  have "kept still (terminal_epoch P code detail False)"
    unfolding terminal_epoch_def by (simp add: still.kept_return)
  then show ?thesis
    unfolding select_terminal_and_stop_def
    by (intro still.kept_rules still_change still_feedback still_finish
      still_quiet [OF quiet_terminal_barrier] still_quiet [OF quiet_set(5)])
qed

lemma still_execute: "kept still (execute_terminal P code detail False)"
proof -
  have "kept still (if False then rotate_epoch P else State_Monad.return True)"
    by (simp add: still.kept_return)
  then show ?thesis
    unfolding execute_terminal_def
    by (intro still.kept_rules still_terminal still_quiet [OF quiet_cancel_child]
      still_quiet [OF quiet_ask] still_quiet [OF quiet_inhibit]) simp_all
qed

lemma commit_epoch_result:
  "if result (commit_next_epoch P) s
   then rs_epoch (c_state s) \<noteq> u64_max \<and>
     rs_epoch (c_state (exec (commit_next_epoch P) s)) = rs_epoch (c_state s) + 1
   else rs_epoch (c_state (exec (commit_next_epoch P) s)) = rs_epoch (c_state s)"
  by (auto simp: commit_next_epoch_def Let_def split: option.split)

lemma terminal_epoch_result:
  assumes "result (terminal_epoch P code detail rotates) s = (code', detail', ok)"
  shows "ok \<Longrightarrow> code' = code" "\<not> ok \<Longrightarrow> code' = SafetyFault"
    and "ok \<Longrightarrow> rotates \<Longrightarrow> rs_epoch (c_state s) \<noteq> u64_max \<and>
      rs_epoch (c_state (exec (terminal_epoch P code detail rotates) s)) = rs_epoch (c_state s) + 1"
  using assms commit_epoch_result [of P s]
  by (auto simp: terminal_epoch_def split_beta split: if_splits)

text \<open>
  The run of a terminal that is selected: the outcome it returns, the result it reports, and the
  core before the mission is finished.
\<close>

lemma terminal_run:
  assumes "c_active s = Some a" "\<not> am_terminal a"
  obtains u code' detail' zero canceled ok where
    "result (select_terminal_and_stop P code detail rotates) s =
       \<lparr>to_zero = zero, to_canceled = canceled, to_epoch = ok\<rparr>"
    "exec (select_terminal_and_stop P code detail rotates) s =
       exec (finish_active P (terminal_result code' detail' zero canceled a)) u"
    "\<exists>b. c_active u = Some b \<and> am_id b = am_id a" "\<not> zero \<or> \<not> canceled \<Longrightarrow> faulted u"
    "ok \<Longrightarrow> code' = code" "\<not> ok \<Longrightarrow> code' = SafetyFault"
    "ok \<Longrightarrow> rotates \<Longrightarrow> rs_epoch (c_state s) \<noteq> u64_max \<and>
       rs_epoch (c_state u) = rs_epoch (c_state s) + 1"
proof -
  let ?s1 = "s\<lparr>c_active := Some (a\<lparr>am_terminal := True, am_generation := am_generation a + 1\<rparr>)\<rparr>"
  obtain code' detail' ok s2 where e: "run_state (terminal_epoch P code detail rotates) ?s1 =
      ((code', detail', ok), s2)" by (metis prod.exhaust)
  define s3 where "s3 = exec (publish_feedback P SafeStopping (am_step_index a) (Fin 0)) s2"
  obtain zero canceled s4 where b: "run_state (terminal_barrier P
      (am_child_started a \<and> ms_kind (am_steps a ! am_step_index a) = k_navigate) (am_token a)) s3 =
      ((zero, canceled), s4)" by (metis prod.exhaust)
  define u where "u = exec (if \<not> zero \<or> \<not> canceled then set_availability AvFaulted else skip) s4"
  have res: "result (select_terminal_and_stop P code detail rotates) s =
       \<lparr>to_zero = zero, to_canceled = canceled, to_epoch = ok\<rparr>"
    "exec (select_terminal_and_stop P code detail rotates) s =
       exec (finish_active P (terminal_result code' detail' zero canceled a)) u"
    by (simp_all add: select_terminal_and_stop_def assms e s3_def [symmetric] b u_def split_beta)
  have "same_active ?s1 s2" using kept_exec [OF same_active.kept_terminal_epoch] e by (metis snd_conv)
  moreover have "same_active s2 s3" unfolding s3_def by (rule kept_exec [OF same_active.kept_publish_feedback])
  moreover have q4: "quiet s3 s4" using kept_exec [OF quiet_terminal_barrier] b by (metis snd_conv)
  ultimately have act: "c_active u = c_active ?s1"
    using quiet_fields(5) [OF q4] by (simp add: same_active_def u_def)
  have "still s2 s3" unfolding s3_def by (rule kept_exec [OF still_feedback])
  then have ep: "rs_epoch (c_state u) = rs_epoch (c_state s2)"
    using quiet_fields(2) [OF q4] by (simp add: still_def u_def)
  have e': "result (terminal_epoch P code detail rotates) ?s1 = (code', detail', ok)"
    and s2: "exec (terminal_epoch P code detail rotates) ?s1 = s2" using e by simp_all
  note te = terminal_epoch_result [OF e', unfolded s2]
  show ?thesis
  proof (rule that [OF res])
    show "\<exists>b. c_active u = Some b \<and> am_id b = am_id a" using act by simp
    show "\<not> zero \<or> \<not> canceled \<Longrightarrow> faulted u" by (simp add: u_def faulted_def)
  qed (use te ep in simp_all)
qed


subsection \<open>STOP\<close>

lemma idle_after:
  "kept same_active m \<Longrightarrow> c_active s = None \<Longrightarrow> c_active (exec m s) = None"
  by (simp add: kept_def same_active_def)

lemma epoch_after: "kept still m \<Longrightarrow> rs_epoch (c_state (exec m s)) = rs_epoch (c_state s)"
  by (simp add: kept_def still_def)

lemma terminal_epoch_advance:
  assumes "c_active s \<noteq> None" "no_zombie s"
    and "to_epoch (result (select_terminal_and_stop P code detail True) s)"
  shows "rs_epoch (c_state s) \<noteq> u64_max \<and>
    rs_epoch (c_state (exec (select_terminal_and_stop P code detail True) s)) = rs_epoch (c_state s) + 1"
proof -
  obtain a where a: "c_active s = Some a" "\<not> am_terminal a"
    using assms(1,2) by (auto simp: no_zombie_def)
  obtain u code' detail' zero canceled ok where run:
    "result (select_terminal_and_stop P code detail True) s =
       \<lparr>to_zero = zero, to_canceled = canceled, to_epoch = ok\<rparr>"
    "exec (select_terminal_and_stop P code detail True) s =
       exec (finish_active P (terminal_result code' detail' zero canceled a)) u"
    "ok \<Longrightarrow> True \<Longrightarrow> rs_epoch (c_state s) \<noteq> u64_max \<and>
       rs_epoch (c_state u) = rs_epoch (c_state s) + 1"
    using terminal_run [OF a, of P code detail True] by metis
  then show ?thesis using assms(3) by (simp add: epoch_after [OF still_finish])
qed

lemma rotate_result:
  "result (rotate_epoch P) s \<Longrightarrow> rs_epoch (c_state s) \<noteq> u64_max \<and>
     rs_epoch (c_state (exec (rotate_epoch P) s)) = rs_epoch (c_state s) + 1"
  using commit_epoch_result [of P s]
  by (simp add: rotate_epoch_def split_beta epoch_after [OF still_quiet [OF quiet_publish_state]])

text \<open>The part of a STOP without an active mission that follows the rotation.\<close>

definition idle_barrier :: "'e runtime_ports \<Rightarrow> bool \<Rightarrow> ('e, terminal_outcome) runtime" where
  "idle_barrier P epoch_ok =
     (if rp_owns_authority P
      then do {
        canceled \<leftarrow> cancel_child P False no_token (rc_stationarity_deadline (rp_config P));
        zero \<leftarrow> (if canceled then ask (rp_zero_proven P) else State_Monad.return False);
        State_Monad.return \<lparr>to_zero = zero, to_canceled = canceled, to_epoch = epoch_ok\<rparr>
      }
      else do {
        zero \<leftarrow> inhibit_and_prove_zero P;
        State_Monad.return \<lparr>to_zero = zero, to_canceled = True, to_epoch = epoch_ok\<rparr>
      })"

lemma quiet_idle_barrier: "kept quiet (idle_barrier P ok)"
  unfolding idle_barrier_def by (intro quiet_intros quiet_ops)

lemma idle_barrier_epoch: "to_epoch (result (idle_barrier P ok) s) = ok"
  by (simp add: idle_barrier_def split_beta)

lemma execute_idle:
  "c_active s = None \<Longrightarrow> run_state (execute_terminal P code detail rotates) s =
     (if rotates then run_state (idle_barrier P (result (rotate_epoch P) s)) (exec (rotate_epoch P) s)
      else run_state (idle_barrier P True) s)"
  by (simp add: execute_terminal_def idle_barrier_def split_beta)

lemma execute_terminal_facts:
  assumes "no_zombie s"
  shows "c_active (exec (execute_terminal P code detail rotates) s) = None"
    and "rotates \<Longrightarrow> to_epoch (result (execute_terminal P code detail rotates) s) \<Longrightarrow>
      rs_epoch (c_state s) \<noteq> u64_max \<and>
      rs_epoch (c_state (exec (execute_terminal P code detail rotates) s)) = rs_epoch (c_state s) + 1"
proof -
  show "c_active (exec (execute_terminal P code detail rotates) s) = None"
  proof (cases "c_active s")
    case None
    have "kept same_active (idle_barrier P ok)" for ok
      by (rule same_active.kept_quiet [OF quiet_idle_barrier])
    then show ?thesis
      using None idle_after [OF same_active.kept_rotate_epoch None]
      by (simp add: execute_idle idle_after)
  next
    case (Some a)
    then show ?thesis using terminal_idle [OF assms] by (simp add: execute_terminal_def)
  qed
  show "rs_epoch (c_state s) \<noteq> u64_max \<and>
      rs_epoch (c_state (exec (execute_terminal P code detail rotates) s)) = rs_epoch (c_state s) + 1"
    if "rotates" "to_epoch (result (execute_terminal P code detail rotates) s)"
  proof (cases "c_active s")
    case None
    then show ?thesis
      using that rotate_result [of P s]
      by (simp add: execute_idle idle_barrier_epoch epoch_after [OF still_quiet [OF quiet_idle_barrier]])
  next
    case (Some a)
    then show ?thesis
      using that terminal_epoch_advance [OF _ assms, where P = P and code = code and detail = detail]
      by (simp add: execute_terminal_def)
  qed
qed

lemma zombie_stops: "no_zombie (s\<lparr>c_stops := x\<rparr>) = no_zombie s"
  by (simp add: no_zombie_def)

lemma stop_response_run [simp]:
  "run_state (stop_response code inhibited detail) s =
     (\<lparr>sp_code = code, sp_runtime = rs_runtime (c_state s), sp_epoch = rs_epoch (c_state s),
       sp_inhibited = inhibited, sp_detail = bounded_detail detail\<rparr>, s)"
  by (simp add: stop_response_def)

lemma idle_published:
  "c_active s = None \<Longrightarrow> c_active (exec (publish_state P) s) = None"
  "c_active s = None \<Longrightarrow> c_active (exec (set_availability_from_dependencies P False g) s) = None"
  by (rule idle_after [OF same_active.kept_quiet [OF quiet_publish_state]]
    idle_after [OF same_active.kept_quiet [OF quiet_availability]]; assumption)+

lemma stop_faulted_facts:
  assumes "no_zombie s"
  shows "c_active (exec (stop_faulted P d) s) = None" "sp_code (result (stop_faulted P d) s) = 2"
proof -
  have "no_zombie (s\<lparr>c_state := (c_state s)\<lparr>rs_availability := AvFaulted\<rparr>\<rparr>)"
    using assms by (simp add: no_zombie_def)
  from execute_terminal_facts(1) [OF this]
  show "c_active (exec (stop_faulted P d) s) = None" "sp_code (result (stop_faulted P d) s) = 2"
    by (simp_all add: stop_faulted_def split_beta idle_published)
qed

lemma stop_repeated_facts:
  assumes "no_zombie s"
  shows "c_active (exec (stop_repeated P) s) = None" "sp_code (result (stop_repeated P) s) \<noteq> 0"
    "still s (exec (stop_repeated P) s)"
  using execute_terminal_facts(1) [OF assms] kept_exec [OF still_execute]
  by (simp_all add: stop_repeated_def split_beta Let_def)

lemma stop_fresh_facts:
  assumes "no_zombie s"
  shows "c_active (exec (stop_fresh P r) s) = None"
    and "sp_code (result (stop_fresh P r) s) = 0 \<Longrightarrow> rs_epoch (c_state s) \<noteq> u64_max \<and>
      rs_epoch (c_state (exec (stop_fresh P r) s)) = rs_epoch (c_state s) + 1 \<and>
      sp_epoch (result (stop_fresh P r) s) = rs_epoch (c_state (exec (stop_fresh P r) s)) \<and>
      sp_inhibited (result (stop_fresh P r) s)"
proof -
  let ?s = "s\<lparr>c_stops := AList.update (sr_id r) (stop_fingerprint r) (c_stops s)\<rparr>"
  let ?e = "execute_terminal P Stopped ''Mission stopped by Operational Stop'' True"
  have z: "no_zombie ?s" using assms by (simp add: zombie_stops)
  note f = execute_terminal_facts [OF z, where P = P and code = Stopped and
    detail = "''Mission stopped by Operational Stop''" and rotates = True]
  show "c_active (exec (stop_fresh P r) s) = None"
    using f(1) by (simp add: stop_fresh_def split_beta idle_published)
  show "rs_epoch (c_state s) \<noteq> u64_max \<and>
      rs_epoch (c_state (exec (stop_fresh P r) s)) = rs_epoch (c_state s) + 1 \<and>
      sp_epoch (result (stop_fresh P r) s) = rs_epoch (c_state (exec (stop_fresh P r) s)) \<and>
      sp_inhibited (result (stop_fresh P r) s)" if "sp_code (result (stop_fresh P r) s) = 0"
    using f(2) that
    by (auto simp: stop_fresh_def split_beta epoch_after [OF still_quiet [OF quiet_publish_state]]
      epoch_after [OF still_quiet [OF quiet_availability]] split: if_splits)
qed


lemma admission_epoch:
  "ad_accepted (result (admit P g permit n) s) \<Longrightarrow>
   mg_runtime g = rs_runtime (c_state s) \<and> mg_epoch g = rs_epoch (c_state s)"
  by (auto simp: admit_def refuse_def refused_def split: if_splits)

lemma stop_epoch:
  assumes "no_zombie s" "sp_code (result (stop_mission P r) s) = 0"
  shows "rs_epoch (c_state s) < rs_epoch (c_state (exec (stop_mission P r) s))"
  using stop_faulted_facts(2) [OF assms(1), of P] stop_repeated_facts(2) [OF assms(1), of P]
    stop_fresh_facts(2) [OF assms(1), of P r] assms(2)
  by (auto simp: stop_mission_def split: option.splits if_splits)

text \<open>C3: after an applied STOP no goal planned before it is ever admitted.\<close>

theorem stop_retires_old_goals:
  assumes "runtime_init P e = Inr s0" and "s = run (runtime_step P) s0 evs"
    and "sp_code (result (stop_mission P r) s) = 0"
    and "mg_epoch g \<le> rs_epoch (c_state s)"
  shows "\<not> ad_accepted (result (admit P g permit n)
    (run (runtime_step P) (exec (stop_mission P r) s) evs'))"
proof -
  have "no_zombie s" using reachable_live [OF assms(1)] assms(2) by simp
  from stop_epoch [OF this assms(3)] have "mg_epoch g < rs_epoch (c_state (exec (stop_mission P r) s))"
    using assms(4) by (rule le_less_trans [rotated])
  also have "\<dots> \<le> rs_epoch (c_state (run (runtime_step P) (exec (stop_mission P r) s) evs'))"
    using books.calls.run_related [of P] by (simp add: kept_books_def)
  finally show ?thesis using admission_epoch by fastforce
qed

text \<open>
  A STOP that is sent again, after any calls, stops again but neither advances the epoch nor
  is counted again; the same identifier with another body is refused.
\<close>

lemma repeated_stop_is_idempotent:
  assumes "runtime_init P e = Inr s0" and "s = run (runtime_step P) s0 evs"
    and "valid_bounded_id (sr_id r) 36 False" "valid_bounded_id (sr_source r) 36 True"
      "length (sr_reason r) \<le> 160"
    and "map_of (c_stops s) (sr_id r) = Some (stop_fingerprint r)"
    and "t = run (runtime_step P) s evs'" and "u = exec (stop_mission P r) t"
  shows "c_active u = None \<and> rs_epoch (c_state u) = rs_epoch (c_state t) \<and> c_stops u = c_stops t \<and>
    sp_code (result (stop_mission P r) t) \<in> {1, 2}"
proof -
  have "t = run (runtime_step P) s0 (evs @ evs')" using assms(2,7) by (simp add: run_append)
  then have z: "no_zombie t" using reachable_live [OF assms(1)] by simp
  have "map_of (c_stops t) (sr_id r) = Some (stop_fingerprint r)"
    using books.calls.run_related [of P s evs'] assms(6,7) by (simp add: kept_books_def)
  then have eq: "run_state (stop_mission P r) t = run_state (stop_repeated P) t"
    using assms(3-5) by (simp add: stop_mission_def)
  have "sp_code (result (stop_repeated P) t) \<in> {1, 2}"
    by (simp add: stop_repeated_def split_beta Let_def)
  then show ?thesis
    using stop_repeated_facts [OF z, of P] eq assms(8) by (simp add: still_def)
qed

subsection \<open>Admission\<close>

lemma consume_run:
  "result (consume_source_sequence P g) s = None \<Longrightarrow> source_fresh P s (mg_source g) (mg_seq g)"
  "c_active (exec (consume_source_sequence P g) s) = c_active s"
  "c_state (exec (consume_source_sequence P g) s) = c_state s"
  by (auto simp: consume_source_sequence_def source_fresh_def not_le split: option.splits if_splits)

lemma admission_allowed_run:
  "c_active (exec (admission_allowed P e) s) = c_active s"
  "c_state (exec (admission_allowed P e) s) = c_state s"
  "c_sources (exec (admission_allowed P e) s) = c_sources s"
  by (simp_all add: admission_allowed_def split: option.split)

text \<open>
  An admitted goal names this runtime and its current epoch, has a fresh sequence number and
  a valid plan, and found the slot free and the runtime not faulted.
\<close>

lemma admitted_goal_is_current:
  assumes "ad_accepted (result (admit P g permit n) s)"
  shows "mg_runtime g = rs_runtime (c_state s) \<and> mg_epoch g = rs_epoch (c_state s) \<and>
    source_fresh P s (mg_source g) (mg_seq g) \<and> validate_goal (rp_config P) g = None \<and>
    c_active s = None \<and> rs_availability (c_state s) \<noteq> AvFaulted"
proof -
  let ?s1 = "exec (admission_allowed P (rs_epoch (c_state s))) s"
  have "source_fresh P ?s1 = source_fresh P s"
    by (intro ext) (simp only: source_fresh_def admission_allowed_run)
  then show ?thesis
    using assms consume_run(1) [of P g ?s1]
    by (auto simp: admit_def refuse_def refused_def refuse_faulted_def split_beta consume_run(2,3)
      admission_allowed_run split: if_splits option.splits)
qed

text \<open>A goal for another runtime or epoch is refused and changes nothing.\<close>

lemma stale_goal_changes_nothing:
  assumes "mg_runtime g \<noteq> rs_runtime (c_state s) \<or> mg_epoch g \<noteq> rs_epoch (c_state s)"
    and "valid_bounded_id (mg_source g) 36 False"
  shows "exec (admit P g permit n) s = s \<and>
    \<not> ad_accepted (result (admit P g permit n) s) \<and>
    mr_code (ad_result (result (admit P g permit n) s)) = StaleRequest"
  using assms by (auto simp: admit_def refuse_def refused_def refusal_def)

subsection \<open>Every admitted mission is answered\<close>

text \<open>A program whose result, when it accepts a mission, leaves it active or answered.\<close>

definition accounted :: "'e runtime_ports \<Rightarrow> ('e, admission) runtime \<Rightarrow> bool" where
  "accounted P m \<longleftrightarrow> (\<forall>s. rp_has_result P \<longrightarrow> ad_accepted (result m s) \<longrightarrow>
     ad_mission (result m s) \<in> answered (exec m s))"

lemma accounted_bind: "(\<And>a. accounted P (f a)) \<Longrightarrow> accounted P (State_Monad.bind m f)"
  by (simp add: accounted_def split_beta)

lemma accounted_if: "accounted P m \<Longrightarrow> accounted P n \<Longrightarrow> accounted P (if b then m else n)"
  by simp

lemma accounted_option:
  "accounted P m \<Longrightarrow> (\<And>a. accounted P (f a)) \<Longrightarrow> accounted P (case x of None \<Rightarrow> m | Some a \<Rightarrow> f a)"
  by (simp split: option.split)

lemma accounted_refuse:
  "accounted P (refuse c d)" "accounted P (refused r)" "accounted P (refuse_faulted P c d)"
  "accounted P (cleanup_faulted P d d')"
  by (simp_all add: accounted_def refuse_def refused_def refuse_faulted_def cleanup_faulted_def
    split_beta)

lemma accounted_start: "accounted P (admit_start P g permit n m)"
proof (unfold accounted_def, intro allI impI)
  fix s :: "'a core"
  assume has: "rp_has_result P"
  let ?t = "mission_taken (s\<lparr>c_env := snd (rp_now P (c_env s))\<rparr>) m g permit n
       (fst (rp_now P (c_env s)) + ms (rc_mission_deadline (rp_config P)))"
  have "keeps_answered P ?t (exec (start_step P) (exec (publish_state P) ?t))"
    by (intro answers.trans [OF kept_exec [OF answers.kept_quiet [OF quiet_publish_state]]
      kept_exec [OF answers.calls.kept_start_step]])
  moreover have "m \<in> answered ?t" by (simp add: answered_def mission_taken_def)
  moreover have "exec (admit_start P g permit n m) s =
      exec (start_step P) (exec (publish_state P) ?t)"
    by (simp add: admit_start_def mission_taken_def split_beta)
  moreover have "ad_mission (result (admit_start P g permit n m) s) = m"
    by (simp add: admit_start_def split_beta)
  ultimately show "ad_mission (result (admit_start P g permit n m) s) \<in>
      answered (exec (admit_start P g permit n m) s)"
    using has by (auto simp: keeps_answered_def)
qed

lemmas accounted_rules = accounted_bind accounted_if accounted_option accounted_refuse

lemma accounted_permitted: "accounted P (admit_permitted P g permit n m)"
  unfolding admit_permitted_def by (intro accounted_rules accounted_start)

lemma accounted_open: "accounted P (admit_open P g permit n m)"
  unfolding admit_open_def by (intro accounted_rules accounted_permitted)

lemma accounted_handover: "accounted P (admit_handover P g permit n m)"
  unfolding admit_handover_def by (intro accounted_rules accounted_open)

lemma accounted_identified: "accounted P (admit_identified P g permit n)"
  unfolding admit_identified_def Let_def
  by (intro accounted_rules accounted_handover accounted_permitted)

lemma accounted_gate: "accounted P (admit_gate P g permit n)"
  unfolding admit_gate_def by (intro accounted_rules accounted_identified)

lemma accounted_motion: "accounted P (admit_motion P g permit n)"
  unfolding admit_motion_def by (intro accounted_rules accounted_gate)

lemma accounted_dependencies: "accounted P (admit_dependencies P g permit n)"
  unfolding admit_dependencies_def by (intro accounted_rules accounted_motion)

lemma accounted_admit: "accounted P (admit P g permit n)"
  unfolding admit_def by (intro accounted_rules accounted_dependencies)

text \<open>
  C23: an admitted mission is never lost: after any further calls it is still the active mission
  or it has been given its result.
\<close>

theorem admitted_mission_is_answered:
  assumes "rp_has_result P" and "ad_accepted (result (admit P g permit n) s)"
    and "m = ad_mission (result (admit P g permit n) s)"
    and "t = run (runtime_step P) (exec (admit P g permit n) s) evs"
  shows "m \<in> set (results (c_out t)) \<or> (\<exists>a. c_active t = Some a \<and> am_id a = m)"
proof -
  have "m \<in> answered (exec (admit P g permit n) s)"
    using accounted_admit [unfolded accounted_def, rule_format, OF assms(1,2)] assms(3) by simp
  moreover have "keeps_answered P (exec (admit P g permit n) s) t"
    unfolding assms(4) by (rule answers.calls.run_related) simp
  ultimately show ?thesis using assms(1) by (auto simp: keeps_answered_def answered_def)
qed

subsection \<open>The fuel of the steps\<close>

definition fewer :: "'e core \<Rightarrow> 'e core \<Rightarrow> bool" where
  "fewer s t \<longleftrightarrow> steps_left t \<le> steps_left s"

lemma fewer_quiet: "quiet s t \<Longrightarrow> steps_left t = steps_left s"
  using quiet_fields(5) [of s t] by (simp add: steps_left_def)

interpretation fewer: plain_gate_relation fewer P for P :: "'e runtime_ports"
proof unfold_locales
  show "quiet s t \<Longrightarrow> fewer s t" for s t
    by (simp add: fewer_def fewer_quiet)
  show "quiet (s\<lparr>c_active := None\<rparr>) t \<Longrightarrow>
      fewer s (t\<lparr>c_out := c_out t @ (if rp_has_result P then [OutResult (am_id a) r] else [])\<rparr>)"
    for s t a r
    using fewer_quiet [of "s\<lparr>c_active := None\<rparr>" t] by (simp add: fewer_def steps_left_def)
qed (auto simp: fewer_def fewer_quiet steps_left_def feedback_given_def mission_moves_def)

text \<open>Two programs that run alike from every core with at most \<open>k\<close> steps left.\<close>

definition alike :: "nat \<Rightarrow> ('e, 'a) runtime \<Rightarrow> ('e, 'a) runtime \<Rightarrow> bool" where
  "alike k m n \<longleftrightarrow> (\<forall>s. steps_left s \<le> k \<longrightarrow> run_state m s = run_state n s)"

lemma alike_refl: "alike k m m"
  by (simp add: alike_def)

lemma alike_bind:
  "alike k m n \<Longrightarrow> kept fewer m \<Longrightarrow> (\<And>a. alike k (f a) (g a)) \<Longrightarrow>
   alike k (State_Monad.bind m f) (State_Monad.bind n g)"
  unfolding alike_def kept_def fewer_def by (auto simp: split_beta) (metis order_trans)+

lemma alike_if: "alike k m n \<Longrightarrow> alike k m' n' \<Longrightarrow> alike k (if b then m else m') (if b then n else n')"
  by simp

lemma alike_option:
  "alike k m n \<Longrightarrow> (\<And>a. alike k (f a) (g a)) \<Longrightarrow>
   alike k (case x of None \<Rightarrow> m | Some a \<Rightarrow> f a) (case x of None \<Rightarrow> n | Some a \<Rightarrow> g a)"
  by (simp split: option.split)

lemma alike_outcome:
  "(\<And>a. alike k (f a) (f' a)) \<Longrightarrow> (\<And>w. alike k (h w) (h' w)) \<Longrightarrow> alike k m m' \<Longrightarrow>
   alike k (case x of Returned a \<Rightarrow> f a | Threw w \<Rightarrow> h w | ThrewUnknown \<Rightarrow> m)
     (case x of Returned a \<Rightarrow> f' a | Threw w \<Rightarrow> h' w | ThrewUnknown \<Rightarrow> m')"
  by (simp split: outcome.split)

lemma alike_prod:
  "(\<And>a b. alike k (f a b) (g a b)) \<Longrightarrow>
   alike k (case x of (a, b) \<Rightarrow> f a b) (case x of (a, b) \<Rightarrow> g a b)"
  by (simp split: prod.split)

text \<open>A core whose mission, if any, has a step to start.\<close>

definition startable :: "'e core \<Rightarrow> bool" where
  "startable s \<longleftrightarrow> (\<forall>a. c_active s = Some a \<longrightarrow> am_completed a < length (am_steps a))"

lemma alike_child_result:
  assumes "\<And>s. steps_left s \<le> k \<Longrightarrow> startable s \<Longrightarrow> run_state m s = run_state n s"
  shows "alike (Suc k) (child_result_with P m t r) (child_result_with P n t r)"
proof (unfold alike_def, intro allI impI)
  fix s :: "'a core"
  assume left: "steps_left s \<le> Suc k"
  show "run_state (child_result_with P m t r) s = run_state (child_result_with P n t r) s"
  proof (cases "c_active s")
    case None
    then show ?thesis by (simp add: child_result_with_def)
  next
    case (Some a)
    let ?s1 = "exec (publish_feedback P Executing (am_step_index a) (Fin 1)) s"
    let ?s3 = "?s1\<lparr>c_active := Some (a\<lparr>am_completed := am_completed a + 1,
        am_step_index := am_step_index a + 1, am_step_generation := am_step_generation a + 1\<rparr>)\<rparr>"
    have act: "c_active ?s1 = Some a"
      using kept_exec [OF same_active.kept_publish_feedback] Some by (metis same_active_def)
    have "run_state m ?s3 = run_state n ?s3" if "am_completed a + 1 < length (am_steps a)"
      using left that Some by (intro assms) (simp_all add: steps_left_def startable_def)
    then show ?thesis
      using Some act by (simp add: child_result_with_def split_beta)
  qed
qed

lemma alike_deliver_all:
  assumes "\<And>t r. alike k (f t r) (g t r)" "\<And>t r. kept fewer (f t r)"
  shows "alike k (deliver_all P ext f cs) (deliver_all P ext g cs)"
proof (induction cs)
  case (Cons c cs)
  have "alike k (deliver P ext f c) (deliver P ext g c)"
    using assms(1) by (cases c) (auto intro: alike_refl)
  then show ?case
    using Cons fewer.calls.kept_deliver [OF assms(2)] by (auto intro: alike_bind)
qed (simp add: alike_refl)

lemma alike_start_step_with:
  assumes "\<And>t r. alike k (f t r) (g t r)" "\<And>t r. kept fewer (f t r)"
  shows "alike k (start_step_with P f) (start_step_with P g)"
proof -
  have moves: "kept fewer (change_active (\<lambda>a. a\<lparr>am_child_started := b\<rparr>))"
    "kept fewer (change_active (\<lambda>a. a\<lparr>am_token := t\<rparr>))" for b t
    by (intro fewer.kept_change; simp add: mission_moves_def)+
  have map_child: "alike k (start_map_child P f save t a) (start_map_child P g save t a)" for save t a
    unfolding start_map_child_def
    by (intro alike_bind alike_outcome alike_refl assms(1) moves fewer.kept_publish_feedback
      fewer.quietly)
  have motion_child: "alike k (start_motion_child P f port t a) (start_motion_child P g port t a)"
    for port t a
    unfolding start_motion_child_def
    by (intro alike_bind alike_if alike_prod alike_refl alike_deliver_all assms moves
      fewer.calls.kept_deliver_all fewer.quietly)
  show ?thesis
    unfolding start_step_with_def Let_def
    by (intro alike_bind alike_if alike_option alike_refl map_child motion_child moves
      fewer.kept_publish_feedback fewer.kept_get fewer.quietly)
qed

lemma fuel_enough:
  "startable s \<Longrightarrow> steps_left s \<le> k \<Longrightarrow>
   run_state (start_step_fuel P (k + j)) s = run_state (start_step_fuel P k) s"
proof (induction k arbitrary: s)
  case 0
  then have "c_active s = None" by (auto simp: startable_def steps_left_def split: option.splits)
  then show ?case by (cases j) (simp_all add: start_step_with_def)
next
  case (Suc k)
  have "kept fewer (start_step_fuel P n)" for n
    by (induction n) (auto intro: fewer.kept_return fewer.calls.kept_start_step_with
      fewer.calls.kept_child_result_with)
  then have "alike (Suc k) (start_step_with P (child_result_with P (start_step_fuel P (k + j))))
      (start_step_with P (child_result_with P (start_step_fuel P k)))"
    by (intro alike_start_step_with alike_child_result fewer.calls.kept_child_result_with Suc.IH)
  then show ?case using Suc.prems(2) by (simp add: alike_def)
qed

text \<open>
  The recursion through a child that completes inside its own start is bounded by the steps
  left: any larger bound gives the same run, so no step is cut off.
\<close>

lemma steps_never_run_out:
  assumes "\<And>a. c_active s = Some a \<Longrightarrow> am_completed a < length (am_steps a)"
    and "steps_left s \<le> n"
  shows "run_state (start_step_fuel P n) s = run_state (start_step P) s"
proof -
  have "startable s" using assms(1) by (simp add: startable_def)
  from fuel_enough [OF this order_refl, of P "n - steps_left s"] show ?thesis
    using assms(2) by (simp add: start_step_def)
qed

end
