(* ===== verification/Mission_Scripted.thy ===== *)
theory Mission_Scripted
  imports Mission_Runtime_Stop
begin

text \<open>
  The deterministic ports of the runtime, \<open>ScriptedMotionAuthorityPort\<close>,
  \<open>ScriptedRelativeMotionPort\<close> and \<open>ScriptedSteadyClock\<close> (mission_runtime_core.hpp,
  mission_runtime_core.cpp), as one environment, and the concrete runs of the runtime over them.
  The observers, which let a test look in from inside a call, are left out.
\<close>

subsection \<open>The scripted environment\<close>

record scripted =
  sc_now :: time
  sc_snapshot :: auth_snapshot
  sc_operations :: "auth_op list"
  sc_next_failure :: string
  sc_open_failure :: string
  sc_inhibit_failure :: string
  sc_inhibit_result :: "auth_result option"
  sc_inhibit_count :: nat
  sc_healthy :: bool
  sc_safety_faulted :: bool
  sc_rearm :: bool
  sc_rearm_accepted :: "auth_snapshot option"
  sc_rearm_count :: nat
  sc_rearm_gate :: string
  sc_cancel_acknowledged :: bool
  sc_start_completion :: bool
  sc_start_failure :: string
  sc_token :: "motion_token option"
  sc_children :: "motion_token list"
  sc_started :: "mission_step list"
  sc_cancel_count :: nat
  sc_cancel_token :: motion_token
  sc_cancel_deadline :: time

definition scripted_init :: "string \<Rightarrow> scripted" where
  "scripted_init gate = \<lparr>sc_now = 0,
     sc_snapshot = \<lparr>as_gate = gate, as_seq = 0, as_lease = [],
       as_state = Inhibited, as_endpoint = True, as_inhibited = True, as_zero_selected = True,
       as_zero_published = True, as_topic = [], as_authority_live = False, as_writer_bound = False\<rparr>,
     sc_operations = [], sc_next_failure = [], sc_open_failure = [], sc_inhibit_failure = [],
     sc_inhibit_result = None, sc_inhibit_count = 0, sc_healthy = True, sc_safety_faulted = False,
     sc_rearm = False, sc_rearm_accepted = None, sc_rearm_count = 0, sc_rearm_gate = [],
     sc_cancel_acknowledged = True, sc_start_completion = False, sc_start_failure = [],
     sc_token = None, sc_children = [], sc_started = [], sc_cancel_count = 0,
     sc_cancel_token = no_token, sc_cancel_deadline = 0\<rparr>"

definition scripted_refusal :: "string \<Rightarrow> scripted \<Rightarrow> auth_result" where
  "scripted_refusal detail e = \<lparr>ar_applied = False, ar_zero_proven = False, ar_retryable = False,
     ar_snapshot = sc_snapshot e, ar_lease = [], ar_detail = detail, ar_stale = False,
     ar_unavailable = False\<rparr>"

definition scripted_log :: "auth_op \<Rightarrow> scripted \<Rightarrow> scripted" where
  "scripted_log op e = e\<lparr>sc_operations := sc_operations e @ [op]\<rparr>"

definition prepared_lease :: string where
  "prepared_lease = replicate 32 (CHR ''p'')"

definition scripted_lease :: "auth_op \<Rightarrow> gate_state \<Rightarrow> string" where
  "scripted_lease op next_state =
     (if next_state = Armed then (if ao_lease op = [] then prepared_lease else ao_lease op)
      else if next_state = Prepared then prepared_lease else [])"

definition scripted_apply ::
  "auth_op \<Rightarrow> gate_state \<Rightarrow> bool \<Rightarrow> scripted \<Rightarrow> auth_result \<times> scripted" where
  "scripted_apply op next_state inhibited e0 =
     (let e = scripted_log op e0 in
      if sc_next_failure e \<noteq> []
      then (scripted_refusal (sc_next_failure e) e, e\<lparr>sc_next_failure := []\<rparr>)
      else let g = sc_snapshot e;
          g = g\<lparr>as_seq := (if as_seq g \<noteq> u64_max then as_seq g + 1 else as_seq g),
            as_state := next_state, as_lease := scripted_lease op next_state,
            as_inhibited := inhibited, as_zero_selected := inhibited,
            as_zero_published := (inhibited \<or> next_state = Prepared \<or> next_state = Armed),
            as_endpoint := True\<rparr>
        in (\<lparr>ar_applied = True, ar_zero_proven = inhibited, ar_retryable = False, ar_snapshot = g,
              ar_lease = (if next_state = Armed then as_lease g else []), ar_detail = ''applied'',
              ar_stale = False, ar_unavailable = False\<rparr>, e\<lparr>sc_snapshot := g\<rparr>))"

definition scripted_prepare :: "auth_op \<Rightarrow> scripted \<Rightarrow> auth_result \<times> scripted" where
  "scripted_prepare op = scripted_apply op Prepared True"

definition scripted_open :: "auth_op \<Rightarrow> scripted \<Rightarrow> auth_result \<times> scripted" where
  "scripted_open op e =
     (if sc_open_failure e \<noteq> []
      then let e' = scripted_log op (e\<lparr>sc_open_failure := []\<rparr>)
        in (scripted_refusal (sc_open_failure e) e', e')
      else scripted_apply op Armed False e)"

definition scripted_renew :: "auth_op \<Rightarrow> scripted \<Rightarrow> auth_result \<times> scripted" where
  "scripted_renew op e0 =
     (let e = scripted_log op e0 in
      if sc_next_failure e \<noteq> []
      then (scripted_refusal (sc_next_failure e) e, e\<lparr>sc_next_failure := []\<rparr>)
      else ((scripted_refusal ''renewed'' e)\<lparr>ar_applied := True,
        ar_lease := as_gate (sc_snapshot e)\<rparr>, e))"

definition scripted_inhibit :: "auth_op \<Rightarrow> scripted \<Rightarrow> auth_result \<times> scripted" where
  "scripted_inhibit op e0 =
     (let e = e0\<lparr>sc_inhibit_count := sc_inhibit_count e0 + 1\<rparr> in
      case sc_inhibit_result e of
        Some r \<Rightarrow> (r, scripted_log op (e\<lparr>sc_inhibit_result := None, sc_snapshot := ar_snapshot r\<rparr>))
      | None \<Rightarrow>
          if sc_inhibit_failure e \<noteq> []
          then let e' = scripted_log op (e\<lparr>sc_inhibit_failure := []\<rparr>)
            in (scripted_refusal (sc_inhibit_failure e) e', e')
          else scripted_apply op Inhibited True e)"

text \<open>The child: it keeps its tokens, and completes inside its start when the script says so.\<close>

definition scripted_start :: "motion_token \<Rightarrow> mission_step \<Rightarrow> scripted \<Rightarrow>
    (child_call list \<times> unit outcome) \<times> scripted" where
  "scripted_start token st e =
     (if sc_start_failure e \<noteq> []
      then (([], Threw (sc_start_failure e)), e\<lparr>sc_start_failure := []\<rparr>)
      else ((if sc_start_completion e
          then [ChildDone token \<lparr>ch_code = ChSucceeded, ch_detail = ''sync complete''\<rparr>] else [],
          Returned ()),
        e\<lparr>sc_token := Some token, sc_children := sc_children e @ [token],
          sc_started := sc_started e @ [st]\<rparr>))"

definition scripted_cancel :: "motion_token \<Rightarrow> time \<Rightarrow> scripted \<Rightarrow> bool outcome \<times> scripted" where
  "scripted_cancel token deadline e = (Returned (sc_cancel_acknowledged e),
     e\<lparr>sc_cancel_count := sc_cancel_count e + 1, sc_cancel_token := token,
       sc_cancel_deadline := deadline\<rparr>)"

definition scripted_rearm :: "auth_snapshot \<Rightarrow> scripted \<Rightarrow> (bool \<times> auth_snapshot) \<times> scripted" where
  "scripted_rearm candidate e =
     ((sc_rearm e, if sc_rearm e
        then (case sc_rearm_accepted e of Some g \<Rightarrow> g | None \<Rightarrow> candidate) else default_snapshot),
      e\<lparr>sc_rearm_count := sc_rearm_count e + 1, sc_rearm_gate := as_gate candidate\<rparr>)"

text \<open>What a test makes the child report on its current token.\<close>

definition scripted_report :: "child_code \<Rightarrow> string \<Rightarrow> scripted \<Rightarrow> scripted runtime_event list" where
  "scripted_report code detail e = (case sc_token e of
     None \<Rightarrow> []
   | Some t \<Rightarrow> [Done t \<lparr>ch_code = code, ch_detail = detail\<rparr>])"

definition scripted_child :: "scripted child_port" where
  "scripted_child = \<lparr>cp_healthy = (\<lambda>e. (sc_healthy e, e)),
     cp_safety_faulted = (\<lambda>e. (sc_safety_faulted e, e)), cp_external = False,
     cp_start = scripted_start, cp_cancel = scripted_cancel, cp_tick = (\<lambda>now e. ([], e))\<rparr>"

text \<open>
  The default configuration. The limits of the steps are the binary32 values of \<open>0.05\<close>,
  \<open>2.0\<close> and \<open>6.283185\<close>.
\<close>

definition float_0_05 :: dbl where
  "float_0_05 = Fin (13421773 / 268435456)"

definition float_6_283185 :: dbl where
  "float_6_283185 = Fin (13176794 / 2097152)"

definition default_runtime_config :: runtime_config where
  "default_runtime_config = \<lparr>rc_mode = Mapping, rc_mission_deadline = 30000,
     rc_gate_discovery_deadline = 2000, rc_control_response_deadline = 100, rc_stop_barrier = 250,
     rc_cancel_grace = 250, rc_stationarity_deadline = 1200, rc_source_cache = 64,
     rc_stop_cache = 64, rc_max_steps = 3, rc_initial_epoch = 1,
     rc_move_min = float_0_05, rc_move_max = Fin 2, rc_rotate_min = float_0_05,
     rc_rotate_max = float_6_283185, rc_places = [], rc_runtime_id = ''runtime''\<rparr>"

definition script_ports :: "scripted runtime_ports" where
  "script_ports = \<lparr>rp_config = default_runtime_config, rp_now = (\<lambda>e. (sc_now e, e)),
     rp_snapshot = (\<lambda>e. (sc_snapshot e, e)), rp_prepare = scripted_prepare,
     rp_open = scripted_open, rp_renew = scripted_renew, rp_inhibit = scripted_inhibit,
     rp_motion = scripted_child, rp_owns_authority = False, rp_zero_proven = (\<lambda>e. (True, e)),
     rp_rearm = scripted_rearm, rp_navigation = None, rp_map_store = None, rp_has_state = True,
     rp_has_feedback = True, rp_has_result = True, rp_feedback_dispatcher = False,
     rp_result_dispatcher = False, rp_fence = None, rp_registrar = None, rp_unregistrar = None,
     rp_identifier = Some (\<lambda>e. (''id'', e)), rp_random = (\<lambda>e. (replicate 16 0, e)),
     rp_epoch_advance = None\<rparr>"

lemma float_literals:
  "round32 (5 / 100) = float_0_05" "round32 (6283185 / 1000000) = float_6_283185"
proof -
  have e: "ilog2 (5 / 100) = - 5" "ilog2 (6283185 / 1000000) = 2"
    by (rule ilog2_unique; simp add: power_int_def power_one_over)+
  have "fround 24 (- 126) 127 (5 / 100) = Fin (of_int 13421773 * (1 / 268435456))"
    by (rule fround_eqI [where e = "- 5"]) (use e in \<open>simp_all add: power_int_def power_one_over\<close>)
  then show "round32 (5 / 100) = float_0_05" by (simp add: round32_def float_0_05_def)
  have "fround 24 (- 126) 127 (6283185 / 1000000) = Fin (of_int 13176794 * (1 / 2097152))"
    by (rule fround_eqI [where e = 2]) (use e in \<open>simp_all add: power_int_def power_one_over\<close>)
  then show "round32 (6283185 / 1000000) = float_6_283185" by (simp add: round32_def float_6_283185_def)
qed

end
