(* ===== verification/Mission_Runs.thy ===== *)
theory Mission_Runs
  imports Mission_Scripted
begin

text \<open>
  Concrete runs of the runtime over its scripted ports: a mission of two moves is admitted, carried
  out, stopped and stopped again. Each run is evaluated once, and instantiates the theorems about
  the runtime.
\<close>

subsection \<open>Small values\<close>

lemma float_small:
  "round64 0 = Fin 0" "round64 1 = Fin 1" "round64 2 = Fin 2" "round64 (1 / 2) = Fin (1 / 2)"
  "round32 0 = Fin 0" "round32 1 = Fin 1" "round32 (1 / 2) = Fin (1 / 2)"
proof -
  have e: "ilog2 1 = 0" "ilog2 2 = 1" "ilog2 (1 / 2) = - 1"
    by (rule ilog2_unique; simp add: power_int_def power_one_over)+
  show "round64 0 = Fin 0" "round32 0 = Fin 0" by (simp_all add: round64_def round32_def fround_def)
  show "round64 1 = Fin 1" "round32 1 = Fin 1"
    using fround_eqI [of 1 0 "- 1022" 53 "1 / 2 ^ 52" "2 ^ 52" 1023]
      fround_eqI [of 1 0 "- 126" 24 "1 / 2 ^ 23" "2 ^ 23" 127]
    by (simp_all add: e power_int_def power_one_over round64_def round32_def)
  show "round64 2 = Fin 2"
    using fround_eqI [of 2 1 "- 1022" 53 "1 / 2 ^ 51" "2 ^ 52" 1023]
    by (simp add: e power_int_def power_one_over round64_def)
  show "round64 (1 / 2) = Fin (1 / 2)" "round32 (1 / 2) = Fin (1 / 2)"
    using fround_eqI [of "1 / 2" "- 1" "- 1022" 53 "1 / 2 ^ 53" "2 ^ 52" 1023]
      fround_eqI [of "1 / 2" "- 1" "- 126" 24 "1 / 2 ^ 24" "2 ^ 23" 127]
    by (simp_all add: e power_int_def power_one_over round64_def round32_def)
qed

lemma dof_small: "dof_nat 0 = Fin 0" "dof_nat (Suc 0) = Fin 1" "dof_nat 2 = Fin 2"
  "dof_nat (Suc (Suc 0)) = Fin 2"
  by (simp_all add: dof_nat_def float_small)

subsection \<open>The goal and the evaluation rules\<close>

definition move_step :: mission_step where
  "move_step = \<lparr>ms_kind = k_move, ms_distance = Fin 1, ms_angle = Fin 0, ms_target = []\<rparr>"

definition demo_goal :: mission_goal where
  "demo_goal = \<lparr>mg_source = ''agent'', mg_seq = 7, mg_runtime = ''runtime'', mg_epoch = 1,
     mg_steps = [move_step, move_step]\<rparr>"

definition demo_stop :: stop_request where
  "demo_stop = \<lparr>sr_id = ''stop-1'', sr_source = ''voice'', sr_seq = 1, sr_reason = ''halt''\<rparr>"

lemma script_fields:
  "rp_config script_ports = default_runtime_config" "rp_now script_ports = (\<lambda>e. (sc_now e, e))"
  "rp_snapshot script_ports = (\<lambda>e. (sc_snapshot e, e))" "rp_prepare script_ports = scripted_prepare"
  "rp_open script_ports = scripted_open" "rp_renew script_ports = scripted_renew"
  "rp_inhibit script_ports = scripted_inhibit" "rp_motion script_ports = scripted_child"
  "\<not> rp_owns_authority script_ports" "rp_zero_proven script_ports = (\<lambda>e. (True, e))"
  "rp_rearm script_ports = scripted_rearm" "rp_navigation script_ports = None"
  "rp_map_store script_ports = None" "rp_has_state script_ports" "rp_has_feedback script_ports"
  "rp_has_result script_ports" "\<not> rp_feedback_dispatcher script_ports"
  "\<not> rp_result_dispatcher script_ports" "rp_fence script_ports = None"
  "rp_registrar script_ports = None" "rp_unregistrar script_ports = None"
  "rp_identifier script_ports = Some (\<lambda>e. (''id'', e))" "rp_epoch_advance script_ports = None"
  by (simp_all add: script_ports_def)

lemma config_fields:
  "rc_mode default_runtime_config = Mapping" "rc_mission_deadline default_runtime_config = 30000"
  "rc_initial_epoch default_runtime_config = 1" "rc_source_cache default_runtime_config = 64"
  "rc_stop_cache default_runtime_config = 64" "rc_cancel_grace default_runtime_config = 250"
  "rc_max_steps default_runtime_config = 3" "rc_places default_runtime_config = []"
  "rc_runtime_id default_runtime_config = ''runtime''"
  by (simp_all add: default_runtime_config_def)

lemma demo_fields:
  "mg_source demo_goal = ''agent''" "mg_seq demo_goal = 7" "mg_runtime demo_goal = ''runtime''"
  "mg_epoch demo_goal = 1" "mg_steps demo_goal = [move_step, move_step]"
  "\<not> map_only demo_goal" "\<not> requires_navigation demo_goal"
  "ms_kind move_step = k_move" "k_move \<noteq> k_navigate" "k_move \<noteq> k_save_map"
  by (simp_all add: demo_goal_def map_only_def requires_navigation_def move_step_def k_move_def
    k_save_map_def k_navigate_def)

lemma demo_valid: "validate_goal default_runtime_config demo_goal = None"
  by (simp add: validate_goal_def demo_fields validate_step_def validate_in_mode_def save_map_count_def
    config_fields move_step_def k_move_def k_navigate_def k_save_map_def signed_in_range_def dle_def
    default_runtime_config_def float_0_05_def isfinite_def)

lemma config_is_trusted:
  "config_trusted default_runtime_config" "step_policy_trusted default_runtime_config"
  by (simp_all add: config_trusted_def step_policy_trusted_def default_runtime_config_def
    float_0_05_def float_6_283185_def)

lemma prepared_lease_nonempty: "prepared_lease \<noteq> []"
  by (simp add: prepared_lease_def)

lemma run_port: "run_state (ask f) s = (case f (c_env s) of (a, e) \<Rightarrow> (a, s\<lparr>c_env := e\<rparr>))"
  by (simp add: ask_def split_beta Let_def)

lemmas script_calls = run_port emit_def set_gate_def set_gate_state_def publish_state_def
  set_availability_def change_active_def set_progress_def set_lease_def set_epoch_def script_fields
  config_fields Let_def

lemmas script_defs = scripted_child_def scripted_prepare_def scripted_apply_def scripted_log_def
  scripted_open_def scripted_lease_def scripted_start_def scripted_inhibit_def scripted_cancel_def
  scripted_init_def prepared_lease_nonempty u64_max_def

lemmas gate_defs = visible_gate_state_def make_operation_def new_identifier_def gate_is_healthy_def
  zero_is_proven_def inhibit_and_prove_zero_def inhibit_result_proves_zero_def complete_zero_def

lemmas feedback_defs = publish_feedback_def mission_progress_def monotonic_progress_def dclamp_def
  dmax_def dof_small float_small

lemmas admission_defs = admit_def admit_dependencies_def admit_motion_def admit_gate_def
  admit_identified_def admit_handover_def admit_open_def admit_permitted_def admit_start_def
  consume_source_sequence_def valid_bounded_id_def admission_allowed_def check_permit_def
  start_step_def steps_left_def start_step_with_def current_step_def start_motion_child_def
  register_child_def token_of_def

lemmas terminal_defs = select_terminal_and_stop_def terminal_epoch_def terminal_barrier_def
  cancel_child_def acknowledged_def terminal_result_def finish_active_def commit_next_epoch_def
  rotate_epoch_def set_availability_from_dependencies_def availability_of_def

subsection \<open>A mission is admitted\<close>

definition fresh_core :: "scripted core" where
  "fresh_core = exec (read_dependencies script_ports)
     (initial_core script_ports ''runtime'' (scripted_init ''gate''))"

lemmas fresh_defs = fresh_core_def read_dependencies_def initial_core_def step_mask_def

lemma fresh_runtime: "runtime_init script_ports (scripted_init ''gate'') = Inr fresh_core"
  by (simp add: runtime_init_def script_fields config_fields config_is_trusted valid_bounded_id_def
    fresh_core_def)

definition demo_token :: "u64 \<Rightarrow> motion_token" where
  "demo_token step = \<lparr>tk_mission = 1, tk_epoch = 1, tk_generation = 1, tk_step_generation = step,
     tk_admission_generation = 0\<rparr>"

definition armed_script :: scripted where
  "armed_script = (scripted_init ''gate'')\<lparr>
     sc_snapshot := (sc_snapshot (scripted_init ''gate''))\<lparr>as_seq := 2, as_lease := prepared_lease,
       as_state := Armed, as_inhibited := False, as_zero_selected := False\<rparr>,
     sc_operations := [\<lparr>ao_id = ''id'', ao_gate = ''gate'', ao_seq = 0, ao_lease = [], ao_bound = False\<rparr>,
       \<lparr>ao_id = ''id'', ao_gate = ''gate'', ao_seq = 1, ao_lease = prepared_lease, ao_bound = False\<rparr>],
     sc_token := Some (demo_token 1), sc_children := [demo_token 1], sc_started := [move_step]\<rparr>"

definition demo_active :: "scripted active_mission" where
  "demo_active = \<lparr>am_id = 1, am_generation = 1, am_step_generation = 1, am_step_index = 0,
     am_completed = 0, am_epoch = 1, am_admission_generation = 0, am_steps = [move_step, move_step],
     am_deadline = ms 30000, am_token = demo_token 1, am_permit = None, am_child_started = True,
     am_terminal = False\<rparr>"

definition working_core :: "scripted core" where
  "working_core = fresh_core\<lparr>c_env := armed_script,
     c_state := (c_state fresh_core)\<lparr>rs_availability := AvBusy, rs_active_step := 0\<rparr>,
     c_out := c_out fresh_core @
       [OutState ((c_state fresh_core)\<lparr>rs_availability := AvBusy\<rparr>),
        OutFeedback 1 \<lparr>mf_phase = Validating, mf_step = 0, mf_progress = Fin 0\<rparr>,
        OutState ((c_state fresh_core)\<lparr>rs_availability := AvBusy, rs_active_step := 0\<rparr>)],
     c_gate := sc_snapshot armed_script, c_gate_bound := True, c_sources := [(''agent'', 7)],
     c_active := Some demo_active, c_next_mission := 2, c_next_generation := 2\<rparr>"

lemmas working_defs = working_core_def armed_script_def demo_active_def demo_token_def

lemma demo_admitted:
  "run_state (admit script_ports demo_goal None 0) fresh_core =
     (\<lparr>ad_mission = 1, ad_accepted = True,
        ad_result = \<lparr>mr_code = InternalError, mr_failed_step = - 1, mr_detail = []\<rparr>\<rparr>, working_core)"
  by (simp add: fresh_defs script_calls script_defs gate_defs feedback_defs admission_defs
    demo_fields demo_valid working_defs)

subsection \<open>The mission is stopped\<close>

lemma demo_stopped:
  "sp_code (result (stop_mission script_ports demo_stop) working_core) = 0"
  "c_stops (exec (stop_mission script_ports demo_stop) working_core) =
     [(''stop-1'', stop_fingerprint demo_stop)]"
  by (simp_all add: working_defs fresh_defs script_calls script_defs gate_defs feedback_defs
    stop_mission_def stop_fresh_def stop_response_def demo_stop_def valid_bounded_id_def
    execute_terminal_def terminal_defs demo_fields)

text \<open>The admission as an event of the runtime.\<close>

definition admit_event :: "scripted runtime_event" where
  "admit_event = Admit demo_goal None 0"

lemma admit_event_run: "run (runtime_step script_ports) fresh_core [admit_event] = working_core"
  by (simp add: admit_event_def runtime_step_def demo_admitted)

lemma working_fields:
  "c_active working_core = Some demo_active" "c_sources working_core = [(''agent'', 7)]"
  "rs_epoch (c_state working_core) = 1" "rs_runtime (c_state working_core) = ''runtime''"
  by (simp_all add: working_core_def fresh_defs script_calls script_defs gate_defs)

subsection \<open>The theorems of the runtime at these runs\<close>


theorem active_mission_is_valid_witness:
  "am_step_index demo_active < length (am_steps demo_active) \<and> length (am_steps demo_active) \<le> 3 \<and>
   validate_steps (rp_config script_ports) (am_steps demo_active) = None"
  by (rule active_mission_is_valid [OF fresh_runtime, of "[admit_event]"])
    (simp only: admit_event_run working_fields)

theorem at_most_one_result_witness:
  "distinct (results (c_out (run (runtime_step script_ports) fresh_core
     [admit_event, Stop demo_stop, Stop demo_stop])))"
  by (rule at_most_one_result [OF fresh_runtime, THEN conjunct1]) simp

theorem progress_is_monotone_witness:
  "sorted_wrt dle (progress_of 1 (c_out (run (runtime_step script_ports) fresh_core
     [admit_event, Feedback (demo_token 1) (Fin 2)])))"
  by (rule progress_is_monotone [OF fresh_runtime, THEN conjunct1]) simp



theorem stop_retires_old_goals_witness:
  "\<not> ad_accepted (result (admit script_ports (demo_goal\<lparr>mg_seq := 8\<rparr>) None 1)
     (run (runtime_step script_ports) (exec (stop_mission script_ports demo_stop) working_core) [Tick]))"
  by (rule stop_retires_old_goals [OF fresh_runtime admit_event_run [symmetric]])
    (simp_all add: demo_stopped working_fields demo_goal_def)

lemma stop_fields: "sr_id demo_stop = ''stop-1''" "sr_source demo_stop = ''voice''"
  "sr_reason demo_stop = ''halt''"
  by (simp_all add: demo_stop_def)

lemma stopped_run:
  "run (runtime_step script_ports) fresh_core [admit_event, Stop demo_stop] =
     exec (stop_mission script_ports demo_stop) working_core"
  by (simp add: admit_event_def runtime_step_def demo_admitted split_beta)

theorem repeated_stop_is_idempotent_witness:
  "c_active (exec (stop_mission script_ports demo_stop)
     (run (runtime_step script_ports) (exec (stop_mission script_ports demo_stop) working_core) [Tick])) = None"
  using repeated_stop_is_idempotent [OF fresh_runtime stopped_run [symmetric], of demo_stop,
    OF _ _ _ _ refl refl, of "[Tick]"]
  by (simp add: demo_stopped stop_fields valid_bounded_id_def)

theorem admitted_goal_is_current_witness:
  "source_fresh script_ports fresh_core ''agent'' 7 \<and>
   validate_goal default_runtime_config demo_goal = None"
  using admitted_goal_is_current [of script_ports demo_goal None 0 fresh_core]
  by (simp add: demo_admitted demo_fields script_fields)

theorem stale_goal_changes_nothing_witness:
  "exec (admit script_ports (demo_goal\<lparr>mg_epoch := 0\<rparr>) None 1) working_core = working_core"
  using stale_goal_changes_nothing [of "demo_goal\<lparr>mg_epoch := 0\<rparr>" working_core script_ports None 1]
  by (simp add: working_fields demo_goal_def valid_bounded_id_def)

theorem admitted_mission_is_answered_witness:
  "1 \<in> set (results (c_out (run (runtime_step script_ports) working_core [Tick, Stop demo_stop]))) \<or>
   (\<exists>a. c_active (run (runtime_step script_ports) working_core [Tick, Stop demo_stop]) = Some a \<and>
     am_id a = 1)"
  using admitted_mission_is_answered [of script_ports demo_goal None 0 fresh_core 1 _ "[Tick, Stop demo_stop]"]
  by (simp add: demo_admitted script_fields del: run.simps)

theorem steps_never_run_out_witness:
  "run_state (start_step_fuel script_ports 5) working_core =
     run_state (start_step script_ports) working_core"
  by (rule steps_never_run_out)
    (simp_all add: working_fields demo_active_def steps_left_def)

subsection \<open>A faulted runtime that a gap in the health of the port makes available again\<close>


definition faulted_core :: "scripted core" where
  "faulted_core = (exec (fail_closed script_ports ''completion lost'') fresh_core)
     \<lparr>c_env := (scripted_init ''gate'')\<lparr>sc_healthy := False\<rparr>\<rparr>"


end
