(* ===== verification/Mission_Answers.thy ===== *)
theory Mission_Answers
  imports Mission_Runs "HOL-Library.Multiset"
begin

text \<open>
  The answers of the Action server (\<open>MissionActionResultRouter\<close> and \<open>MissionActionAdapterBoundary\<close>,
  mission_action_result_router.hpp), composed with the runtime core as the Node composes them: a
  goal is handed to the core inside the provisional window of the router, and the results the core
  gives are routed to the client of the mission.
\<close>

subsection \<open>The router\<close>

datatype outer_status = OuterSucceeded | OuterCanceled | OuterAborted

text \<open>What a client is given: the result of its mission, or the rejection of its goal.\<close>

datatype client_answer = Delivered u64 outer_status mission_result | Rejected mission_result

text \<open>The delivery callback of a mission is named by the client it answers.\<close>

record 'c router =
  ar_pending :: bool
  ar_early :: "(u64 \<times> mission_result) option"
  ar_active :: "(u64 \<times> 'c) option"

definition router_init :: "'c router" where
  "router_init = \<lparr>ar_pending = False, ar_early = None, ar_active = None\<rparr>"

definition outer_of :: "mission_result \<Rightarrow> outer_status" where
  "outer_of r = (if mr_code r = Succeeded then OuterSucceeded
     else if mr_code r = Canceled then OuterCanceled else OuterAborted)"

definition begin_admission :: "'c router \<Rightarrow> string + 'c router" where
  "begin_admission q = (if ar_pending q then Inl ''Mission Action result router is already occupied''
     else Inr (q\<lparr>ar_pending := True, ar_early := None\<rparr>))"

definition reject_admission :: "'c router \<Rightarrow> 'c router" where
  "reject_admission q = q\<lparr>ar_pending := False, ar_early := None\<rparr>"

definition router_deliver :: "u64 \<Rightarrow> 'c \<Rightarrow> mission_result \<Rightarrow> 'c router \<Rightarrow> ('c \<times> client_answer) list \<times> 'c router" where
  "router_deliver m c r q = ([(c, Delivered m (outer_of r) r)], q\<lparr>ar_active := None\<rparr>)"

definition router_commit :: "u64 \<Rightarrow> 'c \<Rightarrow> 'c router \<Rightarrow> string + ('c \<times> client_answer) list \<times> 'c router" where
  "router_commit m c q =
     (if \<not> ar_pending q \<or> ar_active q \<noteq> None
      then Inl ''Mission Action result commit is out of order''
      else let q = q\<lparr>ar_pending := False, ar_active := Some (m, c)\<rparr>
        in case ar_early q of
          Some (k, r) \<Rightarrow> if k = m then Inr (router_deliver m c r (q\<lparr>ar_early := None\<rparr>)) else Inr ([], q)
        | None \<Rightarrow> Inr ([], q))"

definition router_finish :: "u64 \<Rightarrow> mission_result \<Rightarrow> 'c router \<Rightarrow> ('c \<times> client_answer) list \<times> 'c router" where
  "router_finish m r q =
     (case ar_active q of
        Some (k, c) \<Rightarrow>
          if k = m then router_deliver m c r q
          else ([], if ar_pending q \<and> ar_early q = None then q\<lparr>ar_early := Some (m, r)\<rparr> else q)
      | None \<Rightarrow> ([], if ar_pending q \<and> ar_early q = None then q\<lparr>ar_early := Some (m, r)\<rparr> else q))"

primrec router_finish_all :: "(u64 \<times> mission_result) list \<Rightarrow> 'c router \<Rightarrow> ('c \<times> client_answer) list \<times> 'c router" where
  "router_finish_all [] q = ([], q)"
| "router_finish_all (x # xs) q =
     (case router_finish (fst x) (snd x) q of (as, q) \<Rightarrow> apfst ((@) as) (router_finish_all xs q))"

subsection \<open>The Node: the router around the core\<close>

fun given_result :: "core_output \<Rightarrow> (u64 \<times> mission_result) option" where
  "given_result (OutResult m r) = Some (m, r)"
| "given_result _ = None"

definition given :: "'e core \<Rightarrow> (u64 \<times> mission_result) list" where
  "given s = List.map_filter given_result (c_out s)"

text \<open>
  The worker of the Node is the only caller of the router and of the core. An exception of the
  router would leave the worker through its fault handler; \<open>an_threw\<close> records it. The adapter also
  answers an \<open>admit\<close> that throws; the model of \<open>admit\<close> does not throw. A cancel that arrived before
  the mission had its number is the \<open>Cancel\<close> call that follows the admission.
\<close>

record ('e, 'c) answering =
  an_core :: "'e core"
  an_router :: "'c router"
  an_answers :: "('c \<times> client_answer) list"
  an_threw :: "string option"

definition answering_init :: "'e core \<Rightarrow> ('e, 'c) answering" where
  "answering_init s = \<lparr>an_core = s, an_router = router_init, an_answers = [], an_threw = None\<rparr>"

definition give_answers :: "('c \<times> client_answer) list \<times> 'c router \<Rightarrow> ('e, 'c) answering \<Rightarrow> ('e, 'c) answering" where
  "give_answers x w = w\<lparr>an_router := snd x, an_answers := an_answers w @ fst x\<rparr>"

text \<open>A call of the core, with the results it gives passed to \<open>finish\<close> in their order.\<close>

definition core_call :: "('e, 'a) runtime \<Rightarrow> ('e, 'c) answering \<Rightarrow> 'a \<times> ('e, 'c) answering" where
  "core_call m w =
     (case run_state m (an_core w) of (a, s) \<Rightarrow>
        (a, give_answers (router_finish_all (drop (length (given (an_core w))) (given s)) (an_router w))
          (w\<lparr>an_core := s\<rparr>)))"

definition accept_goal :: "'e runtime_ports \<Rightarrow> 'c \<Rightarrow> mission_goal \<Rightarrow> 'e check option \<Rightarrow> u64 \<Rightarrow>
    ('e, 'c) answering \<Rightarrow> ('e, 'c) answering" where
  "accept_goal P c g permit n w =
     (case begin_admission (an_router w) of
        Inl d \<Rightarrow> w\<lparr>an_threw := Some d\<rparr>
      | Inr q \<Rightarrow>
          (case core_call (admit P g permit n) (w\<lparr>an_router := q\<rparr>) of (a, w) \<Rightarrow>
            if \<not> ad_accepted a
            then give_answers ([(c, Rejected (ad_result a))], reject_admission (an_router w)) w
            else (case router_commit (ad_mission a) c (an_router w) of
              Inl d \<Rightarrow> w\<lparr>an_threw := Some d\<rparr>
            | Inr x \<Rightarrow> give_answers x w)))"

datatype ('e, 'c) node_event =
    GoalAccepted 'c mission_goal "'e check option" u64
  | CoreEvent "'e runtime_event"

fun node_step :: "'e runtime_ports \<Rightarrow> ('e, 'c) answering \<Rightarrow> ('e, 'c) node_event \<Rightarrow> ('e, 'c) answering" where
  "node_step P w (GoalAccepted c g permit n) = accept_goal P c g permit n w"
| "node_step P w (CoreEvent ev) = snd (core_call (runtime_call P ev) w)"

subsection \<open>What a call of the core does to its slot\<close>

abbreviation slot_id :: "'e core \<Rightarrow> u64 option" where
  "slot_id s \<equiv> map_option am_id (c_active s)"

definition serves :: "'e runtime_ports \<Rightarrow> 'e core \<Rightarrow> 'e core \<Rightarrow> bool" where
  "serves P s t \<longleftrightarrow> (rp_has_result P \<longrightarrow>
     given t = given s \<and> slot_id t = slot_id s \<or>
     (\<exists>m r. slot_id s = Some m \<and> given t = given s @ [(m, r)] \<and> slot_id t = None))"

lemma one_result_at_most:
  assumes "l2 = l1 \<and> i2 = i1 \<or> (\<exists>m r. i1 = Some m \<and> l2 = l1 @ [(m, r)] \<and> i2 = None)"
    and "l3 = l2 \<and> i3 = i2 \<or> (\<exists>m r. i2 = Some m \<and> l3 = l2 @ [(m, r)] \<and> i3 = None)"
  shows "l3 = l1 \<and> i3 = i1 \<or> (\<exists>m r. i1 = Some m \<and> l3 = l1 @ [(m, r)] \<and> i3 = None)"
  using assms by auto

lemma serves_trans: "serves P s t \<Longrightarrow> serves P t u \<Longrightarrow> serves P s u"
  unfolding serves_def by (intro impI) (rule one_result_at_most [of "given t" _ "slot_id t"]; simp only:)

lemma given_append: "given (s\<lparr>c_out := c_out s @ xs\<rparr>) = given s @ List.map_filter given_result xs"
  by (simp add: given_def map_filter_def)

lemma given_same: "c_out t = c_out s \<Longrightarrow> given t = given s"
  by (simp add: given_def)

lemma serves_cases:
  assumes "serves P s t" and "rp_has_result P"
  obtains "given t = given s" "slot_id t = slot_id s"
    | m r where "slot_id s = Some m" "given t = given s @ [(m, r)]" "slot_id t = None"
  using assms(1) [unfolded serves_def, rule_format, OF assms(2)] by (elim disjE conjE exE)

lemma serves_same: "c_out t = c_out s \<Longrightarrow> slot_id t = slot_id s \<Longrightarrow> serves P s t"
  by (simp add: serves_def given_def)

lemma quiet_given: "quiet s t \<Longrightarrow> given t = given s \<and> slot_id t = slot_id s"
proof -
  assume q: "quiet s t"
  then obtain xs where xs: "c_out t = c_out s @ xs" "list_all quiet_output xs" by (auto simp: quiet_def)
  have "quiet_output x \<Longrightarrow> given_result x = None" for x by (cases x) auto
  then have "List.map_filter given_result xs = []"
    using xs(2) by (induction xs) (auto simp: map_filter_def)
  then show ?thesis
    using xs(1) quiet_fields(5) [OF q] by (simp add: given_def map_filter_def)
qed

interpretation serves: plain_gate_relation "serves P" P for P :: "'e runtime_ports"
proof unfold_locales
  show "serves P s t \<Longrightarrow> serves P t u \<Longrightarrow> serves P s u" for s t u
    by (rule serves_trans)
  show "quiet s t \<Longrightarrow> serves P s t" for s t
    using quiet_given [of s t] by (simp add: serves_def)
  show "c_active s = Some a \<Longrightarrow> quiet (s\<lparr>c_active := None\<rparr>) t \<Longrightarrow>
      serves P s (t\<lparr>c_out := c_out t @ (if rp_has_result P then [OutResult (am_id a) r] else [])\<rparr>)"
    for s t a r
    using quiet_given [of "s\<lparr>c_active := None\<rparr>" t] given_same [of "s\<lparr>c_active := None\<rparr>" s]
    by (auto simp: serves_def given_append map_filter_def)
  show "serves P s (feedback_given s a phase step x)" for s a phase step x
    by (simp add: serves_def feedback_given_def given_def map_filter_def)
qed (rule serves_same; simp add: mission_moves_def)+


subsection \<open>What an admission does to the slot\<close>

definition unmoved :: "'e core \<Rightarrow> 'e core \<Rightarrow> bool" where
  "unmoved s t \<longleftrightarrow> given t = given s \<and> slot_id t = slot_id s"

lemma unmoved_quiet: "kept quiet m \<Longrightarrow> kept unmoved m"
  using quiet_given by (auto simp: kept_def unmoved_def)

lemma unmoved_update: "(\<And>s. c_out (f s) = c_out s \<and> c_active (f s) = c_active s) \<Longrightarrow>
    kept unmoved (State_Monad.update f)"
  by (simp add: kept_def unmoved_def given_def)

lemma unmoved_consume: "kept unmoved (consume_source_sequence P g)"
  by (simp add: kept_def unmoved_def given_def consume_source_sequence_def split: option.split)

text \<open>An accepted mission holds the slot, or its result has been given; a refusal moves nothing.\<close>

definition placed :: "'e core \<Rightarrow> admission \<Rightarrow> 'e core \<Rightarrow> bool" where
  "placed s a t \<longleftrightarrow> (if ad_accepted a
     then slot_id s = None \<and> (given t = given s \<and> slot_id t = Some (ad_mission a) \<or>
       (\<exists>r. given t = given s @ [(ad_mission a, r)] \<and> slot_id t = None))
     else unmoved s t)"

lemma placed_cases:
  assumes "placed s a t"
  obtains "\<not> ad_accepted a" "given t = given s" "slot_id t = slot_id s"
    | "ad_accepted a" "slot_id s = None" "given t = given s" "slot_id t = Some (ad_mission a)"
    | r where "ad_accepted a" "slot_id s = None" "given t = given s @ [(ad_mission a, r)]" "slot_id t = None"
proof (cases "ad_accepted a")
  case True
  then show ?thesis
    using that(2,3) assms [unfolded placed_def if_P [OF True]] by metis
next
  case False
  then show ?thesis
    using that(1) assms [unfolded placed_def unmoved_def if_not_P [OF False]] by metis
qed

lemma placed_moved: "unmoved s t \<Longrightarrow> placed t a u \<Longrightarrow> placed s a u"
  unfolding placed_def unmoved_def by (simp only: )

definition admission_law :: "'e runtime_ports \<Rightarrow> u64 option \<Rightarrow> ('e, admission) runtime \<Rightarrow> bool" where
  "admission_law P c m \<longleftrightarrow> (\<forall>s. rp_has_result P \<longrightarrow> slot_id s = c \<longrightarrow>
     placed s (result m s) (exec m s))"

lemma law_bind:
  assumes "kept unmoved m" and "\<And>a. admission_law P c (f a)"
  shows "admission_law P c (State_Monad.bind m f)"
proof (unfold admission_law_def, intro allI impI)
  fix s :: "'a core"
  assume has: "rp_has_result P" and c: "slot_id s = c"
  let ?t = "exec m s"
  have u: "unmoved s ?t" using assms(1) by (simp add: kept_def)
  then have "slot_id ?t = c" using c by (simp add: unmoved_def)
  then have "placed ?t (result (f (result m s)) ?t) (exec (f (result m s)) ?t)"
    using assms(2) [of "result m s"] has unfolding admission_law_def by blast
  then show "placed s (result (State_Monad.bind m f) s) (exec (State_Monad.bind m f) s)"
    using placed_moved [OF u] by (simp add: split_beta)
qed

lemma law_get:
  "(\<And>s. slot_id s = c \<Longrightarrow> admission_law P c (f s)) \<Longrightarrow> admission_law P c (State_Monad.bind State_Monad.get f)"
  by (simp add: admission_law_def)

lemma law_if: "(b \<Longrightarrow> admission_law P c m) \<Longrightarrow> (\<not> b \<Longrightarrow> admission_law P c n) \<Longrightarrow>
    admission_law P c (if b then m else n)"
  by simp

lemma law_option: "admission_law P c m \<Longrightarrow> (\<And>a. admission_law P c (f a)) \<Longrightarrow>
    admission_law P c (case x of None \<Rightarrow> m | Some a \<Rightarrow> f a)"
  by (simp split: option.split)

lemma law_refusal: "kept quiet m \<Longrightarrow> (\<And>s. \<not> ad_accepted (result m s)) \<Longrightarrow> admission_law P c m"
  using unmoved_quiet [of m] by (simp add: admission_law_def placed_def kept_def)

lemma never_accepted:
  "\<not> ad_accepted (result (refuse k d) s)" "\<not> ad_accepted (result (refused r) s)"
  "\<not> ad_accepted (result (refuse_faulted P k d) s)" "\<not> ad_accepted (result (cleanup_faulted P d d') s)"
  by (simp_all add: refuse_def refused_def refuse_faulted_def cleanup_faulted_def split_beta)

lemma law_refuse:
  "admission_law P c (refuse k d)" "admission_law P c (refused r)"
  "admission_law P c (refuse_faulted P k d)" "admission_law P c (cleanup_faulted P d d')"
  by (simp_all add: law_refusal quiet_refuse quiet_refuse_faulted quiet_cleanup never_accepted)

lemma law_start: "admission_law P None (admit_start P g permit n m)"
proof (unfold admission_law_def, intro allI impI)
  fix s :: "'a core"
  assume has: "rp_has_result P" and free: "slot_id s = None"
  let ?s = "mission_taken (s\<lparr>c_env := snd (rp_now P (c_env s))\<rparr>) m g permit n
       (fst (rp_now P (c_env s)) + ms (rc_mission_deadline (rp_config P)))"
  let ?t = "exec (start_step P) (exec (publish_state P) ?s)"
  have "serves P ?s ?t"
    by (rule serves.trans [OF kept_exec [OF serves.kept_quiet [OF quiet_publish_state]]
      kept_exec [OF serves.calls.kept_start_step]])
  moreover have "given ?s = given s" "slot_id ?s = Some m"
    by (simp_all add: mission_taken_def given_def)
  moreover have "exec (admit_start P g permit n m) s = ?t"
    by (rule answers.calls.admit_start_exec)
  moreover have "ad_accepted (result (admit_start P g permit n m) s)"
    "ad_mission (result (admit_start P g permit n m) s) = m"
    by (simp_all add: admit_start_def split_beta)
  ultimately show "placed s (result (admit_start P g permit n m) s) (exec (admit_start P g permit n m) s)"
    using has free by (simp add: placed_def serves_def)
qed

lemma unmoved_if: "kept unmoved m \<Longrightarrow> kept unmoved (if b then m else State_Monad.return a)"
  by (simp add: kept_def unmoved_def)

lemmas law_rules = law_bind law_if law_option law_refuse
lemmas unmoved_ops = unmoved_quiet [OF quiet_ask] quiet_set [THEN unmoved_quiet]
  quiet_ops [THEN unmoved_quiet] unmoved_quiet [OF quiet_publish_state]
  unmoved_quiet [OF quiet_get] unmoved_if

lemma law_permitted: "admission_law P None (admit_permitted P g permit n m)"
  unfolding admit_permitted_def by (intro law_rules law_start unmoved_ops)

lemma law_open: "admission_law P None (admit_open P g permit n m)"
  unfolding admit_open_def by (intro law_rules law_permitted unmoved_ops)

lemma law_handover: "admission_law P None (admit_handover P g permit n m)"
  unfolding admit_handover_def by (intro law_rules law_open unmoved_ops)

lemma law_identified: "admission_law P None (admit_identified P g permit n)"
  unfolding admit_identified_def Let_def
  by (intro law_rules law_handover law_permitted unmoved_ops unmoved_update) simp

lemma law_gate: "admission_law P None (admit_gate P g permit n)"
  unfolding admit_gate_def by (intro law_rules law_identified unmoved_ops unmoved_update) simp

lemma law_motion: "admission_law P None (admit_motion P g permit n)"
  unfolding admit_motion_def by (intro law_rules law_gate unmoved_ops)

lemma law_dependencies: "admission_law P None (admit_dependencies P g permit n)"
  unfolding admit_dependencies_def by (intro law_rules law_motion unmoved_ops)

lemma law_admit: "admission_law P c (admit P g permit n)"
proof -
  have last: "admission_law P c (State_Monad.bind State_Monad.get (\<lambda>s.
      if c_active s \<noteq> None then refuse Busy d
      else if rs_availability (c_state s) = AvFaulted then refuse SafetyFault d'
      else admit_dependencies P g permit n))" for d d'
  proof (rule law_get)
    fix s :: "'a core"
    assume "slot_id s = c"
    then show "admission_law P c (if c_active s \<noteq> None then refuse Busy d
      else if rs_availability (c_state s) = AvFaulted then refuse SafetyFault d'
      else admit_dependencies P g permit n)"
      using law_dependencies [of P g permit n] law_refuse by auto
  qed
  show ?thesis
    unfolding admit_def by (intro law_bind law_if law_option law_refuse last unmoved_ops
      unmoved_consume unmoved_quiet [OF quiet_get])
qed

subsection \<open>The clients of a run\<close>

fun event_client :: "('e, 'c) node_event \<Rightarrow> 'c option" where
  "event_client (GoalAccepted c g permit n) = Some c"
| "event_client (CoreEvent ev) = None"

abbreviation clients :: "('e, 'c) node_event list \<Rightarrow> 'c multiset" where
  "clients evs \<equiv> mset (List.map_filter event_client evs)"

definition waiting :: "('e, 'c) answering \<Rightarrow> 'c multiset" where
  "waiting w = (case ar_active (an_router w) of None \<Rightarrow> {#} | Some x \<Rightarrow> {#snd x#})"

fun delivered_of :: "client_answer \<Rightarrow> (u64 \<times> mission_result) option" where
  "delivered_of (Delivered m st r) = Some (m, r)"
| "delivered_of (Rejected r) = None"

definition delivered :: "('e, 'c) answering \<Rightarrow> (u64 \<times> mission_result) list" where
  "delivered w = List.map_filter (delivered_of \<circ> snd) (an_answers w)"

definition honest_status :: "client_answer \<Rightarrow> bool" where
  "honest_status a \<longleftrightarrow> (case a of Delivered m st r \<Rightarrow> st = outer_of r | Rejected r \<Rightarrow> True)"

text \<open>
  Between two events no admission is provisional, the router waits for the mission that holds the
  slot, and what the core gave is what the clients received.
\<close>

definition settled :: "('e, 'c) answering \<Rightarrow> bool" where
  "settled w \<longleftrightarrow> an_threw w = None \<and> \<not> ar_pending (an_router w) \<and> ar_early (an_router w) = None \<and>
     map_option fst (ar_active (an_router w)) = slot_id (an_core w) \<and>
     delivered w = given (an_core w) \<and> list_all (honest_status \<circ> snd) (an_answers w)"

definition answered_clients :: "('e, 'c) answering \<Rightarrow> 'c multiset" where
  "answered_clients w = image_mset fst (mset (an_answers w)) + waiting w"

text \<open>The Node admits goals only through \<open>on_accepted\<close>.\<close>

fun through_adapter :: "('e, 'c) node_event \<Rightarrow> bool" where
  "through_adapter (CoreEvent (Admit g permit n)) = False"
| "through_adapter _ = True"

lemma settled_init: "given s = [] \<Longrightarrow> c_active s = None \<Longrightarrow> settled (answering_init s)"
  by (simp add: settled_def answering_init_def router_init_def delivered_def map_filter_def)

lemma core_call_same:
  assumes "given t = given (an_core w)" "run_state m (an_core w) = (a, t)"
  shows "core_call m w = (a, w\<lparr>an_core := t\<rparr>)"
  using assms by (simp add: core_call_def give_answers_def)

lemma core_call_one:
  assumes "given t = given (an_core w) @ [(k, r)]" "run_state m (an_core w) = (a, t)"
  shows "core_call m w = (a, give_answers (router_finish k r (an_router w)) (w\<lparr>an_core := t\<rparr>))"
  using assms by (simp add: core_call_def give_answers_def split_beta)

lemma settled_same:
  assumes "settled w" "given t = given (an_core w)" "slot_id t = slot_id (an_core w)"
  shows "settled (w\<lparr>an_core := t\<rparr>) \<and> answered_clients (w\<lparr>an_core := t\<rparr>) = answered_clients w"
  using assms by (simp add: settled_def answered_clients_def waiting_def delivered_def)

lemma settled_finish:
  assumes w: "settled w" and k: "slot_id (an_core w) = Some k"
    and t: "given t = given (an_core w) @ [(k, r)]" "slot_id t = None"
    and v: "v = give_answers (router_finish k r (an_router w)) (w\<lparr>an_core := t\<rparr>)"
  shows "settled v \<and> answered_clients v = answered_clients w"
proof -
  obtain c where "ar_active (an_router w) = Some (k, c)"
    using w k unfolding settled_def by (cases "ar_active (an_router w)") auto
  then show ?thesis
    using w t by (simp add: v settled_def answered_clients_def waiting_def delivered_def
      give_answers_def router_finish_def router_deliver_def map_filter_def honest_status_def)
qed

lemma settled_core_call:
  assumes w: "settled w" and has: "rp_has_result P" and m: "kept (serves P) m"
  shows "settled (snd (core_call m w)) \<and> answered_clients (snd (core_call m w)) = answered_clients w"
proof -
  obtain a t where run: "run_state m (an_core w) = (a, t)" by (cases "run_state m (an_core w)") simp
  then have "serves P (an_core w) t" using kept_exec [OF m, of "an_core w"] by simp
  then consider "given t = given (an_core w)" "slot_id t = slot_id (an_core w)"
    | k r where "slot_id (an_core w) = Some k" "given t = given (an_core w) @ [(k, r)]" "slot_id t = None"
    using has by (rule serves_cases)
  then show ?thesis
  proof cases
    case 1
    then show ?thesis using settled_same [OF w 1] core_call_same [OF 1(1) run] by simp
  next
    case 2
    show ?thesis using settled_finish [OF w 2 refl] core_call_one [OF 2(2) run] by simp
  qed
qed

lemma settled_accept:
  assumes w: "settled w" and has: "rp_has_result P"
  shows "settled (accept_goal P c g permit n w) \<and>
    answered_clients (accept_goal P c g permit n w) = answered_clients w + {#c#}"
proof -
  let ?q = "(an_router w)\<lparr>ar_pending := True, ar_early := None\<rparr>"
  let ?w = "w\<lparr>an_router := ?q\<rparr>"
  obtain a t where run: "run_state (admit P g permit n) (an_core w) = (a, t)"
    by (cases "run_state (admit P g permit n) (an_core w)") simp
  have "placed (an_core w) a t"
    using law_admit [of P "slot_id (an_core w)" g permit n] has run
    unfolding admission_law_def by (metis fst_conv snd_conv)
  then consider "\<not> ad_accepted a" "given t = given (an_core w)" "slot_id t = slot_id (an_core w)"
    | "ad_accepted a" "slot_id (an_core w) = None" "given t = given (an_core w)"
      "slot_id t = Some (ad_mission a)"
    | r where "ad_accepted a" "slot_id (an_core w) = None"
      "given t = given (an_core w) @ [(ad_mission a, r)]" "slot_id t = None"
    by (rule placed_cases)
  then show ?thesis
  proof cases
    case 1
    have "core_call (admit P g permit n) ?w = (a, ?w\<lparr>an_core := t\<rparr>)"
      using 1(2) run by (intro core_call_same) simp_all
    then show ?thesis
      using 1 w by (simp add: accept_goal_def begin_admission_def reject_admission_def settled_def
        give_answers_def answered_clients_def waiting_def delivered_def honest_status_def map_filter_def)
  next
    case 2
    have "core_call (admit P g permit n) ?w = (a, ?w\<lparr>an_core := t\<rparr>)"
      using 2(3) run by (intro core_call_same) simp_all
    then show ?thesis
      using 2 w by (auto simp: accept_goal_def begin_admission_def router_commit_def settled_def
        give_answers_def answered_clients_def waiting_def delivered_def)
  next
    case 3
    have "core_call (admit P g permit n) ?w =
        (a, give_answers (router_finish (ad_mission a) r (an_router ?w)) (?w\<lparr>an_core := t\<rparr>))"
      using 3(3) run by (intro core_call_one) simp_all
    then show ?thesis
      using 3 w by (simp add: accept_goal_def begin_admission_def router_commit_def settled_def
        router_finish_def router_deliver_def give_answers_def answered_clients_def waiting_def
        delivered_def honest_status_def map_filter_def)
  qed
qed

lemma read_dependencies_given: "given (exec (read_dependencies P) s) = given s"
  by (simp add: read_dependencies_def publish_state_def given_def map_filter_def split_beta)

lemma given_initial: "given (initial_core P rid e) = []"
  by (simp add: initial_core_def given_def map_filter_def)

lemma given_init: "runtime_init P e = Inr s \<Longrightarrow> given s = []"
  by (auto simp: runtime_init_def read_dependencies_given given_initial split: if_splits prod.splits)

lemma settled_step:
  assumes "settled w" and "rp_has_result P" and "through_adapter ev"
  shows "settled (node_step P w ev) \<and>
    answered_clients (node_step P w ev) = answered_clients w + mset (case_option [] (\<lambda>c. [c]) (event_client ev))"
proof (cases ev)
  case (GoalAccepted c g permit n)
  then show ?thesis using settled_accept [OF assms(1,2)] by simp
next
  case (CoreEvent e)
  then have "\<forall>g permit n. e \<noteq> Admit g permit n" using assms(3) by auto
  from settled_core_call [OF assms(1,2) serves.calls.kept_other_calls [OF this]]
  show ?thesis using CoreEvent by simp
qed

lemma settled_run:
  "settled w \<Longrightarrow> rp_has_result P \<Longrightarrow> list_all through_adapter evs \<Longrightarrow>
    settled (run (node_step P) w evs) \<and>
    answered_clients (run (node_step P) w evs) = answered_clients w + clients evs"
proof (induction evs arbitrary: w)
  case (Cons ev evs)
  then have step: "settled (node_step P w ev)"
    "answered_clients (node_step P w ev) = answered_clients w + mset (case_option [] (\<lambda>c. [c]) (event_client ev))"
    using settled_step [of w P ev] by simp_all
  have "settled (run (node_step P) (node_step P w ev) evs) \<and>
    answered_clients (run (node_step P) (node_step P w ev) evs) =
      answered_clients (node_step P w ev) + clients evs"
    using Cons.prems by (intro Cons.IH step(1)) simp_all
  then show ?case
    using step(2) by (cases "event_client ev") (simp_all add: map_filter_def)
qed (simp add: map_filter_def)



end
