(* ===== verification/Event_Queue.thy ===== *)
theory Event_Queue
  imports Prelude "HOL-Library.Multiset"
begin

text \<open>
  The bounded queue of the runtime worker (\<open>RuntimeEventQueue\<close>, runtime_event_queue.hpp): a normal
  and a control lane, and a slot for one fault that found no room. Every operation holds the mutex
  of the queue, so each is one step. The fault factory is called at most once, so it is the outcome
  of that call; \<open>None\<close> is the empty function. Exhaustion of memory is not modelled.
\<close>

datatype lane = NormalLane | ControlLane

datatype push_result = PushAccepted | NormalFull | ControlFull | PushClosed

datatype 'e wait_result = WaitItem 'e | WaitClosed | ExternalWake

definition k_capacity :: nat where "k_capacity = 128"
definition k_normal_capacity :: nat where "k_normal_capacity = 120"
definition k_control_reserve :: nat where "k_control_reserve = k_capacity - k_normal_capacity"

lemmas capacities = k_capacity_def k_normal_capacity_def k_control_reserve_def

record 'e event_queue =
  q_control :: "'e list"
  q_normal :: "'e list"
  q_pending :: "'e option"
  q_factory :: "'e outcome option"
  q_fault_recorded :: bool
  q_closed :: bool

definition queue_init :: "'e outcome option \<Rightarrow> 'e event_queue" where
  "queue_init factory = \<lparr>q_control = [], q_normal = [], q_pending = None, q_factory = factory,
     q_fault_recorded = False, q_closed = False\<rparr>"

subsection \<open>Pushing\<close>

definition total_full :: "'e event_queue \<Rightarrow> bool" where
  "total_full q \<longleftrightarrow> k_capacity \<le> length (q_normal q) + length (q_control q)"

definition control_room :: "'e event_queue \<Rightarrow> bool" where
  "control_room q \<longleftrightarrow> length (q_control q) < k_control_reserve \<and> \<not> total_full q"

definition normal_room :: "'e event_queue \<Rightarrow> bool" where
  "normal_room q \<longleftrightarrow> length (q_normal q) < k_normal_capacity \<and> \<not> total_full q"

definition record_normal_fault :: "'e event_queue \<Rightarrow> 'e event_queue" where
  "record_normal_fault q =
     (if q_fault_recorded q then q
      else let q = q\<lparr>q_fault_recorded := True\<rparr> in
        case q_factory q of
          Some (Returned fault) \<Rightarrow>
            if control_room q then q\<lparr>q_control := q_control q @ [fault]\<rparr>
            else q\<lparr>q_pending := Some fault\<rparr>
        | _ \<Rightarrow> q)"

definition queue_push :: "'e \<Rightarrow> lane \<Rightarrow> 'e event_queue \<Rightarrow> push_result \<times> 'e event_queue" where
  "queue_push e l q =
     (if q_closed q then (PushClosed, q)
      else if l = NormalLane
      then if \<not> normal_room q then (NormalFull, record_normal_fault q)
        else (PushAccepted, q\<lparr>q_normal := q_normal q @ [e]\<rparr>)
      else if \<not> control_room q then (ControlFull, q)
        else (PushAccepted, q\<lparr>q_control := q_control q @ [e]\<rparr>))"

definition request_fault :: "'e \<Rightarrow> 'e event_queue \<Rightarrow> push_result \<times> 'e event_queue" where
  "request_fault e q =
     (if q_closed q then (PushClosed, q)
      else if control_room q then (PushAccepted, q\<lparr>q_control := q_control q @ [e]\<rparr>)
      else if q_pending q = None then (PushAccepted, q\<lparr>q_pending := Some e\<rparr>)
      else (ControlFull, q))"

definition queue_close :: "'e event_queue \<Rightarrow> 'e event_queue" where
  "queue_close q = q\<lparr>q_closed := True\<rparr>"

subsection \<open>Popping\<close>

text \<open>
  \<open>wait_pop_with_wakeup\<close> reads the external predicate twice, in the wait condition and after it,
  and another thread may change it in between: \<open>wake\<close> is the first reading and \<open>wake'\<close> the
  second. A call that would still block is \<open>None\<close>. The emergency scan takes the first control event
  that the selector names.
\<close>

definition wait_ready :: "bool \<Rightarrow> 'e event_queue \<Rightarrow> bool" where
  "wait_ready wake q \<longleftrightarrow> q_closed q \<or> q_control q \<noteq> [] \<or> q_pending q \<noteq> None \<or> q_normal q \<noteq> [] \<or> wake"

fun take_first :: "('e \<Rightarrow> bool) \<Rightarrow> 'e list \<Rightarrow> ('e \<times> 'e list) option" where
  "take_first sel [] = None"
| "take_first sel (e # es) =
     (if sel e then Some (e, es) else map_option (apsnd ((#) e)) (take_first sel es))"

definition pop_front :: "'e event_queue \<Rightarrow> 'e wait_result \<times> 'e event_queue" where
  "pop_front q = (case q_control q of
     e # es \<Rightarrow> (WaitItem e, q\<lparr>q_control := es\<rparr>)
   | [] \<Rightarrow> (case q_pending q of
       Some e \<Rightarrow> (WaitItem e, q\<lparr>q_pending := None\<rparr>)
     | None \<Rightarrow> (case q_normal q of
         [] \<Rightarrow> (WaitClosed, q)
       | e # es \<Rightarrow> (WaitItem e, q\<lparr>q_normal := es\<rparr>))))"

definition wait_pop :: "bool \<Rightarrow> bool \<Rightarrow> ('e \<Rightarrow> bool) \<Rightarrow> 'e event_queue \<Rightarrow>
    ('e wait_result \<times> 'e event_queue) option" where
  "wait_pop wake wake' emergency q =
     (if \<not> wait_ready wake q then None
      else if wake' then (case take_first emergency (q_control q) of
          Some (e, es) \<Rightarrow> Some (WaitItem e, q\<lparr>q_control := es\<rparr>)
        | None \<Rightarrow> Some (ExternalWake, q))
      else Some (pop_front q))"

subsection \<open>The queue as a machine\<close>

datatype 'e queue_event =
    QPush 'e lane
  | QFault 'e
  | QPop bool bool "'e \<Rightarrow> bool"
  | QClose

fun queue_step :: "'e event_queue \<Rightarrow> 'e queue_event \<Rightarrow> 'e event_queue" where
  "queue_step q (QPush e l) = snd (queue_push e l q)"
| "queue_step q (QFault e) = snd (request_fault e q)"
| "queue_step q (QPop wake wake' sel) =
     (case wait_pop wake wake' sel q of None \<Rightarrow> q | Some (r, q') \<Rightarrow> q')"
| "queue_step q QClose = queue_close q"

subsection \<open>The lanes are bounded\<close>

definition queue_inv :: "'e event_queue \<Rightarrow> bool" where
  "queue_inv q \<longleftrightarrow> length (q_control q) \<le> k_control_reserve \<and> length (q_normal q) \<le> k_normal_capacity"

lemma rooms:
  "queue_inv q \<Longrightarrow> control_room q \<longleftrightarrow> length (q_control q) < k_control_reserve"
  "queue_inv q \<Longrightarrow> normal_room q \<longleftrightarrow> length (q_normal q) < k_normal_capacity"
  by (auto simp: queue_inv_def control_room_def normal_room_def total_full_def capacities)

lemma record_fault_lanes:
  "q_normal (record_normal_fault q) = q_normal q"
  "queue_inv q \<Longrightarrow> queue_inv (record_normal_fault q)"
  by (auto simp: record_normal_fault_def queue_inv_def control_room_def Let_def
    split: option.split outcome.split)

lemma take_first_mset:
  "take_first sel es = Some (e, fs) \<Longrightarrow> mset es = add_mset e (mset fs)"
  by (induction es arbitrary: fs) (auto split: if_splits)

lemma take_first_length: "take_first sel es = Some (e, fs) \<Longrightarrow> length es = Suc (length fs)"
  using take_first_mset [of sel es e fs] by (metis size_add_mset size_mset)

lemma pop_front_inv: "queue_inv q \<Longrightarrow> queue_inv (snd (pop_front q))"
  by (auto simp: pop_front_def queue_inv_def split: list.split option.split)

lemma wait_pop_inv: "queue_inv q \<Longrightarrow> wait_pop wake wake' sel q = Some (r, q') \<Longrightarrow> queue_inv q'"
  using pop_front_inv [of q]
  by (auto simp: wait_pop_def queue_inv_def dest: take_first_length split: if_splits option.splits)

interpretation queue_machine: invariant_machine queue_step queue_inv
proof
  show "queue_inv (queue_step q ev)" if "queue_inv q" for q :: "'a event_queue" and ev
    using that
  proof (cases ev)
    case (QPush e l)
    then show ?thesis
      using that record_fault_lanes(2) [OF that]
      by (auto simp: queue_push_def rooms [OF that] queue_inv_def)
  next
    case (QFault e)
    then show ?thesis
      using that by (auto simp: request_fault_def rooms [OF that] queue_inv_def)
  next
    case (QPop wake wake' sel)
    then show ?thesis
      using that by (auto dest: wait_pop_inv split: option.split)
  next
    case QClose
    then show ?thesis using that by (simp add: queue_close_def queue_inv_def)
  qed
qed

interpretation queue_latch: latched_machine queue_step queue_inv q_closed
proof
  show "q_closed (queue_step q ev)" if "q_closed q" for q :: "'a event_queue" and ev
    using that by (cases ev) (auto simp: queue_push_def request_fault_def queue_close_def
      wait_pop_def pop_front_def split: option.split list.split)
qed

lemma queue_init_inv: "queue_inv (queue_init factory)"
  by (simp add: queue_init_def queue_inv_def)


subsection \<open>What enters and what leaves\<close>

text \<open>
  The events a step takes in, hands out and destroys. Only the fault of the first refused normal
  event can destroy one: it takes the place of a fault that waits in the slot.
\<close>

definition made_fault :: "'e event_queue \<Rightarrow> 'e list" where
  "made_fault q = (if q_fault_recorded q then []
     else case q_factory q of Some (Returned fault) \<Rightarrow> [fault] | _ \<Rightarrow> [])"

fun taken_in :: "'e event_queue \<Rightarrow> 'e queue_event \<Rightarrow> 'e list" where
  "taken_in q (QPush e l) = (case fst (queue_push e l q) of
     PushAccepted \<Rightarrow> [e] | NormalFull \<Rightarrow> made_fault q | _ \<Rightarrow> [])"
| "taken_in q (QFault e) = (if fst (request_fault e q) = PushAccepted then [e] else [])"
| "taken_in q _ = []"

fun handed_out :: "'e event_queue \<Rightarrow> 'e queue_event \<Rightarrow> 'e list" where
  "handed_out q (QPop wake wake' sel) = (case wait_pop wake wake' sel q of
     Some (WaitItem e, _) \<Rightarrow> [e] | _ \<Rightarrow> [])"
| "handed_out q _ = []"

definition slot :: "'e event_queue \<Rightarrow> 'e list" where
  "slot q = (case q_pending q of None \<Rightarrow> [] | Some e \<Rightarrow> [e])"

fun destroyed :: "'e event_queue \<Rightarrow> 'e queue_event \<Rightarrow> 'e list" where
  "destroyed q (QPush e l) = (if fst (queue_push e l q) = NormalFull \<and> made_fault q \<noteq> [] \<and>
     \<not> control_room q then slot q else [])"
| "destroyed q _ = []"

text \<open>What a whole run collects of each.\<close>

primrec collect :: "('s \<Rightarrow> 'ev \<Rightarrow> 's) \<Rightarrow> ('s \<Rightarrow> 'ev \<Rightarrow> 'a list) \<Rightarrow> 's \<Rightarrow> 'ev list \<Rightarrow> 'a list" where
  "collect step out s [] = []"
| "collect step out s (ev # evs) = out s ev @ collect step out (step s ev) evs"

definition contents :: "'e event_queue \<Rightarrow> 'e multiset" where
  "contents q = mset (q_control q) + mset (slot q) + mset (q_normal q)"

lemma contents_irrelevant [simp]:
  "contents (q\<lparr>q_fault_recorded := b\<rparr>) = contents q" "contents (q\<lparr>q_closed := b\<rparr>) = contents q"
  "slot (q\<lparr>q_fault_recorded := b\<rparr>) = slot q"
  by (simp_all add: contents_def slot_def)

lemma fault_contents:
  "contents (record_normal_fault q) + mset (if made_fault q \<noteq> [] \<and> \<not> control_room q then slot q else [])
     = contents q + mset (made_fault q)"
  by (auto simp: record_normal_fault_def made_fault_def contents_def slot_def control_room_def
    total_full_def Let_def split: option.split outcome.split)

lemma push_contents:
  "contents (queue_step q (QPush e l)) + mset (destroyed q (QPush e l)) =
     contents q + mset (taken_in q (QPush e l))"
proof (cases "q_closed q \<or> l = ControlLane \<or> normal_room q")
  case True
  then show ?thesis by (cases l) (auto simp: queue_push_def contents_def slot_def)
next
  case False
  then have "l = NormalLane" by (cases l) auto
  with False show ?thesis using fault_contents [of q] by (simp add: queue_push_def)
qed

lemma pop_front_contents:
  "pop_front q = (WaitItem e, q') \<Longrightarrow> contents q = add_mset e (contents q')"
  "pop_front q = (WaitClosed, q') \<Longrightarrow> q' = q"
  "pop_front q \<noteq> (ExternalWake, q')"
  by (auto simp: pop_front_def contents_def slot_def split: list.splits option.splits)

lemma wait_pop_contents:
  "wait_pop wake wake' sel q = Some (WaitItem e, q') \<Longrightarrow> contents q = add_mset e (contents q')"
  "wait_pop wake wake' sel q = Some (WaitClosed, q') \<Longrightarrow> q' = q"
  "wait_pop wake wake' sel q = Some (ExternalWake, q') \<Longrightarrow> q' = q"
  by (auto simp: wait_pop_def pop_front_contents dest!: take_first_mset pop_front_contents(1,2)
    split: if_splits option.splits) (auto simp: contents_def slot_def)

lemma step_contents:
  "contents (queue_step q ev) + mset (handed_out q ev) + mset (destroyed q ev) =
     contents q + mset (taken_in q ev)"
proof (cases ev)
  case (QPush e l)
  then show ?thesis using push_contents [of q e l] by simp
next
  case (QFault e)
  then show ?thesis by (auto simp: request_fault_def contents_def slot_def)
next
  case (QPop wake wake' sel)
  then show ?thesis
    using wait_pop_contents [of wake wake' sel q]
    by (auto split: option.split wait_result.split prod.split)
next
  case QClose
  then show ?thesis by (simp add: queue_close_def)
qed

text \<open>At most one event is ever destroyed: the factory makes one fault.\<close>

lemma destroyed_once:
  "length (collect queue_step destroyed q evs) \<le> (if q_fault_recorded q then 0 else 1)"
proof (induction evs arbitrary: q)
  case (Cons ev evs)
  have rec: "q_fault_recorded (queue_step q ev)" if "q_fault_recorded q \<or> destroyed q ev \<noteq> []"
    using that
    by (cases ev) (auto simp: queue_push_def record_normal_fault_def request_fault_def queue_close_def
      wait_pop_def pop_front_def Let_def split: option.splits outcome.splits list.splits if_splits)
  have one: "length (destroyed q ev) \<le> (if q_fault_recorded q then 0 else 1)"
    by (cases ev) (auto simp: made_fault_def slot_def split: option.split)
  show ?case
    using Cons [of "queue_step q ev"] rec one by (cases "destroyed q ev = []") (auto split: if_splits)
qed simp

text \<open>
  Over every history of pushes, fault requests, pops and a close, each event the queue took in
  was handed out once, is still in a lane or in the fault slot, or is the single fault that the fault
  of a refused normal event overwrote.
\<close>

lemma queue_conserves_events:
  "mset (collect queue_step taken_in (queue_init factory) evs) =
     mset (collect queue_step handed_out (queue_init factory) evs) +
     contents (run queue_step (queue_init factory) evs) +
     mset (collect queue_step destroyed (queue_init factory) evs) \<and>
   length (collect queue_step destroyed (queue_init factory) evs) \<le> 1"
proof -
  have "contents q + mset (collect queue_step taken_in q evs) =
     mset (collect queue_step handed_out q evs) + contents (run queue_step q evs) +
     mset (collect queue_step destroyed q evs)" for q :: "'a event_queue"
  proof (induction evs arbitrary: q)
    case (Cons ev evs)
    let ?q = "queue_step q ev"
    have "contents q + mset (taken_in q ev) + mset (collect queue_step taken_in ?q evs) =
      mset (handed_out q ev) + mset (destroyed q ev) +
        (contents ?q + mset (collect queue_step taken_in ?q evs))"
      by (simp only: step_contents [of q ev, symmetric] ac_simps)
    then show ?case by (simp add: Cons.IH ac_simps)
  qed simp
  from this [of "queue_init factory"] show ?thesis
    using destroyed_once [of "queue_init factory" evs]
    by (simp add: queue_init_def contents_def slot_def)
qed

text \<open>
  A control event is refused only by a closed queue or when eight control events wait, however
  many normal events fill the other lane.
\<close>

lemma control_lane_is_reserved:
  "fst (queue_push e ControlLane (run queue_step (queue_init factory) evs)) =
     (if q_closed (run queue_step (queue_init factory) evs) then PushClosed
      else if length (q_control (run queue_step (queue_init factory) evs)) < 8 then PushAccepted
      else ControlFull) \<and>
   length (q_control (run queue_step (queue_init factory) evs)) \<le> 8 \<and>
   length (q_normal (run queue_step (queue_init factory) evs)) \<le> 120"
  using queue_machine.run_inv [OF queue_init_inv, of factory evs]
  by (auto simp: queue_push_def rooms queue_inv_def capacities)

subsection \<open>The normal lane is first in, first out\<close>

text \<open>An event agrees with the lane selector when it is pushed into the lane the selector gives it.\<close>

fun uses_lane :: "('e \<Rightarrow> lane) \<Rightarrow> 'e queue_event \<Rightarrow> bool" where
  "uses_lane lane_of (QPush e l) \<longleftrightarrow> l = lane_of e"
| "uses_lane lane_of (QFault e) \<longleftrightarrow> lane_of e = ControlLane"
| "uses_lane lane_of _ \<longleftrightarrow> True"

definition lanes_agree :: "('e \<Rightarrow> lane) \<Rightarrow> 'e event_queue \<Rightarrow> bool" where
  "lanes_agree lane_of q \<longleftrightarrow> (\<forall>e \<in> set (q_control q) \<union> set (slot q). lane_of e = ControlLane) \<and>
     (\<forall>e \<in> set (q_normal q). lane_of e = NormalLane) \<and>
     (\<forall>fault. q_factory q = Some (Returned fault) \<longrightarrow> lane_of fault = ControlLane)"

abbreviation normals :: "('e \<Rightarrow> lane) \<Rightarrow> 'e list \<Rightarrow> 'e list" where
  "normals lane_of es \<equiv> filter (\<lambda>e. lane_of e = NormalLane) es"

lemma lane_exhaust [simp]: "l \<noteq> NormalLane \<longleftrightarrow> l = ControlLane" "l \<noteq> ControlLane \<longleftrightarrow> l = NormalLane"
  by (cases l; simp)+

lemma take_first_set: "take_first sel es = Some (e, fs) \<Longrightarrow> set es = insert e (set fs)"
  using take_first_mset [of sel es e fs] by (metis set_mset_add_mset_insert set_mset_mset)

lemma lanes_push:
  assumes "lanes_agree lane_of q"
  shows "lanes_agree lane_of (queue_step q (QPush e (lane_of e)))"
    and "q_normal q @ normals lane_of (taken_in q (QPush e (lane_of e))) =
      q_normal (queue_step q (QPush e (lane_of e)))"
  using assms
  by (auto simp: queue_push_def record_normal_fault_def made_fault_def lanes_agree_def slot_def Let_def
    split: option.splits outcome.splits if_splits)

lemma lanes_pop:
  assumes "lanes_agree lane_of q" and "wait_pop wake wake' sel q = Some (r, q')"
  shows "lanes_agree lane_of q'"
    and "q_normal q = normals lane_of (handed_out q (QPop wake wake' sel)) @ q_normal q'"
  using assms
  by (auto simp: wait_pop_def pop_front_def lanes_agree_def slot_def dest: take_first_set
    split: option.splits list.splits if_splits)

lemma lanes_step:
  assumes "lanes_agree lane_of q" and "uses_lane lane_of ev"
  shows "lanes_agree lane_of (queue_step q ev) \<and>
    q_normal q @ normals lane_of (taken_in q ev) =
      normals lane_of (handed_out q ev) @ q_normal (queue_step q ev)"
proof (cases ev)
  case (QPush e l)
  then show ?thesis using lanes_push [OF assms(1), of e] assms(2) by simp
next
  case (QFault e)
  then show ?thesis
    using assms by (auto simp: request_fault_def lanes_agree_def slot_def split: option.splits)
next
  case (QPop wake wake' sel)
  then show ?thesis
    using lanes_pop [OF assms(1), of wake wake' sel] assms(1) by (auto split: option.splits)
next
  case QClose
  then show ?thesis using assms by (simp add: queue_close_def lanes_agree_def slot_def)
qed

text \<open>
  The normal events are handed out in the order in which they were accepted, whatever control
  events, faults and wake-ups come between.
\<close>

lemma normal_lane_is_fifo:
  assumes "\<forall>ev \<in> set evs. uses_lane lane_of ev"
    and "\<forall>fault. factory = Some (Returned fault) \<longrightarrow> lane_of fault = ControlLane"
  shows "normals lane_of (collect queue_step taken_in (queue_init factory) evs) =
    normals lane_of (collect queue_step handed_out (queue_init factory) evs) @
    q_normal (run queue_step (queue_init factory) evs)"
proof -
  have "q_normal q @ normals lane_of (collect queue_step taken_in q evs) =
      normals lane_of (collect queue_step handed_out q evs) @ q_normal (run queue_step q evs)"
    if "lanes_agree lane_of q" for q
    using that assms(1)
  proof (induction evs arbitrary: q)
    case (Cons ev evs)
    then show ?case using lanes_step [of lane_of q ev] Cons.IH [of "queue_step q ev"] by simp (metis append_assoc)
  qed simp
  from this [of "queue_init factory"] show ?thesis
    using assms(2) by (simp add: queue_init_def lanes_agree_def slot_def)
qed

definition demo_lane :: "nat \<Rightarrow> lane" where
  "demo_lane n = (if even n then NormalLane else ControlLane)"

lemma normal_lane_is_fifo_witness:
  "collect queue_step handed_out (queue_init None)
     [QPush 2 (demo_lane 2), QPush 1 (demo_lane 1), QPush 4 (demo_lane 4), QPop False False (\<lambda>_. True),
      QPop False False (\<lambda>_. True)] = [1, 2] \<and>
   normals demo_lane (collect queue_step taken_in (queue_init None)
     [QPush 2 (demo_lane 2), QPush 1 (demo_lane 1), QPush 4 (demo_lane 4), QPop False False (\<lambda>_. True),
      QPop False False (\<lambda>_. True)]) = [2, 4]"
  using normal_lane_is_fifo [of "[QPush 2 (demo_lane 2), QPush 1 (demo_lane 1), QPush 4 (demo_lane 4),
      QPop False False (\<lambda>_. True), QPop False False (\<lambda>_. True)]" demo_lane None]
  by (simp add: demo_lane_def queue_init_def queue_push_def normal_room_def control_room_def
    total_full_def capacities wait_pop_def wait_ready_def pop_front_def)

subsection \<open>A fault that was accepted can be lost\<close>

text \<open>
  With both lanes full a requested fault waits in the slot and was answered as accepted; the next
  normal event is refused and its own fault takes the slot.
\<close>

lemma accepted_fault_is_lost:
  assumes "queue_inv q" and "\<not> q_closed q" and "\<not> q_fault_recorded q" and "q_pending q = None"
    and "length (q_control q) = 8" and "length (q_normal q) = 120"
    and "q_factory q = Some (Returned f)"
  shows "fst (request_fault e q) = PushAccepted"
    and "contents (snd (queue_push x NormalLane (snd (request_fault e q)))) = contents q + {#f#}"
  using assms by (auto simp: request_fault_def queue_push_def control_room_def normal_room_def
    total_full_def capacities record_normal_fault_def contents_def slot_def Let_def)

end
