(* ===== verification/Emergency_Fence.thy ===== *)
theory Emergency_Fence
  imports Mission_Runs
begin

text \<open>
  The emergency fence of the Node (\<open>RuntimeEmergencyFence\<close>, runtime_emergency_fence.hpp) and its
  composition with the runtime core, which consults it before an admission and before every child
  start and advances its epoch through it. Writers hold the mutex of the fence, so each operation
  is one step.
\<close>

record fence =
  f_epoch :: u64
  f_blocked :: bool
  f_pending :: bool
  f_detail :: string

definition fence_init :: "u64 \<Rightarrow> fence" where
  "fence_init epoch = \<lparr>f_epoch = epoch, f_blocked = False, f_pending = False, f_detail = []\<rparr>"

definition fence_raise :: "string \<Rightarrow> fence \<Rightarrow> bool \<times> fence" where
  "fence_raise detail f =
     (if f_blocked f then (False, f)
      else (True, f\<lparr>f_epoch := (if f_epoch f \<noteq> u64_max then f_epoch f + 1 else f_epoch f),
        f_blocked := True, f_detail := detail, f_pending := True\<rparr>))"

definition fence_allows :: "u64 \<Rightarrow> fence \<Rightarrow> bool" where
  "fence_allows expected f \<longleftrightarrow> \<not> f_blocked f \<and> f_epoch f = expected"

definition fence_advance :: "u64 \<Rightarrow> u64 \<Rightarrow> fence \<Rightarrow> bool \<times> fence" where
  "fence_advance expected_current nxt f =
     (if f_blocked f \<or> f_pending f \<or> f_epoch f \<noteq> expected_current \<or> expected_current = u64_max \<or>
         nxt \<noteq> expected_current + 1
      then (False, f) else (True, f\<lparr>f_epoch := nxt\<rparr>))"

definition fence_take :: "fence \<Rightarrow> (u64 \<times> string) option \<times> fence" where
  "fence_take f =
     (if \<not> f_pending f then (None, f)
      else (Some (f_epoch f, f_detail f), f\<lparr>f_detail := [], f_pending := False\<rparr>))"

datatype fence_event = Raise string | Advance u64 u64 | Take

fun fence_step :: "fence \<Rightarrow> fence_event \<Rightarrow> fence" where
  "fence_step f (Raise d) = snd (fence_raise d f)"
| "fence_step f (Advance c n) = snd (fence_advance c n f)"
| "fence_step f Take = snd (fence_take f)"

lemmas fence_defs = fence_raise_def fence_advance_def fence_take_def fence_allows_def

subsection \<open>The fence is a latch with an epoch that never goes back\<close>

text \<open>A pending fence is blocked.\<close>

definition fence_inv :: "fence \<Rightarrow> bool" where
  "fence_inv f \<longleftrightarrow> (f_pending f \<longrightarrow> f_blocked f)"

interpretation fence_latch: latched_machine fence_step fence_inv f_blocked
proof
  show "fence_inv (fence_step f ev)" if "fence_inv f" for f ev
    using that by (cases ev) (auto simp: fence_inv_def fence_defs)
  show "f_blocked (fence_step f ev)" if "fence_inv f" "f_blocked f" for f ev
    using that by (cases ev) (auto simp: fence_defs)
qed

interpretation fence_epochs: monotone_machine fence_step fence_inv "\<lambda>f. unat (f_epoch f)"
proof
  show "unat (f_epoch f) \<le> unat (f_epoch (fence_step f ev))" for f ev
    by (cases ev) (auto simp: fence_defs unat_u64_succ)
qed

lemma fence_init_inv: "fence_inv (fence_init epoch)"
  by (simp add: fence_init_def fence_inv_def)

lemma blocked_epoch: "f_blocked f \<Longrightarrow> f_epoch (fence_step f ev) = f_epoch f"
  by (cases ev) (auto simp: fence_defs)

lemma blocked_run: "f_blocked f \<Longrightarrow> fence_inv f \<Longrightarrow>
   f_blocked (run fence_step f evs) \<and> f_epoch (run fence_step f evs) = f_epoch f"
proof (induction evs arbitrary: f)
  case (Cons ev evs)
  then show ?case
    using blocked_epoch [of f ev] fence_latch.step_latched [of f ev] fence_latch.step_inv [of f ev]
    by simp
qed simp

text \<open>The snapshots the taker is given.\<close>

primrec fence_reports :: "fence \<Rightarrow> fence_event list \<Rightarrow> (u64 \<times> string) list" where
  "fence_reports f [] = []"
| "fence_reports f (ev # evs) =
     (if ev = Take then (case fst (fence_take f) of None \<Rightarrow> [] | Some r \<Rightarrow> [r]) else []) @
     fence_reports (fence_step f ev) evs"

lemma reports_blocked:
  "f_blocked f \<Longrightarrow> fence_reports f evs =
     (if f_pending f \<and> Take \<in> set evs then [(f_epoch f, f_detail f)] else [])"
proof (induction evs arbitrary: f)
  case (Cons ev evs)
  then show ?case by (cases ev) (auto simp: fence_defs)
qed simp

text \<open>
  A raise is final. From then on, whatever is raised, advanced or taken, no epoch is allowed,
  the epoch stays one above the one at the raise, and the taker is given its detail exactly once.
\<close>

lemma raised_fence_is_final:
  assumes "f = run fence_step (fence_init epoch) evs" and "\<not> f_blocked f"
  shows "fst (fence_raise d f) \<and>
    \<not> fence_allows e (run fence_step (snd (fence_raise d f)) evs') \<and>
    f_epoch (run fence_step (snd (fence_raise d f)) evs') =
      (if f_epoch f = u64_max then u64_max else f_epoch f + 1) \<and>
    fence_reports (snd (fence_raise d f)) evs' =
      (if Take \<in> set evs' then [(f_epoch (snd (fence_raise d f)), d)] else [])"
proof -
  let ?g = "snd (fence_raise d f)"
  have g: "f_blocked ?g" "fence_inv ?g" "f_pending ?g" "f_detail ?g = d"
    "f_epoch ?g = (if f_epoch f = u64_max then u64_max else f_epoch f + 1)" "fst (fence_raise d f)"
    using assms(2) by (auto simp: fence_raise_def fence_inv_def)
  then show ?thesis
    using blocked_run [OF g(1,2), of evs'] reports_blocked [OF g(1), of evs']
    by (simp add: fence_allows_def)
qed

lemma raised_fence_is_final_witness:
  "fence_reports (snd (fence_raise ''halt'' (run fence_step (fence_init 1) [Advance 1 2, Take])))
     [Raise ''again'', Take, Advance 3 4, Take] = [(3, ''halt'')]"
  using raised_fence_is_final [of _ 1 "[Advance 1 2, Take]" "''halt''" 3 "[Raise ''again'', Take, Advance 3 4, Take]",
    OF refl]
  by (simp add: fence_defs fence_init_def u64_max_def)

subsection \<open>The fence of the runtime\<close>

text \<open>
  The Node gives the core the check of the fence and its epoch hook; \<open>the_fence\<close> and \<open>set_fence\<close>
  find the fence in the environment of the core.
\<close>

definition fence_ports :: "('e \<Rightarrow> fence) \<Rightarrow> (fence \<Rightarrow> 'e \<Rightarrow> 'e) \<Rightarrow> 'e runtime_ports \<Rightarrow> 'e runtime_ports" where
  "fence_ports the_fence set_fence P = P\<lparr>
     rp_fence := Some (\<lambda>epoch e. (fence_allows epoch (the_fence e), e)),
     rp_epoch_advance := Some (\<lambda>current nxt e.
       (case fence_advance current nxt (the_fence e) of (ok, f) \<Rightarrow> (ok, set_fence f e)))\<rparr>"

lemma fenced_admission:
  "run_state (admission_allowed (fence_ports g h P) epoch) s = (fence_allows epoch (g (c_env s)), s)"
  by (simp add: admission_allowed_def fence_ports_def ask_def)

text \<open>
  Behind a raised fence the core admits no goal, and an active mission with a step left is
  terminated instead of starting its child.
\<close>

lemma fenced_core_starts_nothing:
  assumes "f_blocked (the_fence (c_env s))" and "startable s"
  shows "\<not> ad_accepted (result (admit (fence_ports the_fence set_fence P) g permit n) s) \<and>
    (\<exists>code detail. run_state (start_step (fence_ports the_fence set_fence P)) s =
      run_state (terminate (fence_ports the_fence set_fence P) code detail) s)"
proof
  let ?P = "fence_ports the_fence set_fence P"
  have blocked: "run_state (admission_allowed ?P epoch) s = (False, s)" for epoch
    using assms by (simp add: fenced_admission fence_allows_def)
  show "\<not> ad_accepted (result (admit ?P g permit n) s)"
    by (simp add: admit_def refuse_def refused_def refuse_faulted_def blocked split_beta)
  show "\<exists>code detail. run_state (start_step ?P) s = run_state (terminate ?P code detail) s"
  proof (cases "c_active s")
    case None
    then show ?thesis
      by (simp add: start_step_def steps_left_def terminate_def select_terminal_and_stop_def split_beta)
  next
    case (Some a)
    then obtain n where "steps_left s = Suc n"
      using assms(2) by (auto simp: startable_def steps_left_def Suc_diff_Suc dest: less_imp_Suc_add)
    then show ?thesis
      using Some by (auto simp: start_step_def start_step_with_def blocked Let_def)
  qed
qed

definition halted_fence :: fence where
  "halted_fence = snd (fence_raise ''halt'' (fence_init 1))"

lemma fenced_core_starts_nothing_witness:
  "\<not> ad_accepted (result (admit (fence_ports (\<lambda>_. halted_fence) (\<lambda>_ e. e) script_ports) demo_goal None 0)
     fresh_core)"
  by (rule fenced_core_starts_nothing [THEN conjunct1])
    (simp_all add: halted_fence_def fence_raise_def fence_init_def startable_def fresh_defs
      script_calls script_defs)

end
