(* ===== verification/Event_Ingress.thy ===== *)
theory Event_Ingress
  imports Event_Queue Emergency_Fence
begin

text \<open>
  The admission seam of the Node (\<open>RuntimeEventIngress\<close>, runtime_event_ingress.hpp): it owns a
  queue and a fence, pushes events, and runs the worker. Its callbacks are given by their outcome,
  and what they are called with is recorded in the order of the calls. Producers and the worker
  interleave between the steps below: each step of the worker holds one mutex, of the queue, of the
  fence or of the dispatch, and a program counter says which comes next. A producer reads the fence
  before it pushes; as the fence only ever becomes blocked, an earlier reading is
  \<open>early \<and> f_blocked\<close> of the fence at the push.
\<close>

datatype 'e ingress_effect =
    EmergencyCall
  | FenceCall u64 string
  | Dispatched 'e

datatype 'e worker_at = AtWait | AtBefore 'e | AtDispatch 'e | AtFault | AtFence | AtEnd

record 'e ingress =
  in_queue :: "'e event_queue"
  in_fence :: fence
  in_worker :: "'e worker_at"
  in_effects :: "'e ingress_effect list"

definition ingress_init :: "'e outcome option \<Rightarrow> u64 \<Rightarrow> 'e ingress" where
  "ingress_init factory epoch =
     \<lparr>in_queue = queue_init factory, in_fence = fence_init epoch, in_worker = AtWait, in_effects = []\<rparr>"

text \<open>The callbacks: the lane selector may throw; the emergency selector is pure.\<close>

record 'e ingress_callbacks =
  ic_lane :: "'e \<Rightarrow> lane outcome"
  ic_has_emergency :: bool
  ic_has_fence :: bool
  ic_emergency_control :: "('e \<Rightarrow> bool) option"

definition emergency_control :: "'e ingress_callbacks \<Rightarrow> 'e \<Rightarrow> bool" where
  "emergency_control C e = (case ic_emergency_control C of None \<Rightarrow> False | Some sel \<Rightarrow> sel e)"

definition effect :: "'e ingress_effect \<Rightarrow> 'e ingress \<Rightarrow> 'e ingress" where
  "effect x s = s\<lparr>in_effects := in_effects s @ [x]\<rparr>"

definition request_emergency :: "'e ingress_callbacks \<Rightarrow> string \<Rightarrow> 'e ingress \<Rightarrow> 'e ingress" where
  "request_emergency C detail s =
     (let (first, f) = fence_raise detail (in_fence s); s = s\<lparr>in_fence := f\<rparr>
      in if first \<and> ic_has_emergency C then effect EmergencyCall s else s)"

definition enqueue :: "'e ingress_callbacks \<Rightarrow> bool \<Rightarrow> 'e \<Rightarrow> 'e ingress \<Rightarrow> bool \<times> 'e ingress" where
  "enqueue C early e s =
     (if early \<and> f_blocked (in_fence s) then (False, s)
      else case ic_lane C e of
        Returned l \<Rightarrow>
          (case queue_push e l (in_queue s) of (r, q) \<Rightarrow>
            let s = s\<lparr>in_queue := q\<rparr> in
            if r = PushAccepted then (True, s)
            else (False, request_emergency C
              (if r = ControlFull then ''Runtime event admission failed: control lane full''
               else if r = PushClosed then ''Runtime event admission failed: queue closed''
               else ''Runtime event admission failed: normal lane full'') s))
      | _ \<Rightarrow> (False, request_emergency C ''Runtime event lane selection failed'' s))"

definition process_pending_fence :: "'e ingress_callbacks \<Rightarrow> 'e ingress \<Rightarrow> bool \<times> 'e ingress" where
  "process_pending_fence C s =
     (case fence_take (in_fence s) of
        (None, f) \<Rightarrow> (False, s)
      | (Some (epoch, detail), f) \<Rightarrow>
          let s = s\<lparr>in_fence := f\<rparr>
          in (True, if ic_has_fence C then effect (FenceCall epoch detail) s else s))"

subsection \<open>The worker\<close>

text \<open>
  How the callbacks of the user end, in the turn of the worker that calls them; the fault handler is
  called when one of the others throws, and in the Node requests an emergency itself.
\<close>

record worker_outcome =
  wo_before :: "unit outcome option"
  wo_dispatch :: "unit outcome"
  wo_handler :: "unit outcome"

definition worker_fault :: "'e ingress_callbacks \<Rightarrow> worker_outcome \<Rightarrow> 'e ingress \<Rightarrow> 'e ingress" where
  "worker_fault C w s = (case wo_handler w of
     Returned _ \<Rightarrow> s
   | _ \<Rightarrow> request_emergency C ''Runtime event worker fault handler raised'' s)"

definition goes_on :: "unit outcome \<Rightarrow> 'e worker_at \<Rightarrow> 'e worker_at" where
  "goes_on x pc = (if x = Returned () then pc else AtFault)"

definition dispatch_event :: "'e ingress_callbacks \<Rightarrow> worker_outcome \<Rightarrow> 'e \<Rightarrow> 'e ingress \<Rightarrow> 'e ingress" where
  "dispatch_event C w e s =
     (if emergency_control C e \<or> \<not> f_blocked (in_fence s)
      then (effect (Dispatched e) s)\<lparr>in_worker := goes_on (wo_dispatch w) AtWait\<rparr>
      else s\<lparr>in_worker := AtFence\<rparr>)"

text \<open>
  One step of \<open>run\<close>. A wait that blocks leaves the state as it is. The wait condition read the fence
  earlier than the selection that follows it; only the worker takes the pending report, so the
  first reading is \<open>early \<and> f_pending\<close> of the second.
\<close>

definition worker_wait :: "'e ingress_callbacks \<Rightarrow> bool \<Rightarrow> 'e ingress \<Rightarrow> 'e ingress" where
  "worker_wait C early s =
     (case wait_pop (early \<and> f_pending (in_fence s)) (f_pending (in_fence s)) (emergency_control C)
         (in_queue s) of
        None \<Rightarrow> s
      | Some (WaitClosed, q) \<Rightarrow> s\<lparr>in_queue := q, in_worker := AtEnd\<rparr>
      | Some (ExternalWake, q) \<Rightarrow> s\<lparr>in_queue := q, in_worker := AtFence\<rparr>
      | Some (WaitItem e, q) \<Rightarrow> s\<lparr>in_queue := q, in_worker := AtBefore e\<rparr>)"

definition worker_turn :: "'e ingress_callbacks \<Rightarrow> worker_outcome \<Rightarrow> bool \<Rightarrow> 'e ingress \<Rightarrow> 'e ingress" where
  "worker_turn C w early s =
     (case in_worker s of
        AtWait \<Rightarrow> worker_wait C early s
      | AtBefore e \<Rightarrow> s\<lparr>in_worker := (case wo_before w of
            None \<Rightarrow> AtDispatch e | Some x \<Rightarrow> goes_on x (AtDispatch e))\<rparr>
      | AtDispatch e \<Rightarrow> dispatch_event C w e s
      | AtFault \<Rightarrow> (worker_fault C w s)\<lparr>in_worker := AtWait\<rparr>
      | AtFence \<Rightarrow> (snd (process_pending_fence C s))\<lparr>in_worker := AtWait\<rparr>
      | AtEnd \<Rightarrow> s)"

datatype 'e ingress_event =
    Enqueue bool 'e
  | Request string
  | Worker worker_outcome bool
  | AdvanceEpoch u64 u64
  | CloseQueue

fun ingress_step :: "'e ingress_callbacks \<Rightarrow> 'e ingress \<Rightarrow> 'e ingress_event \<Rightarrow> 'e ingress" where
  "ingress_step C s (Enqueue early e) = snd (enqueue C early e s)"
| "ingress_step C s (Request d) = request_emergency C d s"
| "ingress_step C s (Worker w early) = worker_turn C w early s"
| "ingress_step C s (AdvanceEpoch c n) = s\<lparr>in_fence := snd (fence_advance c n (in_fence s))\<rparr>"
| "ingress_step C s CloseQueue = s\<lparr>in_queue := queue_close (in_queue s)\<rparr>"

subsection \<open>Every refusal raises the fence\<close>

lemma request_emergency_fields:
  "in_fence (request_emergency C d s) = snd (fence_raise d (in_fence s))"
  "in_queue (request_emergency C d s) = in_queue s"
  "in_effects (request_emergency C d s) = in_effects s @
     (if \<not> f_blocked (in_fence s) \<and> ic_has_emergency C then [EmergencyCall] else [])"
  by (auto simp: request_emergency_def fence_raise_def effect_def Let_def)

lemma raise_blocks: "f_blocked (snd (fence_raise d f))"
  by (simp add: fence_raise_def)

text \<open>
  An event the seam refuses is never lost in silence: the fence is raised when \<open>enqueue\<close>
  returns false; and when it returns true the queue took the event in.
\<close>

lemma refused_event_raises_fence:
  "(if fst (enqueue C early e s)
    then (\<exists>l. ic_lane C e = Returned l \<and> queue_push e l (in_queue s) =
           (PushAccepted, in_queue (snd (enqueue C early e s)))) \<and> in_fence (snd (enqueue C early e s)) = in_fence s
    else f_blocked (in_fence (snd (enqueue C early e s))))"
  by (auto simp: enqueue_def Let_def request_emergency_fields raise_blocks split: outcome.splits prod.splits)

subsection \<open>The worker fails closed\<close>

fun is_emergency :: "'e ingress_effect \<Rightarrow> bool" where
  "is_emergency EmergencyCall \<longleftrightarrow> True"
| "is_emergency _ \<longleftrightarrow> False"

fun is_fence_call :: "'e ingress_effect \<Rightarrow> bool" where
  "is_fence_call (FenceCall n d) \<longleftrightarrow> True"
| "is_fence_call _ \<longleftrightarrow> False"

fun allowed_when_blocked :: "'e ingress_callbacks \<Rightarrow> 'e ingress_effect \<Rightarrow> bool" where
  "allowed_when_blocked C (Dispatched e) \<longleftrightarrow> emergency_control C e"
| "allowed_when_blocked C EmergencyCall \<longleftrightarrow> False"
| "allowed_when_blocked C (FenceCall n d) \<longleftrightarrow> True"

text \<open>
  What a step of the seam may do: the emergency call is made by the step that blocks the fence, a
  fence callback uses up the pending report, and behind a blocked fence only emergency control
  events are dispatched. The relation is a preorder, so it holds of every run.
\<close>

definition effects_between :: "'e ingress_callbacks \<Rightarrow> 'e ingress \<Rightarrow> 'e ingress \<Rightarrow> 'e ingress_effect list \<Rightarrow> bool" where
  "effects_between C s t xs \<longleftrightarrow> in_effects t = in_effects s @ xs \<and>
     (f_blocked (in_fence s) \<longrightarrow> f_blocked (in_fence t) \<and> list_all (allowed_when_blocked C) xs) \<and>
     length (filter is_emergency xs) + (if f_blocked (in_fence s) \<and> ic_has_emergency C then 1 else 0) =
       (if f_blocked (in_fence t) \<and> ic_has_emergency C then 1 else 0) \<and>
     length (filter is_fence_call xs) + (if f_pending (in_fence t) then 1 else 0) +
       (if f_blocked (in_fence s) then 1 else 0) \<le>
       (if f_pending (in_fence s) then 1 else 0) + (if f_blocked (in_fence t) then 1 else 0)"

definition ingress_effects :: "'e ingress_callbacks \<Rightarrow> 'e ingress \<Rightarrow> 'e ingress \<Rightarrow> bool" where
  "ingress_effects C s t \<longleftrightarrow> (fence_inv (in_fence s) \<longrightarrow>
     fence_inv (in_fence t) \<and> (\<exists>xs. effects_between C s t xs))"

lemma effects_trans:
  "effects_between C s t xs \<Longrightarrow> effects_between C t u ys \<Longrightarrow> effects_between C s u (xs @ ys)"
  by (auto simp: effects_between_def split: if_splits)

lemma effects_intro:
  "(fence_inv (in_fence s) \<Longrightarrow> fence_inv (in_fence t) \<and> effects_between C s t xs) \<Longrightarrow> ingress_effects C s t"
  unfolding ingress_effects_def by blast

interpretation ingress_order: step_preorder "ingress_effects C" for C :: "'e ingress_callbacks"
proof
  show "ingress_effects C s s" for s :: "'e ingress"
    by (rule effects_intro [where xs = "[]"]) (simp add: effects_between_def)
  show "ingress_effects C s u" if "ingress_effects C s t" "ingress_effects C t u" for s t u :: "'e ingress"
    using that effects_trans unfolding ingress_effects_def by blast
qed

lemma queue_effects: "ingress_effects C s (s\<lparr>in_queue := q\<rparr>)"
  by (rule effects_intro [where xs = "[]"]) (simp add: effects_between_def)

lemma worker_effects: "ingress_effects C s (s\<lparr>in_worker := pc\<rparr>)"
  by (rule effects_intro [where xs = "[]"]) (simp add: effects_between_def)

lemma wait_effects: "ingress_effects C s (s\<lparr>in_queue := q, in_worker := pc\<rparr>)"
  by (rule effects_intro [where xs = "[]"]) (simp add: effects_between_def)

lemma request_effects: "ingress_effects C s (request_emergency C d s)"
  by (rule effects_intro [where xs =
        "if \<not> f_blocked (in_fence s) \<and> ic_has_emergency C then [EmergencyCall] else []"])
    (auto simp: effects_between_def request_emergency_fields fence_raise_def fence_inv_def)

lemma process_effects: "ingress_effects C s (snd (process_pending_fence C s))"
  by (rule effects_intro [where xs =
        "if f_pending (in_fence s) \<and> ic_has_fence C then [FenceCall (f_epoch (in_fence s)) (f_detail (in_fence s))] else []"])
    (auto simp: effects_between_def process_pending_fence_def fence_take_def fence_inv_def effect_def Let_def)

lemma fault_effects: "ingress_effects C s (worker_fault C w s)"
  by (simp add: worker_fault_def request_effects ingress_order.refl split: outcome.split)

lemma dispatch_effects: "ingress_effects C s (dispatch_event C w e s)"
proof -
  have "ingress_effects C s (effect (Dispatched e) s)"
    if "emergency_control C e \<or> \<not> f_blocked (in_fence s)"
    by (rule effects_intro [where xs = "[Dispatched e]"]) (use that in \<open>auto simp: effects_between_def effect_def\<close>)
  then show ?thesis
    using worker_effects by (auto simp: dispatch_event_def intro: ingress_order.trans [OF _ worker_effects])
qed

lemma enqueue_effects: "ingress_effects C s (snd (enqueue C early e s))"
  using queue_effects request_effects ingress_order.refl
  by (auto simp: enqueue_def Let_def split: outcome.split prod.split
    intro: ingress_order.trans [OF queue_effects request_effects])

lemma turn_effects: "ingress_effects C s (worker_turn C w early s)"
  by (auto simp: worker_turn_def worker_wait_def wait_effects worker_effects dispatch_effects
    ingress_order.refl split: worker_at.split option.split wait_result.split prod.split
    intro: ingress_order.trans [OF fault_effects worker_effects]
      ingress_order.trans [OF process_effects worker_effects])

lemma advance_effects: "ingress_effects C s (s\<lparr>in_fence := snd (fence_advance c n (in_fence s))\<rparr>)"
  by (rule effects_intro [where xs = "[]"]) (auto simp: effects_between_def fence_advance_def fence_inv_def)

lemma step_effects: "ingress_effects C s (ingress_step C s ev)"
  by (cases ev) (simp_all add: enqueue_effects request_effects turn_effects advance_effects queue_effects)

context step_preorder
begin

lemma steps_related: "(\<And>s ev. R s (step s ev)) \<Longrightarrow> R s (run step s evs)"
  by (induction evs arbitrary: s) (auto intro: refl trans)

end


text \<open>
  Once the fence is blocked it stays blocked, and every event the worker still dispatches is an
  emergency control event.
\<close>

lemma blocked_worker_dispatches_emergencies:
  assumes "s = run (ingress_step C) (ingress_init factory epoch) evs" and "f_blocked (in_fence s)"
  shows "f_blocked (in_fence (run (ingress_step C) s evs')) \<and>
    (\<exists>xs. in_effects (run (ingress_step C) s evs') = in_effects s @ xs \<and>
      list_all (allowed_when_blocked C) xs)"
proof -
  have "fence_inv (in_fence s)"
    using ingress_order.steps_related [of C "ingress_step C", OF step_effects, of "ingress_init factory epoch" evs]
      assms(1) by (simp add: ingress_effects_def ingress_init_def fence_init_inv)
  then show ?thesis
    using ingress_order.steps_related [of C "ingress_step C", OF step_effects, of s evs'] assms(2)
    by (auto simp: ingress_effects_def effects_between_def)
qed

subsection \<open>The worker leaves nothing behind\<close>

definition worker_inv :: "'e ingress \<Rightarrow> bool" where
  "worker_inv s \<longleftrightarrow> (in_worker s = AtEnd \<longrightarrow> q_closed (in_queue s) \<and> contents (in_queue s) = {#})"

lemma contents_empty: "contents q = {#} \<longleftrightarrow> q_control q = [] \<and> q_pending q = None \<and> q_normal q = []"
  by (auto simp: contents_def slot_def split: option.split)

lemma request_worker: "in_worker (request_emergency C d s) = in_worker s"
  by (simp add: request_emergency_def effect_def Let_def split: prod.split)

lemma enqueue_worker:
  "in_worker (snd (enqueue C early e s)) = in_worker s"
  "q_closed (in_queue s) \<Longrightarrow> in_queue (snd (enqueue C early e s)) = in_queue s"
  by (auto simp: enqueue_def queue_push_def request_worker request_emergency_fields Let_def
    split: outcome.split prod.split)

lemma wait_worker: "worker_inv (worker_wait C early s)" if "in_worker s \<noteq> AtEnd"
  using that by (auto simp: worker_inv_def worker_wait_def wait_pop_def wait_ready_def pop_front_def
    contents_empty split: option.split wait_result.split prod.split list.split if_splits)

lemma goes_on_end [simp]: "pc \<noteq> AtEnd \<Longrightarrow> goes_on x pc \<noteq> AtEnd"
  by (simp add: goes_on_def)

interpretation ingress_worker: invariant_machine "ingress_step C" worker_inv for C :: "'e ingress_callbacks"
proof
  show "worker_inv (ingress_step C s ev)" if "worker_inv s" for s :: "'e ingress" and ev
  proof (cases ev)
    case (Worker w early)
    then show ?thesis
      using that wait_worker [of s C early]
      by (auto simp: worker_inv_def worker_turn_def dispatch_event_def split: worker_at.split option.split)
  qed (use that in \<open>auto simp: worker_inv_def enqueue_worker request_worker request_emergency_fields
      queue_close_def contents_empty\<close>)
qed

text \<open>
  The worker ends only when its queue was closed and everything the queue had accepted was
  taken out of it, and nothing enters the queue afterwards.
\<close>

lemma worker_ends_empty:
  assumes "s = run (ingress_step C) (ingress_init factory epoch) evs" and "in_worker s = AtEnd"
  shows "q_closed (in_queue s) \<and> contents (in_queue s) = {#}"
  using ingress_worker.run_inv [of "ingress_init factory epoch" C evs] assms
  by (simp add: worker_inv_def ingress_init_def)

subsection \<open>Concrete runs\<close>

definition demo_callbacks :: "nat ingress_callbacks" where
  "demo_callbacks = \<lparr>ic_lane = (\<lambda>e. Returned (demo_lane e)), ic_has_emergency = True, ic_has_fence = True,
     ic_emergency_control = Some (\<lambda>e. e = 1)\<rparr>"

definition calm_worker :: worker_outcome where
  "calm_worker = \<lparr>wo_before = None, wo_dispatch = Returned (), wo_handler = Returned ()\<rparr>"

definition demo_ingress :: "nat ingress" where
  "demo_ingress = run (ingress_step demo_callbacks) (ingress_init None 1)
     [Enqueue True 2, Worker calm_worker True, Request ''halt'', Worker calm_worker True,
      Worker calm_worker True, Worker calm_worker True]"

lemmas ingress_defs = demo_callbacks_def ingress_init_def fence_init_def enqueue_def calm_worker_def
  request_emergency_fields request_worker fence_raise_def worker_turn_def worker_wait_def wait_pop_def
  wait_ready_def pop_front_def queue_push_def queue_init_def queue_close_def demo_lane_def
  normal_room_def total_full_def capacities process_pending_fence_def fence_take_def effect_def
  dispatch_event_def goes_on_def emergency_control_def

lemma demo_ingress_blocked: "f_blocked (in_fence demo_ingress)"
  by (simp add: demo_ingress_def ingress_defs)


lemma blocked_worker_dispatches_emergencies_witness:
  "f_blocked (in_fence (run (ingress_step demo_callbacks) demo_ingress
     [Enqueue False 4, AdvanceEpoch 2 3, Worker calm_worker False]))"
  by (rule blocked_worker_dispatches_emergencies [OF demo_ingress_def demo_ingress_blocked, THEN conjunct1])

definition ended_ingress :: "nat ingress" where
  "ended_ingress = run (ingress_step demo_callbacks) (ingress_init None 1)
     [Enqueue True 2, CloseQueue, Worker calm_worker False, Worker calm_worker False,
      Worker calm_worker False, Worker calm_worker False]"

lemma ended_ingress_end: "in_worker ended_ingress = AtEnd"
  by (simp add: ended_ingress_def ingress_defs)

lemma worker_ends_empty_witness: "contents (in_queue ended_ingress) = {#}"
  by (rule worker_ends_empty [OF ended_ingress_def ended_ingress_end, THEN conjunct2])

end
