(* ===== verification/Float_Laws.thy ===== *)
theory Float_Laws
  imports Float_Arithmetic
begin

text \<open>
  Laws of the rounded arithmetic: rounding is odd and monotone on all rationals, exact on the
  values of the format, and bounded by powers of two; \<open>static_cast\<close> of a \<open>double\<close> to a 64-bit
  integer.
\<close>

subsection \<open>Rounding is odd\<close>

lemma rne_neg: "rne (- q) = - rne q"
proof (cases "q = of_int \<lfloor>q\<rfloor>")
  case True
  then have "rne (- q) = rne (of_int (- \<lfloor>q\<rfloor>))" "rne q = rne (of_int \<lfloor>q\<rfloor>)" by simp_all
  then show ?thesis by (simp only: rne_int)
next
  case False
  then have "of_int \<lfloor>q\<rfloor> < q" by (metis order_less_le of_int_floor_le)
  then have f: "\<lfloor>- q\<rfloor> = - \<lfloor>q\<rfloor> - 1"
    by (intro floor_unique) (simp_all, linarith)
  define r where "r = q - of_int \<lfloor>q\<rfloor>"
  have "- q - of_int \<lfloor>- q\<rfloor> = 1 - r" by (simp add: f r_def)
  then show ?thesis
    by (auto simp: rne_def f r_def [symmetric] Let_def)
qed

lemma fround_neg: "fround p emin emax (- q) = dneg (fround p emin emax q)"
proof -
  have "\<not> (2 powi (emax + 1) :: rat) \<le> 0" by (simp add: not_le)
  then show ?thesis by (auto simp: fround_def Let_def rne_neg)
qed

lemma round64_neg: "round64 (- q) = dneg (round64 q)"
  by (simp add: round64_def fround_neg)

lemma dneg_neg [simp]: "dneg (dneg x) = x"
  by (cases x) auto

lemma dle_neg [simp]: "dle (dneg x) (dneg y) \<longleftrightarrow> dle y x"
  by (cases x; cases y) (auto simp: dle_def)

lemma fround_nonneg: "0 \<le> q \<Longrightarrow> 1 \<le> p \<Longrightarrow> dle (Fin 0) (fround p emin emax q)"
  using fround_mono_nonneg [of 0 q p emin emax] by (simp add: fround_def)

lemma round64_mono: assumes "a \<le> b" shows "dle (round64 a) (round64 b)"
proof -
  consider "0 \<le> a" | "b \<le> 0" | "a < 0" "0 < b" using assms by linarith
  then show ?thesis
  proof cases
    case 1
    then show ?thesis using assms by (simp add: round64_def fround_mono_nonneg)
  next
    case 2
    then have "dle (round64 (- b)) (round64 (- a))"
      using assms by (simp add: round64_def fround_mono_nonneg)
    then show ?thesis by (simp add: round64_neg)
  next
    case 3
    have "dle (dneg (round64 (- a))) (Fin 0)"
      using fround_nonneg [of "- a" 53] 3 dle_neg [of "round64 (- a)" "Fin 0"]
      by (simp add: round64_def)
    moreover have "dle (Fin 0) (round64 b)" using fround_nonneg [of b 53] 3 by (simp add: round64_def)
    ultimately show ?thesis by (simp add: round64_neg dle_trans)
  qed
qed

subsection \<open>Values of the format\<close>

lemma powi_add: "(2 powi (a + b) :: rat) = 2 powi a * 2 powi b"
  by (simp add: power_int_add)

lemma fround_exact:
  assumes n: "\<bar>n\<bar> < 2 ^ nat p" and p: "1 \<le> p" and k: "emin - (p - 1) \<le> k"
    and small: "\<bar>of_int n * 2 powi k\<bar> < (2 powi (emax + 1) :: rat)"
  shows "fround p emin emax (of_int n * 2 powi k) = Fin (of_int n * 2 powi k)"
proof (cases "n = 0")
  case False
  define q where "q = (of_int n * 2 powi k :: rat)"
  define e where "e = max (ilog2 \<bar>q\<bar>) emin"
  have q: "0 < \<bar>q\<bar>" using False by (simp add: q_def)
  have abs_q: "\<bar>q\<bar> = of_int \<bar>n\<bar> * 2 powi k" by (simp add: q_def abs_mult)
  have "(of_int \<bar>n\<bar> :: rat) < of_int (2 ^ nat p)" using n by (simp only: of_int_less_iff)
  then have "\<bar>q\<bar> < 2 powi p * 2 powi k"
    using p by (simp add: abs_q power_int_def)
  then have "(2 powi ilog2 \<bar>q\<bar> :: rat) < 2 powi (p + k)"
    using ilog2_bounds(1) [OF q] by (simp add: powi_add)
  then have "ilog2 \<bar>q\<bar> < p + k"
    by (metis linorder_not_less one_le_numeral power_int_increasing)
  then have "0 \<le> k - (e - (p - 1))" using k by (simp add: e_def)
  then obtain m where m: "(2 powi (k - (e - (p - 1))) :: rat) = of_int m" using powi_int by blast
  have div: "q / 2 powi (e - (p - 1)) = of_int (n * m)"
    by (simp add: q_def m [symmetric] power_int_diff)
  then have "of_int (rne (q / 2 powi (e - (p - 1)))) * 2 powi (e - (p - 1)) = q"
    by (metis nonzero_divide_eq_eq power_int_not_zero rne_int zero_neq_numeral)
  then show ?thesis
    using q small by (simp add: fround_def Let_def q_def [symmetric] e_def [symmetric])
qed (simp add: fround_def)

lemma round64_exact:
  "\<bar>n\<bar> < 2 ^ 53 \<Longrightarrow> - 1074 \<le> k \<Longrightarrow> k \<le> 900 \<Longrightarrow> round64 (of_int n * 2 powi k) = Fin (of_int n * 2 powi k)"
proof -
  assume n: "\<bar>n\<bar> < 2 ^ 53" and k: "- 1074 \<le> k" "k \<le> 900"
  have "(of_int \<bar>n\<bar> :: rat) < of_int (2 ^ 53)" using n by (simp only: of_int_less_iff)
  then have "\<bar>of_int n * 2 powi k :: rat\<bar> < 2 powi 53 * 2 powi k"
    by (simp add: abs_mult power_int_def)
  also have "\<dots> = 2 powi (53 + k)" by (simp add: powi_add)
  also have "\<dots> \<le> 2 powi (1023 + 1)" using k by (intro power_int_increasing) auto
  finally show ?thesis
    unfolding round64_def using n k by (intro fround_exact) simp_all
qed

text \<open>A model value is a binary64 when rounding leaves it as it is.\<close>

definition binary64 :: "dbl \<Rightarrow> bool" where
  "binary64 x \<longleftrightarrow> (case x of Fin q \<Rightarrow> round64 q = Fin q | _ \<Rightarrow> True)"

lemma binary64_Fin [simp]: "binary64 (Fin q) \<longleftrightarrow> round64 q = Fin q"
  by (simp add: binary64_def)

lemma binary64_neg [simp]: "binary64 (dneg x) = binary64 x"
  by (cases x) (auto simp: binary64_def round64_neg, metis dneg.simps(1) dneg_neg)

lemma round64_le: "a \<le> b \<Longrightarrow> round64 b = Fin b \<Longrightarrow> dle (round64 a) (Fin b)"
  using round64_mono [of a b] by simp

lemma round64_ge: "b \<le> a \<Longrightarrow> round64 b = Fin b \<Longrightarrow> dle (Fin b) (round64 a)"
  using round64_mono [of b a] by simp

lemma round64_between:
  "lo \<le> q \<Longrightarrow> q \<le> hi \<Longrightarrow> round64 lo = Fin lo \<Longrightarrow> round64 hi = Fin hi \<Longrightarrow>
   \<exists>r. round64 q = Fin r \<and> lo \<le> r \<and> r \<le> hi"
  using round64_le [of q hi] round64_ge [of lo q] by (cases "round64 q") auto

lemma round64_power: "- 1074 \<le> k \<Longrightarrow> k \<le> 900 \<Longrightarrow> round64 (2 powi k) = Fin (2 powi k)"
  using round64_exact [of 1 k] by simp

lemma round64_nat_power: "k \<le> 900 \<Longrightarrow> round64 (2 ^ k) = Fin (2 ^ k)"
  using round64_power [of "int k"] by simp

lemma round64_zero [simp]: "round64 0 = Fin 0"
  by (simp add: round64_def fround_def)

lemma round64_abs_le:
  assumes "\<bar>q\<bar> \<le> 2 ^ k" "k \<le> 900"
  shows "\<exists>r. round64 q = Fin r \<and> \<bar>r\<bar> \<le> 2 ^ k"
  using round64_between [of "- (2 ^ k)" q "2 ^ k"] round64_nat_power [OF assms(2)] assms(1)
  by (auto simp: round64_neg abs_le_iff)

lemma dmul_sign: "binary64 x \<Longrightarrow> dmul (Fin 1) x = x" "binary64 x \<Longrightarrow> dmul (Fin (- 1)) x = dneg x"
  by (cases x; simp add: binary64_def dsigned_inf_def round64_neg)+

subsection \<open>Conversion to integers\<close>

text \<open>\<open>static_cast<std::int64_t>\<close> truncates; out of its range the behaviour is undefined.\<close>

definition to_int64 :: "dbl \<Rightarrow> int option" where
  "to_int64 x = (case x of
     Fin q \<Rightarrow> (let n = (if 0 \<le> q then \<lfloor>q\<rfloor> else \<lceil>q\<rceil>)
       in if - (2 ^ 63) \<le> n \<and> n < 2 ^ 63 then Some n else None)
   | _ \<Rightarrow> None)"

lemma to_int64_bounded: "0 \<le> q \<Longrightarrow> q < 2 ^ 63 \<Longrightarrow> to_int64 (Fin q) = Some \<lfloor>q\<rfloor>"
  by (auto simp: to_int64_def Let_def floor_less_iff)

end
