(* ===== verification/Relative_Motion.thy ===== *)
theory Relative_Motion
  imports Mission_Runtime Float_Laws "HOL-Library.While_Combinator"
begin

text \<open>
  The controller of the steps MOVE and ROTATE (\<open>RelativeMotionController\<close>,
  relative_motion_controller.hpp/.cpp): one definition per method over the record \<open>controller\<close>.
  A call returns \<open>None\<close> when the code has no result: a loop of \<open>normalize_angle\<close> that does not
  end, or a deadline beyond the 64-bit integers. \<open>std::cos\<close> and \<open>std::sin\<close> are the parameter
  \<open>libm\<close>. Odometry times are the times of the calls, as in the adapter.
\<close>

subsection \<open>Data\<close>

record libm =
  lm_cos :: "dbl \<Rightarrow> dbl"
  lm_sin :: "dbl \<Rightarrow> dbl"

record motion_odom =
  od_x :: dbl
  od_y :: dbl
  od_yaw :: dbl
  od_linear :: dbl
  od_angular :: dbl

record motion_command =
  mc_linear :: dbl
  mc_angular :: dbl

datatype motion_event_kind =
  EvNone | EvRunning | EvZeroRequested | EvStationarityPending | EvCompleted | EvFailed

datatype motion_failure =
  FlNone | FlDependency | FlExecution | FlTimeout | FlSafety | FlInternal

datatype stop_intent = IntentCompletion | IntentCancel | IntentFailure

record motion_event =
  me_kind :: motion_event_kind
  me_failure :: motion_failure
  me_intent :: stop_intent
  me_command :: motion_command
  me_progress :: dbl
  me_zero_requested :: bool
  me_stationarity_proven :: bool
  me_detail :: string

record motion_policy =
  mp_move_tolerance :: dbl
  mp_rotate_tolerance :: dbl
  mp_move_min :: dbl
  mp_move_max :: dbl
  mp_rotate_min :: dbl
  mp_rotate_max :: dbl
  mp_still_linear :: dbl
  mp_still_angular :: dbl
  mp_move_improvement :: dbl
  mp_rotate_improvement :: dbl
  mp_liveness :: int
  mp_stall_window :: int
  mp_zero_deadline :: int
  mp_still_window :: int
  mp_still_deadline :: int

datatype motion_mode = ModeNone | ModeMove | ModeRotate

datatype motion_state = StIdle | StRunning | StZeroRequested | StStationarity | StCompleted | StFailed

record controller =
  rm_policy :: motion_policy
  rm_token :: motion_token
  rm_step :: mission_step
  rm_mode :: motion_mode
  rm_state :: motion_state
  rm_intent :: stop_intent
  rm_command :: motion_command
  rm_odom :: motion_odom
  rm_has_odom :: bool
  rm_start_x :: dbl
  rm_start_y :: dbl
  rm_start_yaw :: dbl
  rm_last_yaw :: dbl
  rm_unwrapped :: dbl
  rm_error :: dbl
  rm_progress :: dbl
  rm_stall_start :: dbl
  rm_stall_best :: dbl
  rm_started_at :: "time option"
  rm_stall_at :: "time option"
  rm_odom_at :: "time option"
  rm_zero_at :: "time option"
  rm_gate_zero_at :: "time option"
  rm_still_since :: "time option"

definition no_motion :: motion_command where
  "no_motion = \<lparr>mc_linear = Fin 0, mc_angular = Fin 0\<rparr>"

definition no_odom :: motion_odom where
  "no_odom = \<lparr>od_x = Fin 0, od_y = Fin 0, od_yaw = Fin 0, od_linear = Fin 0, od_angular = Fin 0\<rparr>"

definition no_step :: mission_step where
  "no_step = \<lparr>ms_kind = 0, ms_distance = Fin 0, ms_angle = Fin 0, ms_target = []\<rparr>"

definition default_policy :: motion_policy where
  "default_policy = \<lparr>mp_move_tolerance = round64 (5 / 100), mp_rotate_tolerance = round64 (8 / 100),
     mp_move_min = round64 (5 / 100), mp_move_max = Fin (1 / 4), mp_rotate_min = round64 (1 / 10),
     mp_rotate_max = round64 (8 / 10), mp_still_linear = round64 (1 / 100),
     mp_still_angular = round64 (2 / 100), mp_move_improvement = round64 (1 / 100),
     mp_rotate_improvement = round64 (2 / 100), mp_liveness = ms 200, mp_stall_window = ms 1000,
     mp_zero_deadline = ms 300, mp_still_window = ms 200, mp_still_deadline = ms 1200\<rparr>"

text \<open>The literal \<open>3.14159265358979323846...\<close> as a binary64, and its exact double.\<close>

definition k_pi :: dbl where "k_pi = Fin (884279719003555 / 281474976710656)"
definition k_two_pi :: dbl where "k_two_pi = Fin (884279719003555 / 140737488355328)"

definition finite_positive :: "dbl \<Rightarrow> bool" where
  "finite_positive x \<longleftrightarrow> isfinite x \<and> dlt (Fin 0) x"

definition policy_valid :: "motion_policy \<Rightarrow> bool" where
  "policy_valid p \<longleftrightarrow>
     finite_positive (mp_move_tolerance p) \<and> finite_positive (mp_rotate_tolerance p) \<and>
     finite_positive (mp_move_min p) \<and> finite_positive (mp_move_max p) \<and>
     \<not> dlt (mp_move_max p) (mp_move_min p) \<and>
     finite_positive (mp_rotate_min p) \<and> finite_positive (mp_rotate_max p) \<and>
     \<not> dlt (mp_rotate_max p) (mp_rotate_min p) \<and>
     finite_positive (mp_still_linear p) \<and> finite_positive (mp_still_angular p) \<and>
     finite_positive (mp_move_improvement p) \<and> finite_positive (mp_rotate_improvement p) \<and>
     0 < mp_liveness p \<and> 0 < mp_stall_window p \<and> 0 < mp_zero_deadline p \<and>
     0 < mp_still_window p \<and> 0 < mp_still_deadline p"

definition controller_init :: "motion_policy \<Rightarrow> string + controller" where
  "controller_init p = (if \<not> policy_valid p then Inl ''invalid relative-motion policy''
     else Inr \<lparr>rm_policy = p, rm_token = no_token, rm_step = no_step, rm_mode = ModeNone,
       rm_state = StIdle, rm_intent = IntentCompletion, rm_command = no_motion, rm_odom = no_odom,
       rm_has_odom = False, rm_start_x = Fin 0, rm_start_y = Fin 0, rm_start_yaw = Fin 0,
       rm_last_yaw = Fin 0, rm_unwrapped = Fin 0, rm_error = Fin 0, rm_progress = Fin 0,
       rm_stall_start = Fin 0, rm_stall_best = Fin 0, rm_started_at = None, rm_stall_at = None,
       rm_odom_at = None, rm_zero_at = None, rm_gate_zero_at = None, rm_still_since = None\<rparr>)"

subsection \<open>Helpers\<close>

definition controller_event :: "motion_event_kind \<Rightarrow> motion_failure \<Rightarrow> string \<Rightarrow> controller \<Rightarrow> motion_event" where
  "controller_event kind failure detail c =
     \<lparr>me_kind = kind, me_failure = failure, me_intent = rm_intent c, me_command = rm_command c,
      me_progress = rm_progress c,
      me_zero_requested = (kind = EvZeroRequested \<or> kind = EvStationarityPending),
      me_stationarity_proven = (rm_state c = StCompleted), me_detail = detail\<rparr>"

definition plain :: "motion_event_kind \<Rightarrow> controller \<Rightarrow> motion_event \<times> controller" where
  "plain kind c = (controller_event kind FlNone [] c, c)"

definition controller_fail :: "motion_failure \<Rightarrow> string \<Rightarrow> controller \<Rightarrow> motion_event \<times> controller" where
  "controller_fail failure detail c =
     (let c = c\<lparr>rm_state := StFailed, rm_command := no_motion\<rparr>
      in (controller_event EvFailed failure detail c, c))"

definition valid_odom :: "motion_odom \<Rightarrow> bool" where
  "valid_odom o' \<longleftrightarrow> isfinite (od_x o') \<and> isfinite (od_y o') \<and> isfinite (od_yaw o') \<and>
     isfinite (od_linear o') \<and> isfinite (od_angular o')"

definition valid_motion_step :: "mission_step \<Rightarrow> (motion_mode \<times> dbl) option" where
  "valid_motion_step st =
     (if ms_kind st = k_move \<and> isfinite (ms_distance st) \<and> \<not> deq (ms_distance st) (Fin 0) \<and>
         deq (ms_angle st) (Fin 0) \<and> ms_target st = []
      then Some (ModeMove, ms_distance st)
      else if ms_kind st = k_rotate \<and> isfinite (ms_angle st) \<and> dle (dabs (ms_angle st)) k_two_pi \<and>
         \<not> deq (ms_angle st) (Fin 0) \<and> deq (ms_distance st) (Fin 0) \<and> ms_target st = []
      then Some (ModeRotate, ms_angle st)
      else None)"

definition motion_error :: "libm \<Rightarrow> controller \<Rightarrow> dbl" where
  "motion_error M c =
     (if rm_mode c = ModeMove
      then dsub (ms_distance (rm_step c))
        (dadd (dmul (dsub (od_x (rm_odom c)) (rm_start_x c)) (lm_cos M (rm_start_yaw c)))
              (dmul (dsub (od_y (rm_odom c)) (rm_start_y c)) (lm_sin M (rm_start_yaw c))))
      else dsub (ms_angle (rm_step c)) (rm_unwrapped c))"

definition motion_tolerance :: "controller \<Rightarrow> dbl" where
  "motion_tolerance c = (if rm_mode c = ModeMove then mp_move_tolerance (rm_policy c)
     else mp_rotate_tolerance (rm_policy c))"

definition stall_improvement :: "controller \<Rightarrow> dbl" where
  "stall_improvement c = (if rm_mode c = ModeMove then mp_move_improvement (rm_policy c)
     else mp_rotate_improvement (rm_policy c))"

definition target_magnitude :: "controller \<Rightarrow> dbl" where
  "target_magnitude c = (if rm_mode c = ModeMove then dabs (ms_distance (rm_step c))
     else dabs (ms_angle (rm_step c)))"

definition speed_limit :: "controller \<Rightarrow> dbl" where
  "speed_limit c = (if rm_mode c = ModeMove then mp_move_max (rm_policy c) else mp_rotate_max (rm_policy c))"

definition step_deadline :: "controller \<Rightarrow> time option" where
  "step_deadline c = map_option ms (to_int64 (dmul
     (dadd (Fin 2) (ddiv (dmul (Fin (5 / 2)) (target_magnitude c)) (speed_limit c))) (Fin 1000)))"

definition normalize_angle :: "dbl \<Rightarrow> dbl option" where
  "normalize_angle angle =
     Option.bind (while_option (\<lambda>r. dlt k_pi r) (\<lambda>r. dsub r k_two_pi) angle)
       (while_option (\<lambda>r. dlt r (dneg k_pi)) (\<lambda>r. dadd r k_two_pi))"

definition dsign :: "dbl \<Rightarrow> dbl" where
  "dsign x = (if dlt x (Fin 0) then Fin (- 1) else Fin 1)"

subsection \<open>Operations\<close>

definition controller_start :: "motion_token \<Rightarrow> mission_step \<Rightarrow> time \<Rightarrow> controller \<Rightarrow> motion_event \<times> controller" where
  "controller_start token st now c =
     (case valid_motion_step st of
        None \<Rightarrow> controller_fail FlInternal ''RelativeMotionController received an invalid step'' c
      | Some (mode, target) \<Rightarrow>
          plain EvRunning (c\<lparr>rm_token := token, rm_step := st, rm_mode := mode, rm_state := StRunning,
            rm_intent := IntentCompletion, rm_command := no_motion, rm_odom := no_odom,
            rm_has_odom := False, rm_start_x := Fin 0, rm_start_y := Fin 0, rm_start_yaw := Fin 0,
            rm_last_yaw := Fin 0, rm_unwrapped := Fin 0, rm_error := target, rm_progress := Fin 0,
            rm_stall_start := dabs target, rm_stall_best := dabs target,
            rm_started_at := Some now, rm_stall_at := None, rm_odom_at := None, rm_zero_at := None,
            rm_gate_zero_at := None, rm_still_since := None\<rparr>))"

definition request_safe_stop :: "stop_intent \<Rightarrow> time \<Rightarrow> controller \<Rightarrow> motion_event \<times> controller" where
  "request_safe_stop intent now c =
     (if rm_state c \<in> {StIdle, StFailed, StCompleted} then plain EvNone c
      else let c = c\<lparr>rm_intent := intent, rm_state := StZeroRequested, rm_command := no_motion,
          rm_zero_at := Some now, rm_gate_zero_at := None, rm_still_since := None\<rparr>
        in ((controller_event EvZeroRequested FlNone [] c)\<lparr>me_zero_requested := True, me_intent := intent\<rparr>, c))"

definition zero_overdue :: "time \<Rightarrow> controller \<Rightarrow> bool" where
  "zero_overdue now c \<longleftrightarrow>
     (case rm_zero_at c of None \<Rightarrow> False | Some t \<Rightarrow> mp_zero_deadline (rm_policy c) < now - t)"

definition zero_unproven :: "controller \<Rightarrow> motion_event \<times> controller" where
  "zero_unproven = controller_fail FlSafety
     ''Gate zero was not proven before the bounded zero-proof deadline''"

definition confirm_gate_zero :: "time \<Rightarrow> controller \<Rightarrow> motion_event \<times> controller" where
  "confirm_gate_zero now c =
     (if rm_state c \<noteq> StZeroRequested \<and> rm_state c \<noteq> StRunning then plain EvNone c
      else if zero_overdue now c then zero_unproven c
      else let c = (if rm_state c = StRunning
             then c\<lparr>rm_intent := IntentCompletion, rm_state := StZeroRequested, rm_zero_at := Some now\<rparr>
             else c)
        in plain EvStationarityPending
          (c\<lparr>rm_gate_zero_at := Some now, rm_state := StStationarity, rm_still_since := None\<rparr>))"

definition odom_still :: "motion_policy \<Rightarrow> motion_odom \<Rightarrow> bool" where
  "odom_still p o' \<longleftrightarrow> dle (dabs (od_linear o')) (mp_still_linear p) \<and>
     dle (dabs (od_angular o')) (mp_still_angular p)"

definition settle :: "time \<Rightarrow> controller \<Rightarrow> motion_event \<times> controller" where
  "settle now c =
     (if \<not> odom_still (rm_policy c) (rm_odom c)
      then plain EvStationarityPending (c\<lparr>rm_still_since := None\<rparr>)
      else let since = (case rm_still_since c of None \<Rightarrow> now | Some t \<Rightarrow> t);
               c = c\<lparr>rm_still_since := Some since\<rparr>
        in if mp_still_window (rm_policy c) \<le> now - since
           then let c = c\<lparr>rm_state := StCompleted\<rparr>
             in ((controller_event EvCompleted FlNone [] c)\<lparr>me_stationarity_proven := True\<rparr>, c)
           else plain EvStationarityPending c)"

definition evaluate_stationarity :: "time \<Rightarrow> controller \<Rightarrow> motion_event \<times> controller" where
  "evaluate_stationarity now c0 =
     (let c = c0\<lparr>rm_command := no_motion\<rparr> in
      case rm_gate_zero_at c of
        None \<Rightarrow> plain EvZeroRequested c
      | Some z \<Rightarrow>
          if z + mp_still_deadline (rm_policy c) \<le> now
          then controller_fail FlSafety ''odometry did not prove stationarity before the safety deadline'' c
          else case rm_odom_at c of
            None \<Rightarrow> plain EvStationarityPending c
          | Some t \<Rightarrow>
              if \<not> rm_has_odom c \<or> t < z then plain EvStationarityPending c
              else if mp_liveness (rm_policy c) < now - t
              then controller_fail FlDependency ''fresh odometry was unavailable while proving stationarity'' c
              else settle now c)"

definition drive :: "libm \<Rightarrow> time \<Rightarrow> controller \<Rightarrow> motion_event \<times> controller" where
  "drive M now c =
     (let a = dabs (motion_error M c); s = dsign (motion_error M c); p = rm_policy c in
      if dle a (motion_tolerance c) then request_safe_stop IntentCompletion now c
      else let c = c\<lparr>rm_command :=
             (if rm_mode c = ModeMove
              then (rm_command c)\<lparr>mc_linear := dmul s (dclamp a (mp_move_min p) (mp_move_max p))\<rparr>
              else (rm_command c)\<lparr>mc_angular :=
                dmul s (dclamp (dmul (Fin (3 / 2)) a) (mp_rotate_min p) (mp_rotate_max p))\<rparr>)\<rparr>
        in ((controller_event EvRunning FlNone [] c)\<lparr>me_zero_requested := False\<rparr>, c))"

definition track :: "libm \<Rightarrow> time \<Rightarrow> controller \<Rightarrow> controller" where
  "track M now c =
     (let e = motion_error M c; a = dabs e; m = target_magnitude c;
          c = c\<lparr>rm_error := e,
            rm_progress := (if dlt (Fin 0) m
              then dmax (rm_progress c) (dclamp (ddiv (dsub m a) m) (Fin 0) (Fin 1))
              else rm_progress c)\<rparr>;
          c = (if rm_stall_at c = None
               then c\<lparr>rm_stall_at := Some now, rm_stall_start := a, rm_stall_best := a\<rparr> else c)
      in if dlt a (rm_stall_best c) then c\<lparr>rm_stall_best := a\<rparr> else c)"

definition stall_window_over :: "time \<Rightarrow> controller \<Rightarrow> bool" where
  "stall_window_over now c \<longleftrightarrow>
     (case rm_stall_at c of None \<Rightarrow> False | Some t \<Rightarrow> mp_stall_window (rm_policy c) \<le> now - t)"

definition advance :: "libm \<Rightarrow> time \<Rightarrow> controller \<Rightarrow> motion_event \<times> controller" where
  "advance M now c0 =
     (let c = track M now c0; a = dabs (motion_error M c) in
      if stall_window_over now c
      then if dle a (motion_tolerance c) then request_safe_stop IntentCompletion now c
        else if dlt (dsub (rm_stall_start c) (rm_stall_best c)) (stall_improvement c)
        then controller_fail FlExecution ''relative-motion error stalled inside its bounded window'' c
        else drive M now (c\<lparr>rm_stall_at := Some now, rm_stall_start := a, rm_stall_best := a\<rparr>)
      else drive M now c)"

definition evaluate_running :: "libm \<Rightarrow> time \<Rightarrow> controller \<Rightarrow> (motion_event \<times> controller) option" where
  "evaluate_running M now c =
     (case rm_started_at c of
        None \<Rightarrow> Some (controller_fail FlInternal ''relative-motion start time is missing'' c)
      | Some t \<Rightarrow> (case step_deadline c of
          None \<Rightarrow> None
        | Some d \<Rightarrow> Some (
            if t + d \<le> now then controller_fail FlTimeout ''relative-motion step deadline elapsed'' c
            else if \<not> rm_has_odom c
            then if mp_liveness (rm_policy c) < now - t
              then controller_fail FlDependency
                ''fresh odometry was not received before the dependency deadline'' c
              else plain EvRunning c
            else if (case rm_odom_at c of None \<Rightarrow> True | Some o' \<Rightarrow> mp_liveness (rm_policy c) < now - o')
            then controller_fail FlDependency ''odometry stopped being fresh during relative motion'' c
            else advance M now c)))"

definition evaluate :: "libm \<Rightarrow> time \<Rightarrow> controller \<Rightarrow> (motion_event \<times> controller) option" where
  "evaluate M now c0 =
     (let c = c0\<lparr>rm_command := no_motion\<rparr> in
      case rm_state c of
        StZeroRequested \<Rightarrow> Some (if zero_overdue now c then zero_unproven c else plain EvZeroRequested c)
      | StStationarity \<Rightarrow> Some (evaluate_stationarity now c)
      | StRunning \<Rightarrow> evaluate_running M now c
      | _ \<Rightarrow> Some (plain EvNone c))"

text \<open>Taking an odometry sample in: the first one fixes the origin, the others unwrap the yaw.\<close>

definition take_odom :: "libm \<Rightarrow> motion_odom \<Rightarrow> time \<Rightarrow> controller \<Rightarrow> controller option" where
  "take_odom M o' now c0 =
     (let c = c0\<lparr>rm_odom := o'\<rparr> in
      if \<not> rm_has_odom c
      then let c = c\<lparr>rm_start_x := od_x o', rm_start_y := od_y o', rm_start_yaw := od_yaw o',
             rm_last_yaw := od_yaw o', rm_unwrapped := Fin 0, rm_has_odom := True,
             rm_stall_at := Some now, rm_odom_at := Some now\<rparr>
        in Some (c\<lparr>rm_stall_start := dabs (motion_error M c), rm_stall_best := dabs (motion_error M c)\<rparr>)
      else if rm_mode c = ModeRotate
      then case normalize_angle (dsub (od_yaw o') (rm_last_yaw c)) of
          None \<Rightarrow> None
        | Some d \<Rightarrow> Some (c\<lparr>rm_unwrapped := dadd (rm_unwrapped c) d, rm_last_yaw := od_yaw o',
            rm_odom_at := Some now\<rparr>)
      else Some (c\<lparr>rm_odom_at := Some now\<rparr>))"

definition observe_odom :: "libm \<Rightarrow> motion_odom \<Rightarrow> time \<Rightarrow> controller \<Rightarrow> (motion_event \<times> controller) option" where
  "observe_odom M o' now c =
     (if rm_state c = StIdle \<or> rm_state c = StCompleted then Some (plain EvNone c)
      else if \<not> valid_odom o'
      then Some (controller_fail FlDependency ''odometry contains a non-finite pose or velocity'' c)
      else if rm_state c = StStationarity \<and> (case rm_gate_zero_at c of None \<Rightarrow> False | Some z \<Rightarrow> now < z)
      then Some (plain EvStationarityPending c)
      else Option.bind (take_odom M o' now c) (evaluate M now))"

definition controller_tick :: "libm \<Rightarrow> time \<Rightarrow> controller \<Rightarrow> (motion_event \<times> controller) option" where
  "controller_tick M now c =
     (case rm_state c of
        StIdle \<Rightarrow> Some (plain EvNone c)
      | StFailed \<Rightarrow> Some (controller_event EvFailed FlInternal [] c, c)
      | StCompleted \<Rightarrow> Some ((controller_event EvCompleted FlNone [] c)\<lparr>me_stationarity_proven := True\<rparr>, c)
      | _ \<Rightarrow> evaluate M now c)"

definition controller_active :: "controller \<Rightarrow> bool" where
  "controller_active c \<longleftrightarrow> rm_state c \<noteq> StIdle \<and> rm_state c \<noteq> StFailed \<and> rm_state c \<noteq> StCompleted"

subsection \<open>The controller as a machine\<close>

datatype controller_call =
    CallStart motion_token mission_step time
  | CallOdom motion_odom time
  | CallTick time
  | CallStop stop_intent time
  | CallZero time

fun call_time :: "controller_call \<Rightarrow> time" where
  "call_time (CallStart token st now) = now"
| "call_time (CallOdom o' now) = now"
| "call_time (CallTick now) = now"
| "call_time (CallStop intent now) = now"
| "call_time (CallZero now) = now"

fun perform :: "libm \<Rightarrow> controller_call \<Rightarrow> controller \<Rightarrow> (motion_event \<times> controller) option" where
  "perform M (CallStart token st now) c = Some (controller_start token st now c)"
| "perform M (CallOdom o' now) c = observe_odom M o' now c"
| "perform M (CallTick now) c = controller_tick M now c"
| "perform M (CallStop intent now) c = Some (request_safe_stop intent now c)"
| "perform M (CallZero now) c = Some (confirm_gate_zero now c)"

definition controller_step :: "libm \<Rightarrow> controller \<Rightarrow> controller_call \<Rightarrow> controller" where
  "controller_step M c call = (case perform M call c of None \<Rightarrow> c | Some (ev, c') \<Rightarrow> c')"

text \<open>A history of calls, as long as every call has a result.\<close>

primrec history :: "libm \<Rightarrow> controller \<Rightarrow> controller_call list \<Rightarrow> controller option" where
  "history M c [] = Some c"
| "history M c (call # calls) = Option.bind (perform M call c) (\<lambda>(ev, c'). history M c' calls)"

lemma history_snoc:
  "history M c (calls @ [call]) = Option.bind (history M c calls) (\<lambda>d. map_option snd (perform M call d))"
  by (induction calls arbitrary: c) (auto split: bind_splits option.splits)

lemma history_run: "history M c calls = Some c' \<Longrightarrow> run (controller_step M) c calls = c'"
  by (induction calls arbitrary: c) (auto simp: controller_step_def split: bind_splits)

end
