(* ===== verification/Relative_Motion_Spec.thy ===== *)
theory Relative_Motion_Spec
  imports Relative_Motion
begin

text \<open>
  What the controller of relative motion guarantees: its command is bounded and points to the
  target, its completion is proven by odometry, its progress is monotone and its motion ends.
\<close>

subsection \<open>The branches of a call\<close>

lemma error_irrelevant [simp]:
  "motion_error M (c\<lparr>rm_error := e\<rparr>) = motion_error M c"
  "motion_error M (c\<lparr>rm_progress := e\<rparr>) = motion_error M c"
  "motion_error M (c\<lparr>rm_stall_at := t\<rparr>) = motion_error M c"
  "motion_error M (c\<lparr>rm_stall_start := e\<rparr>) = motion_error M c"
  "motion_error M (c\<lparr>rm_stall_best := e\<rparr>) = motion_error M c"
  "motion_error M (c\<lparr>rm_command := m\<rparr>) = motion_error M c"
  "motion_error M (c\<lparr>rm_odom_at := t\<rparr>) = motion_error M c"
  "motion_error M (c\<lparr>rm_intent := i\<rparr>) = motion_error M c"
  "motion_error M (c\<lparr>rm_state := s\<rparr>) = motion_error M c"
  "motion_error M (c\<lparr>rm_zero_at := t\<rparr>) = motion_error M c"
  "motion_error M (c\<lparr>rm_gate_zero_at := t\<rparr>) = motion_error M c"
  "motion_error M (c\<lparr>rm_still_since := t\<rparr>) = motion_error M c"
  by (simp_all add: motion_error_def)

lemma track_fields [simp]:
  "motion_error M (track M now c) = motion_error M c"
  "rm_error (track M now c) = motion_error M c"
  "rm_command (track M now c) = rm_command c"
  "rm_state (track M now c) = rm_state c"
  "rm_policy (track M now c) = rm_policy c"
  "rm_mode (track M now c) = rm_mode c"
  "rm_has_odom (track M now c) = rm_has_odom c"
  "rm_started_at (track M now c) = rm_started_at c"
  "rm_step (track M now c) = rm_step c"
  "rm_zero_at (track M now c) = rm_zero_at c"
  "rm_gate_zero_at (track M now c) = rm_gate_zero_at c"
  "rm_still_since (track M now c) = rm_still_since c"
  "rm_odom_at (track M now c) = rm_odom_at c"
  "rm_odom (track M now c) = rm_odom c"
  by (simp_all add: track_def Let_def)

lemma take_odom_fields:
  assumes "take_odom M o' now c = Some c'"
  shows "rm_policy c' = rm_policy c" "rm_state c' = rm_state c" "rm_mode c' = rm_mode c"
    "rm_step c' = rm_step c" "rm_started_at c' = rm_started_at c" "rm_zero_at c' = rm_zero_at c"
    "rm_gate_zero_at c' = rm_gate_zero_at c" "rm_still_since c' = rm_still_since c"
    "rm_progress c' = rm_progress c" "rm_has_odom c'" "rm_odom_at c' = Some now" "rm_odom c' = o'"
  using assms by (auto simp: take_odom_def Let_def split: if_splits option.splits)

lemma observe_odomE:
  assumes "observe_odom M o' now c = Some (ev, c')"
  obtains (ignored) "c' = c"
  | (invalid) f d where "c' = snd (controller_fail f d c)" "rm_state c \<noteq> StIdle"
  | (evaluated) d where "take_odom M o' now c = Some d" "evaluate M now d = Some (ev, c')"
      "valid_odom o'" "rm_state c \<noteq> StIdle" "rm_state c \<noteq> StCompleted"
  using assms by (auto simp: observe_odom_def plain_def bind_eq_Some_conv split: if_splits)
    (metis snd_conv)+

lemmas controller_answers = plain_def controller_fail_def zero_unproven_def

definition stopped :: "controller \<Rightarrow> bool" where
  "stopped c \<longleftrightarrow> rm_command c = no_motion"

subsection \<open>The command\<close>

definition speed :: "controller \<Rightarrow> dbl" where
  "speed c = (if rm_mode c = ModeMove then mc_linear (rm_command c) else mc_angular (rm_command c))"

definition demand :: "controller \<Rightarrow> dbl" where
  "demand c = (if rm_mode c = ModeMove
     then dclamp (dabs (rm_error c)) (mp_move_min (rm_policy c)) (mp_move_max (rm_policy c))
     else dclamp (dmul (Fin (3 / 2)) (dabs (rm_error c))) (mp_rotate_min (rm_policy c)) (mp_rotate_max (rm_policy c)))"

definition axis_command :: "controller \<Rightarrow> dbl \<Rightarrow> motion_command" where
  "axis_command c v = (if rm_mode c = ModeMove then no_motion\<lparr>mc_linear := v\<rparr> else no_motion\<lparr>mc_angular := v\<rparr>)"

text \<open>
  A command other than zero was computed by the last evaluation. The confirmation of the Gate zero
  leaves the command of a running motion as it is until the next evaluation or stop.
\<close>

definition driving :: "libm \<Rightarrow> controller \<Rightarrow> bool" where
  "driving M c \<longleftrightarrow> rm_state c \<in> {StRunning, StStationarity} \<and> rm_has_odom c \<and> rm_error c = motion_error M c \<and>
     \<not> dle (dabs (rm_error c)) (motion_tolerance c) \<and>
     rm_command c = axis_command c (dmul (dsign (rm_error c)) (demand c))"

definition command_justified :: "libm \<Rightarrow> motion_policy \<Rightarrow> controller \<Rightarrow> bool" where
  "command_justified M p c \<longleftrightarrow> rm_policy c = p \<and> (rm_command c = no_motion \<or> driving M c)"

lemma justifiedI: "rm_policy c = p \<Longrightarrow> rm_command c = no_motion \<Longrightarrow> command_justified M p c"
  by (simp add: command_justified_def)

lemma fail_justified: "rm_policy c = p \<Longrightarrow> command_justified M p (snd (controller_fail f d c))"
  by (simp add: controller_fail_def Let_def justifiedI)

lemma stop_justified:
  "rm_policy c = p \<Longrightarrow> command_justified M p c \<Longrightarrow> command_justified M p (snd (request_safe_stop i now c))"
  by (auto simp: request_safe_stop_def plain_def Let_def intro: justifiedI)

lemma drive_justified:
  assumes "rm_policy c = p" "rm_command c = no_motion" "rm_state c = StRunning" "rm_has_odom c"
    "rm_error c = motion_error M c"
  shows "command_justified M p (snd (drive M now c))"
  using assms stop_justified [OF assms(1) justifiedI [OF assms(1,2)], of M IntentCompletion now]
  by (auto simp: drive_def Let_def command_justified_def driving_def axis_command_def demand_def
    motion_tolerance_def motion_error_def)

lemma advance_justified:
  assumes "rm_policy c = p" "rm_command c = no_motion" "rm_state c = StRunning" "rm_has_odom c"
  shows "command_justified M p (snd (advance M now c))"
  using assms justifiedI [of "track M now c" p M]
  by (simp add: advance_def Let_def drive_justified stop_justified fail_justified)

lemma evaluate_justified:
  assumes "rm_policy c = p" "evaluate M now c = Some (ev, c')"
  shows "command_justified M p c'"
proof -
  let ?c = "c\<lparr>rm_command := no_motion\<rparr>"
  have s: "command_justified M p (snd (evaluate_stationarity now ?c))"
    using assms(1) by (auto simp: evaluate_stationarity_def settle_def controller_answers Let_def
      split: option.split intro: justifiedI)
  have "command_justified M p d" if "evaluate_running M now ?c = Some (e, d)" "rm_state c = StRunning" for e d
    using that assms(1) advance_justified [of ?c p M now]
    by (auto simp: evaluate_running_def controller_answers Let_def split: option.splits if_splits
      intro: justifiedI)
  then show ?thesis
    using assms s by (auto simp: evaluate_def controller_answers Let_def
      split: motion_state.splits if_splits intro: justifiedI)
qed

lemma start_justified:
  "rm_policy c = p \<Longrightarrow> command_justified M p (snd (controller_start token st now c))"
  by (auto simp: controller_start_def plain_def fail_justified split: option.split intro!: justifiedI)

lemma zero_justified:
  assumes "command_justified M p c"
  shows "command_justified M p (snd (confirm_gate_zero now c))"
proof -
  have "driving M d" if "driving M c" "rm_state c = StRunning"
    "d = c\<lparr>rm_intent := i, rm_zero_at := t, rm_gate_zero_at := z, rm_state := StStationarity,
      rm_still_since := None\<rparr>" for d i t z
    using that(1) unfolding that(3)
    by (cases "rm_mode c = ModeMove")
      (auto simp: driving_def axis_command_def demand_def motion_tolerance_def)
  then show ?thesis
    using assms fail_justified [of c p M]
    by (auto simp: confirm_gate_zero_def plain_def zero_unproven_def Let_def command_justified_def
      driving_def [of M c])
qed

lemma perform_justified:
  assumes "command_justified M p c" "perform M call c = Some (ev, c')"
  shows "command_justified M p c'"
proof -
  have p: "rm_policy c = p" using assms(1) by (simp add: command_justified_def)
  show ?thesis
  proof (cases call)
    case (CallOdom o' now)
    with assms(2) have "observe_odom M o' now c = Some (ev, c')" by simp
    then show ?thesis
    proof (cases rule: observe_odomE)
      case (evaluated d)
      then show ?thesis using evaluate_justified take_odom_fields(1) p by metis
    qed (use assms(1) p fail_justified in auto)
  next
    case (CallTick now)
    then show ?thesis
      using assms p evaluate_justified [OF p]
      by (auto simp: controller_tick_def controller_answers split: motion_state.splits)
  next
    case (CallStop intent now)
    then show ?thesis
      using assms stop_justified [OF p assms(1), of intent now] by simp
  next
    case (CallZero now)
    then have "c' = snd (confirm_gate_zero now c)" using assms(2) by simp
    then show ?thesis using zero_justified [OF assms(1)] by simp
  next
    case (CallStart token st now)
    then have "c' = snd (controller_start token st now c)" using assms(2) by simp
    then show ?thesis using start_justified [OF p] by simp
  qed
qed

interpretation controller_command: invariant_machine "controller_step M" "command_justified M p"
  for M :: libm and p :: motion_policy
proof
  show "command_justified M p (controller_step M c call)" if "command_justified M p c" for c call
    using perform_justified [OF that] that by (auto simp: controller_step_def split: option.split)
qed

text \<open>The limits of the axis that moves.\<close>

definition slowest :: "controller \<Rightarrow> dbl" where
  "slowest c = (if rm_mode c = ModeMove then mp_move_min (rm_policy c) else mp_rotate_min (rm_policy c))"

definition binary64_limits :: "motion_policy \<Rightarrow> bool" where
  "binary64_limits p \<longleftrightarrow> binary64 (mp_move_min p) \<and> binary64 (mp_move_max p) \<and>
     binary64 (mp_rotate_min p) \<and> binary64 (mp_rotate_max p)"

lemma finite_positiveE: "finite_positive x \<Longrightarrow> (\<And>q. x = Fin q \<Longrightarrow> 0 < q \<Longrightarrow> P) \<Longrightarrow> P"
  by (cases x) (auto simp: finite_positive_def)

lemma signed_clamp:
  assumes "finite_positive lo" "finite_positive hi" "\<not> dlt hi lo" "binary64 lo" "binary64 hi" "v \<noteq> NaN"
  shows "dle lo (dabs (dmul (dsign e) (dclamp v lo hi)))"
    and "dle (dabs (dmul (dsign e) (dclamp v lo hi))) hi"
    and "dlt (dmul (dsign e) (dclamp v lo hi)) (Fin 0) \<longleftrightarrow> dlt e (Fin 0)"
proof -
  obtain a where a: "lo = Fin a" "0 < a" "round64 a = Fin a"
    using assms(1,4) by (auto elim: finite_positiveE)
  obtain b where b: "hi = Fin b" "round64 b = Fin b" using assms(2,5) by (auto elim: finite_positiveE)
  have ab: "dle lo hi" using assms(3) a b by simp
  obtain d where d: "dclamp v lo hi = Fin d" "a \<le> d" "d \<le> b"
    using dclamp_range [OF ab assms(6)] a b by (cases "dclamp v lo hi") auto
  obtain r where r: "round64 d = Fin r" "a \<le> r" "r \<le> b"
    using round64_between [of a d b] a b d by auto
  then have "dmul (dsign e) (dclamp v lo hi) = (if dlt e (Fin 0) then Fin (- r) else Fin r)"
    by (simp add: d dsign_def round64_neg)
  then show "dle lo (dabs (dmul (dsign e) (dclamp v lo hi)))"
    "dle (dabs (dmul (dsign e) (dclamp v lo hi))) hi"
    "dlt (dmul (dsign e) (dclamp v lo hi)) (Fin 0) \<longleftrightarrow> dlt e (Fin 0)"
    using a b r by auto
qed

lemma dabs_NaN [simp]: "dabs x = NaN \<longleftrightarrow> x = NaN"
  by (cases x) auto

lemma dmul_NaN_right [simp]: "dmul x NaN = NaN"
  by (cases x) auto

lemma dmul_scaled: "0 < k \<Longrightarrow> dmul (Fin k) x = NaN \<longleftrightarrow> x = NaN"
  by (cases x) (auto simp: dsigned_inf_def round64_def fround_def Let_def)

lemma demand_NaN: "rm_error c = NaN \<Longrightarrow> demand c = NaN"
  by (simp add: demand_def)

lemma speed_axis: "speed (c\<lparr>rm_command := axis_command c v\<rparr>) = v"
  by (simp add: speed_def axis_command_def)

lemma driving_speed:
  assumes "driving M c" "policy_valid (rm_policy c)" "binary64_limits (rm_policy c)"
  shows "rm_command c = axis_command c (speed c)"
    and "if rm_error c = NaN then speed c = NaN
      else dle (slowest c) (dabs (speed c)) \<and> dle (dabs (speed c)) (speed_limit c) \<and>
        (dlt (speed c) (Fin 0) \<longleftrightarrow> dlt (rm_error c) (Fin 0))"
proof -
  have speed: "speed c = dmul (dsign (rm_error c)) (demand c)"
    using assms(1) by (simp add: driving_def speed_def axis_command_def)
  then show "rm_command c = axis_command c (speed c)" using assms(1) by (simp add: driving_def)
  have v: "\<exists>v. demand c = dclamp v (slowest c) (speed_limit c) \<and> (v = NaN \<longleftrightarrow> rm_error c = NaN)"
    by (auto simp: demand_def slowest_def speed_limit_def dmul_scaled)
  have "finite_positive (slowest c)" "finite_positive (speed_limit c)" "\<not> dlt (speed_limit c) (slowest c)"
    "binary64 (slowest c)" "binary64 (speed_limit c)"
    using assms(2,3) by (auto simp: slowest_def speed_limit_def policy_valid_def binary64_limits_def)
  then show "if rm_error c = NaN then speed c = NaN
      else dle (slowest c) (dabs (speed c)) \<and> dle (dabs (speed c)) (speed_limit c) \<and>
        (dlt (speed c) (Fin 0) \<longleftrightarrow> dlt (rm_error c) (Fin 0))"
    using v signed_clamp [of "slowest c" "speed_limit c" _ "rm_error c"]
    by (auto simp: speed demand_NaN)
qed

lemma init_justified: "controller_init p = Inr c \<Longrightarrow> command_justified M p c \<and> policy_valid p"
  by (auto simp: controller_init_def command_justified_def split: if_splits)


subsection \<open>Completion\<close>

text \<open>
  Since a time \<open>s\<close> of the calls, nothing but odometry that is still, ticks and repeated
  confirmations happened; samples that are older than the zero of the Gate are not looked at.
\<close>

fun quiet_call :: "motion_policy \<Rightarrow> time \<Rightarrow> controller_call \<Rightarrow> bool" where
  "quiet_call p z (CallOdom o' now) \<longleftrightarrow> odom_still p o' \<or> now < z"
| "quiet_call p z (CallTick now) \<longleftrightarrow> True"
| "quiet_call p z (CallZero now) \<longleftrightarrow> True"
| "quiet_call p z _ \<longleftrightarrow> False"

definition still_since :: "motion_policy \<Rightarrow> controller_call list \<Rightarrow> time \<Rightarrow> time \<Rightarrow> bool" where
  "still_since p calls z s \<longleftrightarrow> (\<exists>pre call post. calls = pre @ call # post \<and> call_time call = s \<and>
     list_all (quiet_call p z) (call # post))"

lemma still_since_snoc:
  "still_since p calls z s \<Longrightarrow> quiet_call p z call \<Longrightarrow> still_since p (calls @ [call]) z s"
  by (force simp: still_since_def)

lemma still_since_now: "quiet_call p z call \<Longrightarrow> still_since p (calls @ [call]) z (call_time call)"
  by (force simp: still_since_def)

text \<open>What the controller knows while it waits for stationarity, and when it completes.\<close>

definition zero_confirmed :: "controller \<Rightarrow> controller_call list \<Rightarrow> time \<Rightarrow> bool" where
  "zero_confirmed c calls z \<longleftrightarrow> rm_gate_zero_at c = Some z \<and> CallZero z \<in> set calls \<and>
     (\<exists>r. rm_zero_at c = Some r \<and> z - r \<le> mp_zero_deadline (rm_policy c))"

definition waiting :: "motion_policy \<Rightarrow> controller_call list \<Rightarrow> controller \<Rightarrow> bool" where
  "waiting p calls c \<longleftrightarrow> (\<exists>z. zero_confirmed c calls z \<and>
     (\<forall>s. rm_still_since c = Some s \<longrightarrow> still_since p calls z s))"

lemma waitingI:
  "zero_confirmed c calls z \<Longrightarrow> (\<And>s. rm_still_since c = Some s \<Longrightarrow> still_since p calls z s) \<Longrightarrow>
   waiting p calls c"
  by (auto simp: waiting_def)

definition proven :: "motion_policy \<Rightarrow> controller_call list \<Rightarrow> time \<Rightarrow> controller \<Rightarrow> bool" where
  "proven p calls now c \<longleftrightarrow> (\<exists>z s t. zero_confirmed c calls z \<and> still_since p calls z s \<and>
     s + mp_still_window p \<le> now \<and> now < z + mp_still_deadline p \<and>
     rm_odom_at c = Some t \<and> z \<le> t \<and> now \<le> t + mp_liveness p \<and> odom_still p (rm_odom c))"

definition evidence :: "motion_policy \<Rightarrow> controller_call list \<Rightarrow> controller \<Rightarrow> bool" where
  "evidence p calls c \<longleftrightarrow> rm_policy c = p \<and> (rm_state c = StRunning \<longrightarrow> rm_zero_at c = None) \<and>
     (rm_state c = StZeroRequested \<longrightarrow> rm_zero_at c \<noteq> None) \<and>
     (rm_state c = StStationarity \<longrightarrow> waiting p calls c)"

lemma confirmed_snoc: "zero_confirmed c calls z \<Longrightarrow> zero_confirmed c (calls @ [call]) z"
  by (auto simp: zero_confirmed_def)

lemma stationarity_step:
  assumes "rm_policy d = p" "rm_state d = StStationarity" "zero_confirmed d calls z"
    and since: "\<And>s. rm_still_since d = Some s \<Longrightarrow> still_since p calls z s"
    and quiet: "odom_still p (rm_odom d) \<Longrightarrow> quiet_call p z call"
    and fresh: "quiet_call p z call \<or> rm_has_odom d \<and> (\<exists>t. rm_odom_at d = Some t \<and> z \<le> t)"
    and c': "c' = snd (evaluate_stationarity (call_time call) d)"
  shows "rm_policy c' = p \<and> (rm_state c' = StStationarity \<longrightarrow> waiting p (calls @ [call]) c') \<and>
    (rm_state c' = StCompleted \<longrightarrow> proven p (calls @ [call]) (call_time call) c') \<and>
    rm_state c' \<notin> {StRunning, StZeroRequested}"
proof -
  have z: "rm_gate_zero_at d = Some z" using assms(3) by (simp add: zero_confirmed_def)
  have pending: "waiting p (calls @ [call]) (d\<lparr>rm_command := m\<rparr>)" if "quiet_call p z call" for m
    using assms(3) since that still_since_snoc confirmed_snoc
    by (fastforce simp: waiting_def zero_confirmed_def)
  show ?thesis
  proof (cases "rm_has_odom d \<and> (\<exists>t. rm_odom_at d = Some t \<and> z \<le> t)")
    case False
    then have "quiet_call p z call" using fresh by blast
    then show ?thesis
      using False pending assms(1,2) z
      by (auto simp: c' evaluate_stationarity_def controller_answers Let_def split: option.split)
  next
    case True
    then obtain t where t: "rm_odom_at d = Some t" "z \<le> t" by blast
    define s where "s = (case rm_still_since d of None \<Rightarrow> call_time call | Some s \<Rightarrow> s)"
    have settled: "still_since p (calls @ [call]) z s" if "odom_still p (rm_odom d)"
      using quiet [OF that] since still_since_snoc still_since_now by (auto simp: s_def split: option.split)
    have c: "zero_confirmed (d\<lparr>rm_command := m, rm_still_since := s\<rparr>) (calls @ [call]) z"
      "zero_confirmed (d\<lparr>rm_command := m, rm_still_since := s, rm_state := x\<rparr>) (calls @ [call]) z" for m s x
      using assms(3) by (auto simp: zero_confirmed_def)
    show ?thesis
    proof (cases "odom_still p (rm_odom d)")
      case True
      show ?thesis
        using \<open>rm_has_odom d \<and> _\<close> t z assms(1,2) c settled [OF True] True
        by (simp add: c' evaluate_stationarity_def settle_def controller_answers Let_def waiting_def
          proven_def flip: s_def) fastforce
    next
      case False
      show ?thesis
        using \<open>rm_has_odom d \<and> _\<close> t z assms(1,2) c False
        by (auto simp: c' evaluate_stationarity_def settle_def controller_answers Let_def waiting_def)
    qed
  qed
qed

definition same_motion :: "controller \<Rightarrow> controller \<Rightarrow> bool" where
  "same_motion c d \<longleftrightarrow> rm_policy d = rm_policy c \<and> rm_state d = rm_state c \<and> rm_zero_at d = rm_zero_at c \<and>
     rm_started_at d = rm_started_at c \<and> rm_step d = rm_step c \<and> rm_mode d = rm_mode c"

text \<open>A running motion goes on, requests the zero of the Gate, or fails.\<close>

definition goes_further :: "time \<Rightarrow> controller \<Rightarrow> controller \<Rightarrow> bool" where
  "goes_further now c d \<longleftrightarrow> rm_policy d = rm_policy c \<and>
     (same_motion c d \<or> rm_state d = StZeroRequested \<and> rm_zero_at d = Some now \<or> rm_state d = StFailed)"

lemma further_stop:
  "same_motion c d \<Longrightarrow> rm_state c = StRunning \<Longrightarrow> goes_further now c (snd (request_safe_stop i now d))"
  by (auto simp: goes_further_def same_motion_def request_safe_stop_def plain_def Let_def)

lemma further_fail: "same_motion c d \<Longrightarrow> goes_further now c (snd (controller_fail f x d))"
  by (simp add: goes_further_def same_motion_def controller_fail_def Let_def)

lemma further_drive:
  "same_motion c d \<Longrightarrow> rm_state c = StRunning \<Longrightarrow> goes_further now c (snd (drive M now d))"
  using further_stop [of c d now IntentCompletion]
  by (auto simp: drive_def Let_def goes_further_def same_motion_def)

lemma further_advance:
  "rm_state c = StRunning \<Longrightarrow> goes_further now c (snd (advance M now c))"
proof -
  assume running: "rm_state c = StRunning"
  have "same_motion c (track M now c)" "same_motion c (track M now c\<lparr>rm_stall_at := t, rm_stall_start := a, rm_stall_best := b\<rparr>)" for t a b
    by (simp_all add: same_motion_def)
  then show ?thesis
    using running by (simp add: advance_def Let_def further_stop further_fail further_drive)
qed

lemma further_refl: "goes_further now c c"
  by (simp add: goes_further_def same_motion_def)

lemma running_states:
  assumes "evaluate_running M now c = Some (ev, c')" "rm_state c = StRunning"
  shows "goes_further now c c'"
    and "rm_state c' \<noteq> StFailed \<Longrightarrow>
      \<exists>t d. rm_started_at c = Some t \<and> step_deadline c = Some d \<and> now < t + d"
proof -
  have fail: "goes_further now c (snd (controller_fail f x c))" "rm_state (snd (controller_fail f x c)) = StFailed" for f x
    using further_fail [of c c] by (simp_all add: same_motion_def controller_fail_def Let_def)
  have c': "c' = snd (the (evaluate_running M now c))" using assms(1) by simp
  show "goes_further now c c'"
    using assms(1) unfolding c'
    by (simp add: evaluate_running_def fail further_refl further_advance [OF assms(2)] plain_def split: option.splits)
  show "\<exists>t d. rm_started_at c = Some t \<and> step_deadline c = Some d \<and> now < t + d" if "rm_state c' \<noteq> StFailed"
    using assms(1) that unfolding c'
    by (cases "rm_started_at c"; cases "step_deadline c") (simp_all add: evaluate_running_def fail split: if_splits)
qed

lemma command_irrelevant:
  "zero_overdue now (c\<lparr>rm_command := m\<rparr>) = zero_overdue now c"
  "evaluate_stationarity now (c\<lparr>rm_command := m\<rparr>) = evaluate_stationarity now c"
  by (simp_all add: zero_overdue_def evaluate_stationarity_def split: option.split)

text \<open>What a call that evaluates does, state by state.\<close>

lemma evaluate_states:
  assumes "evaluate M now c = Some (ev, c')"
  obtains (running) "rm_state c = StRunning" "evaluate_running M now (c\<lparr>rm_command := no_motion\<rparr>) = Some (ev, c')"
  | (zero) "rm_state c = StZeroRequested" "\<not> zero_overdue now c" "c' = c\<lparr>rm_command := no_motion\<rparr>"
  | (overdue) "rm_state c = StZeroRequested" "zero_overdue now c"
      "c' = c\<lparr>rm_state := StFailed, rm_command := no_motion\<rparr>"
  | (stationarity) "rm_state c = StStationarity" "c' = snd (evaluate_stationarity now c)"
  | (ended) "rm_state c \<in> {StIdle, StCompleted, StFailed}" "c' = c\<lparr>rm_command := no_motion\<rparr>"
  using assms
  by (cases "rm_state c"; cases "zero_overdue now c")
    (auto simp: evaluate_def command_irrelevant controller_answers Let_def)

lemma idle_evidence:
  "rm_policy c = p \<Longrightarrow> rm_state c \<in> {StIdle, StCompleted, StFailed} \<Longrightarrow> evidence p calls c"
  by (auto simp: evidence_def)

lemma fail_evidence: "rm_policy c = p \<Longrightarrow> evidence p calls (snd (controller_fail f d c))"
  by (auto simp: controller_fail_def Let_def intro: idle_evidence)

lemma waiting_snoc:
  "waiting p calls c \<Longrightarrow> (\<And>z. quiet_call p z call) \<Longrightarrow> waiting p (calls @ [call]) c"
  unfolding waiting_def by (blast intro: confirmed_snoc still_since_snoc)

text \<open>One step lemma for ticks and for samples the controller looks at.\<close>

definition looked_at :: "motion_policy \<Rightarrow> controller_call \<Rightarrow> controller \<Rightarrow> bool" where
  "looked_at p call d \<longleftrightarrow> (\<forall>z. rm_state d = StStationarity \<and> rm_gate_zero_at d = Some z \<longrightarrow>
     (odom_still p (rm_odom d) \<longrightarrow> quiet_call p z call) \<and>
     (quiet_call p z call \<or> rm_has_odom d \<and> (\<exists>t. rm_odom_at d = Some t \<and> z \<le> t)))"

lemma evaluate_evidence:
  assumes "evidence p calls d" "looked_at p call d" "evaluate M (call_time call) d = Some (ev, c')"
  shows "evidence p (calls @ [call]) c' \<and>
    (rm_state c' = StCompleted \<and> rm_state d \<noteq> StCompleted \<longrightarrow> proven p (calls @ [call]) (call_time call) c')"
  using assms(3)
proof (cases rule: evaluate_states)
  case running
  have "rm_zero_at d = None" "rm_policy d = p" using assms(1) running(1) by (simp_all add: evidence_def)
  then have "rm_policy c' = p" "rm_state c' = StRunning \<longrightarrow> rm_zero_at c' = None"
    "rm_state c' = StZeroRequested \<longrightarrow> rm_zero_at c' \<noteq> None"
    "rm_state c' \<noteq> StStationarity" "rm_state c' \<noteq> StCompleted"
    using running_states(1) [OF running(2)] running(1)
    by (auto simp: goes_further_def same_motion_def)
  then show ?thesis by (simp add: evidence_def)
next
  case stationarity
  obtain z where z: "zero_confirmed d calls z"
    "\<And>s. rm_still_since d = Some s \<Longrightarrow> still_since p calls z s"
    using assms(1) stationarity(1) by (auto simp: evidence_def waiting_def)
  have d: "rm_policy d = p" using assms(1) by (simp add: evidence_def)
  have l: "odom_still p (rm_odom d) \<longrightarrow> quiet_call p z call"
    "quiet_call p z call \<or> rm_has_odom d \<and> (\<exists>t. rm_odom_at d = Some t \<and> z \<le> t)"
    using assms(2) stationarity(1) z(1) by (auto simp: looked_at_def zero_confirmed_def)
  have "rm_policy c' = p \<and> (rm_state c' = StStationarity \<longrightarrow> waiting p (calls @ [call]) c') \<and>
    (rm_state c' = StCompleted \<longrightarrow> proven p (calls @ [call]) (call_time call) c') \<and>
    rm_state c' \<notin> {StRunning, StZeroRequested}"
    by (rule stationarity_step [OF d stationarity(1) z(1) z(2) l(1) [rule_format] l(2) stationarity(2)])
  then show ?thesis by (simp add: evidence_def)
qed (use assms(1) in \<open>auto simp: evidence_def\<close>)

lemma ignored_sample_evidence:
  assumes "evidence p calls c" "rm_state c = StStationarity" "rm_gate_zero_at c = Some z" "now < z"
  shows "evidence p (calls @ [CallOdom o' now]) c"
proof -
  obtain z' where z': "zero_confirmed c calls z'" "\<And>s. rm_still_since c = Some s \<Longrightarrow> still_since p calls z' s"
    using assms(1,2) by (auto simp: evidence_def waiting_def)
  then have "z' = z" using assms(3) by (simp add: zero_confirmed_def)
  then have "waiting p (calls @ [CallOdom o' now]) c"
    using assms(4) confirmed_snoc [OF z'(1)] still_since_snoc [OF z'(2)]
    by (intro waitingI [of _ _ z]) auto
  then show ?thesis using assms(1) by (simp add: evidence_def)
qed

lemma stop_evidence:
  "evidence p calls c \<Longrightarrow> evidence p (calls @ [CallStop i now]) (snd (request_safe_stop i now c))"
  by (auto simp: evidence_def request_safe_stop_def plain_def Let_def)

lemma zero_evidence:
  assumes "evidence p calls c" "0 < mp_zero_deadline p"
  shows "evidence p (calls @ [CallZero now]) (snd (confirm_gate_zero now c))"
proof (cases "rm_state c \<in> {StZeroRequested, StRunning} \<and> \<not> zero_overdue now c")
  case True
  then show ?thesis
    using assms by (auto simp: evidence_def confirm_gate_zero_def plain_def zero_overdue_def Let_def
      zero_confirmed_def intro!: waitingI [of _ _ now])
next
  case False
  have w: "rm_state c = StStationarity \<Longrightarrow> waiting p (calls @ [CallZero now]) c"
    using assms(1) waiting_snoc by (auto simp: evidence_def)
  show ?thesis
    using False w assms fail_evidence
    by (auto simp: evidence_def confirm_gate_zero_def plain_def zero_unproven_def Let_def)
qed

lemma tick_looked_at: "looked_at p (CallTick now) d"
  by (simp add: looked_at_def)

lemma odom_looked_at:
  assumes "take_odom M o' now c = Some d"
    "\<not> (rm_state c = StStationarity \<and> (case rm_gate_zero_at c of None \<Rightarrow> False | Some z \<Rightarrow> now < z))"
  shows "looked_at p (CallOdom o' now) d"
  using assms(2) take_odom_fields [OF assms(1)] by (auto simp: looked_at_def)

lemma odom_evidence:
  assumes "evidence p calls c" "observe_odom M o' now c = Some (ev, c')"
  shows "evidence p (calls @ [CallOdom o' now]) c' \<and>
    (rm_state c' = StCompleted \<and> rm_state c \<noteq> StCompleted \<longrightarrow>
      proven p (calls @ [CallOdom o' now]) now c')"
proof -
  have p: "rm_policy c = p" using assms(1) by (simp add: evidence_def)
  consider "rm_state c \<in> {StIdle, StCompleted}" "c' = c"
    | f d where "c' = snd (controller_fail f d c)"
    | z where "rm_state c = StStationarity" "rm_gate_zero_at c = Some z" "now < z" "c' = c"
    | d where "take_odom M o' now c = Some d" "evaluate M now d = Some (ev, c')"
        "\<not> (rm_state c = StStationarity \<and> (case rm_gate_zero_at c of None \<Rightarrow> False | Some z \<Rightarrow> now < z))"
  proof (cases "rm_state c \<in> {StIdle, StCompleted} \<or> \<not> valid_odom o'")
    have c': "c' = snd (the (observe_odom M o' now c))" using assms(2) by simp
    case True
    show ?thesis
    proof (cases "rm_state c \<in> {StIdle, StCompleted}")
      case True
      then show ?thesis using that(1) by (simp add: c' observe_odom_def plain_def)
    next
      case False
      with True show ?thesis by (intro that(2)) (simp add: c' observe_odom_def)
    qed
  next
    have c': "c' = snd (the (observe_odom M o' now c))" using assms(2) by simp
    case False
    show ?thesis
    proof (cases "rm_state c = StStationarity \<and> (case rm_gate_zero_at c of None \<Rightarrow> False | Some z \<Rightarrow> now < z)")
      case True
      then obtain z where z: "rm_gate_zero_at c = Some z" "now < z" by (auto split: option.splits)
      then have "c' = c" using True False by (simp add: c' observe_odom_def plain_def)
      then show ?thesis using that(3) True z by simp
    next
      case stale: False
      with False have "Option.bind (take_odom M o' now c) (evaluate M now) = Some (ev, c')"
        using assms(2) by (simp add: observe_odom_def if_not_P [OF stale])
      then show ?thesis using that(4) stale by (auto simp: bind_eq_Some_conv)
    qed
  qed
  then show ?thesis
  proof cases
    case 1
    then show ?thesis using idle_evidence [OF p] by auto
  next
    case 2
    then show ?thesis using fail_evidence [OF p] by (simp add: controller_fail_def Let_def)
  next
    case (3 z)
    then show ?thesis using ignored_sample_evidence [OF assms(1)] by simp
  next
    case (4 d)
    have "evidence p calls d = evidence p calls c"
      by (simp add: evidence_def waiting_def zero_confirmed_def take_odom_fields [OF 4(1)])
    then have "evidence p calls d" using assms(1) by simp
    then show ?thesis
      using evaluate_evidence [OF _ odom_looked_at [OF 4(1,3)], of p calls M ev c'] 4(2)
        take_odom_fields(2) [OF 4(1)] by simp
  qed
qed

lemma tick_evidence:
  assumes "evidence p calls c" "controller_tick M now c = Some (ev, c')"
  shows "evidence p (calls @ [CallTick now]) c' \<and>
    (rm_state c' = StCompleted \<and> rm_state c \<noteq> StCompleted \<longrightarrow> proven p (calls @ [CallTick now]) now c')"
proof (cases "rm_state c \<in> {StIdle, StFailed, StCompleted}")
  case True
  then have "c' = c" using assms(2) by (auto simp: controller_tick_def plain_def)
  then show ?thesis using True assms(1) by (auto simp: evidence_def)
next
  case False
  then have "evaluate M now c = Some (ev, c')"
    using assms(2) by (auto simp: controller_tick_def split: motion_state.splits)
  then show ?thesis
    using evaluate_evidence [OF assms(1) tick_looked_at, where M = M] by simp
qed

lemma perform_evidence:
  assumes "evidence p calls c" "perform M call c = Some (ev, c')" "0 < mp_zero_deadline p"
  shows "evidence p (calls @ [call]) c' \<and>
    (rm_state c' = StCompleted \<and> rm_state c \<noteq> StCompleted \<longrightarrow> proven p (calls @ [call]) (call_time call) c')"
proof (cases call)
  case (CallOdom o' now)
  then show ?thesis using odom_evidence [OF assms(1), of M o' now ev c'] assms(2) by simp
next
  case (CallTick now)
  then show ?thesis using tick_evidence [OF assms(1), of M now ev c'] assms(2) by simp
next
  case (CallStart token st now)
  then show ?thesis
    using assms(1,2) fail_evidence [of c p]
    by (auto simp: controller_start_def controller_answers evidence_def Let_def split: option.splits)
next
  case (CallStop i now)
  then show ?thesis
    using assms(2) stop_evidence [OF assms(1), of i now]
    by (auto simp: request_safe_stop_def plain_def Let_def split: if_splits)
next
  case (CallZero now)
  then show ?thesis
    using assms(2) zero_evidence [OF assms(1,3), of now]
    by (auto simp: confirm_gate_zero_def controller_answers Let_def split: if_splits)
qed

lemma history_evidence:
  assumes "controller_init p = Inr c0"
  shows "history M c0 calls = Some c \<Longrightarrow> evidence p calls c"
proof (induction calls arbitrary: c rule: rev_induct)
  case Nil
  then show ?case using assms by (auto simp: controller_init_def evidence_def split: if_splits)
next
  case (snoc call calls)
  have pos: "0 < mp_zero_deadline p"
    using assms by (auto simp: controller_init_def policy_valid_def split: if_splits)
  from snoc.prems obtain d ev where "history M c0 calls = Some d" "perform M call d = Some (ev, c)"
    by (auto simp: history_snoc bind_eq_Some_conv)
  then show ?case using perform_evidence [OF snoc.IH _ pos] by blast
qed

text \<open>
  C37: the controller reports a completed motion only with evidence. The zero of the Gate was
  confirmed at \<open>z\<close>, within its deadline; the completing call is before the stationarity deadline; a
  sample \<open>t\<close> taken after \<open>z\<close> is fresh and still; and from a call at \<open>s\<close> on, at least the stationarity
  window before, every sample it was given and looked at was still, and the motion was neither
  started again nor stopped.
\<close>

theorem completion_is_proven:
  assumes "controller_init p = Inr c0" and "history M c0 calls = Some c"
    and "perform M call c = Some (ev, c')" and "rm_state c \<noteq> StCompleted" and "rm_state c' = StCompleted"
  shows "\<exists>z s t. zero_confirmed c' (calls @ [call]) z \<and> call_time call < z + mp_still_deadline p \<and>
    rm_odom_at c' = Some t \<and> z \<le> t \<and> call_time call \<le> t + mp_liveness p \<and> odom_still p (rm_odom c') \<and>
    still_since p (calls @ [call]) z s \<and> s + mp_still_window p \<le> call_time call"
proof -
  have "0 < mp_zero_deadline p"
    using assms(1) by (auto simp: controller_init_def policy_valid_def split: if_splits)
  then have "proven p (calls @ [call]) (call_time call) c'"
    using perform_evidence [OF history_evidence [OF assms(1,2)] assms(3)] assms(4,5) by blast
  then show ?thesis unfolding proven_def by blast
qed

end
