(* ===== verification/Relative_Motion_Bounds.thy ===== *)
theory Relative_Motion_Bounds
  imports Relative_Motion_Spec
begin

text \<open>
  When the calls of the controller return and when its motion ends: the loop of \<open>normalize_angle\<close>,
  the deadline of a step, and the time by which a started motion is over.
\<close>

subsection \<open>A motion ends\<close>

definition ends_by :: "motion_policy \<Rightarrow> time \<Rightarrow> time \<Rightarrow> controller \<Rightarrow> bool" where
  "ends_by p d limit c \<longleftrightarrow> rm_policy c = p \<and>
     (rm_state c = StRunning \<longrightarrow> step_deadline c = Some d \<and> rm_zero_at c = None \<and>
       (\<exists>t. rm_started_at c = Some t \<and> t + d + mp_zero_deadline p + mp_still_deadline p \<le> limit)) \<and>
     (rm_state c = StZeroRequested \<longrightarrow>
       (\<exists>r. rm_zero_at c = Some r \<and> r + mp_zero_deadline p + mp_still_deadline p \<le> limit)) \<and>
     (rm_state c = StStationarity \<longrightarrow> (\<exists>z. rm_gate_zero_at c = Some z \<and> z + mp_still_deadline p \<le> limit))"

fun observing :: "time \<Rightarrow> time \<Rightarrow> controller_call \<Rightarrow> bool" where
  "observing std limit (CallOdom o' now) \<longleftrightarrow> True"
| "observing std limit (CallTick now) \<longleftrightarrow> True"
| "observing std limit (CallZero z) \<longleftrightarrow> z + std \<le> limit"
| "observing std limit _ \<longleftrightarrow> False"

lemma ended_ends: "rm_policy c = p \<Longrightarrow> \<not> controller_active c \<Longrightarrow> ends_by p d limit c"
  by (auto simp: ends_by_def controller_active_def)

lemma fail_ends: "rm_policy c = p \<Longrightarrow> ends_by p d limit (snd (controller_fail f x c))"
  by (intro ended_ends) (simp_all add: controller_fail_def controller_active_def Let_def)

lemma step_deadline_same:
  "rm_policy d = rm_policy c \<Longrightarrow> rm_step d = rm_step c \<Longrightarrow> rm_mode d = rm_mode c \<Longrightarrow>
   step_deadline d = step_deadline c"
  by (simp add: step_deadline_def target_magnitude_def speed_limit_def)

lemma ends_irrelevant:
  "rm_policy d = rm_policy c \<Longrightarrow> rm_step d = rm_step c \<Longrightarrow> rm_mode d = rm_mode c \<Longrightarrow>
   rm_state d = rm_state c \<Longrightarrow> rm_zero_at d = rm_zero_at c \<Longrightarrow> rm_gate_zero_at d = rm_gate_zero_at c \<Longrightarrow>
   rm_started_at d = rm_started_at c \<Longrightarrow> ends_by p k limit d = ends_by p k limit c"
  using step_deadline_same [of d c] by (simp add: ends_by_def)

lemma stationarity_ends:
  assumes "ends_by p d limit c" "rm_state c = StStationarity"
  shows "ends_by p d limit (snd (evaluate_stationarity now c))"
    and "limit \<le> now \<Longrightarrow> \<not> controller_active (snd (evaluate_stationarity now c))"
proof -
  obtain z where z: "rm_gate_zero_at c = Some z" "z + mp_still_deadline p \<le> limit" "rm_policy c = p"
    using assms by (auto simp: ends_by_def)
  have fail: "ends_by p d limit (snd (controller_fail f x (c\<lparr>rm_command := m\<rparr>)))" for f x m
    by (rule fail_ends) (simp add: z)
  have settle: "ends_by p d limit (snd (settle now (c\<lparr>rm_command := m\<rparr>)))" for m
    using z assms(2) by (simp add: settle_def plain_def Let_def ends_by_def)
  have same: "ends_by p d limit (c\<lparr>rm_command := m\<rparr>)" for m
    using assms(1) ends_irrelevant [of "c\<lparr>rm_command := m\<rparr>" c p d limit] by simp
  show "ends_by p d limit (snd (evaluate_stationarity now c))"
    by (simp add: evaluate_stationarity_def Let_def fail settle same plain_def split: option.split)
  show "\<not> controller_active (snd (evaluate_stationarity now c))" if "limit \<le> now"
    using z that by (simp add: evaluate_stationarity_def controller_fail_def controller_active_def Let_def)
qed

lemma evaluate_ends:
  assumes "ends_by p d limit c" "evaluate M now c = Some (ev, c')" "0 < mp_zero_deadline p" "0 < mp_still_deadline p"
  shows "ends_by p d limit c'" and "limit \<le> now \<Longrightarrow> \<not> controller_active c'"
proof -
  have "ends_by p d limit c' \<and> (limit \<le> now \<longrightarrow> \<not> controller_active c')"
    using assms(2)
  proof (cases rule: evaluate_states)
    case running
    let ?c = "c\<lparr>rm_command := no_motion\<rparr>"
    obtain t where t: "rm_started_at c = Some t" "t + d + mp_zero_deadline p + mp_still_deadline p \<le> limit"
      "step_deadline ?c = Some d" "rm_policy c = p"
      using assms(1) running(1) step_deadline_same [of ?c c] by (auto simp: ends_by_def)
    have further: "goes_further now ?c c'" using running_states(1) [OF running(2)] running(1) by simp
    show ?thesis
    proof (cases "rm_state c' = StFailed")
      case True
      then show ?thesis using further t(4) by (simp add: ended_ends controller_active_def goes_further_def)
    next
      case False
      then have now: "now < t + d"
        using running_states(2) [OF running(2)] running(1) t by auto
      have "\<not> limit \<le> now" using now t assms(3,4) by linarith
      moreover have "ends_by p d limit c'"
      proof (cases "same_motion ?c c'")
        case True
        have e: "ends_by p d limit ?c" using assms(1) ends_irrelevant [of ?c c p d limit] by simp
        have "rm_state c' = StRunning" using True running(1) by (simp add: same_motion_def)
        then show ?thesis
          using e True running(1) step_deadline_same [of c' ?c] by (simp add: ends_by_def same_motion_def)
      next
        case other: False
        then show ?thesis
          using further False now t by (simp add: goes_further_def ends_by_def)
      qed
      ultimately show ?thesis by simp
    qed
  next
    case zero
    then obtain r where r: "rm_zero_at c = Some r" "r + mp_zero_deadline p + mp_still_deadline p \<le> limit"
      "rm_policy c = p"
      using assms(1) by (auto simp: ends_by_def)
    have "now - r \<le> mp_zero_deadline p" using zero(2) r by (simp add: zero_overdue_def)
    then show ?thesis
      using r zero assms(4) by (simp add: ends_by_def)
  next
    case overdue
    then show ?thesis using assms(1) by (simp add: ends_by_def controller_active_def)
  next
    case stationarity
    then show ?thesis using stationarity_ends [OF assms(1)] by simp
  next
    case ended
    then show ?thesis using assms(1) by (auto simp: ends_by_def controller_active_def)
  qed
  then show "ends_by p d limit c'" "limit \<le> now \<Longrightarrow> \<not> controller_active c'" by simp_all
qed

lemma observe_ends:
  assumes "ends_by p d limit c" "observe_odom M o' now c = Some (ev, c')" "0 < mp_zero_deadline p" "0 < mp_still_deadline p"
  shows "ends_by p d limit c'"
proof -
  have "rm_policy c = p" using assms(1) by (simp add: ends_by_def)
  with assms(2) show ?thesis
  proof (cases rule: observe_odomE)
    case (evaluated e)
    have "ends_by p d limit e"
      using assms(1) ends_irrelevant [of e c p d limit] take_odom_fields [OF evaluated(1)] by simp
    then show ?thesis using evaluate_ends(1) [OF _ evaluated(2) assms(3,4)] by simp
  qed (use assms(1) fail_ends in auto)
qed

lemma zero_ends:
  assumes "ends_by p d limit c" "z + mp_still_deadline p \<le> limit"
  shows "ends_by p d limit (snd (confirm_gate_zero z c))"
  using assms fail_ends [of c p d limit]
  by (auto simp: confirm_gate_zero_def plain_def zero_unproven_def ends_by_def Let_def)

lemma perform_ends:
  assumes "ends_by p d limit c" "observing (mp_still_deadline p) limit call"
    "perform M call c = Some (ev, c')" "0 < mp_zero_deadline p" "0 < mp_still_deadline p"
  shows "ends_by p d limit c'"
proof (cases call)
  case (CallTick now)
  show ?thesis
  proof (cases "controller_active c")
    case True
    then have "evaluate M now c = Some (ev, c')"
      using assms(3) CallTick by (auto simp: controller_tick_def controller_active_def split: motion_state.splits)
    then show ?thesis using evaluate_ends(1) [OF assms(1) _ assms(4,5)] by simp
  next
    case False
    then have "c' = c"
      using assms(3) CallTick by (auto simp: controller_tick_def controller_active_def plain_def split: motion_state.splits)
    then show ?thesis using assms(1) by simp
  qed
next
  case (CallOdom o' now)
  then show ?thesis using observe_ends [OF assms(1) _ assms(4,5)] assms(3) by simp
next
  case (CallZero z)
  then show ?thesis using zero_ends [OF assms(1), of z] assms(2,3) by simp
qed (use assms(2) in simp_all)

lemma history_ends:
  assumes "0 < mp_zero_deadline p" "0 < mp_still_deadline p"
  shows "ends_by p d limit c \<Longrightarrow> list_all (observing (mp_still_deadline p) limit) calls \<Longrightarrow>
    history M c calls = Some c' \<Longrightarrow> ends_by p d limit c'"
proof (induction calls arbitrary: c)
  case (Cons call calls)
  obtain ev b where b: "perform M call c = Some (ev, b)" "history M b calls = Some c'"
    using Cons.prems(3) by (auto simp: bind_eq_Some_conv)
  have "ends_by p d limit b" using perform_ends [OF Cons.prems(1) _ b(1) assms] Cons.prems(2) by simp
  then show ?case using Cons.IH b(2) Cons.prems(2) by simp
qed simp

lemma init_policy:
  assumes "controller_init p = Inr c0"
  shows "policy_valid p" and "history M c0 calls = Some c \<Longrightarrow> rm_policy c = p"
  using history_evidence [OF assms, of M calls c] assms
  by (auto simp: evidence_def controller_init_def split: if_splits)


subsection \<open>The loops of the angle\<close>

lemma round64_pi: "round64 (884279719003555 / 281474976710656) = k_pi"
  "round64 (884279719003555 / 140737488355328) = k_two_pi"
  "round64 (- (884279719003555 / 281474976710656)) = dneg k_pi"
proof -
  have e: "(884279719003555 / 281474976710656 :: rat) = of_int 884279719003555 * 2 powi (- 48)"
    "(884279719003555 / 140737488355328 :: rat) = of_int 884279719003555 * 2 powi (- 47)"
    by (simp_all add: power_int_def power_one_over)
  show "round64 (884279719003555 / 281474976710656) = k_pi"
    "round64 (884279719003555 / 140737488355328) = k_two_pi"
    unfolding k_pi_def k_two_pi_def unfolding e by (rule round64_exact; simp)+
  then show "round64 (- (884279719003555 / 281474976710656)) = dneg k_pi"
    by (simp add: round64_neg)
qed

text \<open>The constant of the program is the literal, rounded.\<close>

lemma k_pi_literal: "round64 (31415926535897932384626433832795 / 10 ^ 31) = k_pi"
proof -
  have "ilog2 (31415926535897932384626433832795 / 10 ^ 31) = 1"
    by (rule ilog2_unique) (simp_all add: power_int_def)
  then have "fround 53 (- 1022) 1023 (31415926535897932384626433832795 / 10 ^ 31)
      = Fin (of_int 7074237752028440 * (1 / 2251799813685248))"
    by (intro fround_eqI [where e = 1]) (simp_all add: power_int_def power_one_over)
  then show ?thesis by (simp add: round64_def k_pi_def)
qed

abbreviation pi64 :: rat where "pi64 \<equiv> 884279719003555 / 281474976710656"

lemma unwrap_once:
  "pi64 < q \<Longrightarrow> q \<le> 2 * pi64 \<Longrightarrow> \<exists>r. dsub (Fin q) k_two_pi = Fin r \<and> - pi64 \<le> r \<and> r \<le> 0"
  "- (2 * pi64) \<le> q \<Longrightarrow> q < - pi64 \<Longrightarrow> \<exists>r. dadd (Fin q) k_two_pi = Fin r \<and> 0 \<le> r \<and> r \<le> pi64"
  using round64_between [of "- pi64" "q - 2 * pi64" 0] round64_between [of 0 "q + 2 * pi64" pi64] round64_pi
  by (simp_all add: dsub_def k_two_pi_def k_pi_def)

lemma normalize_once:
  assumes "- (2 * pi64) \<le> q" "q \<le> 2 * pi64"
  shows "\<exists>r. normalize_angle (Fin q) = Some (Fin r) \<and> - pi64 \<le> r \<and> r \<le> pi64"
proof -
  consider "pi64 < q" | "q < - pi64" | "- pi64 \<le> q" "q \<le> pi64" by linarith
  then show ?thesis
  proof cases
    case 1
    with unwrap_once(1) [OF _ assms(2)] obtain r where "dsub (Fin q) k_two_pi = Fin r" "- pi64 \<le> r" "r \<le> 0" by auto
    then show ?thesis using 1
      by (simp add: normalize_angle_def while_option_unfold k_pi_def)
  next
    case 2
    with unwrap_once(2) [OF assms(1)] obtain r where "dadd (Fin q) k_two_pi = Fin r" "0 \<le> r" "r \<le> pi64" by auto
    then show ?thesis using 2
      by (simp add: normalize_angle_def while_option_unfold k_pi_def)
  next
    case 3
    then show ?thesis
      by (simp add: normalize_angle_def while_option_unfold k_pi_def)
  qed
qed

definition yaw_in_range :: "dbl \<Rightarrow> bool" where
  "yaw_in_range y \<longleftrightarrow> dle (dneg k_pi) y \<and> dle y k_pi"

lemma normalize_returns:
  assumes "yaw_in_range a" "yaw_in_range b"
  shows "\<exists>r. normalize_angle (dsub a b) = Some r \<and> yaw_in_range r"
proof -
  obtain x y where xy: "a = Fin x" "b = Fin y" "\<bar>x\<bar> \<le> pi64" "\<bar>y\<bar> \<le> pi64"
    using assms by (cases a; cases b) (auto simp: yaw_in_range_def k_pi_def abs_le_iff)
  then have "- (2 * pi64) \<le> x - y" "x - y \<le> 2 * pi64" by (simp_all add: abs_le_iff)
  moreover have "round64 (2 * pi64) = Fin (2 * pi64)" "round64 (- (2 * pi64)) = Fin (- (2 * pi64))"
    using round64_pi(2) by (simp_all add: k_two_pi_def round64_neg)
  ultimately obtain q where q: "round64 (x - y) = Fin q" "- (2 * pi64) \<le> q" "q \<le> 2 * pi64"
    using round64_between by blast
  obtain r where "normalize_angle (Fin q) = Some (Fin r)" "- pi64 \<le> r" "r \<le> pi64"
    using normalize_once [OF q(2,3)] by blast
  then show ?thesis
    using q by (auto simp: xy dsub_def yaw_in_range_def k_pi_def)
qed

text \<open>A difference of the size of \<open>2^60\<close> absorbs the subtraction: the loop never ends.\<close>

lemma normalize_diverges: "normalize_angle (Fin (2 ^ 60)) = None"
proof -
  have e: "ilog2 \<bar>2 ^ 60 - 2 * pi64\<bar> = 59" by (rule ilog2_unique) (simp_all add: power_int_def)
  have "fround 53 (- 1022) 1023 (2 ^ 60 - 2 * pi64) = Fin (of_int 9007199254740992 * 128)"
    by (rule fround_eqI [OF e]) (simp_all add: power_int_def)
  then have step: "dsub (Fin (2 ^ 60)) k_two_pi = Fin (2 ^ 60)"
    by (simp add: dsub_def k_two_pi_def round64_def)
  have "((\<lambda>r. dsub r k_two_pi) ^^ n) (Fin (2 ^ 60)) = Fin (2 ^ 60)" for n
    by (induction n) (simp_all add: step [simplified])
  then have "while_option (\<lambda>r. dlt k_pi r) (\<lambda>r. dsub r k_two_pi) (Fin (2 ^ 60)) = None"
    by (simp add: while_option_def k_pi_def)
  then show ?thesis by (simp add: normalize_angle_def)
qed

subsection \<open>Every call returns\<close>

text \<open>
  The bounds under which a step has a deadline; the runtime admits only steps far below them. The
  adapter computes the yaw by \<open>std::atan2\<close>, whose results are in range.
\<close>

definition step_bounded :: "mission_step \<Rightarrow> bool" where
  "step_bounded st \<longleftrightarrow> dle (dabs (ms_distance st)) (Fin 1024) \<and> dle (dabs (ms_angle st)) (Fin 1024)"

definition policy_bounded :: "motion_policy \<Rightarrow> bool" where
  "policy_bounded p \<longleftrightarrow> dle (Fin (1 / 1024)) (mp_move_max p) \<and> dle (Fin (1 / 1024)) (mp_rotate_max p)"

lemma deadline_defined:
  assumes "policy_valid (rm_policy c)" "policy_bounded (rm_policy c)" "step_bounded (rm_step c)"
  shows "\<exists>d. step_deadline c = Some d"
proof -
  obtain m where m: "target_magnitude c = Fin m" "0 \<le> m" "m \<le> 1024"
  proof -
    have "\<exists>x. target_magnitude c = dabs x \<and> dle (dabs x) (Fin 1024)"
      using assms(3) by (auto simp: step_bounded_def target_magnitude_def)
    then obtain x where "target_magnitude c = dabs x" "dle (dabs x) (Fin 1024)" by blast
    then show thesis using that by (cases x) auto
  qed
  obtain l where l: "speed_limit c = Fin l" "1 / 1024 \<le> l"
  proof -
    have "finite_positive (speed_limit c)" "dle (Fin (1 / 1024)) (speed_limit c)"
      using assms(1,2) by (auto simp: policy_valid_def policy_bounded_def speed_limit_def)
    then show thesis using that by (auto elim: finite_positiveE)
  qed
  have pow: "round64 (2 ^ 12) = Fin (2 ^ 12)" "round64 (2 ^ 22) = Fin (2 ^ 22)"
    "round64 (2 ^ 23) = Fin (2 ^ 23)" "round64 (2 ^ 33) = Fin (2 ^ 33)"
    by (rule round64_nat_power; simp)+
  obtain a where a: "dmul (Fin (5 / 2)) (Fin m) = Fin a" "0 \<le> a" "a \<le> 2 ^ 12"
    using round64_between [of 0 "5 / 2 * m" "2 ^ 12"] pow m by auto
  have "a / l \<le> a / (1 / 1024)" using l a by (intro divide_left_mono) auto
  then have "0 \<le> a / l" "a / l \<le> 2 ^ 22" using a l by auto
  then obtain b where b: "ddiv (Fin a) (Fin l) = Fin b" "0 \<le> b" "b \<le> 2 ^ 22"
    using round64_between [of 0 "a / l" "2 ^ 22"] pow l by auto
  obtain e where e: "dadd (Fin 2) (Fin b) = Fin e" "0 \<le> e" "e \<le> 2 ^ 23"
    using round64_between [of 0 "2 + b" "2 ^ 23"] pow b by auto
  obtain f where f: "dmul (Fin e) (Fin 1000) = Fin f" "0 \<le> f" "f \<le> 2 ^ 33"
    using round64_between [of 0 "e * 1000" "2 ^ 33"] pow e by auto
  have "f < 2 ^ 63" using f(3) by (rule le_less_trans) simp
  then show ?thesis
    using to_int64_bounded [OF f(2)] unfolding step_deadline_def m(1) l(1) a(1) b(1) e(1) f(1) by simp
qed

definition sane :: "motion_policy \<Rightarrow> controller \<Rightarrow> bool" where
  "sane p c \<longleftrightarrow> rm_policy c = p \<and> step_bounded (rm_step c) \<and> (rm_has_odom c \<longrightarrow> yaw_in_range (rm_last_yaw c))"

definition same_frame :: "controller \<Rightarrow> controller \<Rightarrow> bool" where
  "same_frame c d \<longleftrightarrow> rm_policy d = rm_policy c \<and> rm_step d = rm_step c \<and> rm_has_odom d = rm_has_odom c \<and>
     rm_last_yaw d = rm_last_yaw c"

lemma sane_frame: "sane p c \<Longrightarrow> same_frame c d \<Longrightarrow> sane p d"
  by (simp add: sane_def same_frame_def)

lemma frame_stop: "same_frame c d \<Longrightarrow> same_frame c (snd (request_safe_stop i now d))"
  by (simp add: same_frame_def request_safe_stop_def plain_def Let_def)

lemma frame_fail: "same_frame c d \<Longrightarrow> same_frame c (snd (controller_fail f x d))"
  by (simp add: same_frame_def controller_fail_def Let_def)

lemma frame_plain: "same_frame c d \<Longrightarrow> same_frame c (snd (plain k d))"
  by (simp add: plain_def)

lemma frame_drive: "same_frame c d \<Longrightarrow> same_frame c (snd (drive M now d))"
  using frame_stop [of c d IntentCompletion now] by (simp add: drive_def Let_def same_frame_def)

lemma frame_advance: "same_frame c (snd (advance M now c))"
proof -
  have t: "same_frame c (track M now c)" by (simp add: same_frame_def track_def Let_def)
  then have "same_frame c (track M now c\<lparr>rm_stall_at := u, rm_stall_start := a, rm_stall_best := b\<rparr>)" for u a b
    by (simp add: same_frame_def)
  then show ?thesis using t by (simp add: advance_def Let_def frame_stop frame_fail frame_drive)
qed

lemma frame_stationarity: "same_frame c (snd (evaluate_stationarity now c))"
  by (simp add: evaluate_stationarity_def settle_def plain_def controller_fail_def same_frame_def Let_def
    split: option.split)

lemma frame_trans: "same_frame b c \<Longrightarrow> same_frame c d \<Longrightarrow> same_frame b d"
  by (simp add: same_frame_def)

lemma frame_command: "same_frame c (c\<lparr>rm_command := m\<rparr>)" "same_frame (c\<lparr>rm_command := m\<rparr>) d = same_frame c d"
  by (simp_all add: same_frame_def)

lemma frame_running:
  "evaluate_running M now c = Some (ev, c') \<Longrightarrow> same_frame c c'"
proof -
  assume *: "evaluate_running M now c = Some (ev, c')"
  have r: "same_frame c c" by (simp add: same_frame_def)
  have c': "c' = snd (the (evaluate_running M now c))" using * by simp
  show ?thesis
    using * unfolding c'
    by (simp add: evaluate_running_def r frame_fail frame_plain frame_advance split: option.splits)
qed

lemma frame_evaluate:
  assumes "evaluate M now c = Some (ev, c')"
  shows "same_frame c c'"
  using assms
proof (cases rule: evaluate_states)
  case running
  then show ?thesis using frame_running [OF running(2)] frame_command(2) by simp
next
  case stationarity
  then show ?thesis using frame_stationarity by simp
qed (simp_all add: same_frame_def)

lemma evaluate_returns:
  assumes "sane p c" "policy_valid p" "policy_bounded p"
  shows "\<exists>ev c'. evaluate M now c = Some (ev, c') \<and> sane p c'"
proof -
  have "\<exists>d. step_deadline (c\<lparr>rm_command := no_motion\<rparr>) = Some d"
    using assms by (intro deadline_defined) (simp_all add: sane_def)
  then have "\<exists>r. evaluate M now c = Some r"
    by (auto simp: evaluate_def evaluate_running_def Let_def split: motion_state.split option.split)
  then obtain ev c' where r: "evaluate M now c = Some (ev, c')" by fastforce
  then show ?thesis using sane_frame [OF assms(1) frame_evaluate [OF r]] by blast
qed

lemma take_odom_returns:
  assumes "sane p c" "yaw_in_range (od_yaw o')"
  shows "\<exists>d. take_odom M o' now c = Some d \<and> sane p d"
proof (cases "rm_has_odom c \<and> rm_mode c = ModeRotate")
  case True
  then have "yaw_in_range (rm_last_yaw c)" using assms(1) by (simp add: sane_def)
  from normalize_returns [OF assms(2) this] obtain r where
    "normalize_angle (dsub (od_yaw o') (rm_last_yaw c)) = Some r" by blast
  then show ?thesis using True assms by (simp add: take_odom_def sane_def Let_def)
next
  case False
  then show ?thesis using assms by (auto simp: take_odom_def sane_def Let_def)
qed

fun sane_call :: "controller_call \<Rightarrow> bool" where
  "sane_call (CallStart token st now) \<longleftrightarrow> step_bounded st"
| "sane_call (CallOdom o' now) \<longleftrightarrow> yaw_in_range (od_yaw o')"
| "sane_call _ \<longleftrightarrow> True"

lemma observe_returns:
  assumes "sane p c" "yaw_in_range (od_yaw o')" "policy_valid p" "policy_bounded p"
  shows "\<exists>ev c'. observe_odom M o' now c = Some (ev, c') \<and> sane p c'"
proof -
  obtain d where d: "take_odom M o' now c = Some d" "sane p d" using take_odom_returns [OF assms(1,2)] by blast
  then show ?thesis
    using evaluate_returns [OF d(2) assms(3,4), of M now] assms(1) frame_fail [of c c]
    by (auto simp: observe_odom_def plain_def controller_fail_def sane_def Let_def)
qed

lemma perform_returns:
  assumes "sane p c" "sane_call call" "policy_valid p" "policy_bounded p"
  shows "\<exists>ev c'. perform M call c = Some (ev, c') \<and> sane p c'"
proof (cases call)
  case (CallOdom o' now)
  then show ?thesis using observe_returns [OF assms(1) _ assms(3,4)] assms(2) by simp
next
  case (CallTick now)
  then show ?thesis
    using evaluate_returns [OF assms(1,3,4), of M now] assms(1)
    by (auto simp: controller_tick_def plain_def split: motion_state.split)
next
  case (CallStart token st now)
  then show ?thesis using assms(1,2)
    by (auto simp: controller_start_def plain_def controller_fail_def sane_def Let_def split: option.split)
next
  case (CallStop i now)
  then show ?thesis using assms(1)
    by (auto simp: request_safe_stop_def plain_def sane_def Let_def)
next
  case (CallZero now)
  then show ?thesis using assms(1)
    by (auto simp: confirm_gate_zero_def plain_def zero_unproven_def controller_fail_def sane_def Let_def)
qed

text \<open>
  C39: with a policy and steps of ordinary size and yaws between \<open>-pi\<close> and \<open>pi\<close>, every call of
  every history returns: the loops of the angle end and the deadline fits its integer.
\<close>

theorem calls_return:
  assumes "controller_init p = Inr c0" and "policy_bounded p" and "list_all sane_call calls"
  shows "\<exists>c. history M c0 calls = Some c"
proof -
  have "\<exists>c'. history M c calls = Some c'" if "sane p c" for c
    using that assms(3)
  proof (induction calls arbitrary: c)
    case (Cons call calls)
    obtain ev d where d: "perform M call c = Some (ev, d)" "sane p d"
      using perform_returns [OF Cons.prems(1) _ init_policy(1) [OF assms(1)] assms(2),
        where call = call and M = M] Cons.prems(2) by auto
    then show ?case using Cons.IH [OF d(2)] Cons.prems(2) by simp
  qed simp
  moreover have "sane p c0"
    using assms(1) by (auto simp: controller_init_def sane_def step_bounded_def no_step_def split: if_splits)
  ultimately show ?thesis by blast
qed

end
