(* ===== verification/Relative_Motion_Runs.thy ===== *)
theory Relative_Motion_Runs
  imports Relative_Motion_Bounds
begin

text \<open>
  Concrete runs of the controller of relative motion: a move of one metre along the x axis, and
  the corner cases of its arithmetic.
\<close>

definition demo_policy :: motion_policy where
  "demo_policy = \<lparr>mp_move_tolerance = Fin (1 / 16), mp_rotate_tolerance = Fin (1 / 16),
     mp_move_min = Fin (1 / 16), mp_move_max = Fin (1 / 4), mp_rotate_min = Fin (1 / 8),
     mp_rotate_max = Fin (3 / 4), mp_still_linear = Fin (1 / 128), mp_still_angular = Fin (1 / 64),
     mp_move_improvement = Fin (1 / 128), mp_rotate_improvement = Fin (1 / 64),
     mp_liveness = ms 200, mp_stall_window = ms 1000, mp_zero_deadline = ms 300,
     mp_still_window = ms 200, mp_still_deadline = ms 1200\<rparr>"

definition demo_libm :: libm where
  "demo_libm = \<lparr>lm_cos = (\<lambda>_. Fin 1), lm_sin = (\<lambda>_. Fin 0)\<rparr>"

definition idle_controller :: controller where
  "idle_controller = \<lparr>rm_policy = demo_policy, rm_token = no_token, rm_step = no_step, rm_mode = ModeNone,
     rm_state = StIdle, rm_intent = IntentCompletion, rm_command = no_motion, rm_odom = no_odom,
     rm_has_odom = False, rm_start_x = Fin 0, rm_start_y = Fin 0, rm_start_yaw = Fin 0,
     rm_last_yaw = Fin 0, rm_unwrapped = Fin 0, rm_error = Fin 0, rm_progress = Fin 0,
     rm_stall_start = Fin 0, rm_stall_best = Fin 0, rm_started_at = None, rm_stall_at = None,
     rm_odom_at = None, rm_zero_at = None, rm_gate_zero_at = None, rm_still_since = None\<rparr>"

definition demo_move :: mission_step where
  "demo_move = \<lparr>ms_kind = k_move, ms_distance = Fin 1, ms_angle = Fin 0, ms_target = []\<rparr>"

definition at_x :: "rat \<Rightarrow> motion_odom" where "at_x x = no_odom\<lparr>od_x := Fin x\<rparr>"
definition at_y :: "rat \<Rightarrow> motion_odom" where "at_y y = no_odom\<lparr>od_y := Fin y\<rparr>"

lemma demo_init: "controller_init demo_policy = Inr idle_controller"
  by (simp add: controller_init_def idle_controller_def policy_valid_def demo_policy_def
    finite_positive_def ms_def)

lemma demo_rounds [simp]:
  "round64 1 = Fin 1" "round64 (1 / 4) = Fin (1 / 4)" "round64 (5 / 2) = Fin (5 / 2)"
  "round64 10 = Fin 10" "round64 12 = Fin 12" "round64 12000 = Fin 12000"
  "round64 (1 / 16) = Fin (1 / 16)" "round64 (1 / 8) = Fin (1 / 8)" "round64 (3 / 4) = Fin (3 / 4)"
  using round64_exact [of 1 0] round64_exact [of 1 "- 2"] round64_exact [of 5 "- 1"]
    round64_exact [of 10 0] round64_exact [of 12 0] round64_exact [of 12000 0]
    round64_exact [of 1 "- 4"] round64_exact [of 1 "- 3"] round64_exact [of 3 "- 2"]
  by (simp_all add: power_int_def power_one_over)

lemmas run_defs = idle_controller_def demo_policy_def demo_libm_def demo_move_def k_move_def at_x_def at_y_def
  no_odom_def no_motion_def
  controller_start_def valid_motion_step_def observe_odom_def valid_odom_def take_odom_def evaluate_def
  evaluate_running_def advance_def track_def drive_def motion_error_def target_magnitude_def
  motion_tolerance_def stall_window_over_def speed_limit_def dsign_def dclamp_def dmax_def dsub_def
  request_safe_stop_def confirm_gate_zero_def zero_overdue_def evaluate_stationarity_def settle_def
  odom_still_def controller_answers ms_def Let_def

lemma demo_deadline:
  "rm_mode c = ModeMove \<Longrightarrow> rm_step c = demo_move \<Longrightarrow> rm_policy c = demo_policy \<Longrightarrow>
   step_deadline c = Some (ms 12000)"
  by (simp add: step_deadline_def target_magnitude_def speed_limit_def demo_move_def demo_policy_def
    to_int64_def)

definition started :: controller where
  "started = snd (controller_start no_token demo_move 0 idle_controller)"

definition demo_drive :: "controller_call list" where
  "demo_drive = [CallStart no_token demo_move 0, CallOdom (at_x 0) (ms 10)]"

lemma started_deadline [simp]:
  "rm_state started = StRunning" "step_deadline started = Some (ms 12000)"
  by (simp_all add: started_def run_defs step_deadline_def to_int64_def)

definition moving :: controller where
  "moving = started\<lparr>rm_odom := at_x 0, rm_has_odom := True, rm_stall_at := Some (ms 10),
     rm_odom_at := Some (ms 10), rm_stall_start := Fin 1, rm_stall_best := Fin 1, rm_error := Fin 1,
     rm_command := \<lparr>mc_linear = Fin (1 / 4), mc_angular = Fin 0\<rparr>\<rparr>"

lemma demo_drive_history: "history demo_libm idle_controller demo_drive = Some moving"
  by (simp add: demo_drive_def moving_def started_def demo_deadline run_defs step_deadline_def to_int64_def)


text \<open>The move is cancelled, the zero of the Gate confirmed, and three samples show that it is still.\<close>

definition demo_cancel :: "controller_call list" where
  "demo_cancel = demo_drive @ [CallStop IntentCancel (ms 20), CallZero (ms 30), CallOdom (at_x 0) (ms 40),
     CallOdom (at_x 0) (ms 140)]"

definition settling :: controller where
  "settling = moving\<lparr>rm_intent := IntentCancel, rm_state := StStationarity, rm_command := no_motion,
     rm_zero_at := Some (ms 20), rm_gate_zero_at := Some (ms 30), rm_odom_at := Some (ms 140),
     rm_still_since := Some (ms 40)\<rparr>"

lemma demo_cancel_history: "history demo_libm idle_controller demo_cancel = Some settling"
proof -
  have "history M c (xs @ ys) = Option.bind (history M c xs) (\<lambda>d. history M d ys)" for M c xs ys
    by (induction xs arbitrary: c) (auto split: bind_splits)
  then show ?thesis
    by (simp add: demo_cancel_def demo_drive_history settling_def)
      (simp add: moving_def started_def run_defs)
qed

theorem completion_is_proven_witness:
  "rm_state (controller_step demo_libm settling (CallOdom (at_x 0) (ms 240))) = StCompleted \<and>
   odom_still demo_policy (rm_odom (controller_step demo_libm settling (CallOdom (at_x 0) (ms 240))))"
proof -
  define c' where "c' = controller_step demo_libm settling (CallOdom (at_x 0) (ms 240))"
  obtain ev d where e: "perform demo_libm (CallOdom (at_x 0) (ms 240)) settling = Some (ev, d)"
    "rm_state d = StCompleted"
    by (simp add: settling_def moving_def started_def run_defs)
  then have d: "c' = d" by (simp add: c'_def controller_step_def)
  have "rm_state settling \<noteq> StCompleted" by (simp add: settling_def)
  from completion_is_proven [OF demo_init demo_cancel_history e(1) this e(2)]
  show ?thesis using e(2) d by (auto simp: c'_def)
qed


theorem calls_return_witness: "history demo_libm idle_controller demo_cancel \<noteq> None"
proof -
  have "policy_bounded demo_policy" by (simp add: policy_bounded_def demo_policy_def)
  moreover have "list_all sane_call demo_cancel"
    by (simp add: demo_cancel_def demo_drive_def step_bounded_def demo_move_def at_x_def no_odom_def
      yaw_in_range_def k_pi_def)
  ultimately show ?thesis using calls_return [OF demo_init] by blast
qed

subsection \<open>Corner cases\<close>

text \<open>Finite positions whose difference overflows give a command that is not a number.\<close>

lemma overflow_command:
  "mc_linear (rm_command (controller_step demo_libm (controller_step demo_libm started
     (CallOdom (at_y (- (2 ^ 1023))) (ms 10))) (CallOdom (at_y (2 ^ 1023)) (ms 20)))) = NaN"
proof -
  have "ilog2 \<bar>2 ^ 1024\<bar> = 1024" by (rule ilog2_unique) (simp_all add: power_int_def)
  moreover have "(2 ^ 1024 / 2 powi 972 :: rat) = of_int (2 ^ 52)" by (simp add: power_int_def)
  ultimately have "round64 (2 ^ 1024) = PInf"
    by (simp add: round64_def fround_def Let_def rne_int [of "2 ^ 52", simplified] power_int_def)
  then show ?thesis
    by (simp add: controller_step_def demo_deadline started_def run_defs step_deadline_def to_int64_def)
qed

text \<open>The confirmation of the Gate zero leaves the command of a running motion standing.\<close>

lemma confirmed_zero_keeps_command:
  "me_command (fst (confirm_gate_zero (ms 20) moving)) = rm_command moving \<and>
   me_kind (fst (confirm_gate_zero (ms 20) moving)) = EvStationarityPending \<and>
   rm_command moving \<noteq> no_motion"
  by (simp add: moving_def started_def run_defs controller_event_def)

end
