(* ===== verification/Admission_Tracker.thy ===== *)
theory Admission_Tracker
  imports Prelude "HOL-Library.Multiset"
begin

text \<open>
  The admission tracker of the Action server (\<open>ActionAdmissionTracker\<close>, action_admission_tracker.hpp):
  the tickets between a goal response and the \<open>on_accepted\<close> callback, and the callbacks in flight.
  Every operation holds the mutex, so each is one step. Time points are the arguments of the steps;
  \<open>std::size_t\<close> counters are naturals, and the guarded decrements are subtraction on them.
\<close>

datatype entry_state = Provisional | Revoked | AcceptedInFlight

record entry =
  en_state :: entry_state
  en_deadline :: time
  en_revoked_at :: time

record tracker =
  tr_handoff :: time
  tr_entries :: "(string \<times> entry) list"
  tr_provisional :: nat
  tr_revoked :: nat
  tr_in_flight :: nat
  tr_callbacks :: nat
  tr_quiescing :: bool

record lease =
  ls_uuid :: string
  ls_ticket :: bool
  ls_revoked :: bool

definition k_tickets :: nat where "k_tickets = 64"

definition tracker_init :: "time \<Rightarrow> string + tracker" where
  "tracker_init handoff =
     (if handoff \<le> 0 then Inl ''Action admission tracker requires a clock and deadline''
      else Inr \<lparr>tr_handoff = handoff, tr_entries = [], tr_provisional = 0, tr_revoked = 0,
        tr_in_flight = 0, tr_callbacks = 0, tr_quiescing = False\<rparr>)"

subsection \<open>Operations\<close>

definition expired_tombstone :: "tracker \<Rightarrow> time \<Rightarrow> entry \<Rightarrow> bool" where
  "expired_tombstone t now e \<longleftrightarrow> en_state e = Revoked \<and> en_revoked_at e + tr_handoff t * 4 \<le> now"

definition prune_revoked :: "time \<Rightarrow> tracker \<Rightarrow> tracker" where
  "prune_revoked now t = t\<lparr>
     tr_entries := filter (\<lambda>(u, e). \<not> expired_tombstone t now e) (tr_entries t),
     tr_revoked := tr_revoked t - length (filter (\<lambda>(u, e). expired_tombstone t now e) (tr_entries t))\<rparr>"

definition revocable :: "bool \<Rightarrow> time \<Rightarrow> entry \<Rightarrow> bool" where
  "revocable force now e \<longleftrightarrow> en_state e = Provisional \<and> (force \<or> en_deadline e \<le> now)"

definition revoke_entry :: "bool \<Rightarrow> time \<Rightarrow> entry \<Rightarrow> entry" where
  "revoke_entry force now e =
     (if revocable force now e then e\<lparr>en_state := Revoked, en_revoked_at := now\<rparr> else e)"

definition revoke_provisional :: "time \<Rightarrow> bool \<Rightarrow> tracker \<Rightarrow> nat \<times> tracker" where
  "revoke_provisional now force t =
     (let n = length (filter (\<lambda>(u, e). revocable force now e) (tr_entries t))
      in (n, t\<lparr>tr_entries := map (\<lambda>(u, e). (u, revoke_entry force now e)) (tr_entries t),
             tr_provisional := tr_provisional t - n, tr_revoked := tr_revoked t + n\<rparr>))"

definition try_provision :: "time \<Rightarrow> string \<Rightarrow> tracker \<Rightarrow> bool \<times> tracker" where
  "try_provision now uuid t =
     (let t = prune_revoked now t in
      if tr_quiescing t \<or> uuid = [] \<or> k_tickets \<le> length (tr_entries t) \<or>
         map_of (tr_entries t) uuid \<noteq> None
      then (False, t)
      else (True, t\<lparr>tr_entries := (uuid, \<lparr>en_state = Provisional, en_deadline = now + tr_handoff t,
               en_revoked_at = 0\<rparr>) # tr_entries t,
             tr_provisional := tr_provisional t + 1\<rparr>))"

definition enter_accepted :: "string \<Rightarrow> tracker \<Rightarrow> lease \<times> tracker" where
  "enter_accepted uuid t =
     (let t = t\<lparr>tr_callbacks := tr_callbacks t + 1\<rparr>;
          plain = (\<lparr>ls_uuid = uuid, ls_ticket = False, ls_revoked = False\<rparr>, t)
      in case map_of (tr_entries t) uuid of
        None \<Rightarrow> plain
      | Some e \<Rightarrow>
          if en_state e \<noteq> Provisional \<and> en_state e \<noteq> Revoked then plain
          else let was_revoked = (en_state e = Revoked)
            in (\<lparr>ls_uuid = uuid, ls_ticket = True, ls_revoked = was_revoked\<rparr>,
              t\<lparr>tr_provisional := (if was_revoked then tr_provisional t else tr_provisional t - 1),
                tr_revoked := (if was_revoked then tr_revoked t - 1 else tr_revoked t),
                tr_entries := AList.update uuid
                  (e\<lparr>en_state := AcceptedInFlight, en_revoked_at := 0\<rparr>) (tr_entries t),
                tr_in_flight := tr_in_flight t + 1\<rparr>))"

definition complete_callback :: "lease \<Rightarrow> tracker \<Rightarrow> tracker" where
  "complete_callback l t =
     (let t = (if ls_ticket l \<and> map_of (tr_entries t) (ls_uuid l) \<noteq> None
         then t\<lparr>tr_entries := AList.delete (ls_uuid l) (tr_entries t),
           tr_in_flight := tr_in_flight t - 1\<rparr> else t)
      in t\<lparr>tr_callbacks := tr_callbacks t - 1\<rparr>)"

definition begin_quiesce :: "tracker \<Rightarrow> tracker" where
  "begin_quiesce t = t\<lparr>tr_quiescing := True\<rparr>"

definition revoke_expired :: "time \<Rightarrow> tracker \<Rightarrow> nat \<times> tracker" where
  "revoke_expired now t = apsnd (prune_revoked now) (revoke_provisional now False t)"

definition revoke_all_provisional :: "time \<Rightarrow> tracker \<Rightarrow> nat \<times> tracker" where
  "revoke_all_provisional now = revoke_provisional now True"

definition tracker_drained :: "tracker \<Rightarrow> bool" where
  "tracker_drained t \<longleftrightarrow> tr_provisional t = 0 \<and> tr_revoked t = 0 \<and> tr_in_flight t = 0 \<and> tr_callbacks t = 0"

definition tracker_clear :: "tracker \<Rightarrow> tracker" where
  "tracker_clear t = t\<lparr>tr_entries := [], tr_provisional := 0, tr_revoked := 0, tr_in_flight := 0,
     tr_callbacks := 0\<rparr>"

subsection \<open>The tracker and its leases as a machine\<close>

text \<open>
  A lease lives in the callback that entered until its destructor completes it; the machine keeps
  the live leases beside the tracker. A drain wait prunes once and then only reads \<open>tracker_drained\<close>.
\<close>

record admissions =
  ad_tracker :: tracker
  ad_leases :: "lease list"

datatype tracker_event =
    Provision time string
  | Enter string
  | Release nat
  | Quiesce
  | RevokeExpired time
  | RevokeAll time
  | DrainWait time
  | Clear

fun tracker_step :: "admissions \<Rightarrow> tracker_event \<Rightarrow> admissions" where
  "tracker_step s (Provision now u) = s\<lparr>ad_tracker := snd (try_provision now u (ad_tracker s))\<rparr>"
| "tracker_step s (Enter u) = (case enter_accepted u (ad_tracker s) of
     (l, t) \<Rightarrow> s\<lparr>ad_tracker := t, ad_leases := l # ad_leases s\<rparr>)"
| "tracker_step s (Release i) =
     (if i < length (ad_leases s)
      then s\<lparr>ad_tracker := complete_callback (ad_leases s ! i) (ad_tracker s),
        ad_leases := take i (ad_leases s) @ drop (Suc i) (ad_leases s)\<rparr>
      else s)"
| "tracker_step s Quiesce = s\<lparr>ad_tracker := begin_quiesce (ad_tracker s)\<rparr>"
| "tracker_step s (RevokeExpired now) = s\<lparr>ad_tracker := snd (revoke_expired now (ad_tracker s))\<rparr>"
| "tracker_step s (RevokeAll now) = s\<lparr>ad_tracker := snd (revoke_all_provisional now (ad_tracker s))\<rparr>"
| "tracker_step s (DrainWait now) = s\<lparr>ad_tracker := prune_revoked now (ad_tracker s)\<rparr>"
| "tracker_step s Clear = s\<lparr>ad_tracker := tracker_clear (ad_tracker s)\<rparr>"

subsection \<open>The counters are exact\<close>

text \<open>The keys whose entry satisfies a predicate, with the laws of the operations of a map.\<close>

definition keys_of :: "('v \<Rightarrow> bool) \<Rightarrow> ('k \<times> 'v) list \<Rightarrow> 'k multiset" where
  "keys_of Q m = mset (map fst (filter (\<lambda>(k, v). Q v) m))"

lemma keys_of_simps [simp]:
  "keys_of Q [] = {#}"
  "keys_of Q ((k, v) # m) = (if Q v then add_mset k (keys_of Q m) else keys_of Q m)"
  by (simp_all add: keys_of_def)

lemma keys_of_update:
  assumes "distinct_keys m" "map_of m k = Some v"
  shows "keys_of Q (AList.update k w m) + (if Q v then {#k#} else {#}) =
    keys_of Q m + (if Q w then {#k#} else {#})"
  using assms by (induction m) (auto split: if_splits)

lemma keys_of_delete:
  assumes "distinct_keys m" "map_of m k = Some v"
  shows "keys_of Q (AList.delete k m) + (if Q v then {#k#} else {#}) = keys_of Q m"
  using assms by (induction m) (auto simp: delete_id map_of_eq_None_iff split: if_splits)

lemma keys_of_length: "length (filter (\<lambda>(k, v). Q v) m) = size (keys_of Q m)"
  by (induction m) auto

lemma keys_of_filter: "keys_of Q (filter (\<lambda>(k, v). Q' v) m) = keys_of (\<lambda>v. Q' v \<and> Q v) m"
  by (induction m) auto

lemma keys_of_split: "keys_of Q m = keys_of (\<lambda>v. Q v \<and> Q' v) m + keys_of (\<lambda>v. Q v \<and> \<not> Q' v) m"
  by (induction m) auto

lemma keys_of_map: "keys_of Q (map (\<lambda>(k, v). (k, f v)) m) = keys_of (\<lambda>v. Q (f v)) m"
  by (induction m) auto

lemma distinct_keys_filter: "distinct_keys m \<Longrightarrow> distinct_keys (filter Q m)"
  by (simp add: distinct_keys_def distinct_map_filter)

lemma distinct_keys_map: "distinct_keys (map (\<lambda>(k, v). (k, f v)) m) = distinct_keys m"
  by (simp add: distinct_keys_def case_prod_unfold comp_def)

abbreviation tickets :: "entry_state \<Rightarrow> tracker \<Rightarrow> string multiset" where
  "tickets st t \<equiv> keys_of (\<lambda>e. en_state e = st) (tr_entries t)"

definition counters_exact :: "tracker \<Rightarrow> bool" where
  "counters_exact t \<longleftrightarrow> distinct_keys (tr_entries t) \<and> length (tr_entries t) \<le> k_tickets \<and>
     tr_provisional t = size (tickets Provisional t) \<and> tr_revoked t = size (tickets Revoked t) \<and>
     tr_in_flight t = size (tickets AcceptedInFlight t)"

lemma prune_exact:
  assumes "counters_exact t"
  shows "counters_exact (prune_revoked now t)"
    and "tickets AcceptedInFlight (prune_revoked now t) = tickets AcceptedInFlight t"
proof -
  have same: "keys_of (\<lambda>e. \<not> expired_tombstone t now e \<and> en_state e = st) (tr_entries t) = tickets st t"
    if "st \<noteq> Revoked" for st
    using that by (intro arg_cong [where f = "\<lambda>Q. keys_of Q (tr_entries t)"]) (auto simp: expired_tombstone_def)
  have "tickets Revoked t = keys_of (\<lambda>e. en_state e = Revoked \<and> expired_tombstone t now e) (tr_entries t)
      + keys_of (\<lambda>e. en_state e = Revoked \<and> \<not> expired_tombstone t now e) (tr_entries t)"
    by (rule keys_of_split)
  moreover have "(\<lambda>e. en_state e = Revoked \<and> expired_tombstone t now e) = expired_tombstone t now"
    by (auto simp: expired_tombstone_def)
  moreover have "length (filter (\<lambda>(u, e). \<not> expired_tombstone t now e) (tr_entries t)) \<le> length (tr_entries t)"
    by (rule length_filter_le)
  ultimately show "counters_exact (prune_revoked now t)"
    using assms same
    by (simp add: counters_exact_def prune_revoked_def keys_of_filter keys_of_length distinct_keys_filter
      conj_commute)
  show "tickets AcceptedInFlight (prune_revoked now t) = tickets AcceptedInFlight t"
    using same [of AcceptedInFlight] by (simp add: prune_revoked_def keys_of_filter)
qed

lemma revoke_exact:
  assumes "counters_exact t"
  shows "counters_exact (snd (revoke_provisional now force t))"
    and "tickets AcceptedInFlight (snd (revoke_provisional now force t)) = tickets AcceptedInFlight t"
proof -
  let ?r = "revocable force now"
  have "(\<lambda>e. en_state e = Provisional \<and> ?r e) = ?r"
    by (auto simp: revocable_def)
  then have prov: "tickets Provisional t = keys_of ?r (tr_entries t) +
      keys_of (\<lambda>e. en_state e = Provisional \<and> \<not> ?r e) (tr_entries t)"
    using keys_of_split [of "\<lambda>e. en_state e = Provisional" "tr_entries t" ?r] by simp
  have state: "en_state (revoke_entry force now e) = (if ?r e then Revoked else en_state e)" for e
    by (simp add: revoke_entry_def)
  have r: "?r e \<Longrightarrow> en_state e = Provisional" for e
    by (simp add: revocable_def)
  have after: "keys_of (\<lambda>e. en_state (revoke_entry force now e) = st) m =
      (if st = Revoked then keys_of (\<lambda>e. en_state e = Revoked) m + keys_of ?r m
        else if st = Provisional then keys_of (\<lambda>e. en_state e = Provisional \<and> \<not> ?r e) m
        else keys_of (\<lambda>e. en_state e = st) m)" for st m
  proof (induction m)
    case (Cons kv m)
    then show ?case
      using r [of "snd kv"] state [of "snd kv"]
      by (cases kv; cases "?r (snd kv)"; cases st) simp_all
  qed simp
  show "counters_exact (snd (revoke_provisional now force t))"
    using assms prov
    by (simp add: counters_exact_def revoke_provisional_def Let_def keys_of_length keys_of_map after
      distinct_keys_map)
  show "tickets AcceptedInFlight (snd (revoke_provisional now force t)) = tickets AcceptedInFlight t"
    by (simp add: revoke_provisional_def Let_def keys_of_map after)
qed

lemma provision_exact:
  assumes "counters_exact t"
  shows "counters_exact (snd (try_provision now u t))"
    and "tickets AcceptedInFlight (snd (try_provision now u t)) = tickets AcceptedInFlight t"
  using prune_exact [OF assms, of now]
  by (auto simp: try_provision_def Let_def counters_exact_def)

lemma entered_tickets:
  assumes "distinct_keys (tr_entries t)" "map_of (tr_entries t) u = Some e" "en_state e \<noteq> AcceptedInFlight"
  shows "keys_of (\<lambda>v. en_state v = st) (AList.update u (e\<lparr>en_state := AcceptedInFlight, en_revoked_at := 0\<rparr>) (tr_entries t)) =
    (if st = AcceptedInFlight then add_mset u (tickets st t)
     else tickets st t - (if en_state e = st then {#u#} else {#}))"
proof -
  have "keys_of (\<lambda>v. en_state v = st) (AList.update u (e\<lparr>en_state := AcceptedInFlight, en_revoked_at := 0\<rparr>) (tr_entries t)) +
      (if en_state e = st then {#u#} else {#}) = tickets st t + (if st = AcceptedInFlight then {#u#} else {#})"
    using keys_of_update [OF assms(1,2), of "\<lambda>v. en_state v = st" "e\<lparr>en_state := AcceptedInFlight, en_revoked_at := 0\<rparr>"]
    by (simp add: eq_commute)
  then show ?thesis
    using assms(3)
    by (cases "st = AcceptedInFlight"; cases "en_state e = st") (auto dest: sym)
qed

lemma ticket_size: "map_of (tr_entries t) u = Some e \<Longrightarrow> u \<in># tickets (en_state e) t"
  by (auto simp: keys_of_def image_iff dest!: map_of_SomeD intro!: bexI [where x = "(u, e)"])

lemma enter_exact:
  assumes "counters_exact t"
  shows "counters_exact (snd (enter_accepted u t))"
    and "tickets AcceptedInFlight (snd (enter_accepted u t)) = tickets AcceptedInFlight t +
      (if ls_ticket (fst (enter_accepted u t)) then {#u#} else {#})"
    and "tr_callbacks (snd (enter_accepted u t)) = tr_callbacks t + 1"
    and "ls_uuid (fst (enter_accepted u t)) = u"
proof -
  have d: "distinct_keys (tr_entries t)" using assms by (simp add: counters_exact_def)
  show "counters_exact (snd (enter_accepted u t))"
    using assms entered_tickets [OF d] ticket_size [of t u]
    by (auto simp: enter_accepted_def Let_def counters_exact_def length_update_present map_of_SomeI_key
      size_Diff_singleton_if split: option.split entry_state.splits)
  show "tickets AcceptedInFlight (snd (enter_accepted u t)) = tickets AcceptedInFlight t +
      (if ls_ticket (fst (enter_accepted u t)) then {#u#} else {#})"
    using entered_tickets [OF d] by (auto simp: enter_accepted_def Let_def split: option.split)
qed (auto simp: enter_accepted_def Let_def split: option.split)

lemma complete_exact:
  assumes "counters_exact t" and "ls_ticket l \<Longrightarrow> map_of (tr_entries t) (ls_uuid l) \<noteq> None \<Longrightarrow>
    ls_uuid l \<in># tickets AcceptedInFlight t"
  shows "counters_exact (complete_callback l t)"
    and "tickets AcceptedInFlight (complete_callback l t) = tickets AcceptedInFlight t -
      (if ls_ticket l then {#ls_uuid l#} else {#})"
    and "tr_callbacks (complete_callback l t) = tr_callbacks t - 1"
proof -
  have d: "distinct_keys (tr_entries t)" using assms by (simp add: counters_exact_def)
  have st: "en_state e = AcceptedInFlight" if "ls_ticket l" "map_of (tr_entries t) (ls_uuid l) = Some e" for e
    using assms(2) that d
    by (auto simp: keys_of_def distinct_keys_def dest!: map_of_SomeD dest: eq_key_imp_eq_value)
  have del: "keys_of (\<lambda>v. en_state v = s') (AList.delete (ls_uuid l) (tr_entries t)) =
      tickets s' t - (if s' = AcceptedInFlight then {#ls_uuid l#} else {#})"
    if "ls_ticket l" "map_of (tr_entries t) (ls_uuid l) = Some e" for e s'
  proof -
    have "tickets s' t = keys_of (\<lambda>v. en_state v = s') (AList.delete (ls_uuid l) (tr_entries t)) +
        (if s' = AcceptedInFlight then {#ls_uuid l#} else {#})"
      using keys_of_delete [OF d that(2), of "\<lambda>v. en_state v = s'"] st [OF that] by (simp add: eq_commute)
    then show ?thesis by (simp only: add_diff_cancel_right')
  qed
  have "length (AList.delete (ls_uuid l) (tr_entries t)) \<le> length (tr_entries t)"
    by (simp add: AList.length_delete_le)
  then show "counters_exact (complete_callback l t)"
    using assms del by (auto simp: complete_callback_def Let_def counters_exact_def size_Diff_singleton_if)
  have absent: "ls_uuid l \<notin># tickets AcceptedInFlight t" if "map_of (tr_entries t) (ls_uuid l) = None"
    using that by (auto simp: keys_of_def map_of_eq_None_iff)
  show "tickets AcceptedInFlight (complete_callback l t) = tickets AcceptedInFlight t -
      (if ls_ticket l then {#ls_uuid l#} else {#})"
    using del absent by (auto simp: complete_callback_def Let_def)
qed (simp add: complete_callback_def Let_def)

subsection \<open>The tracker and the live callbacks\<close>

definition live_tickets :: "admissions \<Rightarrow> string list" where
  "live_tickets s = map ls_uuid (filter ls_ticket (ad_leases s))"

text \<open>
  Until it is cleared, the tickets in flight are those of the live leases and every live callback is
  counted; a cleared tracker is quiescing and stays empty.
\<close>

definition tracks :: "admissions \<Rightarrow> bool" where
  "tracks s \<longleftrightarrow> mset (live_tickets s) = tickets AcceptedInFlight (ad_tracker s) \<and>
     tr_callbacks (ad_tracker s) = length (ad_leases s)"

definition admissions_inv :: "admissions \<Rightarrow> bool" where
  "admissions_inv s \<longleftrightarrow> counters_exact (ad_tracker s) \<and> tracks s"

fun keeps_books :: "tracker_event \<Rightarrow> bool" where
  "keeps_books Clear \<longleftrightarrow> False"
| "keeps_books _ \<longleftrightarrow> True"

lemma callbacks_same [simp]:
  "tr_callbacks (prune_revoked now t) = tr_callbacks t"
  "tr_callbacks (snd (revoke_provisional now force t)) = tr_callbacks t"
  "tr_callbacks (snd (try_provision now u t)) = tr_callbacks t"
  by (simp_all add: prune_revoked_def revoke_provisional_def try_provision_def Let_def)

lemma release_tracks:
  assumes "i < length ls"
  shows "mset (map ls_uuid (filter ls_ticket (take i ls @ drop (Suc i) ls))) =
    mset (map ls_uuid (filter ls_ticket ls)) - (if ls_ticket (ls ! i) then {#ls_uuid (ls ! i)#} else {#})"
proof -
  have "mset (map ls_uuid (filter ls_ticket ls)) =
    mset (map ls_uuid (filter ls_ticket (take i ls @ ls ! i # drop (Suc i) ls)))"
    using id_take_nth_drop [OF assms] by metis
  then show ?thesis by simp
qed

lemma tracker_step_inv:
  assumes "admissions_inv s" and "keeps_books ev"
  shows "admissions_inv (tracker_step s ev)"
proof (cases ev)
  case (Provision now u)
  then show ?thesis
    using assms provision_exact [of "ad_tracker s" now u]
    by (simp add: admissions_inv_def tracks_def live_tickets_def)
next
  case (Enter u)
  obtain l t where e: "enter_accepted u (ad_tracker s) = (l, t)" by (cases "enter_accepted u (ad_tracker s)")
  show ?thesis
    using assms enter_exact [of "ad_tracker s" u] Enter
    by (auto simp: admissions_inv_def tracks_def live_tickets_def e)
next
  case (Release i)
  show ?thesis
  proof (cases "i < length (ad_leases s)")
    case True
    have "ls_uuid (ad_leases s ! i) \<in># tickets AcceptedInFlight (ad_tracker s)" if "ls_ticket (ad_leases s ! i)"
    proof -
      have "ls_uuid (ad_leases s ! i) \<in> set (live_tickets s)"
        using True that by (auto simp: live_tickets_def)
      then show ?thesis
        using assms(1) by (metis admissions_inv_def tracks_def set_mset_mset)
    qed
    then show ?thesis
      using assms complete_exact [of "ad_tracker s" "ad_leases s ! i"] release_tracks [OF True] True Release
      by (simp add: admissions_inv_def tracks_def live_tickets_def)
  qed (use assms Release in simp)
next
  case (RevokeExpired now)
  then show ?thesis
    using assms prune_exact [OF revoke_exact(1), of "ad_tracker s" now now False]
      revoke_exact(2) [of "ad_tracker s" now False]
    by (simp add: admissions_inv_def tracks_def live_tickets_def revoke_expired_def)
next
  case (RevokeAll now)
  then show ?thesis
    using assms revoke_exact [of "ad_tracker s" now True]
    by (simp add: admissions_inv_def tracks_def live_tickets_def revoke_all_provisional_def)
next
  case (DrainWait now)
  then show ?thesis
    using assms prune_exact [of "ad_tracker s" now]
    by (simp add: admissions_inv_def tracks_def live_tickets_def)
qed (use assms in \<open>auto simp: admissions_inv_def tracks_def live_tickets_def begin_quiesce_def counters_exact_def\<close>)

lemma tracker_run_inv:
  "admissions_inv s \<Longrightarrow> list_all keeps_books evs \<Longrightarrow> admissions_inv (run tracker_step s evs)"
  by (induction evs arbitrary: s) (auto intro: tracker_step_inv)

lemma tracker_init_inv: "tracker_init d = Inr t \<Longrightarrow> admissions_inv \<lparr>ad_tracker = t, ad_leases = []\<rparr>"
  by (auto simp: tracker_init_def admissions_inv_def tracks_def live_tickets_def counters_exact_def
    k_tickets_def split: if_splits)

lemma all_tickets: "tickets Provisional t + tickets Revoked t + tickets AcceptedInFlight t = mset (map fst (tr_entries t))"
proof -
  have "keys_of (\<lambda>e. en_state e = Provisional) m + keys_of (\<lambda>e. en_state e = Revoked) m +
      keys_of (\<lambda>e. en_state e = AcceptedInFlight) m = mset (map fst m)" for m
  proof (induction m)
    case (Cons kv m)
    then show ?case by (cases kv; cases "en_state (snd kv)") auto
  qed simp
  then show ?thesis .
qed

text \<open>
  Whatever callbacks enter and leave, in any order with revocations and pruning, the tracker
  reports itself drained exactly when it holds no ticket and no callback is alive; it holds at most
  sixty-four tickets, and no two live callbacks claim the same one.
\<close>

lemma tracker_is_exact:
  assumes "tracker_init d = Inr t" and "list_all keeps_books evs"
    and "s = run tracker_step \<lparr>ad_tracker = t, ad_leases = []\<rparr> evs"
  shows "(tracker_drained (ad_tracker s) \<longleftrightarrow> tr_entries (ad_tracker s) = [] \<and> ad_leases s = []) \<and>
    length (tr_entries (ad_tracker s)) \<le> 64 \<and> distinct (live_tickets s)"
proof -
  have inv: "counters_exact (ad_tracker s)" "tracks s"
    using tracker_run_inv [OF tracker_init_inv [OF assms(1)] assms(2)] assms(3)
    by (simp_all add: admissions_inv_def)
  have "tr_entries (ad_tracker s) = []" if "tracker_drained (ad_tracker s)"
    using inv(1) that all_tickets [of "ad_tracker s"] by (auto simp: tracker_drained_def counters_exact_def)
  moreover have "distinct (live_tickets s)"
  proof -
    have "distinct (map fst (filter (\<lambda>(u, e). en_state e = AcceptedInFlight) (tr_entries (ad_tracker s))))"
      using inv(1) by (simp add: counters_exact_def distinct_keys_def distinct_map_filter)
    then show ?thesis
      using inv(2) by (metis tracks_def keys_of_def mset_eq_imp_distinct_iff)
  qed
  moreover have "ad_leases s = []" if "tracker_drained (ad_tracker s)"
    using inv(2) that by (simp add: tracker_drained_def tracks_def)
  moreover have "tracker_drained (ad_tracker s)" if "tr_entries (ad_tracker s) = []" "ad_leases s = []"
    using inv that by (simp add: tracker_drained_def counters_exact_def tracks_def)
  moreover have "length (tr_entries (ad_tracker s)) \<le> 64"
    using inv(1) by (simp add: counters_exact_def k_tickets_def)
  ultimately show ?thesis by blast
qed

text \<open>
  Tickets that no callback ever claims: when they are all revoked at \<open>now\<close>, the tracker drains
  in a wait that begins at \<open>later\<close> only if four handoff deadlines have passed in between.
\<close>

lemma abandoned_tickets_drain_late:
  assumes "counters_exact t" and "tr_callbacks t = 0"
    and "\<forall>(u, e) \<in> set (tr_entries t). en_state e = Provisional"
  shows "tracker_drained (prune_revoked later (snd (revoke_all_provisional now t))) \<longleftrightarrow>
    tr_entries t = [] \<or> now + 4 * tr_handoff t \<le> later"
proof -
  let ?r = "snd (revoke_all_provisional now t)"
  have entries: "tr_entries ?r = map (\<lambda>(u, e). (u, e\<lparr>en_state := Revoked, en_revoked_at := now\<rparr>)) (tr_entries t)"
    using assms(3) by (auto simp: revoke_all_provisional_def revoke_provisional_def revoke_entry_def
      revocable_def Let_def)
  have exact: "counters_exact (prune_revoked later ?r)"
    using prune_exact(1) revoke_exact(1) [OF assms(1)] by (simp add: revoke_all_provisional_def)
  have "tr_handoff ?r = tr_handoff t"
    by (simp add: revoke_all_provisional_def revoke_provisional_def Let_def)
  then have gone: "expired_tombstone ?r later (e\<lparr>en_state := Revoked, en_revoked_at := now\<rparr>) \<longleftrightarrow>
      now + 4 * tr_handoff t \<le> later" for e
    by (simp add: expired_tombstone_def mult.commute)
  have "filter (\<lambda>(u, e). \<not> expired_tombstone ?r later e) (tr_entries ?r) =
      (if now + 4 * tr_handoff t \<le> later then [] else tr_entries ?r)"
    unfolding entries by (simp add: filter_map comp_def case_prod_unfold gone)
  then have pruned: "tr_entries (prune_revoked later ?r) =
      (if now + 4 * tr_handoff t \<le> later then [] else tr_entries ?r)"
    by (simp add: prune_revoked_def)
  have "tracker_drained (prune_revoked later ?r) \<longleftrightarrow> tr_entries (prune_revoked later ?r) = []"
  proof
    assume "tracker_drained (prune_revoked later ?r)"
    then show "tr_entries (prune_revoked later ?r) = []"
      using exact all_tickets [of "prune_revoked later ?r"] by (auto simp: tracker_drained_def counters_exact_def)
  next
    assume "tr_entries (prune_revoked later ?r) = []"
    then show "tracker_drained (prune_revoked later ?r)"
      using exact assms(2) by (simp add: tracker_drained_def counters_exact_def revoke_all_provisional_def)
  qed
  then show ?thesis using pruned entries by auto
qed

subsection \<open>A concrete run\<close>

definition demo_tracker :: tracker where
  "demo_tracker = \<lparr>tr_handoff = ms 100, tr_entries = [], tr_provisional = 0, tr_revoked = 0,
     tr_in_flight = 0, tr_callbacks = 0, tr_quiescing = False\<rparr>"

definition demo_admissions :: admissions where
  "demo_admissions = run tracker_step \<lparr>ad_tracker = demo_tracker, ad_leases = []\<rparr>
     [Provision 0 ''a'', Provision 0 ''b'', Enter ''a'', Enter ''a'', RevokeAll 5]"

lemma demo_tracker_init: "tracker_init (ms 100) = Inr demo_tracker"
  by (simp add: tracker_init_def demo_tracker_def ms_def)

lemma tracker_is_exact_witness:
  "length (tr_entries (ad_tracker demo_admissions)) \<le> 64 \<and> distinct (live_tickets demo_admissions)"
  by (rule tracker_is_exact [OF demo_tracker_init _ demo_admissions_def, THEN conjunct2]) simp

lemma abandoned_tickets_drain_late_witness:
  "\<not> tracker_drained (prune_revoked (ms 100) (snd (revoke_all_provisional 0
     (snd (try_provision 0 ''a'' demo_tracker)))))"
  using abandoned_tickets_drain_late [of "snd (try_provision 0 ''a'' demo_tracker)" "ms 100" 0]
  by (simp add: demo_tracker_def try_provision_def prune_revoked_def k_tickets_def counters_exact_def
    ms_def Let_def)

end
