(* ===== verification/Transaction_Plane.thy ===== *)
theory Transaction_Plane
  imports Admission_Tracker
begin

text \<open>
  The transaction plane (\<open>RuntimeTransactionPlane\<close>, runtime_transaction_plane.hpp): the permits under
  which the conditioning pipeline has side effects at the Gate, and the barrier a shutdown waits at.
  Any number of threads begin transactions and hold leases; between two uses of the mutex a thread
  is at a program point, \<open>lease_pc\<close>, and each critical section is one step. A hook or an operation that
  throws is a step of its own.
\<close>

subsection \<open>The plane and its leases\<close>

datatype side_effect = SePrepare | SeOpen | SeControllerStart | SeRenew

datatype plane_phase = PhaseIdle | PhasePending | PhaseInFlight | PhaseFinished | PhaseRejected

record plane =
  tp_generation :: u64
  tp_quiescing :: bool
  tp_phase :: plane_phase

definition plane_init :: "u64 \<Rightarrow> plane" where
  "plane_init g = \<lparr>tp_generation = g, tp_quiescing = False, tp_phase = PhaseIdle\<rparr>"

text \<open>
  Where the thread of a transaction is: in the hook of \<open>begin\<close>, holding its lease, in the hook of
  \<open>invoke\<close>, in the operation, or in the hook of \<open>commit\<close>.
\<close>

datatype lease_pc = AtBeginHook | AtHeld | AtOperationHook | AtOperation | AtFinishHook

record tx_lease =
  tx_generation :: u64
  tx_effect :: side_effect
  tx_finish_started :: bool
  tx_executed :: bool
  tx_pc :: lease_pc

definition plane_busy :: "plane \<Rightarrow> bool" where
  "plane_busy p \<longleftrightarrow> tp_phase p = PhasePending \<or> tp_phase p = PhaseInFlight"

text \<open>\<open>begin\<close>: the reservation before its hook, and the final check after it.\<close>

definition begin_reserve :: "u64 \<Rightarrow> plane \<Rightarrow> bool \<times> plane" where
  "begin_reserve permit p =
     (if tp_quiescing p \<or> permit \<noteq> tp_generation p \<or> plane_busy p then (False, p)
      else (True, p\<lparr>tp_phase := PhasePending\<rparr>))"

definition begin_admit :: "u64 \<Rightarrow> plane \<Rightarrow> bool \<times> plane" where
  "begin_admit permit p =
     (if tp_quiescing p \<or> permit \<noteq> tp_generation p then (False, p\<lparr>tp_phase := PhaseRejected\<rparr>)
      else (True, p\<lparr>tp_phase := PhaseInFlight\<rparr>))"

definition lease_current :: "u64 \<Rightarrow> plane \<Rightarrow> bool" where
  "lease_current g p \<longleftrightarrow> \<not> tp_quiescing p \<and> g = tp_generation p \<and> tp_phase p = PhaseInFlight"

definition tx_current :: "plane \<Rightarrow> tx_lease \<Rightarrow> bool" where
  "tx_current p l \<longleftrightarrow> \<not> tx_finish_started l \<and> lease_current (tx_generation l) p"

text \<open>The critical section of \<open>commit\<close>; \<open>guarded\<close> is what the final commit of the caller answers.\<close>

definition commit_final :: "bool \<Rightarrow> tx_lease \<Rightarrow> plane \<Rightarrow> bool \<times> plane" where
  "commit_final guarded l p =
     (if tp_quiescing p \<or> tx_generation l \<noteq> tp_generation p \<or> tp_phase p \<noteq> PhaseInFlight then (False, p)
      else if \<not> guarded then (False, p)
      else (True, p\<lparr>tp_phase := PhaseFinished\<rparr>))"

definition lease_reject :: "plane \<Rightarrow> plane" where
  "lease_reject p = (if plane_busy p then p\<lparr>tp_phase := PhaseRejected\<rparr> else p)"

definition plane_close :: "u64 \<Rightarrow> plane \<Rightarrow> plane" where
  "plane_close g p = (if tp_quiescing p then p else p\<lparr>tp_quiescing := True, tp_generation := g\<rparr>)"

definition plane_drained :: "plane \<Rightarrow> bool" where
  "plane_drained p \<longleftrightarrow> tp_phase p \<noteq> PhasePending \<and> tp_phase p \<noteq> PhaseInFlight"

subsection \<open>The plane and its threads as a machine\<close>

text \<open>The live transactions by the name of their thread, and the trace of what they did.\<close>

datatype deed = Operated nat u64 side_effect | Committed nat u64

record transactions =
  ts_plane :: plane
  ts_live :: "(nat \<times> tx_lease) list"
  ts_trace :: "deed list"

definition transactions_init :: "u64 \<Rightarrow> transactions" where
  "transactions_init g = \<lparr>ts_plane = plane_init g, ts_live = [], ts_trace = []\<rparr>"

datatype tx_event =
    TxBegin nat u64 side_effect
  | TxBeginHookThrows nat
  | TxAdmit nat
  | TxInvoke nat side_effect
  | TxOperationHookThrows nat
  | TxOperate nat side_effect
  | TxReturn nat
  | TxCommit nat
  | TxFinishHookThrows nat
  | TxFinal nat bool
  | TxReject nat
  | TxClose u64

text \<open>A step of thread \<open>i\<close>, which must be at the program point the step starts from.\<close>

definition at_point :: "lease_pc \<Rightarrow> nat \<Rightarrow> transactions \<Rightarrow> (tx_lease \<Rightarrow> transactions) \<Rightarrow> transactions" where
  "at_point pc i w k = (case map_of (ts_live w) i of
     Some l \<Rightarrow> if tx_pc l = pc then k l else w
   | None \<Rightarrow> w)"

definition moves_to :: "nat \<Rightarrow> tx_lease \<Rightarrow> transactions \<Rightarrow> transactions" where
  "moves_to i l w = w\<lparr>ts_live := AList.update i l (ts_live w)\<rparr>"

definition released :: "nat \<Rightarrow> plane \<Rightarrow> transactions \<Rightarrow> transactions" where
  "released i p w = w\<lparr>ts_plane := p, ts_live := AList.delete i (ts_live w)\<rparr>"

definition tx_begin :: "nat \<Rightarrow> u64 \<Rightarrow> side_effect \<Rightarrow> transactions \<Rightarrow> transactions" where
  "tx_begin i permit e w =
     (if map_of (ts_live w) i \<noteq> None then w
      else (case begin_reserve permit (ts_plane w) of (ok, p) \<Rightarrow>
        if ok then moves_to i \<lparr>tx_generation = permit, tx_effect = e, tx_finish_started = False,
          tx_executed = False, tx_pc = AtBeginHook\<rparr> (w\<lparr>ts_plane := p\<rparr>)
        else w))"

definition tx_admit :: "nat \<Rightarrow> transactions \<Rightarrow> transactions" where
  "tx_admit i w = at_point AtBeginHook i w (\<lambda>l.
     case begin_admit (tx_generation l) (ts_plane w) of (ok, p) \<Rightarrow>
       if ok then moves_to i (l\<lparr>tx_pc := AtHeld\<rparr>) (w\<lparr>ts_plane := p\<rparr>) else released i p w)"

definition tx_invoke :: "nat \<Rightarrow> side_effect \<Rightarrow> transactions \<Rightarrow> transactions" where
  "tx_invoke i e w = at_point AtHeld i w (\<lambda>l.
     if tx_current (ts_plane w) l then moves_to i (l\<lparr>tx_pc := AtOperationHook\<rparr>) w else w)"

definition tx_operate :: "nat \<Rightarrow> side_effect \<Rightarrow> transactions \<Rightarrow> transactions" where
  "tx_operate i e w = at_point AtOperationHook i w (\<lambda>l.
     moves_to i (l\<lparr>tx_executed := True, tx_pc := AtOperation\<rparr>)
       (w\<lparr>ts_trace := ts_trace w @ [Operated i (tx_generation l) e]\<rparr>))"

definition tx_commit :: "nat \<Rightarrow> transactions \<Rightarrow> transactions" where
  "tx_commit i w = at_point AtHeld i w (\<lambda>l.
     if tx_current (ts_plane w) l
     then moves_to i (l\<lparr>tx_finish_started := True, tx_pc := AtFinishHook\<rparr>) w else w)"

definition tx_final :: "nat \<Rightarrow> bool \<Rightarrow> transactions \<Rightarrow> transactions" where
  "tx_final i guarded w = at_point AtFinishHook i w (\<lambda>l.
     case commit_final guarded l (ts_plane w) of (ok, p) \<Rightarrow>
       if ok then (released i p w)\<lparr>ts_trace := ts_trace w @ [Committed i (tx_generation l)]\<rparr>
       else moves_to i (l\<lparr>tx_pc := AtHeld\<rparr>) w)"

fun tx_step :: "transactions \<Rightarrow> tx_event \<Rightarrow> transactions" where
  "tx_step w (TxBegin i permit e) = tx_begin i permit e w"
| "tx_step w (TxBeginHookThrows i) = at_point AtBeginHook i w (\<lambda>l.
     released i ((ts_plane w)\<lparr>tp_phase := PhaseRejected\<rparr>) w)"
| "tx_step w (TxAdmit i) = tx_admit i w"
| "tx_step w (TxInvoke i e) = tx_invoke i e w"
| "tx_step w (TxOperationHookThrows i) = at_point AtOperationHook i w (\<lambda>l. moves_to i (l\<lparr>tx_pc := AtHeld\<rparr>) w)"
| "tx_step w (TxOperate i e) = tx_operate i e w"
| "tx_step w (TxReturn i) = at_point AtOperation i w (\<lambda>l. moves_to i (l\<lparr>tx_pc := AtHeld\<rparr>) w)"
| "tx_step w (TxCommit i) = tx_commit i w"
| "tx_step w (TxFinishHookThrows i) = at_point AtFinishHook i w (\<lambda>l. moves_to i (l\<lparr>tx_pc := AtHeld\<rparr>) w)"
| "tx_step w (TxFinal i guarded) = tx_final i guarded w"
| "tx_step w (TxReject i) = at_point AtHeld i w (\<lambda>l. released i (lease_reject (ts_plane w)) w)"
| "tx_step w (TxClose g) = w\<lparr>ts_plane := plane_close g (ts_plane w)\<rparr>"

lemmas tx_defs = tx_begin_def tx_admit_def tx_invoke_def tx_operate_def tx_commit_def tx_final_def
lemmas plane_defs = begin_reserve_def begin_admit_def lease_current_def tx_current_def commit_final_def
  lease_reject_def plane_close_def plane_drained_def plane_busy_def
lemmas thread_defs = at_point_def moves_to_def released_def

subsection \<open>One transaction at a time\<close>

text \<open>
  The phase of the plane says exactly what is live: nothing, one transaction in the hook of \<open>begin\<close>,
  or one lease of the generation of the plane, unless that is closed.
\<close>

definition plane_inv :: "transactions \<Rightarrow> bool" where
  "plane_inv w \<longleftrightarrow> (case ts_live w of
     [] \<Rightarrow> plane_drained (ts_plane w)
   | [(i, l)] \<Rightarrow> tp_phase (ts_plane w) = (if tx_pc l = AtBeginHook then PhasePending else PhaseInFlight) \<and>
       (tp_quiescing (ts_plane w) \<or> tx_generation l = tp_generation (ts_plane w)) \<and>
       (tx_pc l = AtFinishHook \<longrightarrow> tx_finish_started l)
   | _ \<Rightarrow> False)"

lemma plane_inv_cases:
  assumes "plane_inv w"
  obtains "ts_live w = []" "plane_drained (ts_plane w)"
  | i l where "ts_live w = [(i, l)]"
    "tp_phase (ts_plane w) = (if tx_pc l = AtBeginHook then PhasePending else PhaseInFlight)"
    "tp_quiescing (ts_plane w) \<or> tx_generation l = tp_generation (ts_plane w)"
    "tx_pc l = AtFinishHook \<longrightarrow> tx_finish_started l"
proof (cases "ts_live w")
  case Nil
  then show ?thesis using assms that(1) by (simp add: plane_inv_def)
next
  case (Cons x xs)
  then show ?thesis using assms that(2) by (cases x; cases xs) (auto simp: plane_inv_def)
qed

lemma idle_step: "ts_live w = [] \<Longrightarrow> plane_drained (ts_plane w) \<Longrightarrow> plane_inv (tx_step w ev)"
  by (cases ev) (auto simp: plane_inv_def tx_defs plane_defs thread_defs)

lemma live_step:
  assumes "ts_live w = [(i, l)]"
    "tp_phase (ts_plane w) = (if tx_pc l = AtBeginHook then PhasePending else PhaseInFlight)"
    "tp_quiescing (ts_plane w) \<or> tx_generation l = tp_generation (ts_plane w)"
    "tx_pc l = AtFinishHook \<longrightarrow> tx_finish_started l"
  shows "plane_inv (tx_step w ev)"
  using assms by (cases ev; cases "tx_pc l") (auto simp: plane_inv_def tx_defs plane_defs thread_defs)

interpretation transactions: invariant_machine tx_step plane_inv
proof
  show "plane_inv (tx_step w ev)" if "plane_inv w" for w ev
    using that by (rule plane_inv_cases) (auto intro: idle_step live_step)
qed

lemma transactions_init_inv: "plane_inv (transactions_init g)"
  by (simp add: plane_inv_def transactions_init_def plane_init_def plane_drained_def)

text \<open>
  Transactions exclude each other: over every interleaving of threads at most one is live, and
  the plane is drained exactly when none is.
\<close>

lemma one_transaction_at_a_time:
  "length (ts_live (run tx_step (transactions_init g) evs)) \<le> 1 \<and>
   (plane_drained (ts_plane (run tx_step (transactions_init g) evs)) \<longleftrightarrow>
     ts_live (run tx_step (transactions_init g) evs) = [])"
proof -
  have "plane_inv (run tx_step (transactions_init g) evs)"
    by (rule transactions.run_inv [OF transactions_init_inv])
  then show ?thesis by (rule plane_inv_cases) (auto simp: plane_drained_def split: if_splits)
qed

subsection \<open>A closed plane\<close>

text \<open>A thread that is past the check of \<open>invoke\<close> and has not started its operation.\<close>

definition may_operate :: "transactions \<Rightarrow> bool" where
  "may_operate w \<longleftrightarrow> (\<exists>i l. ts_live w = [(i, l)] \<and> tx_pc l = AtOperationHook)"

definition is_commit :: "deed \<Rightarrow> bool" where
  "is_commit d \<longleftrightarrow> (case d of Committed i g \<Rightarrow> True | Operated i g e \<Rightarrow> False)"

lemma drained_step:
  "plane_inv w \<Longrightarrow> tp_quiescing (ts_plane w) \<Longrightarrow> plane_drained (ts_plane w) \<Longrightarrow> tx_step w ev = w"
  by (erule plane_inv_cases; cases ev) (auto simp: tx_defs plane_defs thread_defs split: if_splits)

lemma live_closed_step:
  assumes "ts_live w = [(i, l)]" "tp_quiescing (ts_plane w)"
    "tp_phase (ts_plane w) = (if tx_pc l = AtBeginHook then PhasePending else PhaseInFlight)"
  shows "tp_quiescing (ts_plane (tx_step w ev)) \<and>
    (ts_trace (tx_step w ev) = ts_trace w \<and> (may_operate (tx_step w ev) \<longrightarrow> may_operate w) \<or>
     (\<exists>g e. ts_trace (tx_step w ev) = ts_trace w @ [Operated i g e] \<and> may_operate w \<and>
       \<not> may_operate (tx_step w ev)))"
  using assms
  by (cases ev; cases "tx_pc l") (simp_all add: may_operate_def tx_defs plane_defs thread_defs)

lemma closed_step:
  assumes "plane_inv w" and "tp_quiescing (ts_plane w)"
  shows "tp_quiescing (ts_plane (tx_step w ev)) \<and>
    (ts_trace (tx_step w ev) = ts_trace w \<and> (may_operate (tx_step w ev) \<longrightarrow> may_operate w) \<or>
     (\<exists>i g e. ts_trace (tx_step w ev) = ts_trace w @ [Operated i g e] \<and> may_operate w \<and>
       \<not> may_operate (tx_step w ev)))"
  using assms(1)
proof (rule plane_inv_cases)
  assume "plane_drained (ts_plane w)"
  then show ?thesis using drained_step [OF assms, of ev] assms(2) by simp
next
  fix i l
  assume "ts_live w = [(i, l)]"
    "tp_phase (ts_plane w) = (if tx_pc l = AtBeginHook then PhasePending else PhaseInFlight)"
  then show ?thesis using live_closed_step [OF _ assms(2), of i l ev] by blast
qed

lemma closed_run:
  assumes "plane_inv w" and "tp_quiescing (ts_plane w)"
  shows "\<exists>xs. ts_trace (run tx_step w evs) = ts_trace w @ xs \<and> length xs \<le> 1 \<and>
    (xs \<noteq> [] \<longrightarrow> may_operate w) \<and> list_all (\<lambda>d. \<not> is_commit d) xs"
  using assms
proof (induction evs arbitrary: w)
  case (Cons ev evs)
  note inv = transactions.step_inv [OF Cons.prems(1), of ev]
  from closed_step [OF Cons.prems, of ev] obtain ys where
    ys: "ts_trace (tx_step w ev) = ts_trace w @ ys" "length ys \<le> 1" "list_all (\<lambda>d. \<not> is_commit d) ys"
      "ys \<noteq> [] \<longrightarrow> may_operate w \<and> \<not> may_operate (tx_step w ev)"
      "may_operate (tx_step w ev) \<longrightarrow> may_operate w" "tp_quiescing (ts_plane (tx_step w ev))"
    by (auto simp: is_commit_def)
  from Cons.IH [OF inv ys(6)] obtain xs where
    xs: "ts_trace (run tx_step (tx_step w ev) evs) = ts_trace (tx_step w ev) @ xs" "length xs \<le> 1"
      "xs \<noteq> [] \<longrightarrow> may_operate (tx_step w ev)" "list_all (\<lambda>d. \<not> is_commit d) xs" by blast
  then show ?case using ys by (intro exI [of _ "ys @ xs"]) (cases "ys = []"; auto)
qed simp

text \<open>
  Once the plane is closed nothing commits any more, and at most one operation still starts,
  that of a thread which had passed the check of \<open>invoke\<close> before the close; a plane that is closed
  and drained never changes again.
\<close>

lemma closed_plane_commits_nothing:
  assumes "w = run tx_step (transactions_init g) evs" and "tp_quiescing (ts_plane w)"
    and "w' = run tx_step w evs'"
  shows "(\<exists>xs. ts_trace w' = ts_trace w @ xs \<and> length xs \<le> 1 \<and> (xs \<noteq> [] \<longrightarrow> may_operate w) \<and>
      list_all (\<lambda>d. \<not> is_commit d) xs) \<and>
    (plane_drained (ts_plane w) \<longrightarrow> w' = w)"
proof -
  have inv: "plane_inv w"
    unfolding assms(1) by (rule transactions.run_inv [OF transactions_init_inv])
  have "plane_drained (ts_plane w) \<Longrightarrow> run tx_step w evs' = w"
    by (induction evs') (simp_all add: drained_step [OF inv assms(2)])
  then show ?thesis using closed_run [OF inv assms(2)] assms(3) by simp
qed

definition demo_transactions :: "tx_event list" where
  "demo_transactions = [TxBegin 1 5 SePrepare, TxBegin 2 5 SeOpen, TxAdmit 1, TxInvoke 1 SePrepare, TxClose 6]"

lemma demo_transactions_run:
  "ts_live (run tx_step (transactions_init 5) demo_transactions) =
     [(1, \<lparr>tx_generation = 5, tx_effect = SePrepare, tx_finish_started = False, tx_executed = False,
       tx_pc = AtOperationHook\<rparr>)]"
  "tp_quiescing (ts_plane (run tx_step (transactions_init 5) demo_transactions))"
  "ts_trace (run tx_step (transactions_init 5) demo_transactions) = []"
  by (simp_all add: demo_transactions_def transactions_init_def plane_init_def tx_defs plane_defs thread_defs)

lemma closed_plane_commits_nothing_witness:
  "length (ts_trace (run tx_step (run tx_step (transactions_init 5) demo_transactions)
     [TxOperate 1 SePrepare, TxReturn 1, TxCommit 1, TxFinal 1 True])) \<le> 1"
  using closed_plane_commits_nothing [OF refl demo_transactions_run(2) refl,
    of "[TxOperate 1 SePrepare, TxReturn 1, TxCommit 1, TxFinal 1 True]"]
  by (auto simp: demo_transactions_run(3) simp del: run.simps)

end
