(* ===== verification/Admission_Gate.thy ===== *)
theory Admission_Gate
  imports Transaction_Plane
begin

text \<open>
  The admission gate of the Node (\<open>RuntimeAdmissionGate\<close>, runtime_admission_gate.hpp) over the
  admission tracker and the transaction plane it closes. The operations under the mutex of the gate
  are single steps: nothing that holds this mutex can see the gate between two of its assignments,
  and the plane never reads the gate. The wait for the drain is two critical sections, the wait
  itself and the record of its answer.
\<close>

record start_permit =
  sp_generation :: u64
  sp_epoch :: u64
  sp_issued :: bool

record admission_gate =
  ag_generation :: u64
  ag_quiescing :: bool
  ag_complete :: bool
  ag_succeeded :: bool

definition gate_fresh :: admission_gate where
  "gate_fresh = \<lparr>ag_generation = 1, ag_quiescing = False, ag_complete = False, ag_succeeded = True\<rparr>"

text \<open>\<open>check\<close> is what the given admission check answers for the epoch; it is absent or a function.\<close>

definition gate_try_provision :: "time \<Rightarrow> string \<Rightarrow> bool option \<Rightarrow> admission_gate \<Rightarrow> tracker \<Rightarrow> bool \<times> tracker" where
  "gate_try_provision now uuid check a t =
     (if ag_quiescing a \<or> check = Some False then (False, t) else try_provision now uuid t)"

text \<open>\<open>submit\<close> runs the given enqueue under the mutex; it is a state change that may throw.\<close>

definition gate_submit :: "('q \<Rightarrow> bool outcome \<times> 'q) \<Rightarrow> admission_gate \<Rightarrow> 'q \<Rightarrow> bool \<times> 'q" where
  "gate_submit enq a q =
     (if ag_quiescing a then (False, q)
      else (case enq q of (r, q) \<Rightarrow> ((case r of Returned b \<Rightarrow> b | _ \<Rightarrow> False), q)))"

text \<open>
  \<open>close_generation\<close>. The observer of the plane is called inside \<open>plane_close\<close>; \<open>throws\<close> says that it
  throws, which only a first close can.
\<close>

definition gate_close :: "bool \<Rightarrow> admission_gate \<Rightarrow> tracker \<Rightarrow> plane \<Rightarrow> bool \<times> admission_gate \<times> tracker \<times> plane" where
  "gate_close throws a t p =
     (if ag_quiescing a then (True, a, t, p)
      else let g = (if ag_generation a \<noteq> u64_max then ag_generation a + 1 else ag_generation a);
               a = a\<lparr>ag_quiescing := True, ag_generation := g\<rparr>;
               t = begin_quiesce t
        in if throws \<and> \<not> tp_quiescing p
           then (False, a\<lparr>ag_complete := True, ag_succeeded := False\<rparr>, t, plane_close g p)
           else (True, a, t, plane_close g p))"

text \<open>
  \<open>wait_for_transaction_drain\<close>: what it answers at once, if it does; otherwise what the plane is when
  the wait returns, and the record of that answer.
\<close>

definition drain_answer :: "admission_gate \<Rightarrow> bool option" where
  "drain_answer a = (if \<not> ag_quiescing a then Some False
     else if ag_complete a then Some (ag_succeeded a) else None)"

definition drain_record :: "bool \<Rightarrow> admission_gate \<Rightarrow> admission_gate" where
  "drain_record b a = a\<lparr>ag_complete := True, ag_succeeded := b\<rparr>"

definition claim_start :: "u64 \<Rightarrow> admission_gate \<Rightarrow> start_permit" where
  "claim_start epoch a = (if ag_quiescing a then \<lparr>sp_generation = 0, sp_epoch = 0, sp_issued = False\<rparr>
     else \<lparr>sp_generation = ag_generation a, sp_epoch = epoch, sp_issued = True\<rparr>)"

definition start_allowed :: "start_permit \<Rightarrow> admission_gate \<Rightarrow> bool" where
  "start_allowed sp a \<longleftrightarrow> sp_issued sp \<and> \<not> ag_quiescing a \<and> sp_generation sp = ag_generation a"

definition gate_admission_allowed :: "bool option \<Rightarrow> admission_gate \<Rightarrow> bool" where
  "gate_admission_allowed check a \<longleftrightarrow> \<not> (ag_quiescing a \<or> check = Some False)"

subsection \<open>The gate, the tracker and the plane together\<close>

text \<open>
  \<open>aw_waits\<close> holds the answers of the waits that returned and are not recorded yet; \<open>aw_queue\<close> is
  whatever \<open>submit\<close> enqueues into.
\<close>

record 'q admission_world =
  aw_gate :: admission_gate
  aw_tracker :: admissions
  aw_transactions :: transactions
  aw_waits :: "bool list"
  aw_queue :: 'q

definition world_init :: "tracker \<Rightarrow> 'q \<Rightarrow> 'q admission_world" where
  "world_init t q = \<lparr>aw_gate = gate_fresh, aw_tracker = \<lparr>ad_tracker = t, ad_leases = []\<rparr>,
     aw_transactions = transactions_init 1, aw_waits = [], aw_queue = q\<rparr>"

datatype 'q world_event =
    WorldProvision time string "bool option"
  | WorldTracker tracker_event
  | WorldSubmit "'q \<Rightarrow> bool outcome \<times> 'q"
  | WorldClose bool
  | WorldTransaction tx_event
  | WorldWait
  | WorldRecord

text \<open>
  The tracker is provisioned only through the gate, and its plane is closed only by the gate; a
  wait takes place on a gate that does not answer at once.
\<close>

fun world_step :: "'q admission_world \<Rightarrow> 'q world_event \<Rightarrow> 'q admission_world" where
  "world_step w (WorldProvision now u check) = w\<lparr>aw_tracker := (aw_tracker w)\<lparr>ad_tracker :=
     snd (gate_try_provision now u check (aw_gate w) (ad_tracker (aw_tracker w)))\<rparr>\<rparr>"
| "world_step w (WorldTracker ev) = w\<lparr>aw_tracker := tracker_step (aw_tracker w) ev\<rparr>"
| "world_step w (WorldSubmit enq) = w\<lparr>aw_queue := snd (gate_submit enq (aw_gate w) (aw_queue w))\<rparr>"
| "world_step w (WorldClose throws) =
     (case gate_close throws (aw_gate w) (ad_tracker (aw_tracker w)) (ts_plane (aw_transactions w)) of
        (ok, a, t, p) \<Rightarrow> w\<lparr>aw_gate := a, aw_tracker := (aw_tracker w)\<lparr>ad_tracker := t\<rparr>,
          aw_transactions := (aw_transactions w)\<lparr>ts_plane := p\<rparr>\<rparr>)"
| "world_step w (WorldTransaction ev) = w\<lparr>aw_transactions := tx_step (aw_transactions w) ev\<rparr>"
| "world_step w WorldWait = (if drain_answer (aw_gate w) = None
     then w\<lparr>aw_waits := aw_waits w @ [plane_drained (ts_plane (aw_transactions w))]\<rparr> else w)"
| "world_step w WorldRecord = (case aw_waits w of [] \<Rightarrow> w
     | b # bs \<Rightarrow> w\<lparr>aw_gate := drain_record b (aw_gate w), aw_waits := bs\<rparr>)"

text \<open>The events of the Node: it neither closes the plane nor provisions the tracker directly.\<close>

fun through_gate :: "'q world_event \<Rightarrow> bool" where
  "through_gate (WorldTracker (Provision now u)) = False"
| "through_gate (WorldTransaction (TxClose g)) = False"
| "through_gate ev = True"

subsection \<open>A clean quiesce\<close>

definition world_inv :: "'q admission_world \<Rightarrow> bool" where
  "world_inv w \<longleftrightarrow> plane_inv (aw_transactions w) \<and>
     tp_quiescing (ts_plane (aw_transactions w)) = ag_quiescing (aw_gate w) \<and>
     tp_generation (ts_plane (aw_transactions w)) = ag_generation (aw_gate w) \<and>
     (ag_quiescing (aw_gate w) \<longrightarrow> tr_quiescing (ad_tracker (aw_tracker w))) \<and>
     (\<not> ag_quiescing (aw_gate w) \<longrightarrow> aw_waits w = [] \<and> \<not> ag_complete (aw_gate w)) \<and>
     (True \<in> set (aw_waits w) \<or> ag_complete (aw_gate w) \<and> ag_succeeded (aw_gate w) \<longrightarrow>
        plane_drained (ts_plane (aw_transactions w)))"

lemma tracker_stays_quiescing:
  "tr_quiescing (ad_tracker t) \<Longrightarrow> tr_quiescing (ad_tracker (tracker_step t ev))"
  by (cases ev) (auto simp: try_provision_def enter_accepted_def complete_callback_def begin_quiesce_def
    revoke_expired_def revoke_all_provisional_def revoke_provisional_def prune_revoked_def
    tracker_clear_def Let_def apsnd_def map_prod_def split: option.split prod.split)

lemma tx_step_keeps_gate:
  assumes "\<forall>g. ev \<noteq> TxClose g"
  shows "tp_quiescing (ts_plane (tx_step w ev)) = tp_quiescing (ts_plane w)"
    "tp_generation (ts_plane (tx_step w ev)) = tp_generation (ts_plane w)"
  using assms by (cases ev; simp add: tx_defs plane_defs thread_defs split: option.split)+

lemma world_init_inv: "world_inv (world_init t q)"
  using transactions_init_inv [of 1]
  by (simp add: world_inv_def world_init_def gate_fresh_def transactions_init_def plane_init_def)

lemma world_transaction_inv:
  assumes "world_inv w" and "\<forall>g. ev \<noteq> TxClose g"
  shows "world_inv (world_step w (WorldTransaction ev))"
proof -
  have drained: "tx_step (aw_transactions w) ev = aw_transactions w"
    if "ag_quiescing (aw_gate w)" "plane_drained (ts_plane (aw_transactions w))"
    using assms(1) that by (intro drained_step) (simp_all add: world_inv_def)
  show ?thesis
    using assms(1) transactions.step_inv [of "aw_transactions w" ev]
      tx_step_keeps_gate [OF assms(2), of "aw_transactions w"] drained
    by (cases "ag_quiescing (aw_gate w)") (auto simp: world_inv_def)
qed

lemma close_keeps_plane_inv: "plane_inv w \<Longrightarrow> plane_inv (w\<lparr>ts_plane := plane_close g (ts_plane w)\<rparr>)"
  using transactions.step_inv [of w "TxClose g"] by simp

lemma world_close_inv: "world_inv w \<Longrightarrow> world_inv (world_step w (WorldClose throws))"
  using close_keeps_plane_inv [of "aw_transactions w"]
  by (auto simp: world_inv_def gate_close_def plane_close_def begin_quiesce_def plane_drained_def Let_def)

lemma provision_keeps_quiescing: "tr_quiescing (snd (try_provision now u t)) = tr_quiescing t"
  by (simp add: try_provision_def prune_revoked_def Let_def)

lemma world_step_inv:
  assumes "world_inv w" and "through_gate ev"
  shows "world_inv (world_step w ev)"
proof (cases ev)
  case (WorldProvision now u check)
  then show ?thesis
    using assms(1) by (auto simp: world_inv_def gate_try_provision_def provision_keeps_quiescing)
next
  case (WorldTracker e)
  then show ?thesis
    using assms(1) tracker_stays_quiescing by (auto simp: world_inv_def)
next
  case (WorldSubmit enq)
  then show ?thesis using assms(1) by (simp add: world_inv_def)
next
  case (WorldClose throws)
  then show ?thesis using world_close_inv [OF assms(1)] by simp
next
  case (WorldTransaction e)
  then have "\<forall>g. e \<noteq> TxClose g" using assms(2) by auto
  then show ?thesis using world_transaction_inv [OF assms(1)] WorldTransaction by simp
next
  case WorldWait
  then show ?thesis using assms(1) by (auto simp: world_inv_def drain_answer_def)
next
  case WorldRecord
  then show ?thesis
    using assms(1) by (auto simp: world_inv_def drain_record_def split: list.split)
qed

lemma world_run_inv: "world_inv w \<Longrightarrow> list_all through_gate evs \<Longrightarrow> world_inv (run world_step w evs)"
  by (induction evs arbitrary: w) (simp_all add: world_step_inv)

text \<open>What the gate and the tracker keep once they quiesce.\<close>

definition tickets :: "'q admission_world \<Rightarrow> string set" where
  "tickets w = fst ` set (tr_entries (ad_tracker (aw_tracker w)))"

definition quiesced_world :: "'q admission_world \<Rightarrow> 'q admission_world \<Rightarrow> bool" where
  "quiesced_world w v \<longleftrightarrow> aw_transactions v = aw_transactions w \<and> aw_queue v = aw_queue w \<and>
     ag_quiescing (aw_gate v) \<and> tickets v \<subseteq> tickets w"

lemma tickets_of_ops:
  "fst ` set (tr_entries (prune_revoked now t)) \<subseteq> fst ` set (tr_entries t)"
  "fst ` set (tr_entries (snd (revoke_provisional now force t))) = fst ` set (tr_entries t)"
  "fst ` set (tr_entries (snd (enter_accepted u t))) = fst ` set (tr_entries t)"
  "fst ` set (tr_entries (complete_callback l t)) \<subseteq> fst ` set (tr_entries t)"
proof -
  show "fst ` set (tr_entries (prune_revoked now t)) \<subseteq> fst ` set (tr_entries t)"
    by (auto simp: prune_revoked_def)
  show "fst ` set (tr_entries (snd (revoke_provisional now force t))) = fst ` set (tr_entries t)"
    by (force simp: revoke_provisional_def Let_def image_iff)
  show "fst ` set (tr_entries (snd (enter_accepted u t))) = fst ` set (tr_entries t)"
    using map_of_SomeI_key [of "tr_entries t" u]
    by (auto simp: enter_accepted_def Let_def update_conv' dom_map_of_conv_image_fst [symmetric]
      split: option.split)
  show "fst ` set (tr_entries (complete_callback l t)) \<subseteq> fst ` set (tr_entries t)"
    using keys_delete [of "ls_uuid l" "tr_entries t"]
    by (auto simp: complete_callback_def Let_def set_map [symmetric] simp del: set_map)
qed

lemma tracker_adds_no_ticket:
  assumes "\<forall>now u. ev \<noteq> Provision now u"
  shows "fst ` set (tr_entries (ad_tracker (tracker_step t ev))) \<subseteq> fst ` set (tr_entries (ad_tracker t))"
proof (cases ev)
  case (Provision now u)
  then show ?thesis using assms by simp
next
  case (Enter u)
  then show ?thesis using tickets_of_ops(3) [of u "ad_tracker t"] by (simp add: split_beta)
next
  case (RevokeExpired now)
  then show ?thesis
    using tickets_of_ops(1) [of now "snd (revoke_provisional now False (ad_tracker t))"]
      tickets_of_ops(2) [of now False "ad_tracker t"] by (simp add: revoke_expired_def)
qed (use tickets_of_ops in \<open>auto simp: begin_quiesce_def revoke_all_provisional_def tracker_clear_def\<close>)

lemma quiesced_step:
  assumes "world_inv w" "ag_quiescing (aw_gate w)" "plane_drained (ts_plane (aw_transactions w))"
    and "through_gate ev"
  shows "quiesced_world w (world_step w ev)"
proof (cases ev)
  case (WorldTracker e)
  then have "\<forall>now u. e \<noteq> Provision now u" using assms(4) by auto
  from tracker_adds_no_ticket [OF this, of "aw_tracker w"] show ?thesis
    using WorldTracker assms(2) by (simp add: quiesced_world_def tickets_def)
next
  case (WorldTransaction e)
  have "tx_step (aw_transactions w) e = aw_transactions w"
    using assms by (intro drained_step) (simp_all add: world_inv_def)
  then show ?thesis using WorldTransaction assms(2) by (simp add: quiesced_world_def tickets_def)
qed (use assms in \<open>auto simp: quiesced_world_def tickets_def gate_try_provision_def gate_submit_def
  gate_close_def drain_record_def split: list.split\<close>)

lemma quiesced_run:
  assumes "world_inv w" "ag_quiescing (aw_gate w)" "plane_drained (ts_plane (aw_transactions w))"
    and "list_all through_gate evs"
  shows "quiesced_world w (run world_step w evs)"
  using assms
proof (induction evs arbitrary: w)
  case (Cons ev evs)
  then have step: "quiesced_world w (world_step w ev)" "world_inv (world_step w ev)"
    by (simp_all add: quiesced_step world_step_inv)
  then have "quiesced_world (world_step w ev) (run world_step (world_step w ev) evs)"
    using Cons.prems by (intro Cons.IH) (simp_all add: quiesced_world_def)
  with step(1) show ?case by (auto simp: quiesced_world_def)
qed (simp add: quiesced_world_def)

text \<open>
  C21: when the wait for the drain answers that it succeeded, the shutdown is clean for good:
  whatever the threads do afterwards, no transaction is live, none begins, no operation starts and
  nothing commits, nothing is enqueued, no ticket is provisioned and no permit allows a start.
\<close>

theorem clean_quiesce_is_final:
  assumes "w = run world_step (world_init t q) evs" and "list_all through_gate evs"
    and "drain_answer (aw_gate w) = Some True"
    and "w' = run world_step w evs'" and "list_all through_gate evs'"
  shows "ts_live (aw_transactions w') = [] \<and> ts_trace (aw_transactions w') = ts_trace (aw_transactions w) \<and>
    aw_queue w' = aw_queue w \<and> tickets w' \<subseteq> tickets w \<and>
    \<not> start_allowed sp (aw_gate w') \<and> \<not> gate_admission_allowed check (aw_gate w')"
proof -
  have inv: "world_inv w" unfolding assms(1) by (rule world_run_inv [OF world_init_inv assms(2)])
  have q: "ag_quiescing (aw_gate w)" "plane_drained (ts_plane (aw_transactions w))"
    using assms(3) inv by (auto simp: drain_answer_def world_inv_def split: if_splits)
  have live: "ts_live (aw_transactions w) = []"
    using inv q(2) by (auto simp: world_inv_def plane_drained_def elim!: plane_inv_cases split: if_splits)
  show ?thesis
    using quiesced_run [OF inv q assms(5)] live
    by (simp add: assms(4) quiesced_world_def start_allowed_def gate_admission_allowed_def)
qed

definition demo_quiesce :: "unit world_event list" where
  "demo_quiesce = [WorldTransaction (TxBegin 1 1 SePrepare), WorldTransaction (TxAdmit 1), WorldClose False,
     WorldTransaction (TxReject 1), WorldWait, WorldRecord]"

definition demo_tracker :: tracker where
  "demo_tracker = \<lparr>tr_handoff = ms 100, tr_entries = [], tr_provisional = 0, tr_revoked = 0, tr_in_flight = 0,
     tr_callbacks = 0, tr_quiescing = False\<rparr>"

lemma demo_quiesce_drained:
  "drain_answer (aw_gate (run world_step (world_init demo_tracker ()) demo_quiesce)) = Some True"
  by (simp add: demo_quiesce_def world_init_def gate_fresh_def gate_close_def drain_answer_def drain_record_def
    transactions_init_def plane_init_def tx_defs plane_defs thread_defs u64_max_def)

theorem clean_quiesce_is_final_witness:
  "ts_live (aw_transactions (run world_step (run world_step (world_init demo_tracker ()) demo_quiesce)
     [WorldTransaction (TxBegin 2 1 SeOpen), WorldProvision 0 ''goal'' None])) = []"
  by (rule clean_quiesce_is_final [OF refl _ demo_quiesce_drained refl, THEN conjunct1])
    (simp_all add: demo_quiesce_def)

end
