(* ===== verification/Shutdown_Coordinator.thy ===== *)
theory Shutdown_Coordinator
  imports Admission_Gate Emergency_Fence
begin

text \<open>
  The shutdown of the Node: \<open>RuntimeShutdownCoordinator\<close> (runtime_shutdown_coordinator.hpp) over any
  parts, and the parts the Node gives it (mission_runtime_node.cpp 390-413 and 569-610), composed
  with the admission gate, the emergency fence and the runtime core.
\<close>

subsection \<open>The coordinator\<close>

text \<open>A part is absent (an empty \<open>std::function\<close>) or a state change that may throw.\<close>

type_synonym ('s, 'a) part = "('s \<Rightarrow> 'a outcome \<times> 's) option"

record 's shutdown_parts =
  sd_close :: "('s, bool) part"
  sd_begin :: "time \<Rightarrow> ('s, unit) part"
  sd_wait :: "time \<Rightarrow> ('s, bool) part"
  sd_emergency :: "('s, unit) part"
  sd_fence :: "string \<Rightarrow> ('s, unit) part"
  sd_core :: "string \<Rightarrow> ('s, unit) part"

record shutdown_outcome =
  so_drained :: bool
  so_fail_closed :: bool

definition holds_true :: "('s, bool) part \<Rightarrow> 's \<Rightarrow> bool \<times> 's" where
  "holds_true f s = (case f of None \<Rightarrow> (False, s) | Some g \<Rightarrow> (case g s of (r, s) \<Rightarrow> (r = Returned True, s)))"

text \<open>Running a part that must not be missed: whether it did not throw.\<close>

definition attempted :: "('s, unit) part \<Rightarrow> 's \<Rightarrow> bool \<times> 's" where
  "attempted f s = (case f of None \<Rightarrow> (True, s) | Some g \<Rightarrow> (case g s of (r, s) \<Rightarrow> (r = Returned (), s)))"

definition shutdown_detail :: string where
  "shutdown_detail = ''transaction quiesce deadline expired; SAFETY_FAULT''"

definition coordinator_run :: "'s shutdown_parts \<Rightarrow> time \<Rightarrow> 's \<Rightarrow> shutdown_outcome \<times> 's" where
  "coordinator_run P deadline s =
     (case holds_true (sd_close P) s of (shut, s) \<Rightarrow>
      case attempted (sd_begin P deadline) s of (begun, s) \<Rightarrow>
      case (if shut \<and> begun then holds_true (sd_wait P deadline) s else (False, s)) of (drained, s) \<Rightarrow>
        if drained then (\<lparr>so_drained = True, so_fail_closed = False\<rparr>, s)
        else let s = snd (attempted (sd_emergency P) s);
                 s = snd (attempted (sd_fence P shutdown_detail) s);
                 s = snd (attempted (sd_core P shutdown_detail) s)
          in (\<lparr>so_drained = False, so_fail_closed = True\<rparr>, s))"

subsection \<open>The parts of the Node\<close>

text \<open>
  What the shutdown touches: the admission gate with its tracker and plane, the fence, the core, and
  the adapter, whose behaviour is a parameter.
\<close>

record ('e, 'q, 'x) shutdown_world =
  sw_admission :: "'q admission_world"
  sw_fence :: fence
  sw_core :: "'e core"
  sw_adapter :: 'x

record ('e, 'x) shutdown_adapter =
  sx_begin :: "time \<Rightarrow> 'x \<Rightarrow> unit outcome \<times> 'x"
  sx_completion :: "time \<Rightarrow> 'x \<Rightarrow> bool outcome \<times> 'x"
  sx_emergency :: "'x \<Rightarrow> unit outcome \<times> 'x"
  sx_zero :: "'x \<Rightarrow> bool outcome"
  sx_snapshot :: "'x \<Rightarrow> auth_snapshot outcome"

text \<open>
  The waits let the other threads of the process run: \<open>others\<close> are the events of the transactions and
  callbacks until the drain wait returns, \<open>calls\<close> the calls of the core until the terminal wait returns,
  and \<open>goals_empty\<close> says whether the goal handles are gone then.
\<close>

definition drain_wait :: "'q world_event list \<Rightarrow> 'q admission_world \<Rightarrow> bool \<times> 'q admission_world" where
  "drain_wait others a = (case drain_answer (aw_gate a) of
     Some b \<Rightarrow> (b, a)
   | None \<Rightarrow> let a = run world_step a others; b = plane_drained (ts_plane (aw_transactions a))
       in (b, a\<lparr>aw_gate := drain_record b (aw_gate a)\<rparr>))"

definition gate_safe :: "auth_snapshot outcome \<Rightarrow> bool outcome \<Rightarrow> bool" where
  "gate_safe snap zero = (case (zero, snap) of
     (Returned z, Returned g) \<Rightarrow> z \<and> as_state g = Inhibited \<and> as_inhibited g \<and> as_zero_selected g \<and>
       as_zero_published g
   | _ \<Rightarrow> False)"

definition shutdown_conditions :: "('e, 'x) shutdown_adapter \<Rightarrow> 'e runtime_ports \<Rightarrow> 'q world_event list \<Rightarrow>
    'e runtime_event list \<Rightarrow> bool \<Rightarrow> time \<Rightarrow> ('e, 'q, 'x) shutdown_world \<Rightarrow>
    bool \<times> ('e, 'q, 'x) shutdown_world" where
  "shutdown_conditions X P others calls goals_empty deadline w =
     (case sx_completion X deadline (sw_adapter w) of (completed, x) \<Rightarrow>
      case drain_wait others (sw_admission w) of (drained, a) \<Rightarrow>
      let w = w\<lparr>sw_adapter := x, sw_admission := a\<rparr> in
      if \<not> (completed = Returned True \<and> drained \<and> gate_safe (sx_snapshot X x) (sx_zero X x)) then (False, w)
      else let s = run (runtime_step P) (sw_core w) calls
        in (goals_empty \<and> c_active s = None, w\<lparr>sw_core := s\<rparr>))"

definition node_parts :: "('e, 'x) shutdown_adapter \<Rightarrow> 'e runtime_ports \<Rightarrow> 'q world_event list \<Rightarrow>
    'e runtime_event list \<Rightarrow> bool \<Rightarrow> ('e, 'q, 'x) shutdown_world shutdown_parts" where
  "node_parts X P others calls goals_empty = \<lparr>
     sd_close = Some (\<lambda>w. case gate_close False (aw_gate (sw_admission w))
         (ad_tracker (aw_tracker (sw_admission w))) (ts_plane (aw_transactions (sw_admission w))) of
       (ok, a, t, p) \<Rightarrow> (Returned ok, w\<lparr>sw_admission := world_step (sw_admission w) (WorldClose False)\<rparr>)),
     sd_begin = (\<lambda>d. Some (\<lambda>w. case sx_begin X d (sw_adapter w) of (r, x) \<Rightarrow> (r, w\<lparr>sw_adapter := x\<rparr>))),
     sd_wait = (\<lambda>d. Some (\<lambda>w. apfst Returned (shutdown_conditions X P others calls goals_empty d w))),
     sd_emergency = Some (\<lambda>w. case sx_emergency X (sw_adapter w) of (r, x) \<Rightarrow> (r, w\<lparr>sw_adapter := x\<rparr>)),
     sd_fence = (\<lambda>detail. Some (\<lambda>w. (Returned (), w\<lparr>sw_fence := snd (fence_raise detail (sw_fence w))\<rparr>))),
     sd_core = (\<lambda>detail. Some (\<lambda>w. (Returned (), w\<lparr>sw_core :=
       exec (fail_closed_at_epoch P (f_epoch (sw_fence w)) detail) (sw_core w)\<rparr>)))\<rparr>"

subsection \<open>What a shutdown leaves behind\<close>

text \<open>The core after it was told to fail closed: idle, faulted, and past the epoch of the fence.\<close>

lemma fail_closed_at_epoch_facts:
  assumes "no_zombie s" and "t = exec (fail_closed_at_epoch P epoch detail) s"
  shows "c_active t = None \<and> rs_availability (c_state t) = AvFaulted \<and> epoch \<le> rs_epoch (c_state t)"
proof -
  let ?s = "if rs_epoch (c_state s) < epoch then exec (set_epoch epoch) s else s"
  let ?u = "if c_active s \<noteq> None then exec (terminate P SafetyFault detail) ?s else ?s"
  have z: "no_zombie ?s" "epoch \<le> rs_epoch (c_state ?s)" "c_active ?s = c_active s"
    using assms(1) by (auto simp: no_zombie_def set_epoch_def not_less)
  have "c_active ?u = None"
    using terminal_idle [OF z(1), of P SafetyFault detail False] z(3) by (simp add: terminate_def split_beta)
  moreover have "kept_books P ?s ?u"
    using kept_exec [OF books.calls.kept_terminate, of P ?s SafetyFault detail] books.refl [of P ?s] by simp
  then have "epoch \<le> rs_epoch (c_state ?u)" using z(2) by (auto simp: kept_books_def)
  moreover have "t = exec (publish_state P) (exec (set_availability AvFaulted) ?u)"
    using assms(2) by (auto simp: fail_closed_at_epoch_def split_beta set_epoch_def)
  ultimately show ?thesis
    by (simp add: publish_state_def set_availability_def split_beta)
qed

lemma quiescing_step: "ag_quiescing (aw_gate w) \<Longrightarrow> ag_quiescing (aw_gate (world_step w ev))"
  by (cases ev) (auto simp: gate_close_def drain_record_def split: list.split)

lemma quiescing_run: "ag_quiescing (aw_gate w) \<Longrightarrow> ag_quiescing (aw_gate (run world_step w evs))"
  by (induction evs arbitrary: w) (simp_all add: quiescing_step)

lemma drain_wait_inv:
  assumes "world_inv a" "list_all through_gate others" "drain_wait others a = (b, a')"
  shows "world_inv a' \<and> (ag_quiescing (aw_gate a) \<longrightarrow> ag_quiescing (aw_gate a')) \<and>
    (b \<longrightarrow> drain_answer (aw_gate a') = Some True)"
proof (cases "drain_answer (aw_gate a)")
  case None
  let ?a = "run world_step a others"
  have inv: "world_inv ?a" by (rule world_run_inv [OF assms(1,2)])
  have q: "ag_quiescing (aw_gate ?a)"
    using None quiescing_run [of a others] by (simp add: drain_answer_def split: if_splits)
  have "b = plane_drained (ts_plane (aw_transactions ?a))"
    "a' = ?a\<lparr>aw_gate := drain_record b (aw_gate ?a)\<rparr>"
    using assms(3) None by (auto simp: drain_wait_def Let_def)
  then show ?thesis
    using inv q by (auto simp: world_inv_def drain_record_def drain_answer_def)
next
  case (Some c)
  then show ?thesis using assms by (auto simp: drain_wait_def)
qed

lemma drained_idle:
  assumes "world_inv a" "drain_answer (aw_gate a) = Some True"
  shows "ts_live (aw_transactions a) = []"
proof -
  have "plane_inv (aw_transactions a)" "plane_drained (ts_plane (aw_transactions a))"
    using assms by (auto simp: world_inv_def drain_answer_def split: if_splits)
  then show ?thesis by (auto simp: plane_drained_def elim!: plane_inv_cases split: if_splits)
qed

text \<open>What every point of the shutdown after the close knows of its world.\<close>

definition shutting_down :: "('e, 'q, 'x) shutdown_world \<Rightarrow> bool" where
  "shutting_down w \<longleftrightarrow> world_inv (sw_admission w) \<and> ag_quiescing (aw_gate (sw_admission w)) \<and>
     no_zombie (sw_core w)"

lemma live_run: "no_zombie s \<Longrightarrow> no_zombie (run (runtime_step P) s evs)"
  using live.run_related [where P = P and s = s and evs = evs] by simp

lemma shutdown_conditions_facts:
  assumes "shutting_down w" "list_all through_gate others"
    and "shutdown_conditions X P others calls goals_empty d w = (b, v)"
  shows "shutting_down v \<and> (b \<longrightarrow> drain_answer (aw_gate (sw_admission v)) = Some True \<and>
    c_active (sw_core v) = None \<and> gate_safe (sx_snapshot X (sw_adapter v)) (sx_zero X (sw_adapter v)))"
proof -
  obtain completed x where x: "sx_completion X d (sw_adapter w) = (completed, x)" by (cases "sx_completion X d (sw_adapter w)")
  obtain drained a where a: "drain_wait others (sw_admission w) = (drained, a)"
    by (cases "drain_wait others (sw_admission w)")
  note facts = drain_wait_inv [OF _ assms(2) a]
  show ?thesis
    using assms(1,3) facts live_run [of "sw_core w" P calls]
    by (auto simp: shutdown_conditions_def shutting_down_def x a Let_def split: if_splits)
qed

lemma close_shuts:
  assumes "world_inv (sw_admission w)" "no_zombie (sw_core w)"
  shows "shutting_down (w\<lparr>sw_admission := world_step (sw_admission w) (WorldClose False)\<rparr>)"
  using world_close_inv [OF assms(1), of False] assms(2)
  by (auto simp: shutting_down_def gate_close_def Let_def)

text \<open>The state a failed shutdown reaches from the end of its waits.\<close>

lemma fails_closed:
  assumes "shutting_down v"
    and "u = v\<lparr>sw_adapter := x, sw_fence := snd (fence_raise detail (sw_fence v)), sw_core :=
      exec (fail_closed_at_epoch P (f_epoch (snd (fence_raise detail (sw_fence v)))) detail) (sw_core v)\<rparr>"
  shows "ag_quiescing (aw_gate (sw_admission u)) \<and> c_active (sw_core u) = None \<and>
    f_blocked (sw_fence u) \<and> rs_availability (c_state (sw_core u)) = AvFaulted \<and>
    f_epoch (sw_fence u) \<le> rs_epoch (c_state (sw_core u))"
  using assms fail_closed_at_epoch_facts [OF _ refl, of "sw_core v" P
    "f_epoch (snd (fence_raise detail (sw_fence v)))" detail]
  by (simp add: shutting_down_def fence_raise_def)

lemma close_answers_true: "fst (gate_close False a t p)"
  by (simp add: gate_close_def Let_def)

definition after_waits :: "('e, 'x) shutdown_adapter \<Rightarrow> 'e runtime_ports \<Rightarrow> 'q world_event list \<Rightarrow>
    'e runtime_event list \<Rightarrow> bool \<Rightarrow> time \<Rightarrow> ('e, 'q, 'x) shutdown_world \<Rightarrow>
    bool \<times> ('e, 'q, 'x) shutdown_world" where
  "after_waits X P others calls goals_empty d w =
     (case sx_begin X d (sw_adapter w) of (r, x) \<Rightarrow>
       if r = Returned () then shutdown_conditions X P others calls goals_empty d (w\<lparr>sw_adapter := x\<rparr>)
       else (False, w\<lparr>sw_adapter := x\<rparr>))"

lemma coordinator_node:
  "coordinator_run (node_parts X P others calls goals_empty) d w =
     (case after_waits X P others calls goals_empty d
         (w\<lparr>sw_admission := world_step (sw_admission w) (WorldClose False)\<rparr>) of (b, v) \<Rightarrow>
       if b then (\<lparr>so_drained = True, so_fail_closed = False\<rparr>, v)
       else (\<lparr>so_drained = False, so_fail_closed = True\<rparr>,
         v\<lparr>sw_adapter := snd (sx_emergency X (sw_adapter v)),
           sw_fence := snd (fence_raise shutdown_detail (sw_fence v)),
           sw_core := exec (fail_closed_at_epoch P
             (f_epoch (snd (fence_raise shutdown_detail (sw_fence v)))) shutdown_detail) (sw_core v)\<rparr>))"
  using close_answers_true [of "aw_gate (sw_admission w)" "ad_tracker (aw_tracker (sw_admission w))"
    "ts_plane (aw_transactions (sw_admission w))"]
  by (simp add: coordinator_run_def node_parts_def holds_true_def attempted_def after_waits_def
    split_beta apfst_def map_prod_def Let_def del: world_step.simps)

lemma after_waits_facts:
  assumes "shutting_down w" "list_all through_gate others"
    and "after_waits X P others calls goals_empty d w = (b, v)"
  shows "shutting_down v \<and> (b \<longrightarrow> drain_answer (aw_gate (sw_admission v)) = Some True \<and>
    c_active (sw_core v) = None \<and> gate_safe (sx_snapshot X (sw_adapter v)) (sx_zero X (sw_adapter v)))"
proof -
  obtain r x where x: "sx_begin X d (sw_adapter w) = (r, x)" by (cases "sx_begin X d (sw_adapter w)")
  have s: "shutting_down (w\<lparr>sw_adapter := x\<rparr>)" using assms(1) by (simp add: shutting_down_def)
  show ?thesis
    using assms(3) shutdown_conditions_facts [OF s assms(2)] s
    by (auto simp: after_waits_def x split: if_splits)
qed

text \<open>
  C20: however the parts of the shutdown end, admission is closed and the core is idle after it. A
  shutdown that claims to be clean found the Gate inhibited at a published zero and the plane
  drained for good; otherwise the emergency fence is raised and the core faulted beyond its epoch.
\<close>

theorem shutdown_is_clean_or_closed:
  assumes "runtime_init P e = Inr s0" and "sw_core w = run (runtime_step P) s0 evs"
    and "sw_admission w = run world_step (world_init t q) aevs"
    and "list_all through_gate aevs" and "list_all through_gate others"
    and "coordinator_run (node_parts X P others calls goals_empty) deadline w = (outcome, w')"
  shows "ag_quiescing (aw_gate (sw_admission w')) \<and> c_active (sw_core w') = None \<and>
    (if so_drained outcome
     then \<not> so_fail_closed outcome \<and> drain_answer (aw_gate (sw_admission w')) = Some True \<and>
       ts_live (aw_transactions (sw_admission w')) = [] \<and>
       gate_safe (sx_snapshot X (sw_adapter w')) (sx_zero X (sw_adapter w'))
     else so_fail_closed outcome \<and> f_blocked (sw_fence w') \<and>
       rs_availability (c_state (sw_core w')) = AvFaulted \<and>
       f_epoch (sw_fence w') \<le> rs_epoch (c_state (sw_core w')))"
proof -
  let ?w = "w\<lparr>sw_admission := world_step (sw_admission w) (WorldClose False)\<rparr>"
  obtain b v where v: "after_waits X P others calls goals_empty deadline ?w = (b, v)"
    by (cases "after_waits X P others calls goals_empty deadline ?w")
  have "shutting_down ?w"
    using close_shuts [of w] world_run_inv [OF world_init_inv assms(4), of t q]
      reachable_live [OF assms(1), of evs] assms(2,3) by (simp del: world_step.simps)
  note facts = after_waits_facts [OF this assms(5) v]
  then have idle: "ts_live (aw_transactions (sw_admission v)) = []" if b
    using that by (intro drained_idle) (auto simp: shutting_down_def)
  show ?thesis
  proof (cases b)
    case True
    then have "outcome = \<lparr>so_drained = True, so_fail_closed = False\<rparr>" "w' = v"
      using assms(6) unfolding coordinator_node v by simp_all
    then show ?thesis using facts idle True by (simp add: shutting_down_def)
  next
    case False
    then have o: "outcome = \<lparr>so_drained = False, so_fail_closed = True\<rparr>"
      and w': "w' = v\<lparr>sw_adapter := snd (sx_emergency X (sw_adapter v)),
           sw_fence := snd (fence_raise shutdown_detail (sw_fence v)),
           sw_core := exec (fail_closed_at_epoch P
             (f_epoch (snd (fence_raise shutdown_detail (sw_fence v)))) shutdown_detail) (sw_core v)\<rparr>"
      using assms(6) unfolding coordinator_node v by simp_all
    show ?thesis using fails_closed [OF conjunct1 [OF facts] w'] by (simp add: o)
  qed
qed

definition demo_adapter :: "(scripted, bool) shutdown_adapter" where
  "demo_adapter = \<lparr>sx_begin = (\<lambda>d x. (Returned (), x)), sx_completion = (\<lambda>d x. (Returned x, x)),
     sx_emergency = (\<lambda>x. (Threw ''bus'', x)), sx_zero = (\<lambda>x. Returned True),
     sx_snapshot = (\<lambda>x. Returned default_snapshot)\<rparr>"

definition demo_world :: "bool \<Rightarrow> (scripted, unit, bool) shutdown_world" where
  "demo_world x = \<lparr>sw_admission = world_init demo_tracker (), sw_fence = fence_init 1,
     sw_core = working_core, sw_adapter = x\<rparr>"

theorem shutdown_is_clean_or_closed_witness:
  "c_active (sw_core (snd (coordinator_run (node_parts demo_adapter script_ports [] [] True) (ms 900)
     (demo_world False)))) = None"
  by (rule shutdown_is_clean_or_closed [OF fresh_runtime _ _ _ _ prod.collapse [symmetric], of _ "[admit_event]"
      demo_tracker "()" "[]", THEN conjunct2, THEN conjunct1])
    (simp_all add: demo_world_def admit_event_run del: run.simps(2))

end
