(* ===== verification/Completion_Registry.thy ===== *)
theory Completion_Registry
  imports Mission_Runs "HOL-Library.Multiset"
begin

unbundle bit_operations_syntax

text \<open>
  The storage of child completions on the Node (\<open>NodeCompletionRegistry\<close>,
  runtime_completion_registry.hpp): the owners of the deliveries that the core registered, by the
  bytes of their token, and the terminal records that the adapter relays to them.
\<close>

subsection \<open>The key of a token\<close>

text \<open>The bytes of an unsigned 64-bit integer in memory, on a little-endian machine.\<close>

primrec bytes_from_low :: "nat \<Rightarrow> u64 \<Rightarrow> u8 list" where
  "bytes_from_low 0 w = []"
| "bytes_from_low (Suc n) w = ucast w # bytes_from_low n (drop_bit 8 w)"

definition le_bytes :: "u64 \<Rightarrow> u8 list" where
  "le_bytes w = bytes_from_low 8 w"

definition completion_token_key :: "motion_token \<Rightarrow> u8 list" where
  "completion_token_key t = le_bytes (tk_mission t) @ le_bytes (tk_epoch t) @ le_bytes (tk_generation t) @
     le_bytes (tk_step_generation t) @ le_bytes (tk_admission_generation t)"

text \<open>Reading the integers back.\<close>

definition of_le_bytes :: "u8 list \<Rightarrow> u64" where
  "of_le_bytes bs = foldr (\<lambda>b w. push_bit 8 w OR ucast b) bs 0"

definition key_token :: "u8 list \<Rightarrow> motion_token" where
  "key_token k = (let word = (\<lambda>i. of_le_bytes (take 8 (drop (8 * i) k))) in
     \<lparr>tk_mission = word 0, tk_epoch = word 1, tk_generation = word 2, tk_step_generation = word 3,
       tk_admission_generation = word 4\<rparr>)"

lemma length_bytes_from_low [simp]: "length (bytes_from_low n w) = n"
  by (induction n arbitrary: w) simp_all

lemma length_le_bytes [simp]: "length (le_bytes w) = 8"
  by (simp add: le_bytes_def)

lemma low_byte: "push_bit 8 (drop_bit 8 v) OR ucast (ucast v :: u8) = (v :: u64)"
  by (rule bit_word_eqI) (auto simp: bit_or_iff bit_push_bit_iff bit_unsigned_iff bit_drop_bit_eq)

lemma of_bytes_from_low: "of_le_bytes (bytes_from_low n w) = take_bit (8 * n) w"
proof (induction n arbitrary: w)
  case (Suc n)
  have "take_bit (8 * n) (drop_bit 8 w) = drop_bit 8 (take_bit (8 * Suc n) w)"
    by (simp add: take_bit_drop_bit add.commute)
  moreover have "ucast w = (ucast (take_bit (8 * Suc n) w) :: u8)"
    by (rule bit_word_eqI) (auto simp: bit_unsigned_iff bit_take_bit_iff)
  ultimately show ?case
    using Suc [of "drop_bit 8 w"] low_byte [of "take_bit (8 * Suc n) w"] by (simp add: of_le_bytes_def)
qed (simp add: of_le_bytes_def)

lemma of_le_bytes_le_bytes [simp]: "of_le_bytes (le_bytes w) = w"
  by (simp add: le_bytes_def of_bytes_from_low take_bit_word_eq_self)

text \<open>
  C40: the key of a token determines the token, so that a completion reaches the delivery that was
  registered for its own mission, step and admission.
\<close>

theorem completion_key_roundtrip:
  "length (completion_token_key t) = 40 \<and> key_token (completion_token_key t) = t"
  by (simp add: completion_token_key_def key_token_def)

lemma completion_token_key_eq: "completion_token_key t = completion_token_key u \<longleftrightarrow> t = u"
proof
  assume "completion_token_key t = completion_token_key u"
  then have "key_token (completion_token_key t) = key_token (completion_token_key u)" by simp
  then show "t = u" by (simp add: completion_token_key_def key_token_def)
qed simp

subsection \<open>The registry\<close>

text \<open>
  A record is shared, immutable data; a \<open>RelativeMotionCompletionRecordPtr\<close> that is null is \<open>None\<close>. A
  delivery owner is a value of type \<open>'d\<close>, and an empty \<open>std::function\<close> is \<open>None\<close>.
\<close>

record completion_record =
  cr_token :: motion_token
  cr_result :: child_result

record 'd registry_entry =
  re_token :: motion_token
  re_record :: "completion_record option"
  re_delivery :: 'd

record 'd registry =
  rg_entries :: "(u8 list \<times> 'd registry_entry) list"
  rg_rejected_entries :: "(completion_record \<times> 'd) list"
  rg_rejected_records :: "completion_record list"
  rg_closed :: bool

definition k_completions :: nat where "k_completions = 16"
definition k_rejected :: nat where "k_rejected = 16"

definition registry_init :: "'d registry" where
  "registry_init = \<lparr>rg_entries = [], rg_rejected_entries = [], rg_rejected_records = [], rg_closed = False\<rparr>"

definition rejected_count :: "'d registry \<Rightarrow> nat" where
  "rejected_count r = length (rg_rejected_entries r) + length (rg_rejected_records r)"

definition register_delivery :: "motion_token \<Rightarrow> 'd option \<Rightarrow> 'd registry \<Rightarrow> bool \<times> 'd registry" where
  "register_delivery t delivery r =
     (case delivery of None \<Rightarrow> (False, r)
      | Some d \<Rightarrow>
          if rg_closed r then (False, r)
          else if map_of (rg_entries r) (completion_token_key t) \<noteq> None \<or> k_completions \<le> length (rg_entries r)
          then (False, r)
          else (True, r\<lparr>rg_entries := (completion_token_key t,
            \<lparr>re_token = t, re_record = None, re_delivery = d\<rparr>) # rg_entries r\<rparr>))"

definition registry_accept :: "completion_record \<Rightarrow> 'd registry \<Rightarrow> bool \<times> 'd registry" where
  "registry_accept c r =
     (if rg_closed r then (False, r)
      else case map_of (rg_entries r) (completion_token_key (cr_token c)) of
        None \<Rightarrow> (False, r)
      | Some e \<Rightarrow> if re_record e \<noteq> None then (False, r)
          else (True, r\<lparr>rg_entries :=
            AList.update (completion_token_key (cr_token c)) (e\<lparr>re_record := Some c\<rparr>) (rg_entries r)\<rparr>))"

definition retain_rejected :: "completion_record option \<Rightarrow> 'd registry \<Rightarrow> bool \<times> 'd registry" where
  "retain_rejected c r =
     (case c of None \<Rightarrow> (True, r)
      | Some c \<Rightarrow> if k_rejected \<le> rejected_count r then (False, r)
          else (True, r\<lparr>rg_rejected_records := rg_rejected_records r @ [c]\<rparr>))"

definition registry_reject :: "motion_token \<Rightarrow> completion_record option \<Rightarrow> 'd registry \<Rightarrow> bool \<times> 'd registry" where
  "registry_reject t c r =
     (case c of None \<Rightarrow> (True, r)
      | Some c \<Rightarrow>
          if k_rejected \<le> rejected_count r then (False, r)
          else case map_of (rg_entries r) (completion_token_key t) of
            Some e \<Rightarrow>
              if re_record e = None
              then (True, r\<lparr>rg_rejected_entries := rg_rejected_entries r @ [(c, re_delivery e)],
                rg_entries := AList.delete (completion_token_key t) (rg_entries r)\<rparr>)
              else (True, r\<lparr>rg_rejected_records := rg_rejected_records r @ [c]\<rparr>)
          | None \<Rightarrow> (True, r\<lparr>rg_rejected_records := rg_rejected_records r @ [c]\<rparr>))"

definition reject_accepted :: "motion_token \<Rightarrow> 'd registry \<Rightarrow> bool \<times> 'd registry" where
  "reject_accepted t r =
     (if k_rejected \<le> rejected_count r then (False, r)
      else case map_of (rg_entries r) (completion_token_key t) of
        None \<Rightarrow> (False, r)
      | Some e \<Rightarrow> (case re_record e of
          None \<Rightarrow> (False, r)
        | Some c \<Rightarrow> (True, r\<lparr>rg_rejected_entries := rg_rejected_entries r @ [(c, re_delivery e)],
            rg_entries := AList.delete (completion_token_key t) (rg_entries r)\<rparr>)))"

definition registry_take :: "motion_token \<Rightarrow> 'd registry \<Rightarrow> (completion_record \<times> 'd) option \<times> 'd registry" where
  "registry_take t r =
     (case map_of (rg_entries r) (completion_token_key t) of
        None \<Rightarrow> (None, r)
      | Some e \<Rightarrow> (case re_record e of
          None \<Rightarrow> (None, r)
        | Some c \<Rightarrow> (Some (c, re_delivery e),
            r\<lparr>rg_entries := AList.delete (completion_token_key t) (rg_entries r)\<rparr>)))"

definition registry_discard :: "motion_token \<Rightarrow> 'd registry \<Rightarrow> 'd registry" where
  "registry_discard t r = r\<lparr>rg_entries := AList.delete (completion_token_key t) (rg_entries r)\<rparr>"

definition registry_close :: "'d registry \<Rightarrow> 'd registry" where
  "registry_close r = r\<lparr>rg_closed := True\<rparr>"

definition reap_rejected :: "'d registry \<Rightarrow> 'd registry" where
  "reap_rejected r = r\<lparr>rg_rejected_entries := [], rg_rejected_records := []\<rparr>"

definition reap_all :: "'d registry \<Rightarrow> 'd registry" where
  "reap_all r = r\<lparr>rg_entries := [], rg_rejected_entries := [], rg_rejected_records := []\<rparr>"

lemmas registry_defs = register_delivery_def registry_accept_def retain_rejected_def registry_reject_def
  reject_accepted_def registry_take_def registry_discard_def registry_close_def reap_rejected_def reap_all_def

subsection \<open>What an entry holds\<close>

text \<open>Keys are those of the tokens, records are those of the token, and the areas are bounded.\<close>

definition entry_wf :: "u8 list \<Rightarrow> 'd registry_entry \<Rightarrow> bool" where
  "entry_wf k e \<longleftrightarrow> k = completion_token_key (re_token e) \<and>
     (case re_record e of None \<Rightarrow> True | Some c \<Rightarrow> cr_token c = re_token e)"

definition registry_inv :: "'d registry \<Rightarrow> bool" where
  "registry_inv r \<longleftrightarrow> distinct_keys (rg_entries r) \<and>
     (\<forall>k e. map_of (rg_entries r) k = Some e \<longrightarrow> entry_wf k e) \<and>
     length (rg_entries r) \<le> k_completions \<and> rejected_count r \<le> k_rejected"

text \<open>Sums over the values of a map, and what its operations do to them.\<close>

definition over :: "('v \<Rightarrow> 'a::comm_monoid_add) \<Rightarrow> ('k \<times> 'v) list \<Rightarrow> 'a" where
  "over f m = sum_list (map (\<lambda>(k, v). f v) m)"

lemma over_simps [simp]: "over f [] = 0" "over f ((k, v) # m) = f v + over f m"
  by (simp_all add: over_def)

lemma over_update:
  "distinct_keys m \<Longrightarrow> map_of m k = Some v \<Longrightarrow> over f (AList.update k w m) + f v = over f m + f w"
  by (induction m) (auto simp: ac_simps split: if_splits)

lemma over_update_same:
  "distinct_keys m \<Longrightarrow> map_of m k = Some v \<Longrightarrow> f w = f v \<Longrightarrow> over f (AList.update k w m) = over f m"
  by (induction m) (auto split: if_splits)

lemma over_delete:
  "distinct_keys m \<Longrightarrow> map_of m k = Some v \<Longrightarrow> over f m = f v + over f (AList.delete k m)"
  by (induction m) (auto simp: ac_simps delete_id map_of_eq_None_iff split: if_splits)

text \<open>The delivery owners of a registry, each with its token.\<close>

definition entry_owner :: "'d registry_entry \<Rightarrow> motion_token \<times> 'd" where
  "entry_owner e = (re_token e, re_delivery e)"

definition entry_owners :: "'d registry \<Rightarrow> (motion_token \<times> 'd) list" where
  "entry_owners r = map (\<lambda>(k, e). entry_owner e) (rg_entries r)"

definition dispatch_owner :: "completion_record \<times> 'd \<Rightarrow> motion_token \<times> 'd" where
  "dispatch_owner x = (cr_token (fst x), snd x)"

definition rejected_owners :: "'d registry \<Rightarrow> (motion_token \<times> 'd) list" where
  "rejected_owners r = map dispatch_owner (rg_rejected_entries r)"

definition owners :: "'d registry \<Rightarrow> (motion_token \<times> 'd) multiset" where
  "owners r = mset (entry_owners r) + mset (rejected_owners r)"

lemma mset_entry_owners: "mset (entry_owners r) = over (\<lambda>e. {#entry_owner e#}) (rg_entries r)"
proof -
  have "mset (map (\<lambda>(k, e). entry_owner e) m) = over (\<lambda>e. {#entry_owner e#}) m" for m :: "('k \<times> 'd registry_entry) list"
    by (induction m) (auto simp: over_def)
  then show ?thesis by (simp add: entry_owners_def)
qed

lemma registry_entry_facts:
  assumes "registry_inv r" "map_of (rg_entries r) (completion_token_key t) = Some e"
  shows "re_token e = t" "re_record e = Some c \<Longrightarrow> cr_token c = t"
proof -
  have "entry_wf (completion_token_key t) e" using assms by (simp add: registry_inv_def)
  then show "re_token e = t" "re_record e = Some c \<Longrightarrow> cr_token c = t"
    by (simp_all add: entry_wf_def completion_token_key_eq split: option.splits)
qed

lemma registry_init_facts: "registry_inv registry_init" "owners registry_init = {#}"
  by (simp_all add: registry_inv_def registry_init_def owners_def entry_owners_def rejected_owners_def
    rejected_count_def)

text \<open>Removing an entry, with its owner moved elsewhere.\<close>

definition without :: "motion_token \<Rightarrow> 'd registry \<Rightarrow> 'd registry" where
  "without t r = r\<lparr>rg_entries := AList.delete (completion_token_key t) (rg_entries r)\<rparr>"

lemma without_inv: "registry_inv r \<Longrightarrow> registry_inv (without t r)"
  using length_delete_le [of "completion_token_key t" "rg_entries r"]
  by (auto simp: registry_inv_def without_def rejected_count_def delete_conv')

lemma without_owners:
  assumes "registry_inv r" "map_of (rg_entries r) (completion_token_key t) = Some e"
  shows "owners r = add_mset (t, re_delivery e) (owners (without t r))"
proof -
  have "over (\<lambda>e. {#entry_owner e#}) (rg_entries r) =
      {#entry_owner e#} + over (\<lambda>e. {#entry_owner e#}) (rg_entries (without t r))"
    using over_delete [OF _ assms(2), of "\<lambda>e. {#entry_owner e#}"] assms(1)
    by (simp add: registry_inv_def without_def)
  then show ?thesis
    using registry_entry_facts(1) [OF assms]
    by (simp add: owners_def mset_entry_owners entry_owner_def rejected_owners_def without_def)
qed

lemma register_facts:
  assumes "registry_inv r" "register_delivery t delivery r = (ok, r')"
  shows "registry_inv r' \<and>
    owners r' = owners r + (case delivery of Some d \<Rightarrow> if ok then {#(t, d)#} else {#} | None \<Rightarrow> {#})"
proof (cases "delivery \<noteq> None \<and> \<not> rg_closed r \<and>
    map_of (rg_entries r) (completion_token_key t) = None \<and> length (rg_entries r) < k_completions")
  case True
  then obtain d where d: "delivery = Some d" by auto
  let ?e = "\<lparr>re_token = t, re_record = None, re_delivery = d\<rparr>"
  have "ok" and r': "r' = r\<lparr>rg_entries := (completion_token_key t, ?e) # rg_entries r\<rparr>"
    using True assms(2) by (simp_all add: register_delivery_def d)
  then show ?thesis
    using True assms(1) by (simp add: d r' registry_inv_def owners_def entry_owners_def rejected_owners_def
      entry_owner_def entry_wf_def rejected_count_def)
next
  case False
  then have "\<not> ok \<and> r' = r"
    using assms(2) by (cases delivery) (auto simp: register_delivery_def split: if_splits)
  then show ?thesis using assms(1) by (simp split: option.split)
qed

lemma accept_facts:
  assumes "registry_inv r" "registry_accept c r = (ok, r')"
  shows "registry_inv r' \<and> owners r' = owners r"
proof (cases ok)
  case True
  then obtain e where e: "map_of (rg_entries r) (completion_token_key (cr_token c)) = Some e" "re_record e = None"
    and r': "r' = r\<lparr>rg_entries := AList.update (completion_token_key (cr_token c)) (e\<lparr>re_record := Some c\<rparr>) (rg_entries r)\<rparr>"
    using assms(2) by (auto simp: registry_accept_def split: if_splits option.splits)
  have t: "re_token e = cr_token c" by (rule registry_entry_facts(1) [OF assms(1) e(1)])
  moreover have "mset (entry_owners r') = mset (entry_owners r)"
    using over_update_same [OF _ e(1), of "\<lambda>e. {#entry_owner e#}" "e\<lparr>re_record := Some c\<rparr>"] assms(1)
    by (simp add: mset_entry_owners r' entry_owner_def registry_inv_def)
  ultimately show ?thesis
    using assms(1) length_update_present [OF map_of_SomeI_key [OF e(1)], of "e\<lparr>re_record := Some c\<rparr>"]
    by (simp add: r' registry_inv_def owners_def rejected_owners_def rejected_count_def entry_wf_def
      update_conv')
next
  case False
  then show ?thesis using assms by (auto simp: registry_accept_def split: if_splits option.splits)
qed

text \<open>A rejection moves its owner to the rejected area.\<close>

lemma moved_to_rejected:
  assumes "registry_inv r" "map_of (rg_entries r) (completion_token_key t) = Some e" "cr_token c = t"
    and "rejected_count r < k_rejected"
    and "r' = r\<lparr>rg_rejected_entries := rg_rejected_entries r @ [(c, re_delivery e)],
      rg_entries := AList.delete (completion_token_key t) (rg_entries r)\<rparr>"
  shows "registry_inv r' \<and> owners r' = owners r"
  using without_inv [OF assms(1), of t] without_owners [OF assms(1,2)] assms(3-5)
  by (simp add: registry_inv_def rejected_count_def owners_def entry_owners_def rejected_owners_def
    dispatch_owner_def without_def)

lemma added_record:
  assumes "registry_inv r" "rejected_count r < k_rejected"
    and "r' = r\<lparr>rg_rejected_records := rg_rejected_records r @ [c]\<rparr>"
  shows "registry_inv r' \<and> owners r' = owners r"
  using assms by (simp add: registry_inv_def rejected_count_def owners_def entry_owners_def rejected_owners_def)

lemma reject_facts:
  assumes "registry_inv r" "registry_reject (cr_token c) (Some c) r = (ok, r')"
  shows "registry_inv r' \<and> owners r' = owners r"
proof (cases "rejected_count r < k_rejected")
  case True
  show ?thesis
  proof (cases "\<exists>e. map_of (rg_entries r) (completion_token_key (cr_token c)) = Some e \<and> re_record e = None")
    case free: True
    then obtain e where e: "map_of (rg_entries r) (completion_token_key (cr_token c)) = Some e" "re_record e = None"
      by blast
    have "r' = r\<lparr>rg_rejected_entries := rg_rejected_entries r @ [(c, re_delivery e)],
      rg_entries := AList.delete (completion_token_key (cr_token c)) (rg_entries r)\<rparr>"
      using assms(2) True e by (simp add: registry_reject_def without_def)
    then show ?thesis by (rule moved_to_rejected [OF assms(1) e(1) refl True])
  next
    case False
    have "r' = r\<lparr>rg_rejected_records := rg_rejected_records r @ [c]\<rparr>"
      using assms(2) True False by (auto simp: registry_reject_def split: option.splits if_splits)
    then show ?thesis by (rule added_record [OF assms(1) True])
  qed
next
  case False
  then show ?thesis using assms by (simp add: registry_reject_def not_less)
qed

lemma reject_accepted_facts:
  assumes "registry_inv r" "reject_accepted t r = (ok, r')"
  shows "registry_inv r' \<and> owners r' = owners r"
proof (cases "rejected_count r < k_rejected \<and>
    (\<exists>e c. map_of (rg_entries r) (completion_token_key t) = Some e \<and> re_record e = Some c)")
  case True
  then obtain e c where e: "rejected_count r < k_rejected"
      "map_of (rg_entries r) (completion_token_key t) = Some e" "re_record e = Some c" by blast
  have "r' = r\<lparr>rg_rejected_entries := rg_rejected_entries r @ [(c, re_delivery e)],
      rg_entries := AList.delete (completion_token_key t) (rg_entries r)\<rparr>"
    using assms(2) e by (simp add: reject_accepted_def)
  then show ?thesis
    by (rule moved_to_rejected [OF assms(1) e(2) registry_entry_facts(2) [OF assms(1) e(2,3)] e(1)])
next
  case False
  then have "r' = r"
    using assms(2) by (auto simp: reject_accepted_def not_less split: if_splits option.splits)
  then show ?thesis using assms(1) by simp
qed

lemma take_facts:
  assumes "registry_inv r" "registry_take t r = (x, r')"
  shows "registry_inv r' \<and>
    owners r = owners r' + (case x of None \<Rightarrow> {#} | Some y \<Rightarrow> {#dispatch_owner y#})"
proof (cases x)
  case None
  then show ?thesis using assms by (auto simp: registry_take_def split: option.splits)
next
  case (Some y)
  then obtain e c where e: "map_of (rg_entries r) (completion_token_key t) = Some e" "re_record e = Some c"
    and y: "y = (c, re_delivery e)" and r': "r' = without t r"
    using assms(2) by (auto simp: registry_take_def without_def split: option.splits)
  have "cr_token c = t" by (rule registry_entry_facts(2) [OF assms(1) e])
  then show ?thesis
    using without_inv [OF assms(1)] without_owners [OF assms(1) e(1)] Some y
    by (simp add: r' dispatch_owner_def)
qed

end
