(* ===== verification/Completion_Mailbox.thy ===== *)
theory Completion_Mailbox
  imports Completion_Registry
begin

text \<open>
  The way of a child completion from the adapter to the core: the mailbox with its relay and its
  reaper (\<open>NodeCompletionMailbox\<close>, \<open>NodeCompletionReaper\<close>, runtime_completion_mailbox.hpp) and the
  lane of the terminals that no event could carry (\<open>NodeTerminalHandoffLane\<close>,
  runtime_terminal_handoff_lane.hpp), as \<open>RuntimeExecutionPlane\<close> connects them. A relay passes through
  the mutexes of the registry, of the event queue, of the lane and of the reaper; \<open>relay_pc\<close> is where
  its thread is between them.
\<close>

subsection \<open>The relay\<close>

datatype relay_pc =
    RelayEnqueue motion_token child_result
  | RelayRejectAccepted motion_token child_result
  | RelayReject completion_record
  | RelayHandoff motion_token child_result bool bool
  | RelayNotify "string list"

definition registry_rejected :: string where
  "registry_rejected = ''Node completion registry rejected a terminal record''"
definition registry_lost :: string where
  "registry_lost = ''Node completion registry rejected and could not retain a terminal record''"
definition ingress_rejected :: string where
  "ingress_rejected = ''Runtime event ingress rejected a terminal completion token''"
definition entry_lost :: string where
  "entry_lost = ''Node completion registry could not retain a rejected terminal entry''"
definition lane_rejected :: string where
  "lane_rejected = ''Node terminal handoff lane rejected a terminal record''"

text \<open>The calls of \<open>reject\<close> at the end of a relay that the registry took (\<open>held\<close>) or not.\<close>

definition relay_details :: "bool \<Rightarrow> bool \<Rightarrow> bool \<Rightarrow> string list" where
  "relay_details held retained handed =
     (if held then ingress_rejected # (if retained then [] else [entry_lost])
      else [if retained then registry_rejected else registry_lost]) @
     (if handed then [] else [lane_rejected])"

subsection \<open>The state\<close>

text \<open>
  The registry, the lane, the flags of the reaper and the threads in \<open>relay\<close>. The other fields record
  what went through: registered deliveries, relayed records, tokens the event queue took, results the
  lane refused or handed to its handler, dispatches to the core, owners and records that were
  released, and emergency requests.
\<close>

type_synonym terminal = "motion_token \<times> child_result"

record 'd completions =
  cs_registry :: "'d registry"
  cs_lane :: "terminal list"
  cs_lane_closed :: bool
  cs_reap_pending :: bool
  cs_reaper_stopped :: bool
  cs_reaper_awake :: bool
  cs_relays :: "(nat \<times> relay_pc) list"
  cs_registered :: "(motion_token \<times> 'd) list"
  cs_relayed :: "completion_record list"
  cs_enqueued :: "terminal list"
  cs_refused :: "terminal list"
  cs_handled :: "terminal list"
  cs_dispatched :: "(completion_record \<times> 'd) list"
  cs_freed :: "(motion_token \<times> 'd) list"
  cs_emergencies :: "string list"

definition completions_init :: "'d completions" where
  "completions_init = \<lparr>cs_registry = registry_init, cs_lane = [], cs_lane_closed = False,
     cs_reap_pending = False, cs_reaper_stopped = False, cs_reaper_awake = False, cs_relays = [],
     cs_registered = [], cs_relayed = [], cs_enqueued = [], cs_refused = [], cs_handled = [],
     cs_dispatched = [], cs_freed = [], cs_emergencies = []\<rparr>"

definition request_reap :: "'d completions \<Rightarrow> 'd completions" where
  "request_reap w = (if cs_reaper_stopped w then w else w\<lparr>cs_reap_pending := True\<rparr>)"

definition k_lane :: nat where "k_lane = 16"

definition lane_enqueue :: "motion_token \<Rightarrow> child_result \<Rightarrow> 'd completions \<Rightarrow> bool \<times> 'd completions" where
  "lane_enqueue t r w =
     (if cs_lane_closed w \<or> k_lane \<le> length (cs_lane w) then (False, w\<lparr>cs_refused := cs_refused w @ [(t, r)]\<rparr>)
      else (True, w\<lparr>cs_lane := cs_lane w @ [(t, r)]\<rparr>))"

subsection \<open>The steps\<close>

definition mailbox_register :: "motion_token \<Rightarrow> 'd option \<Rightarrow> 'd completions \<Rightarrow> 'd completions" where
  "mailbox_register t delivery w =
     (case register_delivery t delivery (cs_registry w) of (ok, r) \<Rightarrow>
       w\<lparr>cs_registry := r, cs_registered := cs_registered w @
         (case delivery of Some d \<Rightarrow> if ok then [(t, d)] else [] | None \<Rightarrow> [])\<rparr>)"

definition mailbox_discard :: "motion_token \<Rightarrow> 'd completions \<Rightarrow> 'd completions" where
  "mailbox_discard t w = w\<lparr>cs_registry := registry_discard t (cs_registry w),
     cs_freed := cs_freed w @ (case map_of (rg_entries (cs_registry w)) (completion_token_key t) of
       None \<Rightarrow> [] | Some e \<Rightarrow> [entry_owner e])\<rparr>"

definition mailbox_take :: "motion_token \<Rightarrow> 'd completions \<Rightarrow> 'd completions" where
  "mailbox_take t w =
     (case registry_take t (cs_registry w) of (x, r) \<Rightarrow>
       w\<lparr>cs_registry := r, cs_dispatched := cs_dispatched w @ (case x of None \<Rightarrow> [] | Some y \<Rightarrow> [y])\<rparr>)"

definition relay_start :: "nat \<Rightarrow> completion_record \<Rightarrow> 'd completions \<Rightarrow> 'd completions" where
  "relay_start i c w =
     (if map_of (cs_relays w) i \<noteq> None then w
      else case registry_accept c (cs_registry w) of (ok, r) \<Rightarrow>
        w\<lparr>cs_registry := r, cs_relayed := cs_relayed w @ [c],
          cs_relays := (i, if ok then RelayEnqueue (cr_token c) (cr_result c) else RelayReject c) # cs_relays w\<rparr>)"

definition relay_at :: "nat \<Rightarrow> relay_pc \<Rightarrow> 'd completions \<Rightarrow> 'd completions" where
  "relay_at i pc w = w\<lparr>cs_relays := AList.update i pc (cs_relays w)\<rparr>"

definition relay_ends :: "nat \<Rightarrow> 'd completions \<Rightarrow> 'd completions" where
  "relay_ends i w = w\<lparr>cs_relays := AList.delete i (cs_relays w)\<rparr>"

text \<open>\<open>taken\<close> is what the token enqueue of the Node answers; an exception of it counts as a refusal.\<close>

fun relay_continue :: "nat \<Rightarrow> bool \<Rightarrow> relay_pc \<Rightarrow> 'd completions \<Rightarrow> 'd completions" where
  "relay_continue i taken (RelayEnqueue t r) w =
     (if taken then relay_ends i (w\<lparr>cs_enqueued := cs_enqueued w @ [(t, r)]\<rparr>)
      else relay_at i (RelayRejectAccepted t r) w)"
| "relay_continue i taken (RelayRejectAccepted t r) w =
     (case reject_accepted t (cs_registry w) of (retained, rg) \<Rightarrow>
       relay_at i (RelayHandoff t r True retained) (w\<lparr>cs_registry := rg\<rparr>))"
| "relay_continue i taken (RelayReject c) w =
     (case registry_reject (cr_token c) (Some c) (cs_registry w) of (retained, rg) \<Rightarrow>
       relay_at i (RelayHandoff (cr_token c) (cr_result c) False retained) (w\<lparr>cs_registry := rg\<rparr>))"
| "relay_continue i taken (RelayHandoff t r held retained) w =
     (case lane_enqueue t r w of (handed, w) \<Rightarrow>
       relay_at i (RelayNotify (relay_details held retained handed)) w)"
| "relay_continue i taken (RelayNotify []) w = relay_ends i w"
| "relay_continue i taken (RelayNotify (d # ds)) w =
     relay_at i (RelayNotify ds) (request_reap (w\<lparr>cs_emergencies := cs_emergencies w @ [d]\<rparr>))"

definition relay_step :: "nat \<Rightarrow> bool \<Rightarrow> 'd completions \<Rightarrow> 'd completions" where
  "relay_step i taken w = (case map_of (cs_relays w) i of None \<Rightarrow> w | Some pc \<Rightarrow> relay_continue i taken pc w)"

definition mailbox_reap_rejected :: "'d completions \<Rightarrow> 'd completions" where
  "mailbox_reap_rejected w = w\<lparr>cs_registry := reap_rejected (cs_registry w),
     cs_freed := cs_freed w @ rejected_owners (cs_registry w)\<rparr>"

definition mailbox_reap_all :: "'d completions \<Rightarrow> 'd completions" where
  "mailbox_reap_all w = w\<lparr>cs_registry := reap_all (cs_registry w),
     cs_freed := cs_freed w @ entry_owners (cs_registry w) @ rejected_owners (cs_registry w)\<rparr>"

text \<open>The reaper thread: it wakes up, then reaps; once stopped it reaps everything.\<close>

definition reaper_wakes :: "'d completions \<Rightarrow> 'd completions" where
  "reaper_wakes w = (if cs_reap_pending w \<or> cs_reaper_stopped w
     then w\<lparr>cs_reap_pending := False, cs_reaper_awake := True\<rparr> else w)"

definition reaper_reaps :: "'d completions \<Rightarrow> 'd completions" where
  "reaper_reaps w = (if \<not> cs_reaper_awake w then w
     else (if cs_reaper_stopped w then mailbox_reap_all w else mailbox_reap_rejected w)\<lparr>cs_reaper_awake := False\<rparr>)"

definition stop_reaper :: "'d completions \<Rightarrow> 'd completions" where
  "stop_reaper w = w\<lparr>cs_reaper_stopped := True, cs_reap_pending := True\<rparr>"

text \<open>One turn of the worker of the lane, with how the handler of the core ends.\<close>

definition lane_fault :: "unit outcome option \<Rightarrow> string list" where
  "lane_fault x = (case x of
     None \<Rightarrow> [''Node terminal handoff has no Core handler'']
   | Some (Returned _) \<Rightarrow> []
   | Some (Threw what) \<Rightarrow> [''Node terminal handoff raised: '' @ what]
   | Some ThrewUnknown \<Rightarrow> [''Node terminal handoff raised an unknown exception''])"

definition lane_turn :: "unit outcome option \<Rightarrow> 'd completions \<Rightarrow> 'd completions" where
  "lane_turn x w = (case cs_lane w of [] \<Rightarrow> w
     | y # ys \<Rightarrow> w\<lparr>cs_lane := ys, cs_handled := cs_handled w @ [y],
         cs_emergencies := cs_emergencies w @ lane_fault x\<rparr>)"

datatype 'd completion_event =
    Register motion_token "'d option"
  | Discard motion_token
  | TakeCompletion motion_token
  | Relay nat completion_record
  | RelayOn nat bool
  | CloseRegistry
  | RequestReap
  | ReaperWakes
  | ReaperReaps
  | StopReaper
  | ReapAll
  | LaneTurn "unit outcome option"
  | LaneClose

fun completion_step :: "'d completions \<Rightarrow> 'd completion_event \<Rightarrow> 'd completions" where
  "completion_step w (Register t d) = mailbox_register t d w"
| "completion_step w (Discard t) = mailbox_discard t w"
| "completion_step w (TakeCompletion t) = mailbox_take t w"
| "completion_step w (Relay i c) = relay_start i c w"
| "completion_step w (RelayOn i taken) = relay_step i taken w"
| "completion_step w CloseRegistry = w\<lparr>cs_registry := registry_close (cs_registry w)\<rparr>"
| "completion_step w RequestReap = request_reap w"
| "completion_step w ReaperWakes = reaper_wakes w"
| "completion_step w ReaperReaps = reaper_reaps w"
| "completion_step w StopReaper = stop_reaper w"
| "completion_step w ReapAll = mailbox_reap_all w"
| "completion_step w (LaneTurn x) = lane_turn x w"
| "completion_step w LaneClose = w\<lparr>cs_lane_closed := True\<rparr>"

subsection \<open>Owners of deliveries are conserved\<close>

definition owners_conserved :: "'d completions \<Rightarrow> bool" where
  "owners_conserved w \<longleftrightarrow> registry_inv (cs_registry w) \<and>
     mset (cs_registered w) = owners (cs_registry w) + mset (map dispatch_owner (cs_dispatched w)) + mset (cs_freed w)"

lemma freed_registry:
  assumes "owners_conserved w" "registry_inv r" "owners (cs_registry w) = owners r + mset xs"
    and "cs_registry v = r" "cs_registered v = cs_registered w" "cs_dispatched v = cs_dispatched w"
      "cs_freed v = cs_freed w @ xs"
  shows "owners_conserved v"
  using assms by (simp add: owners_conserved_def ac_simps)

lemma relay_continue_owners:
  assumes "owners_conserved w"
  shows "owners_conserved (relay_continue i taken pc w)"
proof (cases pc)
  case (RelayEnqueue t r)
  then show ?thesis
    using assms by (simp add: owners_conserved_def relay_ends_def relay_at_def)
next
  case (RelayRejectAccepted t r)
  obtain ok rg where rg: "reject_accepted t (cs_registry w) = (ok, rg)" by (cases "reject_accepted t (cs_registry w)")
  show ?thesis
    using reject_accepted_facts [OF _ rg] assms
    by (simp add: RelayRejectAccepted rg owners_conserved_def relay_at_def)
next
  case (RelayReject c)
  obtain ok rg where rg: "registry_reject (cr_token c) (Some c) (cs_registry w) = (ok, rg)"
    by (cases "registry_reject (cr_token c) (Some c) (cs_registry w)")
  show ?thesis
    using reject_facts [OF _ rg] assms
    by (simp add: RelayReject rg owners_conserved_def relay_at_def)
next
  case (RelayHandoff t r held retained)
  then show ?thesis
    using assms by (simp add: owners_conserved_def relay_at_def lane_enqueue_def)
next
  case (RelayNotify ds)
  then show ?thesis
    using assms by (cases ds) (simp_all add: owners_conserved_def relay_at_def relay_ends_def request_reap_def)
qed

lemma owners_step:
  assumes "owners_conserved w"
  shows "owners_conserved (completion_step w ev)"
proof (cases ev)
  case (Register t d)
  obtain ok r where r: "register_delivery t d (cs_registry w) = (ok, r)" by (cases "register_delivery t d (cs_registry w)")
  show ?thesis
    using register_facts [OF _ r] assms
    by (auto simp: Register mailbox_register_def r owners_conserved_def split: option.splits)
next
  case (Discard t)
  have inv: "registry_inv (cs_registry w)" using assms by (simp add: owners_conserved_def)
  show ?thesis
  proof (cases "map_of (rg_entries (cs_registry w)) (completion_token_key t)")
    case None
    then have "registry_discard t (cs_registry w) = cs_registry w"
      by (simp add: registry_discard_def map_of_eq_None_iff length_delete_absent)
    then show ?thesis using assms None by (simp add: Discard mailbox_discard_def owners_conserved_def)
  next
    case (Some e)
    then show ?thesis
      using without_inv [OF inv, of t] without_owners [OF inv Some] registry_entry_facts(1) [OF inv Some]
      by (intro freed_registry [OF assms, of "without t (cs_registry w)" "[entry_owner e]"])
        (simp_all add: Discard mailbox_discard_def registry_discard_def without_def entry_owner_def)
  qed
next
  case (TakeCompletion t)
  obtain x r where r: "registry_take t (cs_registry w) = (x, r)" by (cases "registry_take t (cs_registry w)")
  show ?thesis
    using take_facts [OF _ r] assms
    by (auto simp: TakeCompletion mailbox_take_def r owners_conserved_def ac_simps split: option.splits)
next
  case (Relay i c)
  obtain ok r where r: "registry_accept c (cs_registry w) = (ok, r)" by (cases "registry_accept c (cs_registry w)")
  show ?thesis
    using accept_facts [OF _ r] assms by (simp add: Relay relay_start_def r owners_conserved_def)
next
  case (RelayOn i taken)
  show ?thesis using relay_continue_owners [OF assms] assms by (simp add: RelayOn relay_step_def split: option.split)
next
  case CloseRegistry
  show ?thesis using assms by (simp add: CloseRegistry owners_conserved_def registry_close_def registry_inv_def
    rejected_count_def owners_def entry_owners_def rejected_owners_def)
next
  case RequestReap
  show ?thesis using assms by (simp add: RequestReap owners_conserved_def request_reap_def)
next
  case ReaperWakes
  show ?thesis using assms by (simp add: ReaperWakes owners_conserved_def reaper_wakes_def)
next
  case ReaperReaps
  show ?thesis using assms
    by (simp add: ReaperReaps reaper_reaps_def mailbox_reap_all_def mailbox_reap_rejected_def owners_conserved_def
      reap_all_def reap_rejected_def registry_inv_def rejected_count_def owners_def entry_owners_def rejected_owners_def ac_simps)
next
  case StopReaper
  show ?thesis using assms by (simp add: StopReaper owners_conserved_def stop_reaper_def)
next
  case ReapAll
  show ?thesis using assms
    by (simp add: ReapAll mailbox_reap_all_def owners_conserved_def reap_all_def registry_inv_def
      rejected_count_def owners_def entry_owners_def rejected_owners_def ac_simps)
next
  case (LaneTurn x)
  show ?thesis using assms by (simp add: LaneTurn owners_conserved_def lane_turn_def split: list.split)
next
  case LaneClose
  show ?thesis using assms by (simp add: LaneClose owners_conserved_def)
qed

interpretation completions: invariant_machine completion_step owners_conserved
  by unfold_locales (rule owners_step)

text \<open>
  C22: an owner of a delivery is never lost and never used twice, over every interleaving of the
  adapter, the worker and the reaper: the registered owners, each under its token, are those still
  in the bounded areas of the registry, those dispatched with a record of their own token, and those
  released.
\<close>

theorem delivery_owners_are_conserved:
  assumes "w = run completion_step completions_init evs"
  shows "mset (cs_registered w) = owners (cs_registry w) + mset (map dispatch_owner (cs_dispatched w)) + mset (cs_freed w) \<and>
    length (rg_entries (cs_registry w)) \<le> 16 \<and> rejected_count (cs_registry w) \<le> 16"
proof -
  have "owners_conserved (completions_init :: 'a completions)"
    using registry_init_facts by (simp add: owners_conserved_def completions_init_def)
  then have "owners_conserved w" unfolding assms by (rule completions.run_inv)
  then show ?thesis by (simp add: owners_conserved_def registry_inv_def k_completions_def k_rejected_def)
qed

subsection \<open>No result is lost silently\<close>

fun relay_terminal :: "relay_pc \<Rightarrow> terminal multiset" where
  "relay_terminal (RelayEnqueue t r) = {#(t, r)#}"
| "relay_terminal (RelayRejectAccepted t r) = {#(t, r)#}"
| "relay_terminal (RelayReject c) = {#(cr_token c, cr_result c)#}"
| "relay_terminal (RelayHandoff t r held retained) = {#(t, r)#}"
| "relay_terminal (RelayNotify ds) = {#}"

fun relay_reports :: "relay_pc \<Rightarrow> nat" where
  "relay_reports (RelayNotify ds) = count (mset ds) lane_rejected"
| "relay_reports _ = 0"

definition record_terminal :: "completion_record \<Rightarrow> terminal" where
  "record_terminal c = (cr_token c, cr_result c)"

definition terminals_conserved :: "'d completions \<Rightarrow> bool" where
  "terminals_conserved w \<longleftrightarrow> distinct_keys (cs_relays w) \<and>
     mset (map record_terminal (cs_relayed w)) = mset (cs_enqueued w) + mset (cs_lane w) + mset (cs_handled w) +
       mset (cs_refused w) + over relay_terminal (cs_relays w) \<and>
     length (cs_refused w) \<le> count (mset (cs_emergencies w)) lane_rejected + over relay_reports (cs_relays w) \<and>
     length (cs_lane w) \<le> k_lane"

text \<open>What a thread at \<open>pc\<close> does to the sums over the threads.\<close>

lemma over_moved:
  assumes "distinct_keys m" "map_of m i = Some pc"
  shows "over f (AList.update i pc' m) = f pc' + over f (AList.delete i m)"
    "over f m = f pc + over f (AList.delete i m)"
    "distinct_keys (AList.update i pc' m)" "distinct_keys (AList.delete i m)"
proof -
  show "over f (AList.update i pc' m) = f pc' + over f (AList.delete i m)"
    using assms by (induction m) (auto simp: ac_simps delete_id map_of_eq_None_iff split: if_splits)
qed (simp_all add: assms over_delete [OF assms])

lemma count_details:
  "count (mset (relay_details held retained handed)) lane_rejected = (if handed then 0 else 1)"
  by (simp add: relay_details_def registry_rejected_def registry_lost_def ingress_rejected_def entry_lost_def
    lane_rejected_def)

lemma terminals_relay:
  assumes "terminals_conserved w" and pc: "map_of (cs_relays w) i = Some pc"
  shows "terminals_conserved (relay_continue i taken pc w)"
proof -
  have d: "distinct_keys (cs_relays w)" using assms(1) by (simp add: terminals_conserved_def)
  note old = assms(1) [unfolded terminals_conserved_def over_moved(2) [OF d pc, of relay_terminal]
    over_moved(2) [OF d pc, of relay_reports]]
  note new = terminals_conserved_def relay_at_def relay_ends_def over_moved(1,3,4) [OF d pc]
  show ?thesis
  proof (cases pc)
    case (RelayEnqueue t r)
    then show ?thesis using old by (simp add: new)
  next
    case (RelayRejectAccepted t r)
    then show ?thesis using old by (simp add: new split_beta)
  next
    case (RelayReject c)
    then show ?thesis using old by (simp add: new split_beta)
  next
    case (RelayHandoff t r held retained)
    then show ?thesis using old by (simp add: new lane_enqueue_def count_details)
  next
    case (RelayNotify ds)
    then show ?thesis using old by (cases ds) (auto simp: new request_reap_def)
  qed
qed

lemma terminals_start:
  assumes "terminals_conserved w"
  shows "terminals_conserved (relay_start i c w)"
  using assms by (simp add: terminals_conserved_def relay_start_def split_beta record_terminal_def)

lemma terminals_step:
  assumes "terminals_conserved w"
  shows "terminals_conserved (completion_step w ev)"
proof (cases ev)
  case (Relay i c)
  show ?thesis using terminals_start [OF assms] by (simp add: Relay)
next
  case (RelayOn i taken)
  show ?thesis using terminals_relay [OF assms] assms by (simp add: RelayOn relay_step_def split: option.split)
next
  case (LaneTurn x)
  show ?thesis using assms by (auto simp: LaneTurn terminals_conserved_def lane_turn_def split: list.split)
qed (use assms in \<open>simp_all add: terminals_conserved_def mailbox_register_def mailbox_discard_def mailbox_take_def
  request_reap_def reaper_wakes_def reaper_reaps_def mailbox_reap_all_def mailbox_reap_rejected_def
  stop_reaper_def split_beta\<close>)

interpretation terminals: invariant_machine completion_step terminals_conserved
  by unfold_locales (rule terminals_step)

text \<open>
  No result of a child is lost silently: every relayed result is still carried by its relay, was
  taken by the event queue, waits on the bounded lane, was given to the core by the lane, or was
  refused by it, and each refusal is reported as an emergency or about to be.
\<close>

lemma relayed_results_are_accounted:
  assumes "w = run completion_step completions_init evs"
  shows "mset (map record_terminal (cs_relayed w)) = mset (cs_enqueued w) + mset (cs_lane w) + mset (cs_handled w) +
      mset (cs_refused w) + over relay_terminal (cs_relays w) \<and>
    length (cs_refused w) \<le> count (mset (cs_emergencies w)) lane_rejected + over relay_reports (cs_relays w) \<and>
    length (cs_lane w) \<le> 16"
proof -
  have "terminals_conserved (completions_init :: 'a completions)"
    by (simp add: terminals_conserved_def completions_init_def)
  then have "terminals_conserved w" unfolding assms by (rule terminals.run_inv)
  then show ?thesis by (simp add: terminals_conserved_def k_lane_def)
qed

subsection \<open>The rejected area is emptied\<close>

fun will_notify :: "relay_pc \<Rightarrow> bool" where
  "will_notify (RelayHandoff t r held retained) = True"
| "will_notify (RelayNotify ds) = (ds \<noteq> [])"
| "will_notify _ = False"

definition reap_promised :: "'d completions \<Rightarrow> bool" where
  "reap_promised w \<longleftrightarrow> rejected_count (cs_registry w) = 0 \<or> cs_reap_pending w \<or> cs_reaper_awake w \<or>
     cs_reaper_stopped w \<or> (\<exists>i pc. map_of (cs_relays w) i = Some pc \<and> will_notify pc)"

lemma rejected_unchanged:
  "rejected_count (snd (register_delivery t d r)) = rejected_count r"
  "rejected_count (registry_discard t r) = rejected_count r"
  "rejected_count (snd (registry_take t r)) = rejected_count r"
  "rejected_count (snd (registry_accept c r)) = rejected_count r"
  "rejected_count (registry_close r) = rejected_count r"
  by (auto simp: rejected_count_def registry_defs split: option.split)

text \<open>A thread that will not notify may move on: another thread keeps the promise.\<close>

lemma promise_kept:
  assumes "reap_promised w" "\<And>pc. map_of (cs_relays w) i = Some pc \<Longrightarrow> \<not> will_notify pc"
    and "\<And>j. j \<noteq> i \<Longrightarrow> map_of (cs_relays v) j = map_of (cs_relays w) j"
    and "rejected_count (cs_registry v) = rejected_count (cs_registry w)"
      "cs_reap_pending v = cs_reap_pending w" "cs_reaper_awake v = cs_reaper_awake w"
      "cs_reaper_stopped v = cs_reaper_stopped w"
  shows "reap_promised v"
proof (cases "\<exists>j qc. map_of (cs_relays w) j = Some qc \<and> will_notify qc")
  case True
  then obtain j qc where j: "map_of (cs_relays w) j = Some qc" "will_notify qc" by blast
  then have "map_of (cs_relays v) j = Some qc" using assms(2,3) by metis
  then show ?thesis using j(2) unfolding reap_promised_def by blast
next
  case False
  then have "rejected_count (cs_registry w) = 0 \<or> cs_reap_pending w \<or> cs_reaper_awake w \<or> cs_reaper_stopped w"
    using assms(1) by (simp only: reap_promised_def simp_thms)
  then show ?thesis using assms(4-7) by (auto simp: reap_promised_def)
qed

lemma relay_notifies:
  assumes "reap_promised w" "map_of (cs_relays w) i = Some pc"
  shows "reap_promised (relay_continue i taken pc w)"
proof (cases pc)
  case (RelayEnqueue t r)
  then show ?thesis
    using assms(2) by (intro promise_kept [OF assms(1), of i]) (auto simp: relay_ends_def relay_at_def update_conv' delete_conv')
next
  case (RelayRejectAccepted t r)
  then show ?thesis by (auto simp: reap_promised_def relay_at_def update_conv' split_beta intro!: exI [of _ i])
next
  case (RelayReject c)
  then show ?thesis by (auto simp: reap_promised_def relay_at_def update_conv' split_beta intro!: exI [of _ i])
next
  case (RelayHandoff t r held retained)
  then show ?thesis
    by (auto simp: reap_promised_def relay_at_def update_conv' split_beta relay_details_def intro!: exI [of _ i])
next
  case (RelayNotify ds)
  show ?thesis
  proof (cases ds)
    case Nil
    then show ?thesis
      using RelayNotify assms(2) by (intro promise_kept [OF assms(1), of i]) (auto simp: relay_ends_def delete_conv')
  next
    case (Cons d ds')
    then show ?thesis using RelayNotify by (simp add: reap_promised_def relay_at_def request_reap_def)
  qed
qed

lemma promise_step:
  assumes "reap_promised w"
  shows "reap_promised (completion_step w ev)"
proof (cases ev)
  case (Relay i c)
  show ?thesis
  proof (cases "map_of (cs_relays w) i")
    case None
    then show ?thesis
      by (intro promise_kept [OF assms, of i]) (auto simp: Relay relay_start_def split_beta rejected_unchanged)
  qed (simp add: Relay relay_start_def assms)
next
  case (RelayOn i taken)
  show ?thesis using relay_notifies [OF assms] assms by (simp add: RelayOn relay_step_def split: option.split)
next
  case (LaneTurn x)
  show ?thesis using assms by (simp add: LaneTurn reap_promised_def lane_turn_def split: list.split)
next
  case ReaperReaps
  show ?thesis using assms
    by (auto simp: ReaperReaps reap_promised_def reaper_reaps_def mailbox_reap_all_def mailbox_reap_rejected_def
      reap_all_def reap_rejected_def rejected_count_def)
next
  case ReaperWakes
  show ?thesis using assms by (auto simp: ReaperWakes reap_promised_def reaper_wakes_def)
qed (use assms in \<open>simp_all add: reap_promised_def mailbox_register_def mailbox_discard_def mailbox_take_def
  request_reap_def reaper_wakes_def mailbox_reap_all_def stop_reaper_def split_beta rejected_unchanged
  reap_all_def rejected_count_def [of "_\<lparr>rg_entries := _, rg_rejected_entries := _, rg_rejected_records := _\<rparr>"]\<close>)

interpretation promises: invariant_machine completion_step reap_promised
  by unfold_locales (rule promise_step)

text \<open>
  What the relay rejects is released by the reaper: over every interleaving, whenever no relay is
  in progress and the reaper sleeps with nothing to do, the rejected area is empty; and a turn of the
  reaper empties it.
\<close>

lemma rejected_area_is_emptied:
  assumes "w = run completion_step completions_init evs" and "cs_relays w = []"
    and "\<not> cs_reaper_stopped w"
  shows "(\<not> cs_reap_pending w \<longrightarrow> cs_reaper_awake w \<or> rejected_count (cs_registry w) = 0) \<and>
    rejected_count (cs_registry (run completion_step w [ReaperWakes, ReaperReaps])) = 0"
proof -
  have "reap_promised (completions_init :: 'a completions)"
    by (simp add: reap_promised_def completions_init_def registry_init_def rejected_count_def)
  then have "reap_promised w" unfolding assms(1) by (rule promises.run_inv)
  then show ?thesis
    using assms(2,3) by (auto simp: reap_promised_def reaper_wakes_def reaper_reaps_def
      mailbox_reap_rejected_def reap_rejected_def rejected_count_def)
qed

text \<open>A relay of a token nobody registered: the record is rejected, reported and reaped.\<close>

definition stray_record :: completion_record where
  "stray_record = \<lparr>cr_token = demo_token 1, cr_result = \<lparr>ch_code = ChTimeout, ch_detail = []\<rparr>\<rparr>"

definition stray_relay :: "unit completion_event list" where
  "stray_relay = [Relay 1 stray_record, RelayOn 1 True, RelayOn 1 True, RelayOn 1 True, RelayOn 1 True]"

lemma stray_relay_run:
  "cs_relays (run completion_step completions_init stray_relay) = []"
  "\<not> cs_reaper_stopped (run completion_step completions_init stray_relay)"
  "rejected_count (cs_registry (run completion_step completions_init stray_relay)) = 1"
  "cs_lane (run completion_step completions_init stray_relay) = [record_terminal stray_record]"
  by (simp_all add: stray_relay_def completions_init_def relay_start_def relay_step_def relay_at_def relay_ends_def
    registry_accept_def registry_reject_def registry_init_def rejected_count_def k_rejected_def lane_enqueue_def
    k_lane_def relay_details_def request_reap_def record_terminal_def)

lemma rejected_area_is_emptied_witness:
  "rejected_count (cs_registry (run completion_step (run completion_step completions_init stray_relay)
     [ReaperWakes, ReaperReaps])) = 0"
  by (rule rejected_area_is_emptied [OF refl stray_relay_run(1,2), THEN conjunct2])

theorem delivery_owners_are_conserved_witness:
  "rejected_count (cs_registry (run completion_step completions_init stray_relay)) \<le> 16"
  using delivery_owners_are_conserved [OF refl, of stray_relay] by simp

lemma relayed_results_are_accounted_witness:
  "mset (map record_terminal (cs_relayed (run completion_step completions_init stray_relay))) =
     mset (cs_enqueued (run completion_step completions_init stray_relay)) +
     mset (cs_lane (run completion_step completions_init stray_relay)) +
     mset (cs_handled (run completion_step completions_init stray_relay)) +
     mset (cs_refused (run completion_step completions_init stray_relay))"
  using relayed_results_are_accounted [OF refl, of stray_relay] by (simp only: stray_relay_run(1) over_simps add_0_right)

subsection \<open>The shutdown of the execution plane\<close>

text \<open>
  \<open>RuntimeExecutionPlane::shutdown\<close>: it closes the mailbox, stops and joins the reaper, closes the lane
  and joins its worker, which first hands over what waits there, and stops the mailbox.
\<close>

definition plane_shutdown :: "unit outcome option \<Rightarrow> 'd completions \<Rightarrow> 'd completions" where
  "plane_shutdown handler w =
     (let w = run completion_step w [CloseRegistry, RequestReap, StopReaper, ReaperWakes, ReaperReaps, LaneClose];
          w = run completion_step w (replicate (length (cs_lane w)) (LaneTurn handler))
      in run completion_step w [CloseRegistry, RequestReap, StopReaper, ReapAll])"

lemma lane_turn_fields:
  "cs_registered (lane_turn h w) = cs_registered w" "cs_relays (lane_turn h w) = cs_relays w"
  "cs_lane (lane_turn h w) = tl (cs_lane w)"
  by (simp_all add: lane_turn_def split: list.split)

lemma lane_drains:
  "cs_lane (run completion_step w (replicate (length (cs_lane w)) (LaneTurn h))) = []"
proof (induction "length (cs_lane w)" arbitrary: w)
  case (Suc n)
  then have "length (cs_lane (lane_turn h w)) = n" by (simp add: lane_turn_fields)
  then show ?case using Suc(1) [of "lane_turn h w"] Suc(2) by (simp flip: Suc(2))
qed simp

text \<open>
  A shutdown releases everything: it is a run of the plane, after which the registry is closed and
  empty and the lane is empty, so that every registered delivery was dispatched or released.
\<close>

lemma plane_shutdown_releases_all:
  assumes "w = run completion_step completions_init evs" and "v = plane_shutdown handler w"
  shows "rg_closed (cs_registry v) \<and> owners (cs_registry v) = {#} \<and> cs_lane v = [] \<and>
    mset (cs_registered v) = mset (map dispatch_owner (cs_dispatched v)) + mset (cs_freed v) \<and>
    \<not> fst (register_delivery t d (cs_registry v))"
proof -
  let ?w1 = "run completion_step w [CloseRegistry, RequestReap, StopReaper, ReaperWakes, ReaperReaps, LaneClose]"
  let ?w2 = "run completion_step ?w1 (replicate (length (cs_lane ?w1)) (LaneTurn handler))"
  have v: "v = run completion_step ?w2 [CloseRegistry, RequestReap, StopReaper, ReapAll]"
    unfolding assms(2) plane_shutdown_def Let_def ..
  have "owners_conserved (completions_init :: 'a completions)"
    using registry_init_facts by (simp add: owners_conserved_def completions_init_def)
  then have "owners_conserved v" unfolding v assms(1) by (intro completions.run_inv)
  moreover have "rg_closed (cs_registry v)" "owners (cs_registry v) = {#}" "cs_lane v = cs_lane ?w2"
    unfolding v by (simp_all add: mailbox_reap_all_def reap_all_def registry_close_def owners_def
      entry_owners_def rejected_owners_def request_reap_def stop_reaper_def)
  ultimately show ?thesis
    using lane_drains [of ?w1 handler] by (simp add: owners_conserved_def register_delivery_def split: option.split)
qed

lemma plane_shutdown_releases_all_witness:
  "cs_lane (plane_shutdown None (run completion_step completions_init stray_relay)) = []"
  using plane_shutdown_releases_all [OF refl refl, where evs = stray_relay and handler = None] by blast

end
