(* ===== verification/Utf8_Text.thy ===== *)
theory Utf8_Text
  imports Prelude
begin

unbundle bit_operations_syntax

text \<open>
  The UTF-8 check of the speech input (\<open>is_valid_utf8\<close>, speech_input_core.cpp), against the definition
  of UTF-8: a text is valid when it is the encoding of Unicode scalar values.
\<close>

subsection \<open>The check of the code\<close>

definition utf8_lead :: "u8 \<Rightarrow> (nat \<times> u32) option" where
  "utf8_lead b =
     (if 0xc2 \<le> b \<and> b \<le> 0xdf then Some (1, ucast (b AND 0x1f))
      else if 0xe0 \<le> b \<and> b \<le> 0xef then Some (2, ucast (b AND 0x0f))
      else if 0xf0 \<le> b \<and> b \<le> 0xf4 then Some (3, ucast (b AND 0x07))
      else None)"

primrec utf8_continue :: "u8 list \<Rightarrow> u32 \<Rightarrow> u32 option" where
  "utf8_continue [] cp = Some cp"
| "utf8_continue (c # cs) cp =
     (if c AND 0xc0 \<noteq> 0x80 then None
      else utf8_continue cs (push_bit 6 cp OR ucast (c AND 0x3f)))"

definition utf8_minimum :: "nat \<Rightarrow> u32" where
  "utf8_minimum n = (if n = 1 then 0x80 else if n = 2 then 0x800 else 0x10000)"

definition utf8_in_range :: "nat \<Rightarrow> u32 \<Rightarrow> bool" where
  "utf8_in_range n cp \<longleftrightarrow> \<not> (cp < utf8_minimum n \<or> 0x10ffff < cp \<or> 0xd800 \<le> cp \<and> cp \<le> 0xdfff)"

fun is_valid_utf8 :: "u8 list \<Rightarrow> bool" where
  "is_valid_utf8 [] = True"
| "is_valid_utf8 (b # bs) =
     (if b \<le> 0x7f then is_valid_utf8 bs
      else case utf8_lead b of
        None \<Rightarrow> False
      | Some (n, cp) \<Rightarrow>
          if length bs < n then False
          else (case utf8_continue (take n bs) cp of
            None \<Rightarrow> False
          | Some cp \<Rightarrow> if \<not> utf8_in_range n cp then False else is_valid_utf8 (drop n bs)))"

subsection \<open>UTF-8\<close>

definition is_scalar :: "nat \<Rightarrow> bool" where
  "is_scalar c \<longleftrightarrow> c < 0xd800 \<or> 0xdfff < c \<and> c \<le> 0x10ffff"

definition utf8_encode :: "nat \<Rightarrow> u8 list" where
  "utf8_encode c =
     (if c < 0x80 then [of_nat c]
      else if c < 0x800 then [of_nat (0xc0 + c div 64), of_nat (0x80 + c mod 64)]
      else if c < 0x10000 then [of_nat (0xe0 + c div 4096), of_nat (0x80 + c div 64 mod 64), of_nat (0x80 + c mod 64)]
      else [of_nat (0xf0 + c div 262144), of_nat (0x80 + c div 4096 mod 64), of_nat (0x80 + c div 64 mod 64),
        of_nat (0x80 + c mod 64)])"

subsection \<open>Bytes as numbers\<close>

lemma unat_byte: "unat (b::u8) < 256"
proof -
  have "unat b < 2 ^ LENGTH(8)" by (rule unsigned_less)
  then show ?thesis by simp
qed

lemma unat_low_bits:
  "unat ((b::u8) AND 0x3f) = unat b mod 64" "unat (b AND 0x1f) = unat b mod 32"
  "unat (b AND 0x0f) = unat b mod 16" "unat (b AND 0x07) = unat b mod 8"
proof -
  have "b AND 0x3f = b mod 64" "b AND 0x1f = b mod 32" "b AND 0x0f = b mod 16" "b AND 0x07 = b mod 8"
    using take_bit_eq_mask [of 6 b] take_bit_eq_mask [of 5 b] take_bit_eq_mask [of 4 b] take_bit_eq_mask [of 3 b]
    by (simp_all add: take_bit_eq_mod mask_eq_exp_minus_1)
  then show "unat ((b::u8) AND 0x3f) = unat b mod 64" "unat (b AND 0x1f) = unat b mod 32"
    "unat (b AND 0x0f) = unat b mod 16" "unat (b AND 0x07) = unat b mod 8"
    by (simp_all add: unat_mod)
qed

lemma unat_high_bits: "unat ((c::u8) AND 0xc0) = 64 * (unat c div 64)"
proof -
  have "c AND 0xc0 = push_bit 6 (take_bit 2 (drop_bit 6 c))"
    using slice_eq_mask [of 6 2 c] take_bit_eq_mask [of 8 c]
    by (simp add: mask_eq_exp_minus_1 take_bit_word_eq_self)
  then have "unat (c AND 0xc0) = take_bit 8 (push_bit 6 (take_bit 2 (unat c div 64)))"
    by (simp add: unsigned_push_bit_eq unsigned_take_bit_eq unsigned_drop_bit_eq drop_bit_eq_div unat_div)
  moreover have "unat c div 64 < 4" using unat_byte [of c] by (simp add: less_mult_imp_div_less)
  ultimately show ?thesis by (simp add: take_bit_eq_mod push_bit_eq_mult)
qed

lemma continuation_byte: "(c::u8) AND 0xc0 = 0x80 \<longleftrightarrow> unat c div 64 = 2"
proof -
  have "c AND 0xc0 = 0x80 \<longleftrightarrow> unat (c AND 0xc0) = unat (0x80 :: u8)"
    by (rule word_unat_eq_iff)
  then show ?thesis unfolding unat_high_bits by simp
qed

text \<open>Six more bits of a code point.\<close>

lemma unat_shifted_in:
  assumes "unat (cp::u32) < 2 ^ 26"
  shows "unat (push_bit 6 cp OR ucast ((c::u8) AND 0x3f)) = 64 * unat cp + unat c mod 64"
proof -
  let ?y = "ucast (c AND 0x3f) :: u32"
  have "unat c mod 64 < 2 ^ 32" by (rule less_trans [of _ 64]) simp_all
  then have y: "unat ?y = unat c mod 64"
    using unat_low_bits(1) [of c] by (simp add: unsigned_ucast_eq take_bit_nat_eq_self)
  then have "take_bit 6 ?y = ?y" by (simp add: word_unat_eq_iff unat_mod take_bit_eq_mod)
  moreover have "push_bit 6 cp AND take_bit 6 ?y = 0"
    by (rule bit_word_eqI) (auto simp: bit_and_iff bit_push_bit_iff bit_take_bit_iff)
  ultimately have "push_bit 6 cp OR ?y = push_bit 6 cp + ?y"
    by (simp add: disjunctive_add_eq_or)
  moreover have "unat (push_bit 6 cp) = 64 * unat cp"
    using assms by (simp add: push_bit_eq_mult unat_word_ariths)
  ultimately show ?thesis
    using assms y by (simp add: unat_word_ariths)
qed

subsection \<open>The check is exact\<close>

text \<open>The number a run of continuation bytes adds to the bits of the first byte.\<close>

definition continued :: "u8 list \<Rightarrow> nat \<Rightarrow> nat" where
  "continued cs n = foldl (\<lambda>n c. 64 * n + unat c mod 64) n cs"

lemma continued_simps [simp]:
  "continued [] n = n" "continued (c # cs) n = continued cs (64 * n + unat c mod 64)"
  by (simp_all add: continued_def)

definition continuation :: "u8 \<Rightarrow> bool" where
  "continuation c \<longleftrightarrow> unat c div 64 = 2"

lemma utf8_continue_iff:
  "unat cp < 2 ^ (32 - 6 * length cs) \<Longrightarrow> length cs \<le> 5 \<Longrightarrow>
   (if list_all continuation cs then \<exists>v. utf8_continue cs cp = Some v \<and> unat v = continued cs (unat cp)
    else utf8_continue cs cp = None)"
proof (induction cs arbitrary: cp)
  case (Cons c cs)
  let ?cp = "push_bit 6 cp OR ucast (c AND 0x3f) :: u32"
  define k where "k = 26 - 6 * length cs"
  have k: "32 - 6 * length (c # cs) = k" "32 - 6 * length cs = k + 6" "k \<le> 26"
    using Cons.prems(2) by (simp_all add: k_def)
  have cp: "unat cp < 2 ^ k" using Cons.prems(1) unfolding k(1) .
  then have "unat cp < 2 ^ 26" using power_increasing [OF k(3), of "2::nat"] by simp
  then have u: "unat ?cp = 64 * unat cp + unat c mod 64" by (rule unat_shifted_in)
  moreover have "unat c mod 64 < 64" by simp
  ultimately have "unat ?cp < 2 ^ (32 - 6 * length cs)"
    using cp unfolding k(2) power_add by simp
  from Cons.IH [OF this] show ?case
    using Cons.prems(2) continuation_byte [of c] unfolding u
    by (cases "list_all continuation cs") (simp_all add: continuation_def)
qed simp

lemma utf8_lead_nat:
  "utf8_lead b =
     (if 0xc2 \<le> unat b \<and> unat b \<le> 0xdf then Some (1, of_nat (unat b mod 32))
      else if 0xe0 \<le> unat b \<and> unat b \<le> 0xef then Some (2, of_nat (unat b mod 16))
      else if 0xf0 \<le> unat b \<and> unat b \<le> 0xf4 then Some (3, of_nat (unat b mod 8))
      else None)"
  by (simp add: utf8_lead_def word_le_nat_alt flip: unat_low_bits)

lemma utf8_in_range_nat:
  "utf8_in_range n cp \<longleftrightarrow> (if n = 1 then 0x80 else if n = 2 then 0x800 else 0x10000) \<le> unat cp \<and> is_scalar (unat cp)"
  by (auto simp: utf8_in_range_def utf8_minimum_def is_scalar_def word_less_nat_alt word_le_nat_alt)

lemma unat_small: "n < 256 \<Longrightarrow> unat (of_nat n :: u8) = n"
  by (simp add: unat_of_nat)

lemma lead_value:
  "unat (of_nat (unat b mod 32) :: u32) = unat (b :: u8) mod 32"
  "unat (of_nat (unat b mod 16) :: u32) = unat b mod 16" "unat (of_nat (unat b mod 8) :: u32) = unat b mod 8"
  by (simp_all add: unat_of_nat mod_less less_trans [OF mod_less_divisor])

lemma mod_of_sum: "y < m \<Longrightarrow> (m * k + y) mod m = (y::nat)"
  by simp

lemma continuation_of_nat:
  "continuation (of_nat (0x80 + x mod 64))" "unat (of_nat (0x80 + x mod 64) :: u8) mod 64 = x mod 64"
proof -
  have "0x80 + x mod 64 < 256" using mod_less_divisor [of 64 x] by linarith
  then have u: "unat (of_nat (0x80 + x mod 64) :: u8) = 0x80 + x mod 64" by (rule unat_small)
  show "continuation (of_nat (0x80 + x mod 64))" unfolding continuation_def u by simp
  show "unat (of_nat (0x80 + x mod 64) :: u8) mod 64 = x mod 64" unfolding u using mod_of_sum [of "x mod 64" 64 2] by simp
qed

text \<open>What the check does at a sequence of several bytes.\<close>

lemma multibyte:
  assumes "utf8_lead b = Some (length cs, cp)" and "\<not> b \<le> 0x7f" and "length cs \<le> 3"
    and "unat cp < 32"
  shows "is_valid_utf8 (b # cs @ bs) \<longleftrightarrow> list_all continuation cs \<and>
    (if length cs = 1 then 0x80 else if length cs = 2 then 0x800 else 0x10000) \<le> continued cs (unat cp) \<and>
    is_scalar (continued cs (unat cp)) \<and> is_valid_utf8 bs"
proof -
  have "(2::nat) ^ 14 \<le> 2 ^ (32 - 6 * length cs)" using assms(3) by (intro power_increasing) simp_all
  then have "unat cp < 2 ^ (32 - 6 * length cs)" using assms(4) by simp
  from utf8_continue_iff [OF this] show ?thesis
    using assms by (cases "list_all continuation cs") (auto simp: utf8_in_range_nat)
qed

text \<open>A code point from its six-bit groups.\<close>

lemma six_bits:
  "64 * (c div 64) + c mod 64 = (c::nat)" "64 * (c div 4096) + c div 64 mod 64 = c div 64"
  "64 * (c div 262144) + c div 4096 mod 64 = c div 4096"
proof -
  have "c div 64 div 64 = c div 4096" "c div 4096 div 64 = c div 262144"
    by (simp_all flip: div_mult2_eq)
  then show "64 * (c div 64) + c mod 64 = (c::nat)" "64 * (c div 4096) + c div 64 mod 64 = c div 64"
    "64 * (c div 262144) + c div 4096 mod 64 = c div 4096"
    using mult_div_mod_eq [of 64 c] mult_div_mod_eq [of 64 "c div 64"] mult_div_mod_eq [of 64 "c div 4096"]
    by simp_all
qed

lemma encode_valid:
  assumes "is_scalar c"
  shows "is_valid_utf8 (utf8_encode c @ bs) = is_valid_utf8 bs"
proof -
  have "c \<le> 0x10ffff" using assms by (auto simp: is_scalar_def)
  then consider "c < 0x80" | "0x80 \<le> c" "c < 0x800" | "0x800 \<le> c" "c < 0x10000" | "0x10000 \<le> c" "c \<le> 0x10ffff"
    by linarith
  then show ?thesis
  proof cases
    case 1
    then show ?thesis by (simp add: utf8_encode_def word_le_nat_alt unat_small)
  next
    case 2
    let ?b = "of_nat (0xc0 + c div 64) :: u8" and ?cs = "[of_nat (0x80 + c mod 64)] :: u8 list"
    have q: "2 \<le> c div 64" "c div 64 < 32" using 2 by linarith+
    then have b: "unat ?b = 0xc0 + c div 64" by (intro unat_small) simp
    have "(0xc0 + c div 64) mod 32 = c div 64" using mod_of_sum [OF q(2), of 6] by simp
    then have lead: "utf8_lead ?b = Some (length ?cs, of_nat (c div 64))"
      unfolding utf8_lead_nat b using q by simp
    have cp: "unat (of_nat (c div 64) :: u32) = c div 64" using q by (simp add: unat_of_nat)
    have "is_valid_utf8 (?b # ?cs @ bs) = is_valid_utf8 bs"
      using multibyte [OF lead, of bs] q b cp 2 assms continuation_of_nat [of c] 
      by (simp add: word_le_nat_alt)
    then show ?thesis using 2 by (simp add: utf8_encode_def)
  next
    case 3
    let ?b = "of_nat (0xe0 + c div 4096) :: u8"
      and ?cs = "[of_nat (0x80 + c div 64 mod 64), of_nat (0x80 + c mod 64)] :: u8 list"
    have q: "c div 4096 < 16" using 3 by (simp add: less_mult_imp_div_less)
    then have b: "unat ?b = 0xe0 + c div 4096" by (intro unat_small) simp
    have "(0xe0 + c div 4096) mod 16 = c div 4096" using mod_of_sum [OF q, of 14] by simp
    then have lead: "utf8_lead ?b = Some (length ?cs, of_nat (c div 4096))"
      unfolding utf8_lead_nat b using q by simp
    have cp: "unat (of_nat (c div 4096) :: u32) = c div 4096" using q by (simp add: unat_of_nat)
    have v: "continued ?cs (c div 4096) = c"
      by (simp only: continued_simps continuation_of_nat(2) six_bits)
    have "\<not> ?b \<le> 0x7f" "unat (of_nat (c div 4096) :: u32) < 32" unfolding word_le_nat_alt b cp using q by simp_all
    from multibyte [OF lead this(1) _ this(2), of bs, unfolded cp v]
    have "is_valid_utf8 (?b # ?cs @ bs) = is_valid_utf8 bs"
      using 3 assms continuation_of_nat(1) by simp
    then show ?thesis using 3 by (simp add: utf8_encode_def)
  next
    case 4
    let ?b = "of_nat (0xf0 + c div 262144) :: u8"
      and ?cs = "[of_nat (0x80 + c div 4096 mod 64), of_nat (0x80 + c div 64 mod 64), of_nat (0x80 + c mod 64)] :: u8 list"
    have q: "c div 262144 < 8" "c div 262144 \<le> 4" using 4 by (simp_all add: less_mult_imp_div_less)
    then have b: "unat ?b = 0xf0 + c div 262144" by (intro unat_small) simp
    have "(0xf0 + c div 262144) mod 8 = c div 262144" using mod_of_sum [OF q(1), of 30] by simp
    then have lead: "utf8_lead ?b = Some (length ?cs, of_nat (c div 262144))"
      unfolding utf8_lead_nat b using q by simp
    have cp: "unat (of_nat (c div 262144) :: u32) = c div 262144" using q by (simp add: unat_of_nat)
    have v: "continued ?cs (c div 262144) = c"
      by (simp only: continued_simps continuation_of_nat(2) six_bits)
    have "\<not> ?b \<le> 0x7f" "unat (of_nat (c div 262144) :: u32) < 32" unfolding word_le_nat_alt b cp using q by simp_all
    from multibyte [OF lead this(1) _ this(2), of bs, unfolded cp v]
    have "is_valid_utf8 (?b # ?cs @ bs) = is_valid_utf8 bs"
      using 4 assms continuation_of_nat(1) by simp
    then show ?thesis using 4 by (simp add: utf8_encode_def)
  qed
qed

text \<open>The bytes of a sequence the check accepts, read back from their bit groups.\<close>

lemma continuation_value: "continuation c \<Longrightarrow> unat c = 0x80 + unat c mod 64"
  using mult_div_mod_eq [of 64 "unat c"] by (simp add: continuation_def)

lemma byte_eq: "unat (b::u8) = n \<Longrightarrow> of_nat n = b"
  by auto

lemma six_bit_groups:
  assumes "y < 64"
  shows "(64 * x + y) div 64 = (x::nat)" "(64 * x + y) mod 64 = y"
  using assms by simp_all

lemma two_byte_encode:
  assumes "0xc2 \<le> unat b" "unat b \<le> 0xdf" "continuation c1"
    and v: "v = continued [c1] (unat b mod 32)" and "0x80 \<le> v"
  shows "utf8_encode v = [b, c1]"
proof -
  let ?y = "unat c1 mod 64"
  have "unat b div 32 = 6" using assms(1,2) by simp
  then have b: "unat b = 0xc0 + unat b mod 32" using mult_div_mod_eq [of 32 "unat b"] by simp
  have v': "v div 64 = unat b mod 32" "v mod 64 = ?y"
    using v six_bit_groups [of ?y "unat b mod 32"] by simp_all
  have "v < 0x800" using v mod_less_divisor [of 32 "unat b"] mod_less_divisor [of 64 "unat c1"] by simp
  then show ?thesis
    using byte_eq [OF b] byte_eq [OF continuation_value [OF assms(3)]] assms(5)
    by (simp add: utf8_encode_def v' del: of_nat_add)
qed

lemma three_byte_encode:
  assumes "0xe0 \<le> unat b" "unat b \<le> 0xef" "continuation c1" "continuation c2"
    and v: "v = continued [c1, c2] (unat b mod 16)" and "0x800 \<le> v"
  shows "utf8_encode v = [b, c1, c2]"
proof -
  let ?x = "unat b mod 16" and ?y = "unat c1 mod 64" and ?z = "unat c2 mod 64"
  have "unat b div 16 = 14" using assms(1,2) by simp
  then have b: "unat b = 0xe0 + ?x" using mult_div_mod_eq [of 16 "unat b"] by simp
  have eq: "v = 64 * (64 * ?x + ?y) + ?z" using v by simp
  have v64: "v div 64 = 64 * ?x + ?y" "v mod 64 = ?z"
    unfolding eq by (rule six_bit_groups; simp)+
  have "v div 4096 = v div 64 div 64" by (simp flip: div_mult2_eq)
  then have v': "v div 4096 = ?x" "v div 64 mod 64 = ?y"
    unfolding v64 using six_bit_groups [of ?y ?x] by simp_all
  have "v < 0x10000" using eq mod_less_divisor [of 16 "unat b"] mod_less_divisor [of 64 "unat c1"]
    mod_less_divisor [of 64 "unat c2"] by simp
  then show ?thesis
    using byte_eq [OF b] byte_eq [OF continuation_value [OF assms(3)]]
      byte_eq [OF continuation_value [OF assms(4)]] assms(6)
    by (simp add: utf8_encode_def v' v64(2) del: of_nat_add)
qed

lemma four_byte_encode:
  assumes "0xf0 \<le> unat b" "unat b \<le> 0xf4" "continuation c1" "continuation c2" "continuation c3"
    and v: "v = continued [c1, c2, c3] (unat b mod 8)" and "0x10000 \<le> v"
  shows "utf8_encode v = [b, c1, c2, c3]"
proof -
  let ?x = "unat b mod 8" and ?y = "unat c1 mod 64" and ?z = "unat c2 mod 64" and ?w = "unat c3 mod 64"
  have "unat b div 8 = 30" using assms(1,2) by simp
  then have b: "unat b = 0xf0 + ?x" using mult_div_mod_eq [of 8 "unat b"] by simp
  have eq: "v = 64 * (64 * (64 * ?x + ?y) + ?z) + ?w" using v by simp
  have v64: "v div 64 = 64 * (64 * ?x + ?y) + ?z" "v mod 64 = ?w"
    unfolding eq by (rule six_bit_groups; simp)+
  have "v div 4096 = v div 64 div 64" by (simp flip: div_mult2_eq)
  then have v4: "v div 4096 = 64 * ?x + ?y" "v div 64 mod 64 = ?z"
    unfolding v64 using six_bit_groups [of ?z "64 * ?x + ?y"] by simp_all
  have "v div 262144 = v div 4096 div 64" by (simp flip: div_mult2_eq)
  then have v': "v div 262144 = ?x" "v div 4096 mod 64 = ?y"
    unfolding v4 using six_bit_groups [of ?y ?x] by simp_all
  show ?thesis
    using byte_eq [OF b] byte_eq [OF continuation_value [OF assms(3)]]
      byte_eq [OF continuation_value [OF assms(4)]] byte_eq [OF continuation_value [OF assms(5)]] assms(7)
    by (simp add: utf8_encode_def v' v4(2) v64(2) del: of_nat_add)
qed

lemma utf8_lead_cases:
  assumes "utf8_lead b = Some (n, cp)"
  obtains "n = 1" "0xc2 \<le> unat b" "unat b \<le> 0xdf" "unat cp = unat b mod 32"
    | "n = 2" "0xe0 \<le> unat b" "unat b \<le> 0xef" "unat cp = unat b mod 16"
    | "n = 3" "0xf0 \<le> unat b" "unat b \<le> 0xf4" "unat cp = unat b mod 8"
  using assms lead_value [of b] by (auto simp: utf8_lead_nat split: if_splits)

lemma valid_head:
  assumes "is_valid_utf8 (b # r)"
  shows "\<exists>c rest. is_scalar c \<and> b # r = utf8_encode c @ rest \<and> is_valid_utf8 rest"
proof (cases "b \<le> 0x7f")
  case True
  then have "unat b < 0x80" by (simp add: word_le_nat_alt)
  then show ?thesis
    using assms True by (intro exI [of _ "unat b"] exI [of _ r]) (simp add: utf8_encode_def is_scalar_def)
next
  case False
  then obtain n cp where lead: "utf8_lead b = Some (n, cp)"
    using assms by (cases "utf8_lead b") auto
  have n: "n \<le> length r" using assms False lead by (cases "length r < n") simp_all
  let ?cs = "take n r" and ?rest = "drop n r"
  have small: "n \<le> 3" "unat cp < 32"
    using lead by (rule utf8_lead_cases; simp)+
  have len: "length ?cs = n" using n by simp
  have "is_valid_utf8 (b # ?cs @ ?rest)" using assms by (simp only: append_take_drop_id)
  then have "list_all continuation ?cs \<and>
    (if n = 1 then 0x80 else if n = 2 then 0x800 else 0x10000) \<le> continued ?cs (unat cp) \<and>
    is_scalar (continued ?cs (unat cp)) \<and> is_valid_utf8 ?rest"
    by (rule iffD1 [OF multibyte [of b ?cs cp, unfolded len, OF lead False small]])
  then have m: "list_all continuation ?cs" "is_scalar (continued ?cs (unat cp))" "is_valid_utf8 ?rest"
    "(if n = 1 then 0x80 else if n = 2 then 0x800 else 0x10000) \<le> continued ?cs (unat cp)" by blast+
  have "utf8_encode (continued ?cs (unat cp)) = b # ?cs"
    using lead
  proof (rule utf8_lead_cases)
    assume b: "n = 1" "0xc2 \<le> unat b" "unat b \<le> 0xdf" "unat cp = unat b mod 32"
    then obtain c1 where "?cs = [c1]" using n by (cases r) auto
    then show ?thesis using two_byte_encode [OF b(2,3), of c1] m(1,4) b(1,4) by simp
  next
    assume b: "n = 2" "0xe0 \<le> unat b" "unat b \<le> 0xef" "unat cp = unat b mod 16"
    then obtain c1 c2 where "?cs = [c1, c2]" using n by (cases r; cases "tl r") auto
    then show ?thesis using three_byte_encode [OF b(2,3), of c1 c2] m(1,4) b(1,4) by simp
  next
    assume b: "n = 3" "0xf0 \<le> unat b" "unat b \<le> 0xf4" "unat cp = unat b mod 8"
    then obtain c1 c2 c3 where "?cs = [c1, c2, c3]" using n by (cases r; cases "tl r"; cases "tl (tl r)") auto
    then show ?thesis using four_byte_encode [OF b(2,3), of c1 c2 c3] m(1,4) b(1,4) by simp
  qed
  then show ?thesis
    using m(2,3) by (intro exI [of _ "continued ?cs (unat cp)"] exI [of _ ?rest]) simp
qed

lemma valid_decodes: "is_valid_utf8 bs \<Longrightarrow> \<exists>cs. list_all is_scalar cs \<and> bs = concat (map utf8_encode cs)"
proof (induction "length bs" arbitrary: bs rule: less_induct)
  case less
  show ?case
  proof (cases bs)
    case Nil
    then show ?thesis by (intro exI [of _ "[]"]) simp
  next
    case (Cons b r)
    then obtain c rest where c: "is_scalar c" "bs = utf8_encode c @ rest" "is_valid_utf8 rest"
      using valid_head [of b r] less(2) by auto
    moreover have "length rest < length bs" by (simp add: c(2) utf8_encode_def)
    ultimately obtain cs where "list_all is_scalar cs" "rest = concat (map utf8_encode cs)"
      using less(1) by blast
    then show ?thesis using c by (intro exI [of _ "c # cs"]) simp
  qed
qed

text \<open>
  C18: the check accepts exactly the encodings of sequences of Unicode scalar values: no truncated or
  overlong form, no surrogate and nothing beyond U+10FFFF.
\<close>

theorem valid_utf8_iff_encoding:
  "is_valid_utf8 bs \<longleftrightarrow> bs \<in> {concat (map utf8_encode cs) | cs. list_all is_scalar cs}"
proof
  show "bs \<in> {concat (map utf8_encode cs) | cs. list_all is_scalar cs}" if "is_valid_utf8 bs"
    using valid_decodes [OF that] by blast
next
  have "list_all is_scalar cs \<Longrightarrow> is_valid_utf8 (concat (map utf8_encode cs))" for cs
    by (induction cs) (simp_all add: encode_valid)
  then show "is_valid_utf8 bs" if "bs \<in> {concat (map utf8_encode cs) | cs. list_all is_scalar cs}"
    using that by blast
qed

end
