(* ===== verification/Speech_Input.thy ===== *)
theory Speech_Input
  imports Binary_Float Utf8_Text
begin

text \<open>
  The speech input (\<open>SpeechInputCore\<close>, speech_input_core.hpp and .cpp): cleaned audio frames go in
  towards the recognizer, the recognizer's events come back, and completed voice turns are published.
  The core holds one turn scope at a time. Every operation runs under one recursive mutex, so a history
  is a list of steps; an event the recognizer emits while it processes a frame is the step after it,
  since the core does nothing after it has handed the frame over.
\<close>

subsection \<open>Frames, scopes, events and publications\<close>

record clean_frame =
  cf_rate :: u32
  cf_channels :: u32
  cf_generation :: u64
  cf_seq :: u64
  cf_valid :: u64
  cf_samples :: "u16 list"

record turn_scope =
  ts_id :: u64
  ts_generation :: u64
  ts_session :: string
  ts_turn :: string

definition no_scope :: turn_scope where
  "no_scope = \<lparr>ts_id = 0, ts_generation = 0, ts_session = [], ts_turn = []\<rparr>"

datatype speech_kind = WakeMiss | WakeAccepted | Activity | EndpointFinal | SpeechTimeout | SpeechFailure

datatype turn_kind = TurnCommand | TurnStop

record speech_event =
  se_kind :: speech_kind
  se_generation :: u64
  se_seq :: u64
  se_scope :: turn_scope
  se_text :: "u8 list"
  se_confidence :: dbl
  se_turn_kind :: turn_kind

definition default_event :: speech_event where
  "default_event = \<lparr>se_kind = WakeMiss, se_generation = 0, se_seq = 0, se_scope = no_scope, se_text = [],
     se_confidence = Fin 0, se_turn_kind = TurnCommand\<rparr>"

definition wake_accepted :: "clean_frame \<Rightarrow> speech_event" where
  "wake_accepted f = default_event\<lparr>se_kind := WakeAccepted, se_generation := cf_generation f, se_seq := cf_seq f\<rparr>"

definition activity :: "clean_frame \<Rightarrow> turn_scope \<Rightarrow> speech_event" where
  "activity f sc = default_event\<lparr>se_kind := Activity, se_generation := cf_generation f, se_seq := cf_seq f,
     se_scope := sc\<rparr>"

definition endpoint_final :: "clean_frame \<Rightarrow> turn_scope \<Rightarrow> u8 list \<Rightarrow> dbl \<Rightarrow> turn_kind \<Rightarrow> speech_event" where
  "endpoint_final f sc t c k = default_event\<lparr>se_kind := EndpointFinal, se_generation := cf_generation f,
     se_seq := cf_seq f, se_scope := sc, se_text := t, se_confidence := c, se_turn_kind := k\<rparr>"

record turn_publication =
  vp_instance :: string
  vp_seq :: u64
  vp_session :: string
  vp_turn :: string
  vp_kind :: turn_kind
  vp_text :: "u8 list"
  vp_confidence :: dbl
  vp_during_playback :: bool

subsection \<open>Identities and finals\<close>

definition hexadecimal_identity :: "u8 list \<Rightarrow> string" where
  "hexadecimal_identity bs =
     concat (map (\<lambda>b. [hex_digit (unat (drop_bit 4 b)), hex_digit (unat (b AND 0x0f))]) bs)"

definition turn_identity :: "string \<Rightarrow> u64 \<Rightarrow> string" where
  "turn_identity inst k = ''t'' @ take 16 inst @ hex_digits 16 (unat k)"

definition xiaozhi_stop :: "u8 list" where
  "xiaozhi_stop = [0xe5, 0xb0, 0x8f, 0xe6, 0x99, 0xba, 0xe5, 0x81, 0x9c, 0xe6, 0xad, 0xa2]"

definition emergency_stop :: "u8 list" where
  "emergency_stop = [0xe7, 0xb4, 0xa7, 0xe6, 0x80, 0xa5, 0xe5, 0x81, 0x9c, 0xe6, 0xad, 0xa2]"

definition valid_final :: "speech_event \<Rightarrow> bool" where
  "valid_final e =
     (if se_text e = [] \<or> 512 < length (se_text e) \<or> \<not> is_valid_utf8 (se_text e)
         \<or> \<not> isfinite (se_confidence e) \<or> dlt (se_confidence e) (Fin 0) \<or> dlt (Fin 1) (se_confidence e)
      then False
      else if se_turn_kind e = TurnCommand then True
      else se_turn_kind e = TurnStop \<and> (se_text e = xiaozhi_stop \<or> se_text e = emergency_stop))"

subsection \<open>The core\<close>

text \<open>
  The trace holds what the core hands to the recognizer (frames, the end of the input, scopes opened
  and retired) and to the turn sink. \<open>si_coordination\<close> is the state of the coordination seam.
\<close>

datatype input_effect = FrameProcessed clean_frame | InputFinished | ScopeOpened turn_scope
  | ScopeRetired turn_scope | TurnPublished turn_publication

record 'c speech_input =
  si_instance :: string
  si_session :: string
  si_next_scope :: u64
  si_next_seq :: u64
  si_ready :: bool
  si_has_generation :: bool
  si_quarantined :: bool
  si_generation :: u64
  si_has_seq :: bool
  si_latest_seq :: u64
  si_has_wake :: bool
  si_latest_wake :: u64
  si_has_scope :: bool
  si_scope :: turn_scope
  si_has_stop :: bool
  si_stop_generation :: u64
  si_stop_seq :: u64
  si_coordination :: 'c
  si_trace :: "input_effect list"

record 'c coordination =
  co_wake :: "'c \<Rightarrow> bool \<times> 'c"
  co_publish :: "turn_publication \<Rightarrow> 'c \<Rightarrow> turn_publication \<times> 'c"

definition input_init :: "u8 list option \<Rightarrow> 'c \<Rightarrow> 'c speech_input" where
  "input_init identity c =
     \<lparr>si_instance = (case identity of None \<Rightarrow> [] | Some bs \<Rightarrow> hexadecimal_identity bs),
      si_session = (case identity of None \<Rightarrow> [] | Some bs \<Rightarrow> hexadecimal_identity bs),
      si_next_scope = 1, si_next_seq = 1, si_ready = (identity \<noteq> None), si_has_generation = False,
      si_quarantined = False, si_generation = 0, si_has_seq = False, si_latest_seq = 0, si_has_wake = False,
      si_latest_wake = 0, si_has_scope = False, si_scope = no_scope, si_has_stop = False,
      si_stop_generation = 0, si_stop_seq = 0, si_coordination = c, si_trace = []\<rparr>"

definition si_say :: "input_effect \<Rightarrow> 'c speech_input \<Rightarrow> 'c speech_input" where
  "si_say x s = s\<lparr>si_trace := si_trace s @ [x]\<rparr>"

definition retire_turn_scope :: "'c speech_input \<Rightarrow> 'c speech_input" where
  "retire_turn_scope s =
     (if \<not> si_has_scope s then s
      else (si_say (ScopeRetired (si_scope s)) s)\<lparr>si_has_scope := False, si_scope := no_scope\<rparr>)"

definition open_turn_scope :: "'c speech_input \<Rightarrow> 'c speech_input" where
  "open_turn_scope s0 =
     (let s = retire_turn_scope s0;
          sc = \<lparr>ts_id = si_next_scope s, ts_generation = si_generation s, ts_session = si_session s,
                ts_turn = turn_identity (si_instance s) (si_next_scope s)\<rparr>
      in si_say (ScopeOpened sc) (s\<lparr>si_next_scope := si_next_scope s + 1, si_has_scope := True, si_scope := sc\<rparr>))"

definition quarantine :: "'c speech_input \<Rightarrow> 'c speech_input" where
  "quarantine s = s\<lparr>si_quarantined := True\<rparr>"

definition begin_generation :: "clean_frame \<Rightarrow> 'c speech_input \<Rightarrow> 'c speech_input" where
  "begin_generation f s =
     (if \<not> si_has_generation s \<or> si_generation s < cf_generation f
      then (retire_turn_scope s)\<lparr>si_has_generation := True, si_generation := cf_generation f,
        si_quarantined := False, si_has_wake := False, si_latest_wake := 0\<rparr>
      else s)"

definition frame_malformed :: "clean_frame \<Rightarrow> bool" where
  "frame_malformed f \<longleftrightarrow> cf_rate f \<noteq> 16000 \<or> cf_channels f \<noteq> 1 \<or> cf_valid f = 0 \<or> 160 < cf_valid f"

text \<open>The frame within its generation (the second part of \<open>accept_cleaned_frame\<close>).\<close>

definition admit_frame :: "clean_frame \<Rightarrow> 'c speech_input \<Rightarrow> 'c speech_input" where
  "admit_frame f s =
     (if si_quarantined s then s
      else if si_has_seq s \<and> si_latest_seq s = u64_max then quarantine (retire_turn_scope s)
      else if \<not> si_has_seq s \<and> cf_seq f = 0 \<or> si_has_seq s \<and> cf_seq f \<noteq> si_latest_seq s + 1 then
        (let s = retire_turn_scope s
         in quarantine (if \<not> si_has_seq s \<or> si_latest_seq s < cf_seq f
              then s\<lparr>si_has_seq := (cf_seq f \<noteq> 0), si_latest_seq := cf_seq f\<rparr> else s))
      else
        let s = s\<lparr>si_has_seq := True, si_latest_seq := cf_seq f\<rparr> in
        if frame_malformed f then quarantine (retire_turn_scope s)
        else si_say (FrameProcessed f) s)"

definition accept_cleaned_frame :: "clean_frame \<Rightarrow> 'c speech_input \<Rightarrow> 'c speech_input" where
  "accept_cleaned_frame f s =
     (if \<not> si_ready s then s
      else if si_has_generation s \<and> cf_generation f < si_generation s then s
      else admit_frame f (begin_generation f s))"

definition finish_input :: "'c speech_input \<Rightarrow> 'c speech_input" where
  "finish_input s = (if \<not> si_ready s \<or> si_quarantined s then s else si_say InputFinished s)"

definition accepts_event_frame :: "speech_event \<Rightarrow> 'c speech_input \<Rightarrow> bool" where
  "accepts_event_frame e s \<longleftrightarrow> si_has_generation s \<and> \<not> si_quarantined s \<and> se_generation e = si_generation s
     \<and> se_seq e \<noteq> 0 \<and> se_seq e \<le> si_latest_seq s"

definition matches_active_scope :: "speech_event \<Rightarrow> 'c speech_input \<Rightarrow> bool" where
  "matches_active_scope e s \<longleftrightarrow> si_has_scope s \<and> ts_id (se_scope e) \<noteq> 0 \<and> ts_id (se_scope e) = ts_id (si_scope s)
     \<and> ts_generation (se_scope e) = ts_generation (si_scope s)
     \<and> ts_session (se_scope e) = ts_session (si_scope s) \<and> ts_turn (se_scope e) = ts_turn (si_scope s)"

definition is_duplicate_privileged_stop :: "speech_event \<Rightarrow> 'c speech_input \<Rightarrow> bool" where
  "is_duplicate_privileged_stop e s \<longleftrightarrow> si_has_stop s \<and>
     (se_generation e < si_stop_generation s \<or> se_generation e = si_stop_generation s \<and> se_seq e \<le> si_stop_seq s)"

definition privileged_stop :: "speech_event \<Rightarrow> 'c speech_input \<Rightarrow> bool" where
  "privileged_stop e s \<longleftrightarrow> se_turn_kind e = TurnStop \<and> \<not> si_has_scope s \<and> ts_id (se_scope e) = 0"

definition on_wake :: "'c coordination option \<Rightarrow> speech_event \<Rightarrow> 'c speech_input \<Rightarrow> 'c speech_input" where
  "on_wake co e s =
     (if ts_id (se_scope e) = 0 \<and> (\<not> si_has_wake s \<or> si_latest_wake s < se_seq e) then
        (let (ok, c) = (case co of None \<Rightarrow> (True, si_coordination s) | Some k \<Rightarrow> co_wake k (si_coordination s));
             s = s\<lparr>si_coordination := c\<rparr>
         in if ok then open_turn_scope (s\<lparr>si_has_wake := True, si_latest_wake := se_seq e\<rparr>) else s)
      else s)"

definition publish_final :: "'c coordination option \<Rightarrow> speech_event \<Rightarrow> bool \<Rightarrow> 'c speech_input \<Rightarrow> 'c speech_input" where
  "publish_final co e privileged s0 =
     (let s = (if privileged then s0\<lparr>si_has_stop := True, si_stop_generation := se_generation e, si_stop_seq := se_seq e\<rparr>
               else s0);
          (sc, s) = (if privileged
            then (\<lparr>ts_id = si_next_scope s, ts_generation = si_generation s, ts_session = si_session s,
                   ts_turn = turn_identity (si_instance s) (si_next_scope s)\<rparr>,
                  s\<lparr>si_next_scope := si_next_scope s + 1\<rparr>)
            else (si_scope s, s));
          p = \<lparr>vp_instance = si_instance s, vp_seq = si_next_seq s, vp_session = ts_session sc, vp_turn = ts_turn sc,
               vp_kind = se_turn_kind e, vp_text = se_text e, vp_confidence = se_confidence e,
               vp_during_playback = False\<rparr>;
          s = s\<lparr>si_next_seq := si_next_seq s + 1\<rparr>;
          (p, c) = (case co of None \<Rightarrow> (p, si_coordination s) | Some k \<Rightarrow> co_publish k p (si_coordination s))
      in si_say (TurnPublished p) (s\<lparr>si_coordination := c\<rparr>))"

definition on_endpoint :: "'c coordination option \<Rightarrow> speech_event \<Rightarrow> 'c speech_input \<Rightarrow> 'c speech_input" where
  "on_endpoint co e s =
     (let privileged = privileged_stop e s in
      if privileged \<and> is_duplicate_privileged_stop e s then s
      else if \<not> privileged \<and> \<not> matches_active_scope e s then s
      else
        let s = (if valid_final e then publish_final co e privileged s else s)
        in if \<not> privileged then retire_turn_scope s else s)"

definition on_speech_event :: "'c coordination option \<Rightarrow> speech_event \<Rightarrow> 'c speech_input \<Rightarrow> 'c speech_input" where
  "on_speech_event co e s =
     (if \<not> accepts_event_frame e s then s
      else case se_kind e of
        WakeMiss \<Rightarrow> s
      | WakeAccepted \<Rightarrow> on_wake co e s
      | Activity \<Rightarrow> s
      | EndpointFinal \<Rightarrow> on_endpoint co e s
      | SpeechTimeout \<Rightarrow> if matches_active_scope e s then retire_turn_scope s else s
      | SpeechFailure \<Rightarrow> if matches_active_scope e s then retire_turn_scope s else s)"

datatype input_event = FrameIn clean_frame | EventIn speech_event | FinishIn

primrec input_step :: "'c coordination option \<Rightarrow> 'c speech_input \<Rightarrow> input_event \<Rightarrow> 'c speech_input" where
  "input_step co s (FrameIn f) = accept_cleaned_frame f s"
| "input_step co s (EventIn e) = on_speech_event co e s"
| "input_step co s FinishIn = finish_input s"

definition input_run :: "'c coordination option \<Rightarrow> 'c speech_input \<Rightarrow> input_event list \<Rightarrow> 'c speech_input" where
  "input_run co s es = run (input_step co) s es"

subsection \<open>What the operations leave alone\<close>

lemma retire_fields [simp]:
  "si_instance (retire_turn_scope s) = si_instance s" "si_session (retire_turn_scope s) = si_session s"
  "si_next_scope (retire_turn_scope s) = si_next_scope s" "si_next_seq (retire_turn_scope s) = si_next_seq s"
  "si_ready (retire_turn_scope s) = si_ready s" "si_has_generation (retire_turn_scope s) = si_has_generation s"
  "si_quarantined (retire_turn_scope s) = si_quarantined s" "si_generation (retire_turn_scope s) = si_generation s"
  "si_has_seq (retire_turn_scope s) = si_has_seq s" "si_latest_seq (retire_turn_scope s) = si_latest_seq s"
  "si_has_stop (retire_turn_scope s) = si_has_stop s"
  "si_stop_generation (retire_turn_scope s) = si_stop_generation s"
  "si_stop_seq (retire_turn_scope s) = si_stop_seq s" "\<not> si_has_scope (retire_turn_scope s)"
  by (simp_all add: retire_turn_scope_def si_say_def)

lemma retire_trace:
  "si_trace (retire_turn_scope s) = si_trace s @ (if si_has_scope s then [ScopeRetired (si_scope s)] else [])"
  by (simp add: retire_turn_scope_def si_say_def)

definition fresh_scope :: "'c speech_input \<Rightarrow> turn_scope" where
  "fresh_scope s = \<lparr>ts_id = si_next_scope s, ts_generation = si_generation s, ts_session = si_session s,
     ts_turn = turn_identity (si_instance s) (si_next_scope s)\<rparr>"

lemma open_fields [simp]:
  "si_instance (open_turn_scope s) = si_instance s" "si_session (open_turn_scope s) = si_session s"
  "si_next_scope (open_turn_scope s) = si_next_scope s + 1" "si_next_seq (open_turn_scope s) = si_next_seq s"
  "si_ready (open_turn_scope s) = si_ready s" "si_has_generation (open_turn_scope s) = si_has_generation s"
  "si_quarantined (open_turn_scope s) = si_quarantined s" "si_generation (open_turn_scope s) = si_generation s"
  "si_has_seq (open_turn_scope s) = si_has_seq s" "si_latest_seq (open_turn_scope s) = si_latest_seq s"
  "si_has_stop (open_turn_scope s) = si_has_stop s"
  "si_stop_generation (open_turn_scope s) = si_stop_generation s"
  "si_stop_seq (open_turn_scope s) = si_stop_seq s" "si_has_scope (open_turn_scope s)"
  "si_scope (open_turn_scope s) = fresh_scope s"
  by (simp_all add: open_turn_scope_def si_say_def Let_def fresh_scope_def)

lemma open_trace:
  "si_trace (open_turn_scope s) = si_trace (retire_turn_scope s) @ [ScopeOpened (fresh_scope s)]"
  by (simp add: open_turn_scope_def si_say_def Let_def fresh_scope_def)

text \<open>The publication of a final, before and after the coordination.\<close>

definition final_publication :: "speech_event \<Rightarrow> bool \<Rightarrow> 'c speech_input \<Rightarrow> turn_publication" where
  "final_publication e privileged s =
     (let sc = (if privileged then fresh_scope s else si_scope s)
      in \<lparr>vp_instance = si_instance s, vp_seq = si_next_seq s, vp_session = ts_session sc, vp_turn = ts_turn sc,
          vp_kind = se_turn_kind e, vp_text = se_text e, vp_confidence = se_confidence e,
          vp_during_playback = False\<rparr>)"

definition coordinated :: "'c coordination option \<Rightarrow> turn_publication \<Rightarrow> 'c \<Rightarrow> turn_publication \<times> 'c" where
  "coordinated co p c = (case co of None \<Rightarrow> (p, c) | Some k \<Rightarrow> co_publish k p c)"

lemma publish_final_eq:
  "publish_final co e privileged s =
     s\<lparr>si_next_scope := (if privileged then si_next_scope s + 1 else si_next_scope s),
       si_next_seq := si_next_seq s + 1, si_has_stop := privileged \<or> si_has_stop s,
       si_stop_generation := (if privileged then se_generation e else si_stop_generation s),
       si_stop_seq := (if privileged then se_seq e else si_stop_seq s),
       si_coordination := snd (coordinated co (final_publication e privileged s) (si_coordination s)),
       si_trace := si_trace s @
         [TurnPublished (fst (coordinated co (final_publication e privileged s) (si_coordination s)))]\<rparr>"
  by (cases privileged; cases co)
    (simp_all add: publish_final_def final_publication_def coordinated_def fresh_scope_def si_say_def Let_def
      split_beta)

lemma begin_generation_fields [simp]:
  "si_instance (begin_generation f s) = si_instance s" "si_session (begin_generation f s) = si_session s"
  "si_next_scope (begin_generation f s) = si_next_scope s" "si_next_seq (begin_generation f s) = si_next_seq s"
  "si_ready (begin_generation f s) = si_ready s" "si_has_seq (begin_generation f s) = si_has_seq s"
  "si_latest_seq (begin_generation f s) = si_latest_seq s" "si_has_stop (begin_generation f s) = si_has_stop s"
  "si_stop_generation (begin_generation f s) = si_stop_generation s"
  "si_stop_seq (begin_generation f s) = si_stop_seq s"
  by (simp_all add: begin_generation_def)

text \<open>
  What a frame does to the turn of the core: it leaves the counters alone, keeps or retires the scope, and
  then hands over the frame or not.
\<close>

definition keeps_counters :: "'c speech_input \<Rightarrow> 'c speech_input \<Rightarrow> bool" where
  "keeps_counters s t \<longleftrightarrow> si_instance t = si_instance s \<and> si_session t = si_session s
     \<and> si_next_scope t = si_next_scope s \<and> si_next_seq t = si_next_seq s \<and> si_has_stop t = si_has_stop s
     \<and> si_stop_generation t = si_stop_generation s \<and> si_stop_seq t = si_stop_seq s"

lemma accept_keeps_counters: "keeps_counters s (accept_cleaned_frame f s)"
  by (simp add: keeps_counters_def accept_cleaned_frame_def admit_frame_def Let_def quarantine_def si_say_def)

lemma accept_shape:
  "(si_has_scope (accept_cleaned_frame f s) = si_has_scope s \<and> si_scope (accept_cleaned_frame f s) = si_scope s
      \<and> si_trace (accept_cleaned_frame f s) \<in> {si_trace s, si_trace s @ [FrameProcessed f]})
   \<or> (\<not> si_has_scope (accept_cleaned_frame f s)
      \<and> si_trace (accept_cleaned_frame f s) \<in> {si_trace (retire_turn_scope s),
          si_trace (retire_turn_scope s) @ [FrameProcessed f]})"
proof -
  have b: "begin_generation f s = s \<or>
      (\<not> si_has_scope (begin_generation f s) \<and> si_trace (begin_generation f s) = si_trace (retire_turn_scope s))"
    by (simp add: begin_generation_def)
  show ?thesis
  proof (cases "begin_generation f s = s")
    case True
    then show ?thesis
      by (simp add: accept_cleaned_frame_def admit_frame_def Let_def quarantine_def si_say_def retire_trace)
  next
    case False
    with b have "\<not> si_has_scope (begin_generation f s)"
      and "si_trace (begin_generation f s) = si_trace (retire_turn_scope s)" by blast+
    then show ?thesis
      by (simp add: accept_cleaned_frame_def admit_frame_def Let_def quarantine_def si_say_def retire_trace)
  qed
qed

lemma finish_shape:
  "finish_input s = s \<or> finish_input s = s\<lparr>si_trace := si_trace s @ [InputFinished]\<rparr>"
  by (simp add: finish_input_def si_say_def)

subsection \<open>The turns of the core as a protocol\<close>

text \<open>
  What may follow what: a scope is opened only when none is open; the turn of an open scope is published at
  most once and the scope is retired right after; outside a scope only a STOP is published.
\<close>

datatype turn_phase = NoTurn | OpenTurn turn_scope | SpentTurn turn_scope

fun turn_next :: "turn_phase \<Rightarrow> input_effect \<Rightarrow> turn_phase option" where
  "turn_next NoTurn (ScopeOpened sc) = Some (OpenTurn sc)"
| "turn_next NoTurn (TurnPublished p) = (if vp_kind p = TurnStop then Some NoTurn else None)"
| "turn_next NoTurn (ScopeRetired sc) = None"
| "turn_next (OpenTurn sc) (ScopeRetired sc') = (if sc' = sc then Some NoTurn else None)"
| "turn_next (OpenTurn sc) (TurnPublished p) =
     (if vp_turn p = ts_turn sc \<and> vp_session p = ts_session sc then Some (SpentTurn sc) else None)"
| "turn_next (OpenTurn sc) (ScopeOpened sc') = None"
| "turn_next (SpentTurn sc) (ScopeRetired sc') = (if sc' = sc then Some NoTurn else None)"
| "turn_next (SpentTurn sc) x = None"
| "turn_next ph x = Some ph"

primrec turn_follow :: "turn_phase \<Rightarrow> input_effect list \<Rightarrow> turn_phase option" where
  "turn_follow ph [] = Some ph"
| "turn_follow ph (x # xs) = (case turn_next ph x of None \<Rightarrow> None | Some ph' \<Rightarrow> turn_follow ph' xs)"

lemma turn_follow_append [simp]:
  "turn_follow ph (xs @ ys) = (case turn_follow ph xs of None \<Rightarrow> None | Some ph' \<Rightarrow> turn_follow ph' ys)"
  by (induction xs arbitrary: ph) (auto split: option.split)

definition phase_of :: "'c speech_input \<Rightarrow> turn_phase" where
  "phase_of s = (if si_has_scope s then OpenTurn (si_scope s) else NoTurn)"

definition turn_inv :: "'c speech_input \<Rightarrow> bool" where
  "turn_inv s \<longleftrightarrow> turn_follow NoTurn (si_trace s) = Some (phase_of s)"

lemma turn_inv_retire: "turn_inv s \<Longrightarrow> turn_inv (retire_turn_scope s)"
  by (simp add: turn_inv_def retire_trace phase_of_def)

lemma turn_inv_cong:
  "turn_inv s \<Longrightarrow> si_trace t = si_trace s \<Longrightarrow> si_has_scope t = si_has_scope s \<Longrightarrow> si_scope t = si_scope s
     \<Longrightarrow> turn_inv t"
  by (simp add: turn_inv_def phase_of_def)

lemma turn_inv_open: "turn_inv s \<Longrightarrow> turn_inv (open_turn_scope s)"
  using turn_inv_retire [of s] by (simp add: turn_inv_def open_trace phase_of_def)

lemma turn_inv_frame: "turn_inv s \<Longrightarrow> turn_inv (accept_cleaned_frame f s)"
  using accept_shape [of f s] turn_inv_retire [of s]
  by (cases "si_has_scope s") (auto simp: turn_inv_def phase_of_def)

lemma turn_inv_finish: "turn_inv s \<Longrightarrow> turn_inv (finish_input s)"
  using finish_shape [of s] by (auto simp: turn_inv_def phase_of_def)

text \<open>
  The contract of the coordination seam: it may set whether the turn came during playback, and nothing
  else of a publication.
\<close>

definition same_but_playback :: "turn_publication \<Rightarrow> turn_publication \<Rightarrow> bool" where
  "same_but_playback p q \<longleftrightarrow> q = p\<lparr>vp_during_playback := vp_during_playback q\<rparr>"

locale turn_coordination =
  fixes co :: "'c coordination option"
  assumes keeps_turn: "same_but_playback p (fst (coordinated co p c))"
begin

lemma coordinated_fields [simp]:
  "vp_instance (fst (coordinated co p c)) = vp_instance p" "vp_seq (fst (coordinated co p c)) = vp_seq p"
  "vp_session (fst (coordinated co p c)) = vp_session p" "vp_turn (fst (coordinated co p c)) = vp_turn p"
  "vp_kind (fst (coordinated co p c)) = vp_kind p" "vp_text (fst (coordinated co p c)) = vp_text p"
  "vp_confidence (fst (coordinated co p c)) = vp_confidence p"
  using keeps_turn [of p c]
  by (metis same_but_playback_def turn_publication.select_convs turn_publication.surjective
      turn_publication.update_convs(8))+

lemma turn_inv_endpoint: "turn_inv s \<Longrightarrow> turn_inv (on_endpoint co e s)"
  by (simp add: on_endpoint_def Let_def turn_inv_def publish_final_eq phase_of_def retire_trace
      final_publication_def privileged_stop_def matches_active_scope_def)

lemma turn_inv_wake: "turn_inv s \<Longrightarrow> turn_inv (on_wake co e s)"
  unfolding on_wake_def
  by (simp add: Let_def split_beta turn_inv_cong [of s] turn_inv_open)

lemma turn_inv_event: "turn_inv s \<Longrightarrow> turn_inv (on_speech_event co e s)"
  by (simp add: on_speech_event_def turn_inv_endpoint turn_inv_wake turn_inv_retire split: speech_kind.split)

lemma turn_inv_step: "turn_inv s \<Longrightarrow> turn_inv (input_step co s x)"
  by (cases x) (simp_all add: turn_inv_frame turn_inv_finish turn_inv_event)

end

subsection \<open>Publications: numbers, identities and contents\<close>

fun published :: "input_effect list \<Rightarrow> turn_publication list" where
  "published [] = []"
| "published (TurnPublished p # xs) = p # published xs"
| "published (x # xs) = published xs"

fun processed :: "input_effect list \<Rightarrow> clean_frame list" where
  "processed [] = []"
| "processed (FrameProcessed f # xs) = f # processed xs"
| "processed (x # xs) = processed xs"

lemma published_append [simp]: "published (xs @ ys) = published xs @ published ys"
  by (induction xs rule: published.induct) simp_all

lemma processed_append [simp]: "processed (xs @ ys) = processed xs @ processed ys"
  by (induction xs rule: processed.induct) simp_all

lemma published_retire [simp]: "published (si_trace (retire_turn_scope s)) = published (si_trace s)"
  by (simp add: retire_trace)

lemma processed_retire [simp]: "processed (si_trace (retire_turn_scope s)) = processed (si_trace s)"
  by (simp add: retire_trace)

lemma published_accept [simp]: "published (si_trace (accept_cleaned_frame f s)) = published (si_trace s)"
  using accept_shape [of f s] by auto

lemma published_finish [simp]: "published (si_trace (finish_input s)) = published (si_trace s)"
  using finish_shape [of s] by auto

lemma finish_fields [simp]:
  "si_instance (finish_input s) = si_instance s" "si_next_seq (finish_input s) = si_next_seq s"
  "si_next_scope (finish_input s) = si_next_scope s" "si_has_scope (finish_input s) = si_has_scope s"
  "si_scope (finish_input s) = si_scope s" "si_has_stop (finish_input s) = si_has_stop s"
  "si_stop_generation (finish_input s) = si_stop_generation s" "si_stop_seq (finish_input s) = si_stop_seq s"
  using finish_shape [of s] by auto

lemma accept_fields [simp]:
  "si_instance (accept_cleaned_frame f s) = si_instance s" "si_next_seq (accept_cleaned_frame f s) = si_next_seq s"
  "si_next_scope (accept_cleaned_frame f s) = si_next_scope s"
  "si_has_stop (accept_cleaned_frame f s) = si_has_stop s"
  "si_stop_generation (accept_cleaned_frame f s) = si_stop_generation s"
  "si_stop_seq (accept_cleaned_frame f s) = si_stop_seq s"
  using accept_keeps_counters [of s f] by (simp_all add: keeps_counters_def)

text \<open>
  What an accepted event does: nothing to the publications, with at most one scope identity used for a new
  scope; or one publication, whose identity is the open scope's or a new one.
\<close>

definition publication_ok :: "turn_publication \<Rightarrow> bool" where
  "publication_ok p \<longleftrightarrow> vp_text p \<noteq> [] \<and> length (vp_text p) \<le> 512 \<and> is_valid_utf8 (vp_text p)
     \<and> dle (Fin 0) (vp_confidence p) \<and> dle (vp_confidence p) (Fin 1)
     \<and> (vp_kind p = TurnCommand \<or> vp_text p = xiaozhi_stop \<or> vp_text p = emergency_stop)"

lemma valid_final_ok:
  assumes "valid_final e" "vp_text p = se_text e" "vp_confidence p = se_confidence e" "vp_kind p = se_turn_kind e"
  shows "publication_ok p"
  using assms by (cases "se_confidence e")
    (auto simp: valid_final_def publication_ok_def dle_def isfinite_def split: if_splits)

lemma final_publication_fields [simp]:
  "vp_seq (final_publication e pr s) = si_next_seq s" "vp_instance (final_publication e pr s) = si_instance s"
  "vp_turn (final_publication e pr s) =
     (if pr then turn_identity (si_instance s) (si_next_scope s) else ts_turn (si_scope s))"
  "vp_kind (final_publication e pr s) = se_turn_kind e" "vp_text (final_publication e pr s) = se_text e"
  "vp_confidence (final_publication e pr s) = se_confidence e"
  by (simp_all add: final_publication_def Let_def fresh_scope_def)

definition numbered :: "'c speech_input \<Rightarrow> bool" where
  "numbered s \<longleftrightarrow> map vp_seq (published (si_trace s)) = map of_nat [1..<Suc (length (published (si_trace s)))]
     \<and> si_next_seq s = of_nat (Suc (length (published (si_trace s))))
     \<and> list_all publication_ok (published (si_trace s))
     \<and> list_all (\<lambda>p. vp_instance p = si_instance s) (published (si_trace s))"

lemma numbered_same:
  "numbered s \<Longrightarrow> published (si_trace t) = published (si_trace s) \<Longrightarrow> si_next_seq t = si_next_seq s
     \<Longrightarrow> si_instance t = si_instance s \<Longrightarrow> numbered t"
  by (simp add: numbered_def)

lemma wake_published [simp]:
  "published (si_trace (on_wake co e s)) = published (si_trace s)" "si_next_seq (on_wake co e s) = si_next_seq s"
  "si_instance (on_wake co e s) = si_instance s"
  by (simp_all add: on_wake_def Let_def split_beta open_trace)

context turn_coordination
begin

lemma publication_valid:
  "valid_final e \<Longrightarrow> publication_ok (fst (coordinated co (final_publication e pr s) c))"
  by (simp add: valid_final_ok)

lemma numbered_publish: "numbered s \<Longrightarrow> valid_final e \<Longrightarrow> numbered (publish_final co e pr s)"
  by (simp add: numbered_def publish_final_eq publication_valid)

lemma numbered_endpoint: "numbered s \<Longrightarrow> numbered (on_endpoint co e s)"
  unfolding on_endpoint_def Let_def
  by (auto intro: numbered_publish numbered_same [of s] numbered_same [OF numbered_publish])

lemma numbered_event: "numbered s \<Longrightarrow> numbered (on_speech_event co e s)"
  by (simp add: on_speech_event_def numbered_endpoint numbered_same [of s] split: speech_kind.split)

lemma numbered_step: "numbered s \<Longrightarrow> numbered (input_step co s x)"
  by (cases x) (simp_all add: numbered_event numbered_same [of s])

end

text \<open>
  The identities: scope numbers are handed out in order, so the turn identities of the publications are
  those of a strictly increasing sequence of numbers, all below the next, and below an open scope's.
\<close>

definition issued :: "string \<Rightarrow> nat \<Rightarrow> nat list \<Rightarrow> 'c speech_input \<Rightarrow> bool" where
  "issued inst m ks s \<longleftrightarrow> 0 < m \<and> si_instance s = inst \<and> si_next_scope s = of_nat m
     \<and> map vp_turn (published (si_trace s)) = map (\<lambda>k. turn_identity inst (of_nat k)) ks
     \<and> sorted_wrt (<) ks \<and> (\<forall>k\<in>set ks. 0 < k \<and> k < m)
     \<and> (si_has_scope s \<longrightarrow> (\<exists>k<m. 0 < k \<and> ts_turn (si_scope s) = turn_identity inst (of_nat k)
           \<and> (\<forall>j\<in>set ks. j < k)))"

lemma issued_ex: "issued inst m ks s \<Longrightarrow> m \<le> n \<Longrightarrow> \<exists>m' ks'. m' \<le> n \<and> issued inst m' ks' s"
  by blast

lemma issued_retire: "issued inst m ks s \<Longrightarrow> issued inst m ks (retire_turn_scope s)"
  by (simp add: issued_def)

lemma issued_same:
  "issued inst m ks s \<Longrightarrow> si_instance t = si_instance s \<Longrightarrow> si_next_scope t = si_next_scope s
     \<Longrightarrow> published (si_trace t) = published (si_trace s)
     \<Longrightarrow> \<not> si_has_scope t \<or> si_has_scope s \<and> si_scope t = si_scope s \<Longrightarrow> issued inst m ks t"
  unfolding issued_def by auto

lemma issued_open: "issued inst m ks s \<Longrightarrow> issued inst (Suc m) ks (open_turn_scope s)"
  unfolding issued_def by (auto simp: open_trace fresh_scope_def less_Suc_eq)

lemma issued_wake:
  assumes "issued inst m ks s"
  shows "issued inst m ks (on_wake co e s) \<or> issued inst (Suc m) ks (on_wake co e s)"
proof -
  have "issued inst m ks (s\<lparr>si_coordination := c, si_has_wake := w, si_latest_wake := q\<rparr>)" for c w q
    by (rule issued_same [OF assms]) simp_all
  moreover have "issued inst m ks (s\<lparr>si_coordination := c\<rparr>)" for c
    by (rule issued_same [OF assms]) simp_all
  ultimately show ?thesis using assms by (simp add: on_wake_def Let_def split_beta issued_open)
qed

lemma issued_frame: "issued inst m ks s \<Longrightarrow> issued inst m ks (accept_cleaned_frame f s)"
  by (rule issued_same) (use accept_shape [of f s] in \<open>auto simp: issued_def\<close>)

lemma issued_finish: "issued inst m ks s \<Longrightarrow> issued inst m ks (finish_input s)"
  by (rule issued_same) auto

context turn_coordination
begin

lemma issued_privileged:
  assumes "issued inst m ks s" and "\<not> si_has_scope s"
  shows "issued inst (Suc m) (ks @ [m]) (publish_final co e True s)"
  using assms unfolding issued_def by (auto simp: publish_final_eq sorted_wrt_append less_Suc_eq)

lemma issued_scoped:
  assumes "issued inst m ks s" and "si_has_scope s"
  shows "\<exists>k. issued inst m (ks @ [k]) (retire_turn_scope (publish_final co e False s))"
  using assms unfolding issued_def by (auto simp: publish_final_eq sorted_wrt_append)

lemma issued_endpoint:
  assumes i: "issued inst m ks s"
  shows "\<exists>m' ks'. m' \<le> Suc m \<and> issued inst m' ks' (on_endpoint co e s)"
proof (cases "privileged_stop e s")
  case True
  then have "issued inst (Suc m) (ks @ [m]) (publish_final co e True s)"
    using i by (simp add: privileged_stop_def issued_privileged)
  from issued_ex [OF this] True show ?thesis
    using issued_ex [OF i, of "Suc m"] by (simp add: on_endpoint_def Let_def)
next
  case False
  show ?thesis
  proof (cases "matches_active_scope e s")
    case True
    then obtain k where "issued inst m (ks @ [k]) (retire_turn_scope (publish_final co e False s))"
      using issued_scoped [OF i] by (auto simp: matches_active_scope_def)
    from issued_ex [OF this] issued_ex [OF issued_retire [OF i], of "Suc m"] show ?thesis
      using False True by (simp add: on_endpoint_def Let_def)
  next
    case no: False
    with False show ?thesis using issued_ex [OF i, of "Suc m"] by (simp add: on_endpoint_def Let_def)
  qed
qed

lemma issued_step:
  assumes i: "issued inst m ks s"
  shows "\<exists>m' ks'. m' \<le> Suc m \<and> issued inst m' ks' (input_step co s x)"
proof (cases x)
  case (FrameIn f)
  then show ?thesis using issued_ex [OF issued_frame [OF i], of "Suc m" f] by simp
next
  case (EventIn e)
  have "issued inst m ks (retire_turn_scope s)" by (rule issued_retire) (rule i)
  then show ?thesis
    using EventIn issued_endpoint [OF i, of e] issued_ex [OF i, of "Suc m"] issued_wake [OF i, of co e]
      issued_ex [of inst m ks "retire_turn_scope s" "Suc m"] issued_ex [of inst _ ks "on_wake co e s" "Suc m"]
    by (auto simp: on_speech_event_def split: speech_kind.split)
next
  case FinishIn
  then show ?thesis using issued_ex [OF issued_finish [OF i], of "Suc m"] by simp
qed

end

lemma turn_identity_inj:
  "turn_identity inst i = turn_identity inst j \<Longrightarrow> i = j"
  using hex_digits_inj [of 16 "unat i" "unat j"] unsigned_less [of i, where 'a = nat]
    unsigned_less [of j, where 'a = nat] by (simp add: turn_identity_def word_unat_eq_iff)

lemma issued_distinct:
  assumes "issued inst m ks s" and "m \<le> 2 ^ 64"
  shows "distinct (map vp_turn (published (si_trace s)))"
proof -
  have "distinct ks" using assms(1) by (simp add: issued_def strict_sorted_iff)
  moreover have "inj_on (\<lambda>k. turn_identity inst (of_nat k)) (set ks)"
  proof (rule inj_onI)
    fix i j
    assume ij: "i \<in> set ks" "j \<in> set ks" and "turn_identity inst (of_nat i) = turn_identity inst (of_nat j)"
    then have "(of_nat i :: u64) = of_nat j" by (simp add: turn_identity_inj)
    moreover have "unat (of_nat k :: u64) = k" if "k \<in> set ks" for k
    proof -
      have "k < m" using assms(1) that by (simp add: issued_def)
      with assms(2) have "k < 2 ^ 64" by simp
      then show ?thesis by (simp add: unat_of_nat take_bit_nat_eq_self)
    qed
    ultimately show "i = j" using ij by metis
  qed
  ultimately show ?thesis using assms(1) by (simp add: issued_def distinct_map)
qed

subsection \<open>The stream the recognizer sees\<close>

text \<open>
  The frames handed to the recognizer are well formed, of growing sequence numbers, and within one generation
  without a gap. A generation that had a gap or a malformed frame is quarantined until a newer one.
\<close>

definition frame_follows :: "clean_frame \<Rightarrow> clean_frame \<Rightarrow> bool" where
  "frame_follows f g \<longleftrightarrow> cf_seq f < cf_seq g \<and>
     (cf_generation f < cf_generation g \<or> cf_generation f = cf_generation g \<and> cf_seq g = cf_seq f + 1)"

definition unbroken :: "clean_frame list \<Rightarrow> bool" where
  "unbroken fs \<longleftrightarrow> successively frame_follows fs \<and> list_all (\<lambda>f. \<not> frame_malformed f) fs"

definition stream_inv :: "'c speech_input \<Rightarrow> bool" where
  "stream_inv s \<longleftrightarrow> unbroken (processed (si_trace s)) \<and>
     (\<forall>f. processed (si_trace s) \<noteq> [] \<and> List.last (processed (si_trace s)) = f \<longrightarrow>
        si_has_generation s \<and> si_has_seq s \<and> cf_seq f \<le> si_latest_seq s \<and> cf_generation f \<le> si_generation s
        \<and> (cf_generation f = si_generation s \<and> \<not> si_quarantined s \<longrightarrow> cf_seq f = si_latest_seq s))"

definition same_stream :: "'c speech_input \<Rightarrow> 'c speech_input \<Rightarrow> bool" where
  "same_stream s t \<longleftrightarrow> processed (si_trace t) = processed (si_trace s) \<and> si_has_generation t = si_has_generation s
     \<and> si_has_seq t = si_has_seq s \<and> si_latest_seq t = si_latest_seq s \<and> si_generation t = si_generation s
     \<and> si_quarantined t = si_quarantined s"

lemma stream_inv_same: "stream_inv s \<Longrightarrow> same_stream s t \<Longrightarrow> stream_inv t"
  by (simp add: stream_inv_def same_stream_def)

lemma event_same_stream: "same_stream s (on_speech_event co e s)"
  by (simp add: same_stream_def on_speech_event_def on_wake_def on_endpoint_def Let_def split_beta
      publish_final_eq open_trace split: speech_kind.split)

lemma finish_same_stream: "same_stream s (finish_input s)"
  using finish_shape [of s] by (auto simp: same_stream_def)

lemma stream_inv_begin: "stream_inv s \<Longrightarrow> si_has_generation (begin_generation f s) \<and>
    stream_inv (begin_generation f s) \<and> (\<not> (si_has_generation s \<and> cf_generation f < si_generation s) \<longrightarrow>
      si_generation (begin_generation f s) = cf_generation f)"
  unfolding begin_generation_def stream_inv_def by force

lemma stream_inv_append:
  assumes i: "stream_inv s" and q: "\<not> si_quarantined s" and g: "si_generation s = cf_generation f"
    and n: "si_has_seq s \<Longrightarrow> si_latest_seq s \<noteq> u64_max \<and> cf_seq f = si_latest_seq s + 1" and w: "\<not> frame_malformed f"
  shows "unbroken (processed (si_trace s) @ [f])"
proof (cases "processed (si_trace s) = []")
  case True
  then show ?thesis using w by (simp add: unbroken_def)
next
  case False
  let ?l = "List.last (processed (si_trace s))"
  have l: "si_has_seq s" "cf_seq ?l \<le> si_latest_seq s" "cf_generation ?l \<le> cf_generation f"
    "cf_generation ?l = cf_generation f \<Longrightarrow> cf_seq ?l = si_latest_seq s"
    using i False q g unfolding stream_inv_def by auto
  have "si_latest_seq s < cf_seq f" using n [OF l(1)] by simp
  then have "cf_seq ?l < cf_seq f" using l(2) by (rule le_less_trans [rotated])
  then have "frame_follows ?l f" using l n [OF l(1)] by (auto simp: frame_follows_def)
  then show ?thesis
    using i w False by (simp add: stream_inv_def unbroken_def successively_append_iff)
qed

lemma stream_inv_accept:
  assumes i: "stream_inv s0"
  shows "stream_inv (accept_cleaned_frame f s0)"
proof (cases "\<not> si_ready s0 \<or> si_has_generation s0 \<and> cf_generation f < si_generation s0")
  case True
  then show ?thesis using i by (simp add: accept_cleaned_frame_def)
next
  case False
  define s where "s = begin_generation f s0"
  have s: "stream_inv s" "si_has_generation s" "si_generation s = cf_generation f"
    using stream_inv_begin [OF i, of f] False unfolding s_def by simp_all
  have moved: "stream_inv (t\<lparr>si_quarantined := True\<rparr>)"
    if "processed (si_trace t) = processed (si_trace s)" "si_generation t = si_generation s" "si_has_generation t"
      "processed (si_trace s) \<noteq> [] \<Longrightarrow> si_has_seq t \<and> si_latest_seq s \<le> si_latest_seq t" for t
    using s that unfolding stream_inv_def by auto
  have has: "si_has_seq s" if "processed (si_trace s) \<noteq> []" using s(1) that by (simp add: stream_inv_def)
  have "accept_cleaned_frame f s0 = admit_frame f s"
    using False unfolding accept_cleaned_frame_def s_def by auto
  note eq = this [unfolded admit_frame_def Let_def retire_fields]
  show ?thesis
  proof (cases "\<not> si_quarantined s \<and> \<not> (si_has_seq s \<and> si_latest_seq s = u64_max)
      \<and> \<not> (\<not> si_has_seq s \<and> cf_seq f = 0 \<or> si_has_seq s \<and> cf_seq f \<noteq> si_latest_seq s + 1)")
    case True
    then have "unbroken (processed (si_trace s) @ [f])" if "\<not> frame_malformed f"
      using stream_inv_append [OF s(1) _ s(3)] that by blast
    moreover have "stream_inv (quarantine (retire_turn_scope (s\<lparr>si_has_seq := True, si_latest_seq := cf_seq f\<rparr>)))"
      unfolding quarantine_def
      by (rule moved) (use True has s in \<open>auto simp: less_imp_le [OF u64_succ_greater]\<close>)
    moreover from calculation(1) have "stream_inv (si_say (FrameProcessed f)
        (s\<lparr>si_has_seq := True, si_latest_seq := cf_seq f\<rparr>))" if "\<not> frame_malformed f"
      using that s by (simp add: stream_inv_def si_say_def)
    ultimately show ?thesis using True unfolding eq by auto
  next
    case False
    have "stream_inv (quarantine (retire_turn_scope s))"
      unfolding quarantine_def by (rule moved) (use has s in auto)
    moreover have "stream_inv (quarantine ((retire_turn_scope s)
        \<lparr>si_has_seq := (cf_seq f \<noteq> 0), si_latest_seq := cf_seq f\<rparr>))"
      if "\<not> si_has_seq s \<or> si_latest_seq s < cf_seq f"
      unfolding quarantine_def by (rule moved) (use has s that in \<open>auto simp: word_gt_0\<close>)
    ultimately show ?thesis using False s(1) unfolding eq by auto
  qed
qed

lemma stream_inv_step: "stream_inv s \<Longrightarrow> stream_inv (input_step co s x)"
  by (cases x) (auto intro: stream_inv_accept stream_inv_same event_same_stream finish_same_stream)

subsection \<open>A privileged STOP is published once\<close>

text \<open>
  \<open>stop_passed g q s\<close>: the audio at generation \<open>g\<close>, number \<open>q\<close>, is not after the frame of the last privileged
  STOP that was accepted. Once so, always so.
\<close>

definition stop_passed :: "u64 \<Rightarrow> u64 \<Rightarrow> 'c speech_input \<Rightarrow> bool" where
  "stop_passed g q s \<longleftrightarrow> si_has_stop s \<and> (g < si_stop_generation s \<or> g = si_stop_generation s \<and> q \<le> si_stop_seq s)"

lemma duplicate_stop_iff: "is_duplicate_privileged_stop e s \<longleftrightarrow> stop_passed (se_generation e) (se_seq e) s"
  by (simp add: is_duplicate_privileged_stop_def stop_passed_def)

lemma stop_passed_cong:
  "si_has_stop t = si_has_stop s \<Longrightarrow> si_stop_generation t = si_stop_generation s \<Longrightarrow> si_stop_seq t = si_stop_seq s
     \<Longrightarrow> stop_passed g q t = stop_passed g q s"
  by (simp add: stop_passed_def)

lemma stop_passed_wake [simp]: "stop_passed g q (on_wake co e s) = stop_passed g q s"
  by (rule stop_passed_cong) (simp_all add: on_wake_def Let_def split_beta)

lemma stop_passed_retire [simp]: "stop_passed g q (retire_turn_scope s) = stop_passed g q s"
  by (rule stop_passed_cong) simp_all

lemma stop_passed_publish:
  "stop_passed g q s \<Longrightarrow> \<not> pr \<or> \<not> is_duplicate_privileged_stop e s \<Longrightarrow> stop_passed g q (publish_final co e pr s)"
  unfolding duplicate_stop_iff by (auto simp: publish_final_eq stop_passed_def)

lemma stop_passed_endpoint: "stop_passed g q s \<Longrightarrow> stop_passed g q (on_endpoint co e s)"
  by (auto simp: on_endpoint_def Let_def intro: stop_passed_publish)

lemma stop_passed_step: "stop_passed g q s \<Longrightarrow> stop_passed g q (input_step co s x)"
  using stop_passed_cong [of "accept_cleaned_frame _ s" s g q] stop_passed_cong [of "finish_input s" s g q]
  by (cases x) (simp_all add: on_speech_event_def stop_passed_endpoint split: speech_kind.split)

lemma stop_passed_run: "stop_passed g q s \<Longrightarrow> stop_passed g q (input_run co s es)"
  unfolding input_run_def by (induction es arbitrary: s) (simp_all add: stop_passed_step)

definition privileged_final :: "speech_event \<Rightarrow> bool" where
  "privileged_final e \<longleftrightarrow> se_kind e = EndpointFinal \<and> se_turn_kind e = TurnStop \<and> ts_id (se_scope e) = 0"

lemma privileged_accepts:
  assumes "privileged_final e" "published (si_trace (on_speech_event co e s)) \<noteq> published (si_trace s)"
  shows "stop_passed (se_generation e) (se_seq e) (on_speech_event co e s)"
  using assms
  by (auto simp: privileged_final_def on_speech_event_def on_endpoint_def Let_def publish_final_eq stop_passed_def
      privileged_stop_def matches_active_scope_def split: if_splits)

lemma privileged_repeat:
  assumes "privileged_final e" "stop_passed (se_generation e) (se_seq e) s"
  shows "on_speech_event co e s = s"
  using assms
  by (auto simp: privileged_final_def on_speech_event_def on_endpoint_def Let_def duplicate_stop_iff
      privileged_stop_def matches_active_scope_def)

end
