(* ===== verification/Voice_Coordination.thy ===== *)
theory Voice_Coordination
  imports Speech_Input "HOL-Library.Sublist"
begin

text \<open>
  The coordination of speech input and output (\<open>VoicePipelineCoordination\<close>, voice_pipeline_coordination.hpp
  and .cpp): a wake is admitted by the output, and a STOP turn interrupts the playback and asks the mission
  to stop, before the turn is published. The output and the stop port are parameters: the two operations
  the coordination calls, and the list of requests sent.
\<close>

subsection \<open>The coordination\<close>

record stop_mission_request =
  sm_request_id :: string
  sm_instance :: string
  sm_seq :: u64
  sm_reason :: string

datatype stop_mission_code = StopApplied | StopDuplicate | StopSafetyFault | StopTransportFailure | StopTimedOut

record stop_mission_response =
  sr_code :: stop_mission_code
  sr_inhibited :: bool

text \<open>\<open>SpeechOutputControl\<close>: the output as the coordination sees it.\<close>

record 'o output_control =
  oc_wake :: "'o \<Rightarrow> bool \<times> 'o"
  oc_stop :: "'o \<Rightarrow> bool \<times> 'o"

record 'o voice_link =
  vl_output :: 'o
  vl_response :: stop_mission_response
  vl_have_response :: bool
  vl_last_stop :: string
  vl_requests :: "stop_mission_request list"

definition link_init :: "'o \<Rightarrow> 'o voice_link" where
  "link_init out = \<lparr>vl_output = out, vl_response = \<lparr>sr_code = StopTransportFailure, sr_inhibited = False\<rparr>,
     vl_have_response = False, vl_last_stop = [], vl_requests = []\<rparr>"

definition on_wake_accepted :: "'o output_control \<Rightarrow> 'o voice_link \<Rightarrow> bool \<times> 'o voice_link" where
  "on_wake_accepted oc v = (let (ok, out) = oc_wake oc (vl_output v) in (ok, v\<lparr>vl_output := out\<rparr>))"

definition before_turn_published ::
    "'o output_control \<Rightarrow> turn_publication \<Rightarrow> 'o voice_link \<Rightarrow> turn_publication \<times> 'o voice_link" where
  "before_turn_published oc p v =
     (if vp_kind p \<noteq> TurnStop \<or> vp_turn p = vl_last_stop v then (p, v)
      else
        let (playing, out) = oc_stop oc (vl_output v)
        in (p\<lparr>vp_during_playback := playing\<rparr>,
            v\<lparr>vl_output := out, vl_last_stop := vp_turn p,
              vl_requests := vl_requests v @ [\<lparr>sm_request_id = vp_turn p, sm_instance = vp_instance p,
                sm_seq = vp_seq p, sm_reason = ''voice_stop''\<rparr>]\<rparr>))"

definition on_stop_response :: "stop_mission_response \<Rightarrow> 'o voice_link \<Rightarrow> 'o voice_link" where
  "on_stop_response r v = v\<lparr>vl_response := r, vl_have_response := True\<rparr>"

definition voice_coordination :: "'o output_control \<Rightarrow> 'o voice_link coordination" where
  "voice_coordination oc = \<lparr>co_wake = on_wake_accepted oc, co_publish = before_turn_published oc\<rparr>"

text \<open>
  The input of a voice pipeline: a core with this coordination. Between its steps the output moves, by its own
  operations, and the mission answers the stop requests.
\<close>

datatype 'o voice_call = InputCall input_event | OutputMoved 'o | StopReply stop_mission_response

primrec voice_step :: "'o output_control \<Rightarrow> 'o voice_link speech_input \<Rightarrow> 'o voice_call \<Rightarrow> 'o voice_link speech_input" where
  "voice_step oc s (InputCall x) = input_step (Some (voice_coordination oc)) s x"
| "voice_step oc s (OutputMoved out) = s\<lparr>si_coordination := (si_coordination s)\<lparr>vl_output := out\<rparr>\<rparr>"
| "voice_step oc s (StopReply r) = s\<lparr>si_coordination := on_stop_response r (si_coordination s)\<rparr>"

definition voice_input :: "'o output_control \<Rightarrow> u8 list option \<Rightarrow> 'o \<Rightarrow> 'o voice_call list \<Rightarrow> 'o voice_link speech_input" where
  "voice_input oc identity out es = run (voice_step oc) (input_init identity (link_init out)) es"

lemma pub_playback_same [simp]:
  "same_but_playback p p" "same_but_playback p (p\<lparr>vp_during_playback := b\<rparr>)"
  by (simp_all add: same_but_playback_def)

interpretation vc: turn_coordination "Some (voice_coordination oc)" for oc
  by unfold_locales
    (simp add: coordinated_def voice_coordination_def before_turn_published_def split_beta Let_def)

text \<open>The invariants of the core hold of the pipeline's input.\<close>

lemma voice_turn_step: "turn_inv s \<Longrightarrow> turn_inv (voice_step oc s x)"
  by (cases x) (simp_all add: vc.turn_inv_step turn_inv_cong [of s])

lemma voice_numbered_step: "numbered s \<Longrightarrow> numbered (voice_step oc s x)"
  by (cases x) (simp_all add: vc.numbered_step numbered_same [of s])

lemma voice_stream_step: "stream_inv s \<Longrightarrow> stream_inv (voice_step oc s x)"
  by (cases x) (auto intro: stream_inv_step stream_inv_same simp: same_stream_def)

lemma voice_issued_step: "issued inst m ks s \<Longrightarrow> \<exists>m' ks'. m' \<le> Suc m \<and> issued inst m' ks' (voice_step oc s x)"
proof (cases x)
  case (InputCall y)
  then show "issued inst m ks s \<Longrightarrow> ?thesis" using vc.issued_step [of inst m ks s oc y] by simp
next
  case (OutputMoved out)
  assume "issued inst m ks s"
  then have "issued inst m ks (voice_step oc s x)" by (rule issued_same) (simp_all add: OutputMoved)
  then show ?thesis by (rule issued_ex) simp
next
  case (StopReply r)
  assume "issued inst m ks s"
  then have "issued inst m ks (voice_step oc s x)" by (rule issued_same) (simp_all add: StopReply)
  then show ?thesis by (rule issued_ex) simp
qed

interpretation voice_turns: invariant_machine "voice_step oc" turn_inv for oc
  by unfold_locales (rule voice_turn_step)

interpretation voice_numbers: invariant_machine "voice_step oc" numbered for oc
  by unfold_locales (rule voice_numbered_step)

interpretation voice_stream: invariant_machine "voice_step oc" stream_inv for oc
  by unfold_locales (rule voice_stream_step)

lemma voice_issued_run:
  "issued inst m ks s \<Longrightarrow> \<exists>m' ks'. m' \<le> m + length es \<and> issued inst m' ks' (run (voice_step oc) s es)"
proof (induction es arbitrary: m ks s)
  case Nil
  then show ?case by auto
next
  case (Cons e es)
  obtain m1 k1 where 1: "m1 \<le> Suc m" "issued inst m1 k1 (voice_step oc s e)"
    using voice_issued_step [OF Cons.prems] by blast
  obtain m2 k2 where "m2 \<le> m1 + length es" "issued inst m2 k2 (run (voice_step oc) (voice_step oc s e) es)"
    using Cons.IH [OF 1(2)] by blast
  with 1(1) show ?case by (auto intro!: exI [of _ m2])
qed

subsection \<open>STOP turns and stop requests\<close>

text \<open>
  Every STOP turn that is published has asked the mission to stop, once and before its publication: the
  requests are, in order, those of the STOP publications.
\<close>

definition request_of :: "turn_publication \<Rightarrow> stop_mission_request" where
  "request_of p = \<lparr>sm_request_id = vp_turn p, sm_instance = vp_instance p, sm_seq = vp_seq p,
     sm_reason = ''voice_stop''\<rparr>"

definition stops_of :: "turn_publication list \<Rightarrow> turn_publication list" where
  "stops_of ps = [p \<leftarrow> ps. vp_kind p = TurnStop]"

definition stop_link :: "'o voice_link speech_input \<Rightarrow> bool" where
  "stop_link s \<longleftrightarrow> vl_requests (si_coordination s) = map request_of (stops_of (published (si_trace s)))
     \<and> vl_last_stop (si_coordination s) =
        (if stops_of (published (si_trace s)) = [] then []
         else vp_turn (List.last (stops_of (published (si_trace s)))))"

lemma stops_of_append [simp]: "stops_of (ps @ qs) = stops_of ps @ stops_of qs"
  by (simp add: stops_of_def)

lemma stop_link_same:
  "stop_link s \<Longrightarrow> published (si_trace t) = published (si_trace s)
     \<Longrightarrow> vl_requests (si_coordination t) = vl_requests (si_coordination s)
     \<Longrightarrow> vl_last_stop (si_coordination t) = vl_last_stop (si_coordination s) \<Longrightarrow> stop_link t"
  by (simp add: stop_link_def)

lemma coordination_same [simp]:
  "si_coordination (retire_turn_scope s) = si_coordination s"
  "si_coordination (accept_cleaned_frame f s) = si_coordination s"
  "si_coordination (finish_input s) = si_coordination s"
  "si_coordination (open_turn_scope s) = si_coordination s"
  by (simp_all add: retire_turn_scope_def accept_cleaned_frame_def admit_frame_def begin_generation_def
      finish_input_def open_turn_scope_def quarantine_def si_say_def Let_def)

lemma wake_keeps_requests [simp]:
  "vl_requests (si_coordination (on_wake (Some (voice_coordination oc)) e s)) = vl_requests (si_coordination s)"
  "vl_last_stop (si_coordination (on_wake (Some (voice_coordination oc)) e s)) = vl_last_stop (si_coordination s)"
  by (simp_all add: on_wake_def voice_coordination_def on_wake_accepted_def Let_def split_beta)

lemma last_stop_published: "stops_of ps \<noteq> [] \<Longrightarrow> List.last (stops_of ps) \<in> set ps"
  using last_in_set [of "stops_of ps"] by (auto simp: stops_of_def)

lemma stop_link_publish:
  assumes l: "stop_link s"
    and n: "vp_turn (final_publication e pr s) \<notin> set (map vp_turn (published (si_trace s)))"
    and z: "vp_turn (final_publication e pr s) \<noteq> []"
  shows "stop_link (publish_final (Some (voice_coordination oc)) e pr s)"
proof -
  let ?p = "final_publication e pr s"
  have "vp_turn ?p \<noteq> vl_last_stop (si_coordination s)"
    using l n z last_stop_published [of "published (si_trace s)"]
    by (cases "stops_of (published (si_trace s)) = []") (auto simp: stop_link_def)
  then show ?thesis
    using l by (simp add: stop_link_def publish_final_eq coordinated_def voice_coordination_def
        before_turn_published_def split_beta Let_def stops_of_def request_of_def)
qed

lemma published_grows: "prefix (published (si_trace s)) (published (si_trace (input_step co s x)))"
  by (cases x) (auto simp: on_speech_event_def on_endpoint_def Let_def publish_final_eq split: speech_kind.split)

lemma stop_link_step:
  assumes l: "stop_link s"
    and d: "distinct (map vp_turn (published (si_trace (input_step (Some (voice_coordination oc)) s x))))"
    and z: "[] \<notin> set (map vp_turn (published (si_trace (input_step (Some (voice_coordination oc)) s x))))"
  shows "stop_link (input_step (Some (voice_coordination oc)) s x)"
proof (cases x)
  case (EventIn e)
  let ?co = "Some (voice_coordination oc)"
  show ?thesis
  proof (cases "published (si_trace (on_speech_event ?co e s)) = published (si_trace s)")
    case True
    then have "stop_link (on_speech_event ?co e s)"
      using l by (auto simp: on_speech_event_def on_endpoint_def Let_def publish_final_eq stop_link_def
          split: speech_kind.split if_splits)
    with EventIn show ?thesis by simp
  next
    case False
    define pr where "pr = privileged_stop e s"
    have f: "on_speech_event ?co e s = (if pr then publish_final ?co e pr s
        else retire_turn_scope (publish_final ?co e pr s))"
      using False by (auto simp: on_speech_event_def on_endpoint_def Let_def pr_def split: speech_kind.split if_splits)
    have "vp_turn (final_publication e pr s) \<notin> set (map vp_turn (published (si_trace s)))"
      "vp_turn (final_publication e pr s) \<noteq> []"
      using d z EventIn f by (auto simp: publish_final_eq simp del: final_publication_fields split: if_splits)
    from stop_link_publish [OF l this] show ?thesis
      using EventIn f stop_link_same [of "publish_final ?co e pr s" "retire_turn_scope (publish_final ?co e pr s)"]
      by (cases pr) simp_all
  qed
qed (use l in \<open>simp_all add: stop_link_same\<close>)

subsection \<open>Properties\<close>

lemma voice_input_snoc: "voice_input oc i out (es @ [x]) = voice_step oc (voice_input oc i out es) x"
  by (simp add: voice_input_def run_append)

lemma stop_link_voice_step:
  assumes l: "stop_link s"
    and d: "distinct (map vp_turn (published (si_trace (voice_step oc s x))))"
    and z: "[] \<notin> set (map vp_turn (published (si_trace (voice_step oc s x))))"
  shows "stop_link (voice_step oc s x)"
proof (cases x)
  case (InputCall y)
  then show ?thesis using stop_link_step [OF l] d z by simp
qed (use l in \<open>simp_all add: stop_link_same on_stop_response_def\<close>)

lemma issued_init: "issued (si_instance (input_init i c)) 1 [] (input_init i c)"
  by (simp add: issued_def input_init_def)

lemma voice_input_turns:
  assumes "length es < 2 ^ 64"
  shows "distinct (map vp_turn (published (si_trace (voice_input oc i out es))))"
    and "[] \<notin> set (map vp_turn (published (si_trace (voice_input oc i out es))))"
proof -
  obtain m ks where m: "m \<le> 1 + length es" and k: "issued (si_instance (input_init i (link_init out))) m ks (voice_input oc i out es)"
    using voice_issued_run [OF issued_init] unfolding voice_input_def by blast
  show "distinct (map vp_turn (published (si_trace (voice_input oc i out es))))"
    by (rule issued_distinct [OF k]) (use m assms in simp)
  show "[] \<notin> set (map vp_turn (published (si_trace (voice_input oc i out es))))"
    using k by (auto simp: issued_def turn_identity_def)
qed

lemma voice_input_stop_link: "length es < 2 ^ 64 \<Longrightarrow> stop_link (voice_input oc i out es)"
proof (induction es rule: rev_induct)
  case Nil
  then show ?case
    by (simp add: voice_input_def input_init_def link_init_def stop_link_def stops_of_def)
next
  case (snoc x es)
  then have "stop_link (voice_input oc i out es)" by simp
  then show ?case
    using voice_input_turns [OF snoc.prems, of oc i out] unfolding voice_input_snoc by (rule stop_link_voice_step)
qed

text \<open>
  C14: the turns of a voice pipeline follow the protocol: scopes do not overlap, the turn of a scope is published
  at most once and with the scope's identity, the scope is retired right after, and outside a scope nothing but
  a STOP is published.
\<close>

theorem turns_follow_the_protocol:
  "turn_follow NoTurn (si_trace (voice_input oc identity out es)) \<noteq> None"
proof -
  have "turn_inv (input_init identity (link_init out))" by (simp add: turn_inv_def input_init_def phase_of_def)
  from voice_turns.run_inv [OF this] show ?thesis by (simp add: voice_input_def turn_inv_def)
qed

text \<open>
  Publications are numbered from one without a gap; each is valid UTF-8 of at most 512 bytes with a
  confidence in the unit interval, and a STOP has one of the two STOP texts.
\<close>

lemma publications_numbered_and_valid:
  "map vp_seq (published (si_trace (voice_input oc identity out es))) =
     map of_nat [1..<Suc (length (published (si_trace (voice_input oc identity out es))))]
   \<and> list_all publication_ok (published (si_trace (voice_input oc identity out es)))"
proof -
  have "numbered (input_init identity (link_init out))" by (simp add: numbered_def input_init_def)
  from voice_numbers.run_inv [OF this] show ?thesis by (simp add: voice_input_def numbered_def)
qed

text \<open>
  C13: each STOP turn is sent to the mission exactly once, with the identity and the number it is published
  under, and nothing else is sent; no two turns have one identity.
\<close>

theorem every_stop_turn_is_requested_once:
  assumes "length es < 2 ^ 64"
  shows "vl_requests (si_coordination (voice_input oc identity out es)) =
      map request_of (stops_of (published (si_trace (voice_input oc identity out es))))
    \<and> distinct (map vp_turn (published (si_trace (voice_input oc identity out es))))"
  by (rule conjI [OF _ voice_input_turns(1) [OF assms]])
    (use voice_input_stop_link [OF assms, of oc identity out] in \<open>simp add: stop_link_def\<close>)

text \<open>
  The recognizer sees an unbroken stream: well-formed frames of growing numbers, consecutive within a
  generation, whatever frames and events come in.
\<close>

lemma recognizer_stream_is_unbroken:
  "unbroken (processed (si_trace (voice_input oc identity out es)))"
proof -
  have "stream_inv (input_init identity (link_init out))" by (simp add: stream_inv_def input_init_def unbroken_def)
  from voice_stream.run_inv [OF this] show ?thesis by (simp add: voice_input_def stream_inv_def)
qed

text \<open>
  Once a privileged STOP is published, no later final for the same or an earlier audio frame without a
  scope is: the second one changes nothing.
\<close>

lemma privileged_stop_is_published_once:
  assumes "privileged_final e" and "privileged_final e'"
    and "published (si_trace (on_speech_event co e s)) \<noteq> published (si_trace s)"
    and "se_generation e' < se_generation e \<or> se_generation e' = se_generation e \<and> se_seq e' \<le> se_seq e"
  shows "on_speech_event co e' (input_run co (on_speech_event co e s) es) = input_run co (on_speech_event co e s) es"
proof -
  have "stop_passed (se_generation e') (se_seq e') (on_speech_event co e s)"
    using privileged_accepts [OF assms(1,3)] assms(4) by (auto simp: stop_passed_def)
  then show ?thesis by (intro privileged_repeat [OF assms(2)] stop_passed_run)
qed

end
