(* ===== verification/Overwrite_Ring.thy ===== *)
theory Overwrite_Ring
  imports Prelude
begin

text \<open>
  The capture ring (\<open>OverwriteAudioFrameRing\<close>, audio_engine.hpp): the callback overwrites the oldest frame
  while the worker may be copying it. Each load and store of an atomic is one step, and the steps of the two
  threads interleave in any order (sequentially consistent). Sequence numbers are natural numbers: the
  64-bit ones wrap after more frames than a device can deliver.
\<close>

subsection \<open>Slots, frames and program points\<close>

record audio_frame =
  af_generation :: u64
  af_samples :: "u16 list"

record ring_slot =
  sl_sequence :: nat
  sl_generation :: u64
  sl_samples :: "u16 list"

definition frame_samples :: nat where "frame_samples = 480"
definition ring_capacity :: nat where "ring_capacity = 8"

text \<open>Where the producer is in \<open>push_drop_oldest\<close>, with the frame it writes.\<close>

datatype producer_pc = PushIdle | PushGeneration audio_frame | PushSample nat audio_frame | PushSeal | PushPublish

text \<open>
  Where the consumer is in \<open>pop\<close>: the published number it loaded, then the frame number and the drops it
  reports, then the candidate it copies.
\<close>

datatype consumer_pc = PopIdle | PopLoaded nat | PopChecked nat nat | PopSamples nat nat nat audio_frame
  | PopRecheck nat nat audio_frame

record overwrite_ring =
  or_slots :: "ring_slot list"
  or_producer :: nat
  or_published :: nat
  or_consumer :: nat
  or_push :: producer_pc
  or_pop :: consumer_pc
  or_history :: "audio_frame list"
  or_delivered :: "(nat \<times> audio_frame) list"
  or_drops :: nat

definition empty_frame :: audio_frame where
  "empty_frame = \<lparr>af_generation = 0, af_samples = replicate frame_samples 0\<rparr>"

definition ring_init :: overwrite_ring where
  "ring_init = \<lparr>or_slots = replicate ring_capacity \<lparr>sl_sequence = 0, sl_generation = 0,
     sl_samples = replicate frame_samples 0\<rparr>, or_producer = 0, or_published = 0, or_consumer = 0,
     or_push = PushIdle, or_pop = PopIdle, or_history = [], or_delivered = [], or_drops = 0\<rparr>"

definition slot_of :: "nat \<Rightarrow> nat" where
  "slot_of k = (k - 1) mod ring_capacity"

definition put_slot :: "nat \<Rightarrow> (ring_slot \<Rightarrow> ring_slot) \<Rightarrow> overwrite_ring \<Rightarrow> overwrite_ring" where
  "put_slot k f r = r\<lparr>or_slots := (or_slots r)[slot_of k := f (or_slots r ! slot_of k)]\<rparr>"

subsection \<open>The two operations, access by access\<close>

definition push_step :: "audio_frame \<Rightarrow> overwrite_ring \<Rightarrow> overwrite_ring" where
  "push_step f r =
     (case or_push r of
        PushIdle \<Rightarrow>
          let k = or_producer r + 1
          in (put_slot k (\<lambda>s. s\<lparr>sl_sequence := k * 2 - 1\<rparr>) r)\<lparr>or_producer := k,
               or_history := or_history r @ [f], or_push := PushGeneration f\<rparr>
      | PushGeneration g \<Rightarrow>
          (put_slot (or_producer r) (\<lambda>s. s\<lparr>sl_generation := af_generation g\<rparr>) r)\<lparr>or_push := PushSample 0 g\<rparr>
      | PushSample i g \<Rightarrow>
          if i < frame_samples
          then (put_slot (or_producer r) (\<lambda>s. s\<lparr>sl_samples := (sl_samples s)[i := af_samples g ! i]\<rparr>) r)
            \<lparr>or_push := PushSample (i + 1) g\<rparr>
          else r\<lparr>or_push := PushSeal\<rparr>
      | PushSeal \<Rightarrow>
          (put_slot (or_producer r) (\<lambda>s. s\<lparr>sl_sequence := or_producer r * 2\<rparr>) r)\<lparr>or_push := PushPublish\<rparr>
      | PushPublish \<Rightarrow> r\<lparr>or_published := or_producer r, or_push := PushIdle\<rparr>)"

definition pop_miss :: "nat \<Rightarrow> nat \<Rightarrow> overwrite_ring \<Rightarrow> overwrite_ring" where
  "pop_miss n d r = r\<lparr>or_consumer := n, or_drops := or_drops r + d + 1, or_pop := PopIdle\<rparr>"

definition pop_step :: "overwrite_ring \<Rightarrow> overwrite_ring" where
  "pop_step r =
     (case or_pop r of
        PopIdle \<Rightarrow> r\<lparr>or_pop := PopLoaded (or_published r)\<rparr>
      | PopLoaded published \<Rightarrow>
          (let next = or_consumer r + 1;
               oldest = (if ring_capacity < published then published - ring_capacity + 1 else 1);
               drops = (if next < oldest then oldest - next else 0);
               next' = (if next < oldest then oldest else next)
           in if published < next then r\<lparr>or_pop := PopIdle\<rparr>
              else if sl_sequence (or_slots r ! slot_of next') \<noteq> next' * 2 then pop_miss next' drops r
              else r\<lparr>or_pop := PopChecked next' drops\<rparr>)
      | PopChecked n d \<Rightarrow>
          r\<lparr>or_pop := PopSamples 0 n d
            \<lparr>af_generation = sl_generation (or_slots r ! slot_of n), af_samples = replicate frame_samples 0\<rparr>\<rparr>
      | PopSamples i n d c \<Rightarrow>
          if i < frame_samples
          then r\<lparr>or_pop := PopSamples (i + 1) n d
            (c\<lparr>af_samples := (af_samples c)[i := sl_samples (or_slots r ! slot_of n) ! i]\<rparr>)\<rparr>
          else r\<lparr>or_pop := PopRecheck n d c\<rparr>
      | PopRecheck n d c \<Rightarrow>
          if sl_sequence (or_slots r ! slot_of n) \<noteq> n * 2 then pop_miss n d r
          else r\<lparr>or_consumer := n, or_drops := or_drops r + d, or_delivered := or_delivered r @ [(n, c)],
            or_pop := PopIdle\<rparr>)"

datatype ring_access = Produce audio_frame | Consume

primrec ring_step :: "overwrite_ring \<Rightarrow> ring_access \<Rightarrow> overwrite_ring" where
  "ring_step r (Produce f) = push_step f r"
| "ring_step r Consume = pop_step r"

definition ring_run :: "ring_access list \<Rightarrow> overwrite_ring" where
  "ring_run es = run ring_step ring_init es"

subsection \<open>The invariant\<close>

text \<open>
  A slot with an even number holds the whole frame of that number; the slot being written has an odd one.
\<close>

definition holds :: "ring_slot \<Rightarrow> audio_frame \<Rightarrow> bool" where
  "holds s f \<longleftrightarrow> sl_generation s = af_generation f \<and> sl_samples s = af_samples f"

definition slot_ok :: "audio_frame list \<Rightarrow> ring_slot \<Rightarrow> bool" where
  "slot_ok h s \<longleftrightarrow> length (sl_samples s) = frame_samples \<and> sl_sequence s \<le> 2 * length h \<and>
     (\<forall>k>0. sl_sequence s = 2 * k \<longrightarrow> holds s (h ! (k - 1)))"

definition slots_ok :: "overwrite_ring \<Rightarrow> bool" where
  "slots_ok r \<longleftrightarrow> length (or_slots r) = ring_capacity \<and> length (or_history r) = or_producer r
     \<and> (\<forall>f\<in>set (or_history r). length (af_samples f) = frame_samples)
     \<and> (\<forall>j<ring_capacity. slot_ok (or_history r) (or_slots r ! j))"

definition push_ok :: "overwrite_ring \<Rightarrow> bool" where
  "push_ok r \<longleftrightarrow> or_published r \<le> or_producer r \<and>
     (let s = or_slots r ! slot_of (or_producer r); f = or_history r ! (or_producer r - 1);
          writing = 0 < or_producer r \<and> sl_sequence s = 2 * or_producer r - 1
      in case or_push r of
        PushGeneration g \<Rightarrow> writing \<and> g = f
      | PushSample i g \<Rightarrow> writing \<and> g = f \<and> sl_generation s = af_generation f \<and> i \<le> frame_samples
          \<and> take i (sl_samples s) = take i (af_samples f)
      | PushSeal \<Rightarrow> writing \<and> holds s f
      | _ \<Rightarrow> True)"

definition reading :: "overwrite_ring \<Rightarrow> nat \<Rightarrow> nat \<Rightarrow> bool" where
  "reading r n d \<longleftrightarrow> 0 < n \<and> n \<le> or_producer r \<and> n = or_consumer r + d + 1
     \<and> 2 * n \<le> sl_sequence (or_slots r ! slot_of n)"

lemma reading_pop [simp]: "reading (r\<lparr>or_pop := x\<rparr>) n d = reading r n d"
  by (simp add: reading_def)

definition pop_ok :: "overwrite_ring \<Rightarrow> bool" where
  "pop_ok r \<longleftrightarrow>
     (case or_pop r of
        PopIdle \<Rightarrow> True
      | PopLoaded p \<Rightarrow> p \<le> or_producer r
      | PopChecked n d \<Rightarrow> reading r n d
      | PopSamples i n d c \<Rightarrow> reading r n d \<and> length (af_samples c) = frame_samples \<and> i \<le> frame_samples \<and>
          (sl_sequence (or_slots r ! slot_of n) = 2 * n \<longrightarrow>
             af_generation c = af_generation (or_history r ! (n - 1)) \<and>
             take i (af_samples c) = take i (af_samples (or_history r ! (n - 1))))
      | PopRecheck n d c \<Rightarrow> reading r n d \<and>
          (sl_sequence (or_slots r ! slot_of n) = 2 * n \<longrightarrow> c = or_history r ! (n - 1)))"

definition deliveries_ok :: "overwrite_ring \<Rightarrow> bool" where
  "deliveries_ok r \<longleftrightarrow> sorted_wrt (<) (map fst (or_delivered r))
     \<and> (\<forall>(n, c)\<in>set (or_delivered r). 0 < n \<and> n \<le> or_consumer r \<and> c = or_history r ! (n - 1))
     \<and> length (or_delivered r) + or_drops r = or_consumer r \<and> or_consumer r \<le> or_producer r"

definition ring_inv :: "overwrite_ring \<Rightarrow> bool" where
  "ring_inv r \<longleftrightarrow> slots_ok r \<and> push_ok r \<and> pop_ok r \<and> deliveries_ok r"

lemma slot_of_less [simp]: "slot_of k < ring_capacity"
  by (simp add: slot_of_def ring_capacity_def)

lemma put_slot_fields [simp]:
  "or_producer (put_slot k f r) = or_producer r" "or_published (put_slot k f r) = or_published r"
  "or_consumer (put_slot k f r) = or_consumer r" "or_push (put_slot k f r) = or_push r"
  "or_pop (put_slot k f r) = or_pop r" "or_history (put_slot k f r) = or_history r"
  "or_delivered (put_slot k f r) = or_delivered r" "or_drops (put_slot k f r) = or_drops r"
  "length (or_slots (put_slot k f r)) = length (or_slots r)"
  by (simp_all add: put_slot_def)

lemma put_slot_nth [simp]:
  "length (or_slots r) = ring_capacity \<Longrightarrow> j < ring_capacity \<Longrightarrow>
     or_slots (put_slot k f r) ! j = (if j = slot_of k then f (or_slots r ! j) else or_slots r ! j)"
  by (simp add: put_slot_def nth_list_update)

lemma ring_init_inv: "ring_inv ring_init"
  by (simp add: ring_inv_def ring_init_def slots_ok_def slot_ok_def push_ok_def pop_ok_def deliveries_ok_def
      frame_samples_def)

lemma slots_okD:
  assumes "slots_ok r"
  shows "length (or_slots r) = ring_capacity" "length (or_history r) = or_producer r"
    "j < ring_capacity \<Longrightarrow> slot_ok (or_history r) (or_slots r ! j)"
    "j < ring_capacity \<Longrightarrow> length (sl_samples (or_slots r ! j)) = frame_samples"
    "j < ring_capacity \<Longrightarrow> sl_sequence (or_slots r ! j) \<le> 2 * or_producer r"
    "n < or_producer r \<Longrightarrow> length (af_samples (or_history r ! n)) = frame_samples"
  using assms by (auto simp: slots_ok_def slot_ok_def)

lemma slot_frame:
  assumes "slots_ok r" "0 < n" "sl_sequence (or_slots r ! slot_of n) = 2 * n"
  shows "holds (or_slots r ! slot_of n) (or_history r ! (n - 1))"
  using slots_okD(3) [OF assms(1) slot_of_less] assms(2,3) unfolding slot_ok_def by blast

subsection \<open>The consumer keeps it\<close>

lemma pop_fields [simp]:
  "or_slots (pop_step r) = or_slots r" "or_producer (pop_step r) = or_producer r"
  "or_published (pop_step r) = or_published r" "or_push (pop_step r) = or_push r"
  "or_history (pop_step r) = or_history r"
  by (simp_all add: pop_step_def pop_miss_def Let_def split: consumer_pc.split)

lemma pop_keeps_slots: "slots_ok r \<Longrightarrow> slots_ok (pop_step r)"
  by (simp add: slots_ok_def)

lemma pop_keeps_push: "push_ok r \<Longrightarrow> push_ok (pop_step r)"
  by (simp add: push_ok_def)

lemma pop_keeps_deliveries:
  assumes "ring_inv r"
  shows "deliveries_ok (pop_step r)"
proof (cases "or_pop r")
  case (PopLoaded p)
  then show ?thesis
    using assms by (auto simp: ring_inv_def pop_ok_def deliveries_ok_def pop_step_def pop_miss_def Let_def ring_capacity_def)
next
  case (PopRecheck n d c)
  then show ?thesis
    using assms by (auto simp: ring_inv_def pop_ok_def deliveries_ok_def pop_step_def pop_miss_def Let_def reading_def
        sorted_wrt_append mult.commute)
qed (use assms in \<open>simp_all add: ring_inv_def deliveries_ok_def pop_step_def\<close>)

lemma pop_keeps_pop:
  assumes i: "ring_inv r"
  shows "pop_ok (pop_step r)"
proof -
  have s: "slots_ok r" and p: "pop_ok r" and u: "or_published r \<le> or_producer r"
    using i by (simp_all add: ring_inv_def push_ok_def)
  show ?thesis
  proof (cases "or_pop r")
    case PopIdle
    then show ?thesis using u by (simp add: pop_ok_def pop_step_def)
  next
    case (PopLoaded q)
    then show ?thesis
      using p by (auto simp: pop_ok_def pop_step_def pop_miss_def reading_def Let_def ring_capacity_def)
  next
    case (PopChecked n d)
    then show ?thesis
      using p slot_frame [OF s, of n] by (auto simp: pop_ok_def pop_step_def reading_def holds_def)
  next
    case (PopSamples i n d c)
    have "reading r n d" and c: "length (af_samples c) = frame_samples" "i \<le> frame_samples"
      using p PopSamples by (simp_all add: pop_ok_def)
    then have n: "0 < n" "n - 1 < or_producer r" by (auto simp: reading_def)
    show ?thesis
    proof (cases "i < frame_samples")
      case True
      have l: "length (af_samples (or_history r ! (n - 1))) = frame_samples" by (rule slots_okD(6) [OF s n(2)])
      have "take (Suc i) ((af_samples c)[i := sl_samples (or_slots r ! slot_of n) ! i]) =
          take (Suc i) (af_samples (or_history r ! (n - 1)))"
        if "sl_sequence (or_slots r ! slot_of n) = 2 * n"
        using that p PopSamples True c l slot_frame [OF s n(1) that]
        by (simp add: pop_ok_def holds_def take_Suc_conv_app_nth)
      then show ?thesis using p PopSamples True by (simp add: pop_ok_def pop_step_def)
    next
      case False
      then have "c = or_history r ! (n - 1)" if "sl_sequence (or_slots r ! slot_of n) = 2 * n"
        using that p PopSamples c slots_okD(6) [OF s n(2)] by (simp add: pop_ok_def)
      then show ?thesis using p PopSamples False by (simp add: pop_ok_def pop_step_def)
    qed
  next
    case (PopRecheck n d c)
    then show ?thesis by (simp add: pop_ok_def pop_step_def pop_miss_def)
  qed
qed

subsection \<open>The producer keeps it\<close>

lemma push_sequence_grows:
  assumes "slots_ok r" "push_ok r" "j < ring_capacity"
  shows "sl_sequence (or_slots r ! j) \<le> sl_sequence (or_slots (push_step f r) ! j)"
  using slots_okD(5) [OF assms(1,3)] assms slots_okD(1) [OF assms(1)]
  by (auto simp: push_step_def push_ok_def Let_def split: producer_pc.split)

lemma push_fields [simp]:
  "or_consumer (push_step f r) = or_consumer r" "or_pop (push_step f r) = or_pop r"
  "or_delivered (push_step f r) = or_delivered r" "or_drops (push_step f r) = or_drops r"
  by (simp_all add: push_step_def Let_def split: producer_pc.split)

lemma push_history:
  "or_history (push_step f r) = (if or_push r = PushIdle then or_history r @ [f] else or_history r)"
  "or_producer (push_step f r) = (if or_push r = PushIdle then or_producer r + 1 else or_producer r)"
  by (simp_all add: push_step_def Let_def split: producer_pc.split)

lemma push_keeps_history:
  "slots_ok r \<Longrightarrow> n < or_producer r \<Longrightarrow> or_history (push_step f r) ! n = or_history r ! n"
  using slots_okD(2) by (simp add: push_history nth_append)

lemma slot_ok_history: "slot_ok h s \<Longrightarrow> slot_ok (h @ [f]) s"
  by (auto simp: slot_ok_def nth_append)

text \<open>What one store does to a slot, on each program point.\<close>

lemma push_keeps_slots:
  assumes s: "slots_ok r" and p: "push_ok r" and l: "length (af_samples f) = frame_samples"
  shows "slots_ok (push_step f r)"
proof -
  note d = slots_okD [OF s]
  have "slot_ok (or_history (push_step f r)) (or_slots (push_step f r) ! j)" if j: "j < ring_capacity" for j
  proof (cases "or_push r")
    case PushIdle
    then show ?thesis
      using slot_ok_history [OF d(3) [OF j], of f] d(1,2) d(4) [OF j] j
      by (auto simp: push_step_def Let_def slot_ok_def) presburger+
  next
    case (PushGeneration g)
    then show ?thesis using d(3) [OF j] d(1,2) j p
      by (auto simp: push_step_def slot_ok_def push_ok_def Let_def) presburger+
  next
    case (PushSample i g)
    then show ?thesis using d(3) [OF j] d(1,2) j p
      by (auto simp: push_step_def slot_ok_def push_ok_def Let_def) presburger+
  next
    case PushSeal
    then show ?thesis using d(3) [OF j] d(1,2) j p
      by (auto simp: push_step_def slot_ok_def push_ok_def Let_def holds_def mult.commute)
  next
    case PushPublish
    then show ?thesis using d(3) [OF j] by (simp add: push_step_def)
  qed
  moreover have "length (or_slots (push_step f r)) = ring_capacity"
    using d(1) by (simp add: push_step_def Let_def split: producer_pc.split)
  ultimately show ?thesis
    using s l by (auto simp: slots_ok_def push_history)
qed

lemma push_keeps_push:
  assumes s: "slots_ok r" and p: "push_ok r" and l: "length (af_samples f) = frame_samples"
  shows "push_ok (push_step f r)"
proof (cases "or_push r")
  case PushIdle
  then show ?thesis using p slots_okD(1,2) [OF s] by (simp add: push_step_def push_ok_def Let_def nth_append)
next
  case (PushGeneration g)
  then show ?thesis using p slots_okD(1) [OF s] by (simp add: push_step_def push_ok_def Let_def)
next
  case (PushSample i g)
  then have "0 < or_producer r" using p by (simp add: push_ok_def Let_def)
  then have "length (af_samples (or_history r ! (or_producer r - 1))) = frame_samples"
    using slots_okD(6) [OF s] by simp
  then show ?thesis
    using p PushSample slots_okD(1) [OF s] slots_okD(4) [OF s slot_of_less]
    by (auto simp: push_step_def push_ok_def Let_def holds_def take_Suc_conv_app_nth)
qed (use p in \<open>simp_all add: push_step_def push_ok_def\<close>)

text \<open>
  The slot a consumer copies from: while its number stays the one that was checked, no store touches it.
\<close>

lemma push_leaves_sealed:
  assumes s: "slots_ok r" and p: "push_ok r" and n: "2 * n \<le> sl_sequence (or_slots r ! slot_of n)" "0 < n"
    and e: "sl_sequence (or_slots (push_step f r) ! slot_of n) = 2 * n"
  shows "or_slots (push_step f r) ! slot_of n = or_slots r ! slot_of n"
proof -
  note d = slots_okD [OF s]
  have b: "sl_sequence (or_slots r ! slot_of n) \<le> 2 * or_producer r" by (rule d(5)) simp
  show ?thesis
    using d(1) p n b e by (auto simp: push_step_def push_ok_def Let_def split: producer_pc.splits if_splits) presburger+
qed

lemma push_keeps_pop:
  assumes s: "slots_ok r" and p: "push_ok r" and q: "pop_ok r"
  shows "pop_ok (push_step f r)"
proof -
  have r: "reading (push_step f r) n d" if "reading r n d" for n d
    using that push_sequence_grows [OF s p slot_of_less, of n f] by (auto simp: reading_def push_history)
  have h: "or_history (push_step f r) ! (n - 1) = or_history r ! (n - 1)"
    and e: "sl_sequence (or_slots (push_step f r) ! slot_of n) = 2 * n \<Longrightarrow>
      sl_sequence (or_slots r ! slot_of n) = 2 * n"
    if "reading r n d" for n d
    using that push_keeps_history [OF s, of "n - 1" f] push_leaves_sealed [OF s p, of n f] by (auto simp: reading_def)
  show ?thesis
    using q unfolding pop_ok_def
    by (auto simp: r h [simplified] push_history(2) dest: e split: consumer_pc.splits)
qed

lemma push_keeps_deliveries:
  assumes s: "slots_ok r" and q: "deliveries_ok r"
  shows "deliveries_ok (push_step f r)"
proof -
  have "or_history (push_step f r) ! (n - 1) = or_history r ! (n - 1)" if "0 < n" "n \<le> or_consumer r" for n
    using that q by (intro push_keeps_history [OF s]) (auto simp: deliveries_ok_def)
  then show ?thesis using q by (auto simp: deliveries_ok_def push_history)
qed

subsection \<open>The ring\<close>

primrec access_ok :: "ring_access \<Rightarrow> bool" where
  "access_ok (Produce f) = (length (af_samples f) = frame_samples)"
| "access_ok Consume = True"

lemma ring_step_inv: "ring_inv r \<Longrightarrow> access_ok x \<Longrightarrow> ring_inv (ring_step r x)"
  by (cases x) (simp_all add: ring_inv_def pop_keeps_slots pop_keeps_push pop_keeps_deliveries [unfolded ring_inv_def]
      pop_keeps_pop [unfolded ring_inv_def] push_keeps_slots push_keeps_push push_keeps_pop push_keeps_deliveries)

lemma ring_run_inv: "list_all access_ok es \<Longrightarrow> ring_inv (ring_run es)"
proof -
  have "ring_inv r \<Longrightarrow> list_all access_ok es \<Longrightarrow> ring_inv (run ring_step r es)" for r
    by (induction es arbitrary: r) (simp_all add: ring_step_inv)
  from this [OF ring_init_inv] show "list_all access_ok es \<Longrightarrow> ring_inv (ring_run es)"
    by (simp add: ring_run_def)
qed

text \<open>
  C12: however the accesses of the two threads interleave, a delivered frame is a frame the callback pushed,
  whole; the delivered numbers grow, and every number up to the consumer's was delivered or is among the
  reported drops.
\<close>

theorem overwrite_ring_never_tears:
  assumes "list_all access_ok es"
  shows "(\<forall>(n, c)\<in>set (or_delivered (ring_run es)). c = or_history (ring_run es) ! (n - 1))
    \<and> sorted_wrt (<) (map fst (or_delivered (ring_run es)))
    \<and> length (or_delivered (ring_run es)) + or_drops (ring_run es) = or_consumer (ring_run es)"
  using ring_run_inv [OF assms] by (auto simp: ring_inv_def deliveries_ok_def)

end
