(* ===== verification/Spsc_Ring.thy ===== *)
theory Spsc_Ring
  imports Prelude
begin

text \<open>
  The single-producer single-consumer ring (\<open>SpscRing\<close>, audio_engine.hpp). The operations by themselves,
  the bounded FIFO they implement, and the two threads access by access.
\<close>

subsection \<open>The operations\<close>

record 'a spsc_ring =
  rg_items :: "'a list"
  rg_write :: nat
  rg_read :: nat

definition spsc_init :: "nat \<Rightarrow> 'a \<Rightarrow> 'a spsc_ring" where
  "spsc_init capacity x = \<lparr>rg_items = replicate capacity x, rg_write = 0, rg_read = 0\<rparr>"

definition spsc_can_push :: "'a spsc_ring \<Rightarrow> bool" where
  "spsc_can_push r \<longleftrightarrow> (rg_write r + 1) mod length (rg_items r) \<noteq> rg_read r"

definition spsc_push :: "'a \<Rightarrow> 'a spsc_ring \<Rightarrow> bool \<times> 'a spsc_ring" where
  "spsc_push x r =
     (let next = (rg_write r + 1) mod length (rg_items r)
      in if next = rg_read r then (False, r)
         else (True, r\<lparr>rg_items := (rg_items r)[rg_write r := x], rg_write := next\<rparr>))"

definition spsc_pop :: "'a spsc_ring \<Rightarrow> 'a option \<times> 'a spsc_ring" where
  "spsc_pop r =
     (if rg_read r = rg_write r then (None, r)
      else (Some (rg_items r ! rg_read r), r\<lparr>rg_read := (rg_read r + 1) mod length (rg_items r)\<rparr>))"

subsection \<open>The bounded queue\<close>

text \<open>A ring of capacity \<open>n\<close> holds at most \<open>n - 1\<close> items, oldest first.\<close>

definition fifo_can_push :: "nat \<Rightarrow> 'a list \<Rightarrow> bool" where
  "fifo_can_push n q \<longleftrightarrow> length q + 1 < n"

definition fifo_push :: "nat \<Rightarrow> 'a \<Rightarrow> 'a list \<Rightarrow> bool \<times> 'a list" where
  "fifo_push n x q = (if fifo_can_push n q then (True, q @ [x]) else (False, q))"

fun fifo_pop :: "'a list \<Rightarrow> 'a option \<times> 'a list" where
  "fifo_pop [] = (None, [])"
| "fifo_pop (x # q) = (Some x, q)"

text \<open>
  The items of a ring that has seen \<open>w\<close> pushes and \<open>k\<close> pops: the indices are the counts modulo the capacity.
\<close>

definition ring_counts :: "nat \<Rightarrow> nat \<Rightarrow> 'a spsc_ring \<Rightarrow> bool" where
  "ring_counts w k r \<longleftrightarrow> k \<le> w \<and> w - k < length (rg_items r)
     \<and> rg_write r = w mod length (rg_items r) \<and> rg_read r = k mod length (rg_items r)"

definition ring_contents :: "nat \<Rightarrow> nat \<Rightarrow> 'a spsc_ring \<Rightarrow> 'a list" where
  "ring_contents w k r = map (\<lambda>i. rg_items r ! (i mod length (rg_items r))) [k..<w]"

lemma mod_eq_near: "(a::nat) mod c = b mod c \<Longrightarrow> b \<le> a \<Longrightarrow> a < b + c \<Longrightarrow> a = b"
  by (metis add.commute add_diff_cancel_left' le_add_diff_inverse mod_eq_dvd_iff_nat nat_add_left_cancel_less
      nat_dvd_not_less neq0_conv add_0_right)

lemma ring_counts_empty: "ring_counts w k r \<Longrightarrow> rg_read r = rg_write r \<longleftrightarrow> w = k"
  using mod_eq_near [of w "length (rg_items r)" k] by (auto simp: ring_counts_def)

lemma ring_counts_full:
  assumes "ring_counts w k r"
  shows "(rg_write r + 1) mod length (rg_items r) = rg_read r \<longleftrightarrow> w + 1 - k = length (rg_items r)"
proof
  let ?c = "length (rg_items r)"
  assume "(rg_write r + 1) mod ?c = rg_read r"
  then have e: "(w + 1) mod ?c = k mod ?c" using assms by (simp add: ring_counts_def mod_Suc_eq)
  have "k \<le> w" "w - k < ?c" using assms by (simp_all add: ring_counts_def)
  moreover have "w + 1 < k + ?c \<Longrightarrow> w + 1 = k" using mod_eq_near [OF e] calculation(1) by simp
  ultimately show "w + 1 - k = ?c" by linarith
next
  let ?c = "length (rg_items r)"
  assume "w + 1 - k = ?c"
  moreover have "k \<le> w" using assms by (simp add: ring_counts_def)
  ultimately have "w + 1 = k + ?c" by linarith
  then have "(w + 1) mod ?c = k mod ?c" by simp
  then show "(rg_write r + 1) mod ?c = rg_read r" using assms by (simp add: ring_counts_def mod_Suc_eq)
qed

lemma ring_contents_length [simp]: "length (ring_contents w k r) = w - k"
  by (simp add: ring_contents_def)

lemma mod_in_window: "(i::nat) < w \<Longrightarrow> k \<le> i \<Longrightarrow> w - k < c \<Longrightarrow> i mod c \<noteq> w mod c"
  using mod_eq_near [of w c i] by force

lemma contents_after_store:
  assumes "ring_counts w k r"
  shows "ring_contents (w + 1) k (r\<lparr>rg_items := (rg_items r)[rg_write r := x], rg_write := n\<rparr>) =
    ring_contents w k r @ [x]"
proof -
  have "0 < length (rg_items r)" using assms by (auto simp: ring_counts_def)
  then have "w mod length (rg_items r) < length (rg_items r)" by simp
  then show ?thesis
    using assms mod_in_window [of _ w k "length (rg_items r)"]
    by (auto simp: ring_contents_def ring_counts_def nth_list_update dest: sym)
qed

text \<open>
  A ring that has seen some pushes and pops behaves as the bounded queue of its contents: the two report
  the same and have the same contents afterwards, the oldest item first and one slot always free.
\<close>

lemma spsc_ring_refines_fifo:
  assumes "ring_counts w k r"
  shows "spsc_can_push r = fifo_can_push (length (rg_items r)) (ring_contents w k r)
    \<and> (\<exists>w'. ring_counts w' k (snd (spsc_push x r))
        \<and> fifo_push (length (rg_items r)) x (ring_contents w k r) =
            (fst (spsc_push x r), ring_contents w' k (snd (spsc_push x r))))
    \<and> (\<exists>k'. ring_counts w k' (snd (spsc_pop r))
        \<and> fifo_pop (ring_contents w k r) = (fst (spsc_pop r), ring_contents w k' (snd (spsc_pop r))))"
proof (intro conjI)
  let ?c = "length (rg_items r)"
  have f: "(rg_write r + 1) mod ?c = rg_read r \<longleftrightarrow> w + 1 - k = ?c" by (rule ring_counts_full [OF assms])
  have b: "k \<le> w" "w - k < ?c" using assms by (simp_all add: ring_counts_def)
  show "spsc_can_push r = fifo_can_push ?c (ring_contents w k r)"
    using f b by (auto simp: spsc_can_push_def fifo_can_push_def)
  show "\<exists>w'. ring_counts w' k (snd (spsc_push x r)) \<and> fifo_push ?c x (ring_contents w k r) =
      (fst (spsc_push x r), ring_contents w' k (snd (spsc_push x r)))"
  proof (cases "w + 1 - k = ?c")
    case True
    then have "spsc_push x r = (False, r)" using f by (simp add: spsc_push_def Let_def)
    then show ?thesis using True b assms by (auto simp: fifo_push_def fifo_can_push_def)
  next
    case False
    then have p: "spsc_push x r = (True, r\<lparr>rg_items := (rg_items r)[rg_write r := x],
        rg_write := (rg_write r + 1) mod ?c\<rparr>)" using f by (simp add: spsc_push_def Let_def)
    have "ring_counts (w + 1) k (snd (spsc_push x r))"
      using assms False unfolding p by (auto simp: ring_counts_def mod_Suc_eq)
    moreover have "fifo_can_push ?c (ring_contents w k r)" using False b by (simp add: fifo_can_push_def)
    ultimately show ?thesis
      using contents_after_store [OF assms] unfolding p by (auto simp: fifo_push_def)
  qed
  show "\<exists>k'. ring_counts w k' (snd (spsc_pop r)) \<and> fifo_pop (ring_contents w k r) =
      (fst (spsc_pop r), ring_contents w k' (snd (spsc_pop r)))"
  proof (cases "w = k")
    case True
    then show ?thesis using assms ring_counts_empty [OF assms]
      by (intro exI [of _ k]) (simp add: spsc_pop_def ring_contents_def)
  next
    case False
    then have "k < w" using b(1) by simp
    then show ?thesis using assms ring_counts_empty [OF assms]
      by (intro exI [of _ "k + 1"])
        (auto simp: spsc_pop_def ring_contents_def ring_counts_def upt_conv_Cons mod_Suc_eq)
  qed
qed


subsection \<open>The two threads, access by access\<close>

text \<open>
  A producer that found a free slot stores the item and then the index; a consumer that found an item reads it
  and then stores its index. The other thread runs in between.
\<close>

datatype 'a spsc_producer = ProdIdle | ProdItem 'a nat | ProdIndex 'a nat

datatype 'a spsc_consumer = ConsIdle | ConsTake | ConsIndex 'a

record 'a spsc_machine =
  sp_ring :: "'a spsc_ring"
  sp_producer :: "'a spsc_producer"
  sp_consumer :: "'a spsc_consumer"
  sp_pushed :: "'a list"
  sp_popped :: "'a list"

definition spsc_start :: "nat \<Rightarrow> 'a \<Rightarrow> 'a spsc_machine" where
  "spsc_start capacity x = \<lparr>sp_ring = spsc_init capacity x, sp_producer = ProdIdle, sp_consumer = ConsIdle,
     sp_pushed = [], sp_popped = []\<rparr>"

definition producer_access :: "'a \<Rightarrow> 'a spsc_machine \<Rightarrow> 'a spsc_machine" where
  "producer_access x m =
     (let r = sp_ring m in
      case sp_producer m of
        ProdIdle \<Rightarrow>
          let next = (rg_write r + 1) mod length (rg_items r)
          in if next = rg_read r then m else m\<lparr>sp_producer := ProdItem x next\<rparr>
      | ProdItem y next \<Rightarrow>
          m\<lparr>sp_ring := r\<lparr>rg_items := (rg_items r)[rg_write r := y]\<rparr>, sp_producer := ProdIndex y next\<rparr>
      | ProdIndex y next \<Rightarrow>
          m\<lparr>sp_ring := r\<lparr>rg_write := next\<rparr>, sp_producer := ProdIdle, sp_pushed := sp_pushed m @ [y]\<rparr>)"

definition consumer_access :: "'a spsc_machine \<Rightarrow> 'a spsc_machine" where
  "consumer_access m =
     (let r = sp_ring m in
      case sp_consumer m of
        ConsIdle \<Rightarrow> if rg_read r = rg_write r then m else m\<lparr>sp_consumer := ConsTake\<rparr>
      | ConsTake \<Rightarrow> m\<lparr>sp_consumer := ConsIndex (rg_items r ! rg_read r)\<rparr>
      | ConsIndex y \<Rightarrow>
          m\<lparr>sp_ring := r\<lparr>rg_read := (rg_read r + 1) mod length (rg_items r)\<rparr>, sp_consumer := ConsIdle,
            sp_popped := sp_popped m @ [y]\<rparr>)"

datatype 'a spsc_turn = ByProducer 'a | ByConsumer

primrec spsc_access :: "'a spsc_machine \<Rightarrow> 'a spsc_turn \<Rightarrow> 'a spsc_machine" where
  "spsc_access m (ByProducer x) = producer_access x m"
| "spsc_access m ByConsumer = consumer_access m"

fun producer_inv :: "'a spsc_ring \<Rightarrow> nat \<Rightarrow> nat \<Rightarrow> 'a spsc_producer \<Rightarrow> bool" where
  "producer_inv r w k ProdIdle = True"
| "producer_inv r w k (ProdItem y n) =
     (n = (rg_write r + 1) mod length (rg_items r) \<and> w + 1 - k < length (rg_items r))"
| "producer_inv r w k (ProdIndex y n) =
     (n = (rg_write r + 1) mod length (rg_items r) \<and> w + 1 - k < length (rg_items r)
      \<and> rg_items r ! rg_write r = y)"

fun consumer_inv :: "'a list \<Rightarrow> nat \<Rightarrow> 'a spsc_consumer \<Rightarrow> bool" where
  "consumer_inv ps k ConsIdle = True"
| "consumer_inv ps k ConsTake = (k < length ps)"
| "consumer_inv ps k (ConsIndex y) = (k < length ps \<and> y = ps ! k)"

definition spsc_inv :: "nat \<Rightarrow> 'a spsc_machine \<Rightarrow> bool" where
  "spsc_inv c m \<longleftrightarrow>
     (let r = sp_ring m; w = length (sp_pushed m); k = length (sp_popped m) in
      length (rg_items r) = c \<and> ring_counts w k r \<and> ring_contents w k r = drop k (sp_pushed m)
      \<and> sp_popped m = take k (sp_pushed m) \<and> producer_inv r w k (sp_producer m)
      \<and> consumer_inv (sp_pushed m) k (sp_consumer m))"

lemma consumer_inv_append: "consumer_inv ps k p \<Longrightarrow> consumer_inv (ps @ qs) k p"
  by (cases p) (auto simp: nth_append)

lemma producer_inv_pop: "producer_inv r w k p \<Longrightarrow> k < w \<Longrightarrow> producer_inv (r\<lparr>rg_read := n\<rparr>) w (k + 1) p"
  by (cases p) auto

lemma store_keeps_contents:
  assumes "ring_counts w k r"
  shows "ring_contents w k (r\<lparr>rg_items := (rg_items r)[rg_write r := x]\<rparr>) = ring_contents w k r"
proof -
  have "(rg_items r)[rg_write r := x] ! (i mod length (rg_items r)) = rg_items r ! (i mod length (rg_items r))"
    if "k \<le> i" "i < w" for i
    using assms mod_in_window [of i w k "length (rg_items r)"] that
    by (simp add: ring_counts_def nth_list_update_neq)
  then show ?thesis by (simp add: ring_contents_def)
qed

lemma index_adds_item:
  assumes "ring_counts w k r"
  shows "ring_contents (w + 1) k (r\<lparr>rg_write := n\<rparr>) = ring_contents w k r @ [rg_items r ! rg_write r]"
  using assms by (simp add: ring_contents_def ring_counts_def)

lemma oldest_item: "ring_counts w k r \<Longrightarrow> k < w \<Longrightarrow> rg_items r ! rg_read r = ring_contents w k r ! 0"
  by (simp add: ring_contents_def ring_counts_def)

lemma index_drops_item:
  "ring_counts w k r \<Longrightarrow> ring_contents w (k + 1) (r\<lparr>rg_read := n\<rparr>) = drop 1 (ring_contents w k r)"
  by (cases "k < w") (simp_all add: ring_contents_def upt_conv_Cons ring_counts_def)

lemma producer_keeps:
  assumes i: "spsc_inv c m"
  shows "spsc_inv c (producer_access x m)"
proof -
  let ?r = "sp_ring m" let ?w = "length (sp_pushed m)" let ?k = "length (sp_popped m)"
  have c: "length (rg_items ?r) = c" "ring_counts ?w ?k ?r" "?k \<le> ?w" "?w - ?k < c"
    using i by (auto simp: spsc_inv_def Let_def ring_counts_def)
  show ?thesis
  proof (cases "sp_producer m")
    case ProdIdle
    moreover have "?w + 1 - ?k < length (rg_items ?r)"
      if "(rg_write ?r + 1) mod length (rg_items ?r) \<noteq> rg_read ?r"
      using that ring_counts_full [OF c(2)] c by simp
    ultimately show ?thesis using i by (simp add: producer_access_def Let_def spsc_inv_def)
  next
    case (ProdItem y n)
    moreover have "rg_write ?r < c" using c by (auto simp: ring_counts_def)
    ultimately show ?thesis
      using i store_keeps_contents [OF c(2)] c
      by (simp add: producer_access_def Let_def spsc_inv_def ring_counts_def)
  next
    case (ProdIndex y n)
    then show ?thesis
      using i index_adds_item [OF c(2), of n] c
      by (auto simp: producer_access_def Let_def spsc_inv_def ring_counts_def mod_Suc_eq consumer_inv_append
          Suc_diff_le)
  qed
qed

lemma consumer_keeps:
  assumes i: "spsc_inv c m"
  shows "spsc_inv c (consumer_access m)"
proof -
  let ?r = "sp_ring m" let ?w = "length (sp_pushed m)" let ?k = "length (sp_popped m)"
  have c: "length (rg_items ?r) = c" "ring_counts ?w ?k ?r" "?k \<le> ?w" "?w - ?k < c"
    "ring_contents ?w ?k ?r = drop ?k (sp_pushed m)"
    using i by (auto simp: spsc_inv_def Let_def ring_counts_def)
  show ?thesis
  proof (cases "sp_consumer m")
    case ConsIdle
    moreover have "?k < ?w" if "rg_read ?r \<noteq> rg_write ?r" using that ring_counts_empty [OF c(2)] c(3) by simp
    ultimately show ?thesis using i by (simp add: consumer_access_def Let_def spsc_inv_def)
  next
    case ConsTake
    then have "?k < ?w" using i by (simp add: spsc_inv_def Let_def)
    then have "rg_items ?r ! rg_read ?r = sp_pushed m ! ?k" using oldest_item [OF c(2)] c(5) by simp
    with ConsTake i show ?thesis by (simp add: consumer_access_def Let_def spsc_inv_def)
  next
    case (ConsIndex y)
    then have k: "?k < ?w" "y = sp_pushed m ! ?k" "sp_popped m = take ?k (sp_pushed m)"
      using i by (simp_all add: spsc_inv_def Let_def)
    then have "sp_popped m @ [y] = take (Suc ?k) (sp_pushed m)" by (metis take_Suc_conv_app_nth)
    then show ?thesis
      using ConsIndex i k index_drops_item [OF c(2)] c producer_inv_pop [OF _ k(1), of ?r "sp_producer m"]
      by (auto simp: consumer_access_def Let_def spsc_inv_def ring_counts_def mod_Suc_eq)
  qed
qed

text \<open>
  Whatever the interleaving of the accesses, the items popped are the first of the items pushed, in their
  order and unchanged, and fewer than the capacity are in the ring.
\<close>

lemma spsc_ring_is_fifo:
  assumes "0 < c"
  shows "sp_popped (run spsc_access (spsc_start c x) es) =
      take (length (sp_popped (run spsc_access (spsc_start c x) es))) (sp_pushed (run spsc_access (spsc_start c x) es))
    \<and> length (sp_pushed (run spsc_access (spsc_start c x) es)) <
      length (sp_popped (run spsc_access (spsc_start c x) es)) + c"
proof -
  have "spsc_inv c m \<Longrightarrow> spsc_inv c (run spsc_access m es)" for m
  proof (induction es arbitrary: m)
    case (Cons e es)
    then show ?case by (cases e) (simp_all add: producer_keeps consumer_keeps)
  qed simp
  moreover have "spsc_inv c (spsc_start c x)"
    using assms by (simp add: spsc_inv_def spsc_start_def spsc_init_def ring_counts_def ring_contents_def)
  ultimately have "spsc_inv c (run spsc_access (spsc_start c x) es)" by blast
  then show ?thesis by (auto simp: spsc_inv_def Let_def ring_counts_def)
qed

end
