(* ===== verification/Audio_Engine.thy ===== *)
theory Audio_Engine
  imports Binary_Float Overwrite_Ring Spsc_Ring "HOL-Library.Signed_Division"
begin

text \<open>
  The audio engine (\<open>AudioEngine\<close>, audio_engine.hpp, audio_engine.cpp, audio_engine_callback.cpp): the
  device callback renders queued playback and records capture and reference frames; other threads queue PCM,
  pop frames and request fences. The rings are the bounded queues the ring theories show them to be. A
  callback is five steps, between which the other threads run: it enters, renders, writes the device
  output, accounts for it and publishes its frames. A call of another thread is one step.
\<close>

subsection \<open>Packets, counters and state\<close>

record playback_packet =
  pk_generation :: u64
  pk_scope :: u64
  pk_count :: nat
  pk_samples :: "u16 list"

record playback_write =
  pw_scope :: u64
  pw_generation :: u64
  pw_count :: nat

datatype engine_phase = PhaseCapture | PhasePlaybackOnly

datatype discontinuity_reason = DrExternal | DrStreamLifecycle | DrActiveOutputXrun | DrFrameSize
  | DrReferenceOverflow | DrCallbackException

datatype fence_reason = FrExternal | FrSpeechScope | FrPlaybackRingOverflow | FrPlaybackWriteOverflow

datatype metric = CaptureOverflows | CaptureProduced | CaptureDelivered | CaptureReportedDrops | PlaybackOverflows
  | ReferenceOverflows | PlaybackUnderflows | Xruns | Discontinuities | LastFenceBefore | LastFenceAfter
  | StalePcmAfterFence | InputOverflowFences | ExternalDiscontinuityFences | StreamLifecycleFences
  | ActiveOutputXrunFences | FrameSizeFences | ReferenceOverflowFences | CallbackExceptionFences
  | ExternalPlaybackFences | SpeechPlaybackFences | PlaybackRingOverflowFences | PlaybackWriteOverflowFences

record callback_input =
  ci_capture :: "u16 list option"
  ci_output :: bool
  ci_frames :: nat
  ci_input_overflow :: bool
  ci_output_underflow :: bool
  ci_input_underflow :: bool

text \<open>Where the callback is: what it has loaded, rendered and committed.\<close>

datatype callback_pc = CbIdle
  | CbEntered u64 u64 engine_phase callback_input
  | CbRendered u64 u64 engine_phase callback_input "u16 list" "playback_packet option"
  | CbWritten u64 u64 engine_phase callback_input "u16 list" "playback_packet option"
  | CbAccounted u64 engine_phase callback_input "u16 list"

text \<open>What others see of the engine, in order; the packet of an output is the one it was rendered from.\<close>

datatype engine_event = FenceRequested | PcmQueued playback_packet
  | DeviceOutput "u16 list" "playback_packet option"

record audio_engine =
  ae_captures :: "audio_frame list"
  ae_consumer :: nat
  ae_playback :: "playback_packet list"
  ae_reference :: "audio_frame list"
  ae_writes :: "playback_write list"
  ae_generation :: u64
  ae_playback_generation :: u64
  ae_phase :: engine_phase
  ae_disc_requests :: u64
  ae_disc_observed :: u64
  ae_fence_requests :: u64
  ae_fence_observed :: u64
  ae_active :: bool
  ae_gain :: u32
  ae_fade_count :: u32
  ae_fade_request :: u64
  ae_fade_observed :: u64
  ae_fade_remaining :: u32
  ae_fade_total :: u32
  ae_metrics :: "metric \<Rightarrow> u64"
  ae_callback :: callback_pc
  ae_log :: "engine_event list"

definition playback_capacity :: nat where "playback_capacity = 2048"

definition engine_init :: audio_engine where
  "engine_init = \<lparr>ae_captures = [], ae_consumer = 0, ae_playback = [], ae_reference = [], ae_writes = [],
     ae_generation = 1, ae_playback_generation = 1, ae_phase = PhaseCapture, ae_disc_requests = 0,
     ae_disc_observed = 0, ae_fence_requests = 0, ae_fence_observed = 0, ae_active = False, ae_gain = 32768,
     ae_fade_count = 0, ae_fade_request = 0, ae_fade_observed = 0, ae_fade_remaining = 0, ae_fade_total = 0,
     ae_metrics = (\<lambda>_. 0), ae_callback = CbIdle, ae_log = []\<rparr>"

definition bump :: "metric \<Rightarrow> u64 \<Rightarrow> audio_engine \<Rightarrow> audio_engine" where
  "bump m n e = e\<lparr>ae_metrics := (ae_metrics e)(m := ae_metrics e m + n)\<rparr>"

definition set_metric :: "metric \<Rightarrow> u64 \<Rightarrow> audio_engine \<Rightarrow> audio_engine" where
  "set_metric m n e = e\<lparr>ae_metrics := (ae_metrics e)(m := n)\<rparr>"

definition ae_say :: "engine_event \<Rightarrow> audio_engine \<Rightarrow> audio_engine" where
  "ae_say x e = e\<lparr>ae_log := ae_log e @ [x]\<rparr>"

subsection \<open>Requests and fences\<close>

primrec fence_metric :: "fence_reason \<Rightarrow> metric" where
  "fence_metric FrExternal = ExternalPlaybackFences"
| "fence_metric FrSpeechScope = SpeechPlaybackFences"
| "fence_metric FrPlaybackRingOverflow = PlaybackRingOverflowFences"
| "fence_metric FrPlaybackWriteOverflow = PlaybackWriteOverflowFences"

primrec discontinuity_metric :: "discontinuity_reason \<Rightarrow> metric" where
  "discontinuity_metric DrExternal = ExternalDiscontinuityFences"
| "discontinuity_metric DrStreamLifecycle = StreamLifecycleFences"
| "discontinuity_metric DrActiveOutputXrun = ActiveOutputXrunFences"
| "discontinuity_metric DrFrameSize = FrameSizeFences"
| "discontinuity_metric DrReferenceOverflow = ReferenceOverflowFences"
| "discontinuity_metric DrCallbackException = CallbackExceptionFences"

definition request_playback_fence :: "fence_reason \<Rightarrow> audio_engine \<Rightarrow> audio_engine" where
  "request_playback_fence r e =
     ae_say FenceRequested ((bump (fence_metric r) 1 e)\<lparr>ae_fence_requests := ae_fence_requests e + 1\<rparr>)"

definition mark_discontinuity :: "discontinuity_reason \<Rightarrow> audio_engine \<Rightarrow> audio_engine" where
  "mark_discontinuity r e =
     ae_say FenceRequested ((bump (discontinuity_metric r) 1 e)\<lparr>ae_disc_requests := ae_disc_requests e + 1\<rparr>)"

definition commit_capture_discontinuity :: "bool \<Rightarrow> audio_engine \<Rightarrow> audio_engine" where
  "commit_capture_discontinuity input_overflow e =
     (let e = bump (if input_overflow then InputOverflowFences else ReferenceOverflowFences) 1 e
      in bump Discontinuities 1 (e\<lparr>ae_generation := ae_generation e + 1\<rparr>))"

definition commit_pending_discontinuities :: "audio_engine \<Rightarrow> audio_engine" where
  "commit_pending_discontinuities e =
     (let requested = ae_disc_requests e; count = requested - ae_disc_observed e;
          before = ae_generation e; after = before + count in
      if requested = ae_disc_observed e then e
      else
        let e = e\<lparr>ae_generation := after, ae_playback_generation := ae_playback_generation e + count,
                  ae_active := False\<rparr>;
            e = set_metric StalePcmAfterFence 0 (set_metric LastFenceAfter after (set_metric LastFenceBefore before e));
            e = bump Discontinuities count e
        in e\<lparr>ae_disc_observed := requested\<rparr>)"

definition commit_pending_playback_fences :: "audio_engine \<Rightarrow> audio_engine" where
  "commit_pending_playback_fences e =
     (let requested = ae_fence_requests e in
      if requested = ae_fence_observed e then e
      else e\<lparr>ae_playback_generation := ae_playback_generation e + (requested - ae_fence_observed e),
             ae_active := False, ae_fence_observed := requested\<rparr>)"

definition has_pending_discontinuities :: "audio_engine \<Rightarrow> bool" where
  "has_pending_discontinuities e \<longleftrightarrow> ae_disc_requests e \<noteq> ae_disc_observed e"

definition has_pending_playback_fences :: "audio_engine \<Rightarrow> bool" where
  "has_pending_playback_fences e \<longleftrightarrow> ae_fence_requests e \<noteq> ae_fence_observed e"

subsection \<open>The calls of other threads\<close>

definition enqueue_playback :: "u16 list option \<Rightarrow> u64 \<Rightarrow> audio_engine \<Rightarrow> bool \<times> audio_engine" where
  "enqueue_playback samples scope e =
     (case samples of
        None \<Rightarrow> (False, e)
      | Some xs \<Rightarrow>
          if xs = [] \<or> frame_samples < length xs then (False, e)
          else
            let p = \<lparr>pk_generation = ae_playback_generation e, pk_scope = scope, pk_count = length xs,
                     pk_samples = xs @ replicate (frame_samples - length xs) 0\<rparr>;
                (pushed, q) = fifo_push playback_capacity p (ae_playback e)
            in if pushed then (True, ae_say (PcmQueued p) (e\<lparr>ae_playback := q\<rparr>))
               else (False, request_playback_fence FrPlaybackRingOverflow (bump PlaybackOverflows 1 e)))"

text \<open>
  A pop of the capture ring: the frame and the reported drops; \<open>torn\<close> says that the callback overwrites the
  slot while it is copied.
\<close>

definition capture_pop :: "bool \<Rightarrow> audio_engine \<Rightarrow> audio_frame option \<times> u64 \<times> audio_engine" where
  "capture_pop torn e =
     (let published = length (ae_captures e);
          next = ae_consumer e + 1;
          oldest = (if ring_capacity < published then published - ring_capacity + 1 else 1);
          drops = (if next < oldest then oldest - next else 0);
          next' = (if next < oldest then oldest else next)
      in if published < next then (None, 0, e)
         else if torn then (None, of_nat drops + 1, e\<lparr>ae_consumer := next'\<rparr>)
         else (Some (ae_captures e ! (next' - 1)), of_nat drops, e\<lparr>ae_consumer := next'\<rparr>))"

definition try_pop_capture :: "bool \<Rightarrow> audio_engine \<Rightarrow> audio_frame option \<times> audio_engine" where
  "try_pop_capture torn e =
     (let (frame, drops, e) = capture_pop torn e;
          e = (if 0 < drops then bump CaptureReportedDrops drops (bump CaptureOverflows drops e) else e)
      in case frame of
           None \<Rightarrow> (None, e)
         | Some f \<Rightarrow>
             if af_generation f \<noteq> ae_generation e
             then (None, bump CaptureReportedDrops 1 (bump CaptureOverflows 1
               (e\<lparr>ae_reference := snd (fifo_pop (ae_reference e))\<rparr>)))
             else (Some f, bump CaptureDelivered 1 e))"

text \<open>At most \<open>ring_capacity\<close> attempts.\<close>

primrec pop_current :: "nat \<Rightarrow> ('f \<Rightarrow> bool) \<Rightarrow> 'f list \<Rightarrow> 'f option \<times> 'f list \<times> nat" where
  "pop_current 0 ok q = (None, q, 0)"
| "pop_current (Suc n) ok q =
     (case fifo_pop q of
        (None, q) \<Rightarrow> (None, q, 0)
      | (Some f, q) \<Rightarrow>
          if ok f then (Some f, q, 0)
          else (case pop_current n ok q of (r, q, stale) \<Rightarrow> (r, q, Suc stale)))"

definition try_pop_reference :: "audio_engine \<Rightarrow> audio_frame option \<times> audio_engine" where
  "try_pop_reference e =
     (let (f, q, _) = pop_current ring_capacity (\<lambda>f. af_generation f = ae_generation e) (ae_reference e)
      in (f, e\<lparr>ae_reference := q\<rparr>))"

definition try_pop_playback_write :: "audio_engine \<Rightarrow> playback_write option \<times> audio_engine" where
  "try_pop_playback_write e = (let (w, q) = fifo_pop (ae_writes e) in (w, e\<lparr>ae_writes := q\<rparr>))"

definition set_playback_gain :: "dbl \<Rightarrow> audio_engine \<Rightarrow> audio_engine" where
  "set_playback_gain g e =
     (let g = (if \<not> isfinite g \<or> dlt g (Fin 0) then Fin 0 else g);
          clamped = (if dlt (Fin 4) g then Fin 4 else g);
          scaled = round32 (dval (round32 (dval clamped * 32768)) + 1 / 2)
      in e\<lparr>ae_gain := word_of_int \<lfloor>dval scaled\<rfloor>\<rparr>)"

definition request_fade_to_silence :: "u64 \<Rightarrow> audio_engine \<Rightarrow> audio_engine" where
  "request_fade_to_silence n e =
     e\<lparr>ae_fade_count := ucast (min n 4294967295), ae_fade_request := ae_fade_request e + 1\<rparr>"

definition mark_playback_inactive :: "audio_engine \<Rightarrow> audio_engine" where
  "mark_playback_inactive e = e\<lparr>ae_active := False\<rparr>"

definition set_phase :: "engine_phase \<Rightarrow> audio_engine \<Rightarrow> audio_engine" where
  "set_phase p e = e\<lparr>ae_phase := p\<rparr>"

subsection \<open>Rendering\<close>

definition saturate :: "int \<Rightarrow> u16" where
  "saturate v = (if 32767 < v then 32767 else if v < - 32768 then word_of_int (- 32768) else word_of_int v)"

text \<open>
  The loop over the samples of a frame: the gain, then the fade with the samples that remain of it.
\<close>

primrec render_loop :: "u32 \<Rightarrow> u32 \<Rightarrow> u32 \<Rightarrow> int list \<Rightarrow> u16 list \<times> u32" where
  "render_loop gain whole remaining [] = ([], remaining)"
| "render_loop gain whole remaining (x # xs) =
     (let v = (x * uint gain) sdiv 32768;
          (v, remaining) =
            (if 0 < remaining \<and> 0 < whole then ((v * uint remaining) sdiv uint whole, remaining - 1)
             else if 0 < whole then (0, remaining) else (v, remaining));
          (ys, remaining) = render_loop gain whole remaining xs
      in (saturate v # ys, remaining))"

definition packet_inputs :: "playback_packet option \<Rightarrow> int list" where
  "packet_inputs p = map (\<lambda>i. case p of None \<Rightarrow> 0
     | Some k \<Rightarrow> if i < pk_count k then sint (pk_samples k ! i) else 0) [0..<frame_samples]"

definition take_up_fade :: "audio_engine \<Rightarrow> audio_engine" where
  "take_up_fade e =
     (if ae_fade_request e \<noteq> ae_fade_observed e
      then e\<lparr>ae_fade_observed := ae_fade_request e, ae_fade_total := ae_fade_count e,
             ae_fade_remaining := ae_fade_count e\<rparr>
      else e)"

definition pop_playback :: "u64 \<Rightarrow> audio_engine \<Rightarrow> playback_packet option \<times> audio_engine" where
  "pop_playback generation e =
     (let (p, q, stale) = pop_current playback_capacity (\<lambda>p. pk_generation p = generation) (ae_playback e)
      in (p, bump StalePcmAfterFence (of_nat stale) (e\<lparr>ae_playback := q\<rparr>)))"

definition render_playback :: "u64 \<Rightarrow> audio_engine \<Rightarrow> u16 list \<times> playback_packet option \<times> audio_engine" where
  "render_playback generation e =
     (let (p, e) = pop_playback generation (take_up_fade e);
          e = (if p = None then bump PlaybackUnderflows 1 e else e);
          (out, remaining) = render_loop (ae_gain e) (ae_fade_total e) (ae_fade_remaining e) (packet_inputs p)
      in (out, p, e\<lparr>ae_fade_remaining := remaining,
                     ae_fade_total := (if remaining = 0 then 0 else ae_fade_total e)\<rparr>))"

subsection \<open>The callback\<close>

definition silence :: "nat \<Rightarrow> u16 list" where
  "silence n = replicate n 0"

text \<open>An early exit zeroes the device output and ends the callback.\<close>

definition exit_silent :: "callback_input \<Rightarrow> audio_engine \<Rightarrow> audio_engine" where
  "exit_silent i e =
     (let e = (if ci_output i then ae_say (DeviceOutput (silence (ci_frames i)) None) e else e)
      in e\<lparr>ae_callback := CbIdle\<rparr>)"

definition callback_enter :: "callback_input \<Rightarrow> audio_engine \<Rightarrow> audio_engine" where
  "callback_enter i e0 =
     (let e = commit_pending_playback_fences (commit_pending_discontinuities e0);
          input_xrun = ci_input_underflow i \<or> ci_input_overflow i;
          e = (if input_xrun then bump Xruns 1 e else e);
          active_output_xrun = ci_output_underflow i \<and> ae_active e;
          invalid_frame_size = ci_frames i \<noteq> frame_samples;
          phase = ae_phase e;
          reference_overflow = phase = PhaseCapture \<and> \<not> fifo_can_push ring_capacity (ae_reference e)
      in if active_output_xrun \<or> ci_input_overflow i then
           (let e = (if \<not> input_xrun then bump Xruns 1 e else e);
                e = (if active_output_xrun \<or> invalid_frame_size \<or> reference_overflow
                     then commit_pending_discontinuities (mark_discontinuity
                       (if active_output_xrun then DrActiveOutputXrun
                        else if invalid_frame_size then DrFrameSize else DrReferenceOverflow) e)
                     else commit_capture_discontinuity True e)
            in exit_silent i e)
         else if invalid_frame_size then
           exit_silent i (commit_pending_discontinuities (mark_discontinuity DrFrameSize e))
         else if ci_output_underflow i then
           exit_silent i (if \<not> input_xrun then bump Xruns 1 e else e)
         else e\<lparr>ae_callback := CbEntered (ae_generation e) (ae_playback_generation e) phase i\<rparr>)"

definition callback_render :: "u64 \<Rightarrow> u64 \<Rightarrow> engine_phase \<Rightarrow> callback_input \<Rightarrow> audio_engine \<Rightarrow> audio_engine" where
  "callback_render g pg phase i e =
     (let (out, p, e) = render_playback pg e in e\<lparr>ae_callback := CbRendered g pg phase i out p\<rparr>)"

text \<open>The publication point: a request that is pending here silences the frame.\<close>

definition callback_write ::
    "u64 \<Rightarrow> u64 \<Rightarrow> engine_phase \<Rightarrow> callback_input \<Rightarrow> u16 list \<Rightarrow> playback_packet option \<Rightarrow> audio_engine \<Rightarrow> audio_engine" where
  "callback_write g pg phase i out p e =
     (let committed = p \<noteq> None \<and> \<not> has_pending_discontinuities e \<and> \<not> has_pending_playback_fences e;
          out = (if committed then out else silence frame_samples);
          e = (if committed then e\<lparr>ae_active := True\<rparr> else e);
          e = (if ci_output i then ae_say (DeviceOutput out p) e else e)
      in e\<lparr>ae_callback := CbWritten g pg phase i out p\<rparr>)"

definition callback_account ::
    "u64 \<Rightarrow> u64 \<Rightarrow> engine_phase \<Rightarrow> callback_input \<Rightarrow> u16 list \<Rightarrow> playback_packet option \<Rightarrow> audio_engine \<Rightarrow> audio_engine" where
  "callback_account g pg phase i out p e =
     (let e = (case p of
          None \<Rightarrow> e
        | Some k \<Rightarrow>
            if ci_output i \<and> (\<exists>x\<in>set (take (pk_count k) out). x \<noteq> 0) \<and> pk_scope k \<noteq> 0
              \<and> \<not> has_pending_discontinuities e \<and> \<not> has_pending_playback_fences e
            then (let (pushed, q) = fifo_push ring_capacity
                    \<lparr>pw_scope = pk_scope k, pw_generation = pg, pw_count = pk_count k\<rparr> (ae_writes e)
                  in if pushed then e\<lparr>ae_writes := q\<rparr>
                     else request_playback_fence FrPlaybackWriteOverflow e)
            else e)
      in e\<lparr>ae_callback := CbAccounted g phase i out\<rparr>)"

definition callback_publish :: "u64 \<Rightarrow> engine_phase \<Rightarrow> callback_input \<Rightarrow> u16 list \<Rightarrow> audio_engine \<Rightarrow> audio_engine" where
  "callback_publish g phase i out e0 =
     (let e = e0\<lparr>ae_callback := CbIdle\<rparr> in
      if phase = PhasePlaybackOnly then e
      else if \<not> fifo_can_push ring_capacity (ae_reference e)
      then commit_capture_discontinuity False (bump ReferenceOverflows 1 e)
      else
        let e = e\<lparr>ae_reference := snd (fifo_push ring_capacity \<lparr>af_generation = g, af_samples = out\<rparr> (ae_reference e))\<rparr>;
            captured = (case ci_capture i of None \<Rightarrow> silence frame_samples | Some xs \<Rightarrow> take frame_samples xs)
        in bump CaptureProduced 1 (e\<lparr>ae_captures := ae_captures e @ [\<lparr>af_generation = g, af_samples = captured\<rparr>]\<rparr>))"

text \<open>The next step of the callback; a new callback starts with the given input.\<close>

definition callback_step :: "callback_input \<Rightarrow> audio_engine \<Rightarrow> audio_engine" where
  "callback_step i e =
     (case ae_callback e of
        CbIdle \<Rightarrow> callback_enter i e
      | CbEntered g pg ph j \<Rightarrow> callback_render g pg ph j e
      | CbRendered g pg ph j out p \<Rightarrow> callback_write g pg ph j out p e
      | CbWritten g pg ph j out p \<Rightarrow> callback_account g pg ph j out p e
      | CbAccounted g ph j out \<Rightarrow> callback_publish g ph j out e)"

subsection \<open>The engine as a machine\<close>

datatype engine_call = Callback callback_input | Enqueue "u16 list option" u64 | PopCapture bool | PopReference
  | PopWrite | SetGain dbl | FadeToSilence u64 | MarkInactive | RequestFence fence_reason
  | MarkDiscontinuity discontinuity_reason | SetPhase engine_phase

primrec engine_step :: "audio_engine \<Rightarrow> engine_call \<Rightarrow> audio_engine" where
  "engine_step e (Callback i) = callback_step i e"
| "engine_step e (Enqueue xs sc) = snd (enqueue_playback xs sc e)"
| "engine_step e (PopCapture torn) = snd (try_pop_capture torn e)"
| "engine_step e PopReference = snd (try_pop_reference e)"
| "engine_step e PopWrite = snd (try_pop_playback_write e)"
| "engine_step e (SetGain g) = set_playback_gain g e"
| "engine_step e (FadeToSilence n) = request_fade_to_silence n e"
| "engine_step e MarkInactive = mark_playback_inactive e"
| "engine_step e (RequestFence r) = request_playback_fence r e"
| "engine_step e (MarkDiscontinuity r) = mark_discontinuity r e"
| "engine_step e (SetPhase p) = set_phase p e"

definition engine_run :: "engine_call list \<Rightarrow> audio_engine" where
  "engine_run es = run engine_step engine_init es"

text \<open>The exits of the first step, as a rule: \<open>Q\<close> holds after the commits and of every counted xrun.\<close>

lemma callback_enter_rule:
  assumes "Q (commit_pending_playback_fences (commit_pending_discontinuities e))"
    and "\<And>g m n. Q g \<Longrightarrow> Q (bump m n g)"
    and "\<And>g r. Q g \<Longrightarrow> P (exit_silent i (commit_pending_discontinuities (mark_discontinuity r g)))"
    and "\<And>g. Q g \<Longrightarrow> P (exit_silent i (commit_capture_discontinuity True g))"
    and "\<And>g. Q g \<Longrightarrow> P (exit_silent i g)"
    and "\<And>g. Q g \<Longrightarrow> P (g\<lparr>ae_callback := CbEntered (ae_generation g) (ae_playback_generation g) (ae_phase g) i\<rparr>)"
  shows "P (callback_enter i e)"
  using assms unfolding callback_enter_def Let_def by simp

end
