(* ===== verification/Audio_Fences.thy ===== *)
theory Audio_Fences
  imports Audio_Engine
begin

text \<open>
  What a playback fence guarantees: no PCM that was queued before a fence or a discontinuity was requested is
  heard after it, whatever the callback was doing when the request came.
\<close>

subsection \<open>Requests in the log\<close>

fun requests :: "engine_event list \<Rightarrow> nat" where
  "requests [] = 0"
| "requests (FenceRequested # xs) = Suc (requests xs)"
| "requests (x # xs) = requests xs"

lemma requests_append [simp]: "requests (xs @ ys) = requests xs + requests ys"
  by (induction xs rule: requests.induct) simp_all

lemma requests_none: "requests xs = 0 \<longleftrightarrow> FenceRequested \<notin> set xs"
  by (induction xs rule: requests.induct) simp_all

text \<open>The packet was queued when at least as many requests had been made as its generation counts.\<close>

definition queued_in :: "engine_event list \<Rightarrow> playback_packet \<Rightarrow> bool" where
  "queued_in l k \<longleftrightarrow> (\<exists>as bs m. l = as @ PcmQueued k # bs \<and> m \<le> requests as \<and> pk_generation k = of_nat (1 + m))"

lemma queued_in_append: "queued_in l k \<Longrightarrow> queued_in (l @ m) k"
  unfolding queued_in_def by (metis append_Cons append_assoc)

text \<open>An output that can be heard comes from a packet queued after every request before the output.\<close>

definition audible :: "u16 list \<Rightarrow> bool" where
  "audible out \<longleftrightarrow> (\<exists>x\<in>set out. x \<noteq> 0)"

definition output_fresh :: "engine_event list \<Rightarrow> u16 list \<Rightarrow> playback_packet option \<Rightarrow> bool" where
  "output_fresh xs out p \<longleftrightarrow> (audible out \<longrightarrow> (\<exists>k as bs. p = Some k \<and> xs = as @ PcmQueued k # bs
     \<and> FenceRequested \<notin> set bs))"

definition log_fresh :: "engine_event list \<Rightarrow> bool" where
  "log_fresh l \<longleftrightarrow> (\<forall>xs out p ys. l = xs @ DeviceOutput out p # ys \<longrightarrow> output_fresh xs out p)"

lemma log_fresh_snoc:
  "log_fresh (l @ [x]) \<longleftrightarrow> log_fresh l \<and> (case x of DeviceOutput out p \<Rightarrow> output_fresh l out p | _ \<Rightarrow> True)"
proof
  assume a: "log_fresh (l @ [x])"
  have "log_fresh l"
    using a unfolding log_fresh_def by (metis append_Cons append_assoc)
  moreover have "output_fresh l out p" if "x = DeviceOutput out p" for out p
    using a that unfolding log_fresh_def by blast
  ultimately show "log_fresh l \<and> (case x of DeviceOutput out p \<Rightarrow> output_fresh l out p | _ \<Rightarrow> True)"
    by (simp split: engine_event.split)
next
  assume b: "log_fresh l \<and> (case x of DeviceOutput out p \<Rightarrow> output_fresh l out p | _ \<Rightarrow> True)"
  show "log_fresh (l @ [x])"
    unfolding log_fresh_def
  proof (intro allI impI)
    fix xs out p ys
    assume e: "l @ [x] = xs @ DeviceOutput out p # ys"
    show "output_fresh xs out p"
    proof (cases ys rule: rev_cases)
      case Nil
      then show ?thesis using e b by simp
    next
      case (snoc zs z)
      then have "l = xs @ DeviceOutput out p # zs" using e by simp
      then show ?thesis using b unfolding log_fresh_def by blast
    qed
  qed
qed

lemma not_audible_silence [simp]: "\<not> audible (silence n)"
  by (simp add: audible_def silence_def)

subsection \<open>The invariant\<close>

text \<open>
  \<open>dr\<close>, \<open>fr\<close>: the discontinuities and fences requested, \<open>do\<close>, \<open>fo\<close>: those observed. The generation
  of playback counts the observed ones; between its steps a callback holds the current one.
\<close>

fun callback_packets :: "callback_pc \<Rightarrow> playback_packet set" where
  "callback_packets (CbRendered g pg ph i out (Some k)) = {k}"
| "callback_packets _ = {}"

fun callback_current :: "u64 \<Rightarrow> callback_pc \<Rightarrow> bool" where
  "callback_current pg (CbEntered g pg' ph i) = (pg' = pg)"
| "callback_current pg (CbRendered g pg' ph i out p) =
     (pg' = pg \<and> (case p of None \<Rightarrow> \<not> audible out | Some k \<Rightarrow> pk_generation k = pg))"
| "callback_current pg _ = True"

definition fences_inv :: "nat \<Rightarrow> nat \<Rightarrow> nat \<Rightarrow> nat \<Rightarrow> audio_engine \<Rightarrow> bool" where
  "fences_inv dr fr dn fn e \<longleftrightarrow> ae_disc_requests e = of_nat dr \<and> ae_fence_requests e = of_nat fr
     \<and> ae_disc_observed e = of_nat dn \<and> ae_fence_observed e = of_nat fn \<and> dn \<le> dr \<and> fn \<le> fr
     \<and> requests (ae_log e) = dr + fr \<and> ae_playback_generation e = of_nat (1 + dn + fn)
     \<and> (\<forall>k\<in>set (ae_playback e) \<union> callback_packets (ae_callback e). queued_in (ae_log e) k)
     \<and> callback_current (ae_playback_generation e) (ae_callback e) \<and> log_fresh (ae_log e)"

lemma fence_init: "fences_inv 0 0 0 0 engine_init"
  by (simp add: fences_inv_def engine_init_def log_fresh_def)

text \<open>Steps that do not touch what the invariant speaks of.\<close>

definition same_fences :: "audio_engine \<Rightarrow> audio_engine \<Rightarrow> bool" where
  "same_fences e f \<longleftrightarrow> ae_disc_requests f = ae_disc_requests e \<and> ae_fence_requests f = ae_fence_requests e
     \<and> ae_disc_observed f = ae_disc_observed e \<and> ae_fence_observed f = ae_fence_observed e
     \<and> ae_playback_generation f = ae_playback_generation e \<and> ae_log f = ae_log e
     \<and> set (ae_playback f) \<subseteq> set (ae_playback e)"

lemma fence_same:
  "fences_inv a b c d e \<Longrightarrow> same_fences e f \<Longrightarrow> ae_callback f = ae_callback e \<Longrightarrow> fences_inv a b c d f"
  unfolding fences_inv_def same_fences_def by auto

lemma same_fences_bump [simp]: "same_fences e (bump m n f) = same_fences e f"
  by (simp add: same_fences_def bump_def)

lemma fence_bump [simp]: "fences_inv a b c d (bump m n e) = fences_inv a b c d e"
  by (simp add: fences_inv_def bump_def)

lemma fence_set_metric [simp]: "fences_inv a b c d (set_metric m n e) = fences_inv a b c d e"
  by (simp add: fences_inv_def set_metric_def)

lemma fence_request:
  "fences_inv a b c d e \<Longrightarrow> fences_inv a (Suc b) c d (request_playback_fence r e)"
  by (auto simp: fences_inv_def request_playback_fence_def ae_say_def bump_def log_fresh_snoc queued_in_append add.commute)

lemma fence_mark:
  "fences_inv a b c d e \<Longrightarrow> fences_inv (Suc a) b c d (mark_discontinuity r e)"
  by (auto simp: fences_inv_def mark_discontinuity_def ae_say_def bump_def log_fresh_snoc queued_in_append add.commute)

text \<open>The commits are made by a callback that holds no generation yet.\<close>

lemma fence_commit_discontinuities:
  assumes "fences_inv a b c d e" and "ae_callback e = CbIdle"
  shows "fences_inv a b a d (commit_pending_discontinuities e)"
proof (cases "ae_disc_requests e = ae_disc_observed e")
  case True
  then show ?thesis
    using assms by (auto simp: commit_pending_discontinuities_def fences_inv_def)
next
  case False
  then show ?thesis
    using assms
    by (auto simp: commit_pending_discontinuities_def fences_inv_def Let_def bump_def set_metric_def)
qed

lemma fence_commit_fences:
  assumes "fences_inv a b c d e" and "ae_callback e = CbIdle"
  shows "fences_inv a b c b (commit_pending_playback_fences e)"
  using assms by (auto simp: commit_pending_playback_fences_def fences_inv_def Let_def)

lemma fence_capture_discontinuity [simp]:
  "fences_inv a b c d (commit_capture_discontinuity w e) = fences_inv a b c d e"
  by (simp add: fences_inv_def commit_capture_discontinuity_def bump_def Let_def)

lemma fence_fields [simp]:
  "ae_callback (bump m n e) = ae_callback e" "ae_callback (mark_discontinuity r e) = ae_callback e"
  "ae_callback (commit_pending_discontinuities e) = ae_callback e"
  "ae_callback (commit_pending_playback_fences e) = ae_callback e"
  "ae_callback (commit_capture_discontinuity w e) = ae_callback e"
  by (simp_all add: bump_def mark_discontinuity_def ae_say_def commit_pending_discontinuities_def Let_def
      set_metric_def commit_pending_playback_fences_def commit_capture_discontinuity_def)

lemma fence_say_silence:
  "fences_inv a b c d e \<Longrightarrow> fences_inv a b c d (ae_say (DeviceOutput (silence n) p) e)"
  by (auto simp: fences_inv_def ae_say_def log_fresh_snoc output_fresh_def queued_in_append)

lemma fence_exit:
  "fences_inv a b c d e \<Longrightarrow> fences_inv a b c d (exit_silent i e)"
proof -
  assume "fences_inv a b c d e"
  moreover have "fences_inv a b c d (f\<lparr>ae_callback := CbIdle\<rparr>)" if "fences_inv a b c d f" for f
    using that by (simp add: fences_inv_def)
  ultimately show ?thesis by (simp add: exit_silent_def Let_def fence_say_silence)
qed

lemma fence_enqueue:
  assumes "fences_inv a b c d e"
  shows "\<exists>b'\<le>Suc b. fences_inv a b' c d (snd (enqueue_playback xs sc e))"
proof -
  have full: "fences_inv a (Suc b) c d (request_playback_fence r (bump m n e))" for r m n
    using assms by (simp add: fence_request)
  have push: "fences_inv a b c d (ae_say (PcmQueued p) (e\<lparr>ae_playback := ae_playback e @ [p]\<rparr>))"
    if "pk_generation p = ae_playback_generation e" for p
  proof -
    have "queued_in (ae_log e @ [PcmQueued p]) p"
      unfolding queued_in_def
      by (rule exI [of _ "ae_log e"], rule exI [of _ "[]"], rule exI [of _ "c + d"])
        (use assms that in \<open>auto simp: fences_inv_def\<close>)
    then show ?thesis
      using assms by (auto simp: fences_inv_def ae_say_def log_fresh_snoc queued_in_append)
  qed
  show ?thesis
    using assms full push
    by (auto simp: enqueue_playback_def Let_def fifo_push_def split: option.split intro: exI [of _ b])
qed

lemma pop_current_subset: "pop_current n ok q = (r, q', m) \<Longrightarrow> set q' \<subseteq> set q \<and> (\<forall>f. r = Some f \<longrightarrow> f \<in> set q \<and> ok f)"
proof (induction n arbitrary: q r q' m)
  case (Suc n)
  show ?case
  proof (cases q)
    case (Cons x xs)
    obtain r1 q1 m1 where "pop_current n ok xs = (r1, q1, m1)" by (cases "pop_current n ok xs")
    then show ?thesis using Suc.prems Suc.IH [of xs r1 q1 m1] Cons by (auto split: if_splits)
  qed (use Suc.prems in simp)
qed simp

lemma fence_pops:
  "same_fences e (snd (try_pop_capture torn e))" "same_fences e (snd (try_pop_reference e))"
  "same_fences e (snd (try_pop_playback_write e))"
  by (simp_all add: same_fences_def try_pop_capture_def capture_pop_def try_pop_reference_def
      try_pop_playback_write_def bump_def Let_def split_beta split: option.split)

lemma pops_callback [simp]:
  "ae_callback (snd (try_pop_capture torn e)) = ae_callback e"
  "ae_callback (snd (try_pop_reference e)) = ae_callback e"
  "ae_callback (snd (try_pop_playback_write e)) = ae_callback e"
  by (simp_all add: try_pop_capture_def capture_pop_def try_pop_reference_def
      try_pop_playback_write_def bump_def Let_def split_beta split: option.split)

subsection \<open>The steps of the callback\<close>

lemma render_loop_zero: "set xs \<subseteq> {0} \<Longrightarrow> set (fst (render_loop gain whole remaining xs)) \<subseteq> {0}"
proof (induction xs arbitrary: remaining)
  case (Cons x xs)
  have "saturate 0 = 0" by (simp add: saturate_def)
  then show ?case using Cons by (simp add: Let_def split_beta)
qed simp

lemma render_silence: "\<not> audible (fst (render_loop gain whole remaining (packet_inputs None)))"
proof -
  have "set (packet_inputs None) \<subseteq> {0}" by (auto simp: packet_inputs_def)
  from render_loop_zero [OF this] show ?thesis by (auto simp: audible_def)
qed

lemma fence_enter:
  assumes "fences_inv a b c d e" and "ae_callback e = CbIdle"
  shows "\<exists>a' c' d'. a' \<le> Suc a \<and> fences_inv a' b c' d' (callback_enter i e)"
proof -
  have entered: "fences_inv a b a b (f\<lparr>ae_callback := CbEntered (ae_generation f) (ae_playback_generation f) ph i\<rparr>)"
    if "fences_inv a b a b f" for f ph
    using that by (auto simp: fences_inv_def)
  have m: "fences_inv (Suc a) b (Suc a) b (commit_pending_discontinuities (mark_discontinuity r f))"
    if "fences_inv a b a b f" "ae_callback f = CbIdle" for r f
    by (rule fence_commit_discontinuities [OF fence_mark]) (use that in simp_all)
  let ?P = "\<lambda>f. fences_inv a b a b f \<or> fences_inv (Suc a) b (Suc a) b f"
  have "?P (callback_enter i e)"
  proof (rule callback_enter_rule [where Q = "\<lambda>f. fences_inv a b a b f \<and> ae_callback f = CbIdle"])
    show "fences_inv a b a b (commit_pending_playback_fences (commit_pending_discontinuities e))
        \<and> ae_callback (commit_pending_playback_fences (commit_pending_discontinuities e)) = CbIdle"
      using assms fence_commit_fences [OF fence_commit_discontinuities [OF assms]] by simp
  qed (simp_all add: fence_exit m entered)
  then show ?thesis by (auto intro: le_SucI)
qed

lemma fence_render:
  assumes i: "fences_inv a b c d e" and s: "ae_callback e = CbEntered g pg ph i"
  shows "fences_inv a b c d (callback_render g pg ph i e)"
proof -
  obtain p q m where r: "pop_current playback_capacity (\<lambda>p. pk_generation p = pg) (ae_playback e) = (p, q, m)"
    by (cases "pop_current playback_capacity (\<lambda>p. pk_generation p = pg) (ae_playback e)")
  note c = pop_current_subset [OF r]
  define f where "f = callback_render g pg ph i e"
  have f: "ae_disc_requests f = ae_disc_requests e" "ae_fence_requests f = ae_fence_requests e"
    "ae_disc_observed f = ae_disc_observed e" "ae_fence_observed f = ae_fence_observed e"
    "ae_playback_generation f = ae_playback_generation e" "ae_log f = ae_log e" "ae_playback f = q"
    "\<exists>out. ae_callback f = CbRendered g pg ph i out p \<and> (p = None \<longrightarrow> \<not> audible out)"
    using r unfolding f_def
    by (simp_all add: callback_render_def render_playback_def pop_playback_def take_up_fade_def bump_def Let_def
        split_beta render_silence)
  have "fences_inv a b c d f"
    using i s c f unfolding fences_inv_def by (cases p) auto
  then show ?thesis by (simp add: f_def)
qed

lemma unat_u64_of_nat: "x < 2 ^ 64 \<Longrightarrow> unat (of_nat x :: u64) = x"
  by (simp add: unat_of_nat take_bit_nat_eq_self)

lemma u64_of_nat_eq: "x < 2 ^ 64 \<Longrightarrow> y < 2 ^ 64 \<Longrightarrow> (of_nat x :: u64) = of_nat y \<Longrightarrow> x = y"
  by (metis unat_u64_of_nat)

lemma committed_is_fresh:
  assumes i: "fences_inv a b c d e" and s: "ae_callback e = CbRendered g pg ph j out p"
    and n: "\<not> has_pending_discontinuities e" "\<not> has_pending_playback_fences e" and l: "a + b < 2 ^ 64 - 1"
  shows "output_fresh (ae_log e) out p"
  unfolding output_fresh_def
proof
  assume "audible out"
  then obtain k where k: "p = Some k" "pk_generation k = pg" "pg = of_nat (1 + c + d)" "queued_in (ae_log e) k"
    using i s by (cases p) (auto simp: fences_inv_def)
  from k(4) obtain as bs m where q: "ae_log e = as @ PcmQueued k # bs" "m \<le> requests as"
    "pk_generation k = of_nat (1 + m)"
    unfolding queued_in_def by blast
  have r: "requests as + requests bs = a + b" "c \<le> a" "d \<le> b" using i q(1) by (auto simp: fences_inv_def)
  have lt: "a < 2 ^ 64" "b < 2 ^ 64" "c < 2 ^ 64" "d < 2 ^ 64" "1 + a + b < 2 ^ 64" "1 + m < 2 ^ 64"
    using l r q(2) by simp_all
  have "(of_nat c :: u64) = of_nat a" "(of_nat d :: u64) = of_nat b"
    using i n by (simp_all add: fences_inv_def has_pending_discontinuities_def has_pending_playback_fences_def)
  then have "c = a" "d = b"
    using u64_of_nat_eq [OF lt(3) lt(1)] u64_of_nat_eq [OF lt(4) lt(2)] by blast+
  then have "(of_nat (1 + m) :: u64) = of_nat (1 + a + b)" using k(2,3) q(3) by (simp only:)
  then have "1 + m = 1 + a + b" by (rule u64_of_nat_eq [OF lt(6) lt(5)])
  then have "requests bs = 0" using q(2) r by linarith
  then show "\<exists>k as bs. p = Some k \<and> ae_log e = as @ PcmQueued k # bs \<and> FenceRequested \<notin> set bs"
    using k(1) q(1) requests_none by blast
qed

lemma fence_write:
  assumes i: "fences_inv a b c d e" and s: "ae_callback e = CbRendered g pg ph j out p" and l: "a + b < 2 ^ 64 - 1"
  shows "fences_inv a b c d (callback_write g pg ph j out p e)"
proof -
  have w: "fences_inv a b c d (f\<lparr>ae_callback := CbWritten g pg ph j o' p\<rparr>)" if "fences_inv a b c d f" for f o'
    using that by (simp add: fences_inv_def)
  have act: "fences_inv a b c d (e\<lparr>ae_active := True\<rparr>)" using i by (auto simp: fences_inv_def)
  have "fences_inv a b c d (ae_say (DeviceOutput out p) (e\<lparr>ae_active := True\<rparr>))"
    if "\<not> has_pending_discontinuities e" "\<not> has_pending_playback_fences e"
    using committed_is_fresh [OF i s that l] i
    by (auto simp: fences_inv_def ae_say_def log_fresh_snoc queued_in_append)
  then show ?thesis
    using i act fence_say_silence [OF i] by (simp add: callback_write_def Let_def w)
qed

lemma fence_account:
  assumes i: "fences_inv a b c d e" and s: "ae_callback e = CbWritten g pg ph j out p"
  shows "\<exists>b'\<le>Suc b. fences_inv a b' c d (callback_account g pg ph j out p e)"
proof -
  have w: "fences_inv a b' c d (f\<lparr>ae_callback := CbAccounted g ph j out\<rparr>)" if "fences_inv a b' c d f" for f b'
    using that by (simp add: fences_inv_def)
  have q: "fences_inv a b c d (e\<lparr>ae_writes := q\<rparr>)" for q using i by (auto simp: fences_inv_def)
  have one: "fences_inv a b c d f \<Longrightarrow> \<exists>b'\<le>Suc b. fences_inv a b' c d f"
    and two: "fences_inv a (Suc b) c d f \<Longrightarrow> \<exists>b'\<le>Suc b. fences_inv a b' c d f" for f
    by (auto intro: exI [of _ b])
  show ?thesis
    unfolding callback_account_def Let_def fifo_push_def
    using one [OF w [OF i]] one [OF w [OF q]] two [OF w [OF fence_request [OF i]]]
    by (cases p) simp_all
qed

lemma fence_publish:
  assumes i: "fences_inv a b c d e" and s: "ae_callback e = CbAccounted g ph j out"
  shows "fences_inv a b c d (callback_publish g ph j out e)"
  using i s by (simp add: callback_publish_def Let_def fences_inv_def commit_capture_discontinuity_def bump_def)

definition fenced :: "nat \<Rightarrow> audio_engine \<Rightarrow> bool" where
  "fenced n e \<longleftrightarrow> (\<exists>a b c d. a + b \<le> n \<and> fences_inv a b c d e)"

lemma fencedI: "fences_inv a b c d e \<Longrightarrow> a + b \<le> n \<Longrightarrow> fenced n e"
  unfolding fenced_def by blast

lemma fenced_callback:
  assumes i: "fences_inv a b c d e" and l: "a + b < 2 ^ 64 - 1"
  shows "fenced (Suc (a + b)) (callback_step i e)"
proof (cases "ae_callback e")
  case CbIdle
  then obtain a' c' d' where "a' \<le> Suc a" "fences_inv a' b c' d' (callback_enter i e)"
    using fence_enter [OF i] by blast
  then show ?thesis using CbIdle by (auto simp: callback_step_def intro: fencedI)
next
  case CbEntered
  then show ?thesis using fencedI [OF fence_render [OF i CbEntered]] by (simp add: callback_step_def)
next
  case CbRendered
  then show ?thesis using fencedI [OF fence_write [OF i CbRendered l]] by (simp add: callback_step_def)
next
  case CbWritten
  then obtain b' where "b' \<le> Suc b" "fences_inv a b' c d (callback_step i e)"
    using fence_account [OF i CbWritten] by (auto simp: callback_step_def)
  then show ?thesis by (intro fencedI [of a b' c d]) simp_all
next
  case CbAccounted
  then show ?thesis using fencedI [OF fence_publish [OF i CbAccounted]] by (simp add: callback_step_def)
qed

lemma fenced_pops:
  assumes "fences_inv a b c d e"
  shows "fences_inv a b c d (snd (try_pop_capture t e))" "fences_inv a b c d (snd (try_pop_reference e))"
    "fences_inv a b c d (snd (try_pop_playback_write e))"
  by (rule fence_same [OF assms], simp_all add: fence_pops)+

lemma fenced_settings:
  assumes "fences_inv a b c d e"
  shows "fences_inv a b c d (set_playback_gain g e)" "fences_inv a b c d (request_fade_to_silence n e)"
    "fences_inv a b c d (mark_playback_inactive e)" "fences_inv a b c d (set_phase p e)"
  by (rule fence_same [OF assms]; simp add: same_fences_def set_playback_gain_def request_fade_to_silence_def
      mark_playback_inactive_def set_phase_def Let_def)+

lemma fenced_step:
  assumes "fenced n e" and l: "n < 2 ^ 64 - 1"
  shows "fenced (Suc n) (engine_step e x)"
proof -
  obtain a b c d where n: "a + b \<le> n" and i: "fences_inv a b c d e" using assms(1) unfolding fenced_def by blast
  have same: "fences_inv a b c d f \<Longrightarrow> fenced (Suc n) f" for f using n by (intro fencedI [of a b c d]) simp_all
  have up: "fenced (Suc (a + b)) f \<Longrightarrow> fenced (Suc n) f" for f
    using n unfolding fenced_def by (meson Suc_le_mono le_trans)
  show ?thesis
  proof (cases x)
    case (Callback j)
    then show ?thesis using up [OF fenced_callback [OF i]] n l by simp
  next
    case (Enqueue xs sc)
    obtain b' where "b' \<le> Suc b" "fences_inv a b' c d (engine_step e x)"
      using fence_enqueue [OF i] Enqueue by auto
    then show ?thesis using n by (intro fencedI [of a b' c d]) simp_all
  next
    case (RequestFence r)
    then show ?thesis using fencedI [OF fence_request [OF i, of r], of "Suc n"] n by simp
  next
    case (MarkDiscontinuity r)
    then show ?thesis using fencedI [OF fence_mark [OF i, of r], of "Suc n"] n by simp
  qed (simp_all add: same fenced_pops [OF i] fenced_settings [OF i])
qed

lemma fenced_run: "fenced n e \<Longrightarrow> n + length es < 2 ^ 64 \<Longrightarrow> fenced (n + length es) (run engine_step e es)"
proof (induction es arbitrary: n e)
  case (Cons x es)
  then have "fenced (Suc n) (engine_step e x)" by (intro fenced_step) simp_all
  from Cons.IH [OF this] Cons.prems(2) show ?case by simp
qed simp


end
