(* ===== verification/Speech_Output.thy ===== *)
theory Speech_Output
  imports Audio_Fences "HOL-Library.Sublist"
begin

text \<open>
  The speech output (\<open>SpeechOutputCore\<close>, speech_output_core.hpp and .cpp) over the audio engine: one playback
  scope at a time, from the goal to its result. The synthesizer is asynchronous: its callbacks are steps of
  their own, for any scope and in any order. Every operation runs under the node's mutex; the engine's own
  steps come between.
\<close>

subsection \<open>Goals, results and the core\<close>

record speech_goal =
  sg_instance :: string
  sg_seq :: u64
  sg_session :: string
  sg_turn :: string
  sg_priority :: u8
  sg_text :: string
  sg_barge_in :: bool

definition normal_priority :: u8 where "normal_priority = 1"
definition urgent_priority :: u8 where "urgent_priority = 2"

datatype speech_code = SpeechCompleted | SpeechCanceled | SpeechBargedIn | SpeechFailed

record speech_result =
  sx_scope :: u64
  sx_code :: speech_code
  sx_detail :: string
  sx_played :: u64

record playback_scope =
  ps_id :: u64
  ps_priority :: u8
  ps_text :: string
  ps_generation :: u64
  ps_wait :: u64
  ps_enqueued :: u64
  ps_played :: u64
  ps_barge_in :: bool
  ps_waiting :: bool
  ps_started :: bool
  ps_completed :: bool
  ps_restarts :: u8

definition no_playback :: playback_scope where
  "no_playback = \<lparr>ps_id = 0, ps_priority = normal_priority, ps_text = [], ps_generation = 0, ps_wait = 0,
     ps_enqueued = 0, ps_played = 0, ps_barge_in = False, ps_waiting = False, ps_started = False,
     ps_completed = False, ps_restarts = 0\<rparr>"

text \<open>What the core tells the synthesizer and its observer.\<close>

datatype output_effect = TtsStart u64 string | TtsCancel u64 | ScopeAdmitted u64 | ScopePlayed u64 u64
  | ScopeResult speech_result

record speech_output =
  so_engine :: audio_engine
  so_active :: playback_scope
  so_next_scope :: u64
  so_pending_fence :: u64
  so_trace :: "output_effect list"

record speech_admission =
  sa_scope :: u64
  sa_start :: bool
  sa_waits :: bool
  sa_immediate :: "speech_result option"

definition output_init :: "audio_engine \<Rightarrow> speech_output" where
  "output_init e = \<lparr>so_engine = e, so_active = no_playback, so_next_scope = 1, so_pending_fence = 0, so_trace = []\<rparr>"

definition so_say :: "output_effect \<Rightarrow> speech_output \<Rightarrow> speech_output" where
  "so_say x s = s\<lparr>so_trace := so_trace s @ [x]\<rparr>"

definition goal_valid :: "speech_goal \<Rightarrow> bool" where
  "goal_valid g \<longleftrightarrow> sg_instance g \<noteq> [] \<and> length (sg_instance g) \<le> 36 \<and> sg_seq g \<noteq> 0 \<and> sg_session g \<noteq> []
     \<and> length (sg_session g) \<le> 36 \<and> sg_turn g \<noteq> [] \<and> length (sg_turn g) \<le> 36 \<and> sg_text g \<noteq> []
     \<and> length (sg_text g) \<le> 512 \<and> (sg_priority g = normal_priority \<or> sg_priority g = urgent_priority)"

subsection \<open>Retiring and fencing\<close>

definition retire_scope :: "speech_code \<Rightarrow> string \<Rightarrow> speech_output \<Rightarrow> speech_output" where
  "retire_scope code detail s =
     (if ps_id (so_active s) = 0 then s
      else
        let s = s\<lparr>so_engine := mark_playback_inactive (so_engine s)\<rparr>;
            s = so_say (ScopeResult \<lparr>sx_scope = ps_id (so_active s), sx_code = code, sx_detail = detail,
                  sx_played = ps_played (so_active s)\<rparr>) s
        in s\<lparr>so_active := no_playback\<rparr>)"

definition request_fence :: "speech_output \<Rightarrow> speech_output" where
  "request_fence s =
     (let requested = ae_playback_generation (so_engine s) + 1;
          s = (if so_pending_fence s < requested then s\<lparr>so_pending_fence := requested\<rparr> else s)
      in s\<lparr>so_engine := request_playback_fence FrSpeechScope (request_fade_to_silence 480 (so_engine s))\<rparr>)"

subsection \<open>Goals\<close>

definition goal_scope :: "speech_goal \<Rightarrow> u64 \<Rightarrow> playback_scope" where
  "goal_scope g k = no_playback\<lparr>ps_id := k, ps_priority := sg_priority g, ps_text := sg_text g,
     ps_barge_in := sg_barge_in g\<rparr>"

definition refused_goal :: "u64 \<Rightarrow> string \<Rightarrow> speech_admission" where
  "refused_goal k detail = \<lparr>sa_scope = k, sa_start = False, sa_waits = False,
     sa_immediate = Some \<lparr>sx_scope = k, sx_code = SpeechFailed, sx_detail = detail, sx_played = 0\<rparr>\<rparr>"

definition start_speech :: "speech_goal \<Rightarrow> speech_output \<Rightarrow> speech_admission \<times> speech_output" where
  "start_speech g s =
     (let k = so_next_scope s;
          s = s\<lparr>so_next_scope := k + 1\<rparr>;
          (k, s) = (if k = 0 then (so_next_scope s, s\<lparr>so_next_scope := so_next_scope s + 1\<rparr>) else (k, s))
      in if \<not> goal_valid g then (refused_goal k ''invalid Speak goal'', s)
         else if ps_id (so_active s) \<noteq> 0 then
           (if sg_priority g \<noteq> urgent_priority \<or> ps_priority (so_active s) \<noteq> normal_priority
            then (refused_goal k ''another PlaybackScope is active'', s)
            else
              let s = request_fence (retire_scope SpeechCanceled ''preempted by URGENT Speak goal'' s)
              in (\<lparr>sa_scope = k, sa_start = False, sa_waits = True, sa_immediate = None\<rparr>,
                  so_say (ScopeAdmitted k) (s\<lparr>so_active := (goal_scope g k)
                    \<lparr>ps_wait := so_pending_fence s, ps_waiting := True\<rparr>\<rparr>)))
         else
           let generation = ae_playback_generation (so_engine s) in
           if generation < so_pending_fence s
           then (\<lparr>sa_scope = k, sa_start = False, sa_waits = True, sa_immediate = None\<rparr>,
                 so_say (ScopeAdmitted k) (s\<lparr>so_active := (goal_scope g k)
                   \<lparr>ps_wait := so_pending_fence s, ps_waiting := True\<rparr>\<rparr>))
           else (\<lparr>sa_scope = k, sa_start = True, sa_waits = False, sa_immediate = None\<rparr>,
                 so_say (ScopeAdmitted k) (s\<lparr>so_pending_fence := 0,
                   so_active := (goal_scope g k)\<lparr>ps_generation := generation\<rparr>\<rparr>)))"

definition begin_synthesis :: "u64 \<Rightarrow> speech_output \<Rightarrow> bool \<times> speech_output" where
  "begin_synthesis k s =
     (let a = so_active s in
      if ps_id a \<noteq> k \<or> ps_waiting a \<or> ps_started a then (False, s)
      else (True, so_say (TtsStart k (ps_text a)) (s\<lparr>so_active := a\<lparr>ps_started := True\<rparr>\<rparr>)))"

definition cancel_speech :: "u64 \<Rightarrow> speech_output \<Rightarrow> bool \<times> speech_output" where
  "cancel_speech k s =
     (if ps_id (so_active s) \<noteq> k then (False, s)
      else (True, request_fence (retire_scope SpeechCanceled ''Speak goal canceled'' (so_say (TtsCancel k) s))))"

definition interrupt_for_barge_in :: "speech_output \<Rightarrow> bool \<times> speech_output" where
  "interrupt_for_barge_in s =
     (if ps_id (so_active s) = 0 \<or> \<not> ps_barge_in (so_active s) then (False, s)
      else (True, request_fence (retire_scope SpeechBargedIn ''interrupted by ordinary wake''
             (so_say (TtsCancel (ps_id (so_active s))) s))))"

definition admit_ordinary_wake :: "speech_output \<Rightarrow> bool \<times> speech_output" where
  "admit_ordinary_wake s = (if ps_id (so_active s) = 0 then (True, s) else interrupt_for_barge_in s)"

definition interrupt_for_stop :: "speech_output \<Rightarrow> bool \<times> speech_output" where
  "interrupt_for_stop s =
     (if ps_id (so_active s) = 0 then (False, s)
      else (True, request_fence (retire_scope SpeechBargedIn ''interrupted by voice STOP''
             (so_say (TtsCancel (ps_id (so_active s))) s))))"

subsection \<open>Progress\<close>

text \<open>The detail of a failed restart, cut to 192 characters.\<close>

definition generation_change_detail :: "(metric \<Rightarrow> u64) \<Rightarrow> string" where
  "generation_change_detail m =
     take 192 (''AudioEngine generation changed while restarting; reasons=''
       @ ''external='' @ to_decimal (unat (m ExternalDiscontinuityFences))
       @ '',stream='' @ to_decimal (unat (m StreamLifecycleFences))
       @ '',output='' @ to_decimal (unat (m ActiveOutputXrunFences))
       @ '',frame='' @ to_decimal (unat (m FrameSizeFences))
       @ '',reference='' @ to_decimal (unat (m ReferenceOverflowFences))
       @ '',callback='' @ to_decimal (unat (m CallbackExceptionFences))
       @ '',playback='' @ to_decimal (unat (m SpeechPlaybackFences))
       @ '',ring='' @ to_decimal (unat (m PlaybackRingOverflowFences))
       @ '',write='' @ to_decimal (unat (m PlaybackWriteOverflowFences)))"

text \<open>One report of the engine that PCM was written to the device.\<close>

definition take_write :: "playback_write \<Rightarrow> speech_output \<Rightarrow> speech_output" where
  "take_write w s =
     (let a = so_active s in
      if ps_id a = pw_scope w \<and> \<not> ps_waiting a \<and> pw_generation w = ps_generation a
      then let played = ps_played a + of_nat (pw_count w)
           in so_say (ScopePlayed (ps_id a) played) (s\<lparr>so_active := a\<lparr>ps_played := played\<rparr>\<rparr>)
      else s)"

lemma take_write_engine [simp]: "so_engine (take_write w s) = so_engine s"
  by (simp add: take_write_def so_say_def Let_def)

text \<open>The loop over the reports; it takes each from the ring, so it ends with the ring empty.\<close>

function take_writes :: "speech_output \<Rightarrow> speech_output" where
  "take_writes s =
     (case try_pop_playback_write (so_engine s) of
        (None, e) \<Rightarrow> s\<lparr>so_engine := e\<rparr>
      | (Some w, e) \<Rightarrow> take_writes (take_write w (s\<lparr>so_engine := e\<rparr>)))"
  by auto

termination
  by (relation "measure (\<lambda>s. length (ae_writes (so_engine s)))")
    (auto simp: try_pop_playback_write_def Let_def split: prod.splits elim: fifo_pop.elims)

declare take_writes.simps [simp del]

definition advance_scope :: "speech_output \<Rightarrow> bool \<times> speech_output" where
  "advance_scope s =
     (let a = so_active s; generation = ae_playback_generation (so_engine s) in
      if ps_id a = 0 then (False, s)
      else if ps_waiting a then
        (if ps_restarts a \<noteq> 0 \<and> ps_wait a < generation
         then (False, retire_scope SpeechFailed (generation_change_detail (ae_metrics (so_engine s))) s)
         else if generation < ps_wait a then (False, s)
         else
           let s = s\<lparr>so_active := a\<lparr>ps_waiting := False, ps_generation := generation\<rparr>\<rparr>
           in (True, if so_pending_fence s \<le> generation then s\<lparr>so_pending_fence := 0\<rparr> else s))
      else if generation \<noteq> ps_generation a then
        (if ps_completed a \<and> 0 < ps_enqueued a \<and> ps_played a = 0 \<and> ps_restarts a = 0 then
           let s = request_fence (s\<lparr>so_active := a\<lparr>ps_enqueued := 0, ps_started := False, ps_completed := False,
                 ps_restarts := 1\<rparr>\<rparr>)
           in (False, s\<lparr>so_active := (so_active s)\<lparr>ps_waiting := True, ps_wait := so_pending_fence s\<rparr>\<rparr>)
         else (False, retire_scope SpeechFailed ''AudioEngine generation changed'' s))
      else if ps_completed a \<and> 0 < ps_enqueued a \<and> ps_enqueued a \<le> ps_played a
      then (False, retire_scope SpeechCompleted ''completed'' s)
      else (False, s))"

definition advance_speech :: "speech_output \<Rightarrow> bool \<times> speech_output" where
  "advance_speech s = advance_scope (take_writes s)"

definition ready_scope_id :: "speech_output \<Rightarrow> u64" where
  "ready_scope_id s =
     (let a = so_active s in if ps_id a \<noteq> 0 \<and> \<not> ps_waiting a \<and> \<not> ps_started a then ps_id a else 0)"

subsection \<open>The synthesizer's callbacks\<close>

definition converted_count :: "nat \<Rightarrow> nat" where
  "converted_count n = n * 48000 div 22050"

definition resample :: "u16 list \<Rightarrow> u16 list" where
  "resample xs = map (\<lambda>i. xs ! (i * 22050 div 48000)) [0..<converted_count (length xs)]"

definition on_pcm :: "u64 \<Rightarrow> u32 \<Rightarrow> u32 \<Rightarrow> u16 list option \<Rightarrow> speech_output \<Rightarrow> bool \<times> speech_output" where
  "on_pcm k rate channels samples s =
     (let a = so_active s in
      if ps_id a \<noteq> k \<or> ps_waiting a \<or> \<not> ps_started a then (False, s)
      else case samples of
        None \<Rightarrow> (False, s)
      | Some xs \<Rightarrow>
          if rate \<noteq> 22050 \<or> channels \<noteq> 1 \<or> xs = [] \<or> 220 < length xs then (False, s)
          else
            let generation = ae_playback_generation (so_engine s) in
            if generation \<noteq> ps_generation a \<and> (ps_enqueued a \<noteq> 0 \<or> ps_restarts a \<noteq> 0) then (False, s)
            else
              let a = a\<lparr>ps_generation := generation\<rparr>; s = s\<lparr>so_active := a\<rparr>; n = converted_count (length xs) in
              if n = 0 \<or> frame_samples < n then (False, s)
              else
                let (queued, e) = enqueue_playback (Some (resample xs)) k (so_engine s); s = s\<lparr>so_engine := e\<rparr>
                in if \<not> queued then (False, retire_scope SpeechFailed ''AudioEngine playback ring rejected PCM'' s)
                   else (True, s\<lparr>so_active := a\<lparr>ps_enqueued := ps_enqueued a + of_nat n\<rparr>\<rparr>))"

definition on_complete :: "u64 \<Rightarrow> speech_output \<Rightarrow> speech_output" where
  "on_complete k s =
     (let a = so_active s in
      if ps_id a = k \<and> ps_started a \<and> \<not> ps_waiting a then s\<lparr>so_active := a\<lparr>ps_completed := True\<rparr>\<rparr> else s)"

definition on_failed :: "u64 \<Rightarrow> string \<Rightarrow> speech_output \<Rightarrow> speech_output" where
  "on_failed k detail s =
     (if ps_id (so_active s) = k
      then request_fence (retire_scope SpeechFailed (if detail = [] then ''TTS failed'' else detail) s)
      else s)"

subsection \<open>The core and its engine as a machine\<close>

text \<open>
  Besides the core's operations, the other users of the engine run; none of them takes a playback report, which
  only the core reads, or queues PCM.
\<close>

datatype output_call = StartSpeech speech_goal | BeginSynthesis u64 | CancelSpeech u64 | OrdinaryWake | VoiceStop
  | AdvanceSpeech | TtsPcm u64 u32 u32 "u16 list option" | TtsComplete u64 | TtsFailed u64 string
  | OnEngine engine_call

fun engine_call_ok :: "engine_call \<Rightarrow> bool" where
  "engine_call_ok (Enqueue xs sc) = False"
| "engine_call_ok PopWrite = False"
| "engine_call_ok _ = True"

primrec output_step :: "speech_output \<Rightarrow> output_call \<Rightarrow> speech_output" where
  "output_step s (StartSpeech g) = snd (start_speech g s)"
| "output_step s (BeginSynthesis k) = snd (begin_synthesis k s)"
| "output_step s (CancelSpeech k) = snd (cancel_speech k s)"
| "output_step s OrdinaryWake = snd (admit_ordinary_wake s)"
| "output_step s VoiceStop = snd (interrupt_for_stop s)"
| "output_step s AdvanceSpeech = snd (advance_speech s)"
| "output_step s (TtsPcm k r c xs) = snd (on_pcm k r c xs s)"
| "output_step s (TtsComplete k) = on_complete k s"
| "output_step s (TtsFailed k d) = on_failed k d s"
| "output_step s (OnEngine c) = (if engine_call_ok c then s\<lparr>so_engine := engine_step (so_engine s) c\<rparr> else s)"

definition output_run :: "output_call list \<Rightarrow> speech_output" where
  "output_run es = run output_step (output_init engine_init) es"

subsection \<open>Every admitted scope has one result\<close>

fun admitted_scopes :: "output_effect list \<Rightarrow> u64 list" where
  "admitted_scopes [] = []"
| "admitted_scopes (ScopeAdmitted k # xs) = k # admitted_scopes xs"
| "admitted_scopes (x # xs) = admitted_scopes xs"

fun result_scopes :: "output_effect list \<Rightarrow> u64 list" where
  "result_scopes [] = []"
| "result_scopes (ScopeResult r # xs) = sx_scope r # result_scopes xs"
| "result_scopes (x # xs) = result_scopes xs"

lemma admitted_scopes_append [simp]: "admitted_scopes (xs @ ys) = admitted_scopes xs @ admitted_scopes ys"
  by (induction xs rule: admitted_scopes.induct) simp_all

lemma result_scopes_append [simp]: "result_scopes (xs @ ys) = result_scopes xs @ result_scopes ys"
  by (induction xs rule: result_scopes.induct) simp_all

definition active_scopes :: "speech_output \<Rightarrow> u64 list" where
  "active_scopes s = (if ps_id (so_active s) = 0 then [] else [ps_id (so_active s)])"

definition result_inv :: "speech_output \<Rightarrow> bool" where
  "result_inv s \<longleftrightarrow> admitted_scopes (so_trace s) = result_scopes (so_trace s) @ active_scopes s"

lemma result_inv_same:
  "result_inv s \<Longrightarrow> ps_id (so_active t) = ps_id (so_active s) \<Longrightarrow> admitted_scopes (so_trace t) = admitted_scopes (so_trace s)
     \<Longrightarrow> result_scopes (so_trace t) = result_scopes (so_trace s) \<Longrightarrow> result_inv t"
  by (simp add: result_inv_def active_scopes_def)

lemma no_playback_id [simp]: "ps_id no_playback = 0"
  by (simp add: no_playback_def)

lemma retire_result: "result_inv s \<Longrightarrow> result_inv (retire_scope c d s) \<and> ps_id (so_active (retire_scope c d s)) = 0"
  by (simp add: result_inv_def active_scopes_def retire_scope_def so_say_def Let_def)

lemma fence_keeps [simp]:
  "so_active (request_fence s) = so_active s" "so_trace (request_fence s) = so_trace s"
  "so_next_scope (request_fence s) = so_next_scope s"
  by (simp_all add: request_fence_def Let_def)

lemma say_keeps [simp]:
  "so_active (so_say x s) = so_active s" "so_trace (so_say x s) = so_trace s @ [x]" "so_engine (so_say x s) = so_engine s"
  "so_next_scope (so_say x s) = so_next_scope s" "so_pending_fence (so_say x s) = so_pending_fence s"
  by (simp_all add: so_say_def)

lemma retire_keeps [simp]:
  "so_next_scope (retire_scope c d s) = so_next_scope s" "so_pending_fence (retire_scope c d s) = so_pending_fence s"
  by (simp_all add: retire_scope_def Let_def)

lemma result_fence [simp]: "result_inv (request_fence s) = result_inv s"
  by (simp add: result_inv_def active_scopes_def)

lemma result_admit:
  assumes "result_inv s" "ps_id (so_active s) = 0" "k \<noteq> 0"
  shows "result_inv (so_say (ScopeAdmitted k) (s\<lparr>so_active := (goal_scope g k)\<lparr>ps_wait := w, ps_waiting := b\<rparr>\<rparr>))"
    "result_inv (so_say (ScopeAdmitted k) (s\<lparr>so_pending_fence := 0, so_active := (goal_scope g k)\<lparr>ps_generation := w\<rparr>\<rparr>))"
  using assms by (simp_all add: result_inv_def active_scopes_def goal_scope_def)

lemma result_start:
  assumes i: "result_inv s"
  shows "result_inv (snd (start_speech g s))"
proof -
  have n: "result_inv (s\<lparr>so_next_scope := n\<rparr>)" "result_inv (s\<lparr>so_next_scope := n, so_next_scope := m\<rparr>)" for n m
    using i by (simp_all add: result_inv_def active_scopes_def)
  have r: "result_inv (retire_scope c d t)" "ps_id (so_active (retire_scope c d t)) = 0" if "result_inv t" for c d t
    using retire_result [OF that] by simp_all
  show ?thesis
    unfolding start_speech_def Let_def
    by (simp add: n r result_admit refused_goal_def)
qed

lemma result_take_writes: "result_inv s \<Longrightarrow> result_inv (take_writes s)"
proof (induction s rule: take_writes.induct)
  case (1 s)
  obtain w e where p: "try_pop_playback_write (so_engine s) = (w, e)" by (cases "try_pop_playback_write (so_engine s)")
  show ?case
  proof (cases w)
    case None
    then have "take_writes s = s\<lparr>so_engine := e\<rparr>" using p by (simp add: take_writes.simps)
    then show ?thesis using "1.prems" by (simp add: result_inv_def active_scopes_def)
  next
    case (Some x)
    have "result_inv (take_write x (s\<lparr>so_engine := e\<rparr>))"
      using "1.prems" by (simp add: result_inv_def active_scopes_def take_write_def Let_def)
    then show ?thesis
      using "1.IH" [OF p [symmetric] Some] p Some by (simp add: take_writes.simps [of s])
  qed
qed

lemma result_advance: "result_inv s \<Longrightarrow> result_inv (snd (advance_scope s))"
  using retire_result
  by (auto simp: advance_scope_def Let_def result_inv_def active_scopes_def)

lemma result_pcm: "result_inv s \<Longrightarrow> result_inv (snd (on_pcm k r c xs s))"
  by (cases xs)
    (auto simp: on_pcm_def Let_def split_beta result_inv_def active_scopes_def retire_scope_def)

lemma result_step: "result_inv s \<Longrightarrow> result_inv (output_step s x)"
proof (cases x)
  case (StartSpeech g)
  then show "result_inv s \<Longrightarrow> ?thesis" by (simp add: result_start)
next
  case AdvanceSpeech
  then show "result_inv s \<Longrightarrow> ?thesis"
    by (simp add: advance_speech_def result_advance result_take_writes)
next
  case (TtsPcm k r c xs)
  then show "result_inv s \<Longrightarrow> ?thesis" by (simp add: result_pcm)
qed (auto simp: begin_synthesis_def cancel_speech_def admit_ordinary_wake_def interrupt_for_barge_in_def
    interrupt_for_stop_def on_complete_def on_failed_def Let_def result_inv_def active_scopes_def retire_scope_def)

lemma result_run: "result_inv s \<Longrightarrow> result_inv (run output_step s es)"
  by (induction es arbitrary: s) (simp_all add: result_step)

text \<open>
  C16: every admitted goal gets exactly one result from its scope, in the order of admission, or is the scope
  that is active: none is lost and none is answered twice.
\<close>

theorem every_scope_has_one_result:
  "admitted_scopes (so_trace (output_run es)) =
     result_scopes (so_trace (output_run es)) @ active_scopes (output_run es)"
proof -
  have "result_inv (output_init engine_init)" by (simp add: result_inv_def active_scopes_def output_init_def)
  from result_run [OF this] show ?thesis by (simp add: output_run_def result_inv_def)
qed

subsection \<open>Resampling\<close>

text \<open>
  The conversion of a chunk of the synthesizer fits an engine frame and reads only samples of the chunk;
  the first sample stays the first.
\<close>

lemma resample_stays_in_bounds:
  assumes "0 < length xs" and "length xs \<le> 220"
  shows "0 < length (resample xs) \<and> length (resample xs) \<le> frame_samples \<and> set (resample xs) \<subseteq> set xs
    \<and> resample xs ! 0 = xs ! 0"
proof -
  have n: "0 < converted_count (length xs)" "converted_count (length xs) \<le> frame_samples"
    using assms unfolding converted_count_def frame_samples_def by linarith+
  have "i * 22050 div 48000 < length xs" if "i < converted_count (length xs)" for i
  proof -
    have "Suc i * 22050 \<le> length xs * 48000"
      using that unfolding converted_count_def by (metis Suc_leI less_eq_div_iff_mult_less_eq zero_less_numeral)
    then have "i * 22050 < length xs * 48000" by simp
    then show ?thesis by (simp add: less_mult_imp_div_less)
  qed
  then have "set (resample xs) \<subseteq> set xs" by (auto simp: resample_def)
  then show ?thesis using n by (simp add: resample_def)
qed

subsection \<open>The engine under the core\<close>

lemma same_fences_trans: "same_fences e f \<Longrightarrow> same_fences f g \<Longrightarrow> same_fences e g"
  by (auto simp: same_fences_def)

lemma fenced_same: "fenced n e \<Longrightarrow> same_fences e f \<Longrightarrow> ae_callback f = ae_callback e \<Longrightarrow> fenced n f"
  unfolding fenced_def using fence_same by blast

lemma fenced_inactive: "fenced n e \<Longrightarrow> fenced n (mark_playback_inactive e)"
  by (rule fenced_same) (simp_all add: same_fences_def mark_playback_inactive_def)

lemma fenced_retire: "fenced n (so_engine s) \<Longrightarrow> fenced n (so_engine (retire_scope c d s))"
  by (simp add: retire_scope_def Let_def fenced_inactive)

lemma fenced_request: "fenced n e \<Longrightarrow> fenced (Suc n) (request_playback_fence r e)"
  unfolding fenced_def by (metis Suc_le_mono add_Suc_right fence_request)

lemma fenced_fade: "fenced n e \<Longrightarrow> fenced n (request_fade_to_silence m e)"
  by (rule fenced_same) (simp_all add: same_fences_def request_fade_to_silence_def)

lemma fenced_mono: "fenced n e \<Longrightarrow> n \<le> m \<Longrightarrow> fenced m e"
  unfolding fenced_def by (meson le_trans)

lemma fenced_request_fence: "fenced n (so_engine s) \<Longrightarrow> fenced (Suc n) (so_engine (request_fence s))"
  by (simp add: request_fence_def Let_def fenced_request fenced_fade)

lemma fenced_take_writes: "fenced n (so_engine s) \<Longrightarrow> fenced n (so_engine (take_writes s))"
proof (induction s rule: take_writes.induct)
  case (1 s)
  obtain w e where p: "try_pop_playback_write (so_engine s) = (w, e)" by (cases "try_pop_playback_write (so_engine s)")
  have e: "fenced n e"
    using fenced_same [OF "1.prems" fence_pops(3)] p pops_callback(3) [of "so_engine s"] by simp
  then show ?case
    using "1.IH" [OF p [symmetric]] p by (cases w) (simp_all add: take_writes.simps [of s])
qed

lemma fenced_enqueue:
  assumes "fenced n e"
  shows "fenced (Suc n) (snd (enqueue_playback xs sc e))"
proof -
  obtain a b c d where "a + b \<le> n" "fences_inv a b c d e" using assms unfolding fenced_def by blast
  moreover obtain b' where "b' \<le> Suc b" "fences_inv a b' c d (snd (enqueue_playback xs sc e))"
    using fence_enqueue [OF calculation(2)] by blast
  ultimately show ?thesis by (intro fencedI [of a b' c d]) simp_all
qed

lemma fenced_output_step:
  assumes f: "fenced n (so_engine s)" and l: "n < 2 ^ 64 - 1"
  shows "fenced (Suc n) (so_engine (output_step s x))"
proof (cases x)
  case (OnEngine c)
  then show ?thesis using fenced_step [OF f l] fenced_mono [OF f] by simp
next
  case (TtsPcm k r c xs)
  have e: "fenced (Suc n) (snd (enqueue_playback ys j (so_engine s)))" for ys j by (rule fenced_enqueue [OF f])
  show ?thesis
    using TtsPcm fenced_mono [OF f, of "Suc n"] e
    by (cases xs) (simp_all add: on_pcm_def Let_def split_beta retire_scope_def fenced_inactive)
next
  case AdvanceSpeech
  have t: "fenced n (so_engine (take_writes s))" by (rule fenced_take_writes [OF f])
  have "fenced (Suc n) (so_engine (snd (advance_scope t)))" if "fenced n (so_engine t)" for t
    using that fenced_mono [OF that, of "Suc n"]
    by (simp add: advance_scope_def Let_def fenced_mono [OF fenced_retire [OF that]] fenced_request_fence)
  with t AdvanceSpeech show ?thesis by (simp add: advance_speech_def)
next
  case (StartSpeech g)
  then show ?thesis
    using f fenced_mono [OF f, of "Suc n"]
    by (simp add: start_speech_def Let_def refused_goal_def fenced_request_fence fenced_retire)
qed (use f fenced_mono [OF f, of "Suc n"] in \<open>simp_all add: begin_synthesis_def cancel_speech_def admit_ordinary_wake_def
    interrupt_for_barge_in_def interrupt_for_stop_def on_complete_def on_failed_def Let_def fenced_request_fence
    fenced_retire\<close>)

lemma fenced_output_run:
  "fenced n (so_engine s) \<Longrightarrow> n + length es < 2 ^ 64 \<Longrightarrow> fenced (n + length es) (so_engine (run output_step s es))"
proof (induction es arbitrary: n s)
  case (Cons x es)
  then have "fenced (Suc n) (so_engine (output_step s x))" by (intro fenced_output_step) simp_all
  from Cons.IH [OF this] Cons.prems(2) show ?case by simp
qed simp

subsection \<open>A voice STOP silences what was queued\<close>

lemma pop_log [simp]:
  "ae_log (snd (try_pop_capture t e)) = ae_log e" "ae_log (snd (try_pop_reference e)) = ae_log e"
  "ae_log (snd (try_pop_playback_write e)) = ae_log e"
  using fence_pops(1) [of e t] fence_pops(2) [of e] fence_pops(3) [of e] by (simp_all add: same_fences_def)

lemma callback_log: "prefix (ae_log e) (ae_log (callback_step i e))"
proof (cases "ae_callback e")
  case CbIdle
  have c: "ae_log (commit_pending_discontinuities f) = ae_log f" "ae_log (bump m n f) = ae_log f"
    "ae_log (commit_pending_playback_fences f) = ae_log f" "ae_log (commit_capture_discontinuity w f) = ae_log f"
    "ae_log (mark_discontinuity r f) = ae_log f @ [FenceRequested]" for f m n w r
    by (simp_all add: commit_pending_discontinuities_def bump_def set_metric_def commit_pending_playback_fences_def
        commit_capture_discontinuity_def mark_discontinuity_def ae_say_def Let_def)
  have x: "prefix (ae_log f) (ae_log (exit_silent i f))" for f by (simp add: exit_silent_def ae_say_def Let_def)
  have "prefix (ae_log e) (ae_log (callback_enter i e))"
    by (rule callback_enter_rule [where Q = "\<lambda>f. ae_log f = ae_log e"])
      (use x prefix_order.trans [OF _ x] in \<open>simp_all add: c\<close>)
  then show ?thesis using CbIdle by (simp add: callback_step_def)
qed (auto simp: callback_step_def callback_render_def render_playback_def pop_playback_def take_up_fade_def
    callback_write_def callback_account_def callback_publish_def commit_capture_discontinuity_def bump_def ae_say_def
    request_playback_fence_def Let_def split_beta split: option.split)

lemma engine_log: "prefix (ae_log e) (ae_log (engine_step e x))"
  by (cases x)
    (simp_all add: callback_log enqueue_playback_def set_playback_gain_def request_fade_to_silence_def
      mark_playback_inactive_def request_playback_fence_def mark_discontinuity_def set_phase_def ae_say_def bump_def
      Let_def split_beta split: option.split)

lemma take_writes_log [simp]: "ae_log (so_engine (take_writes s)) = ae_log (so_engine s)"
proof (induction s rule: take_writes.induct)
  case (1 s)
  obtain w e where p: "try_pop_playback_write (so_engine s) = (w, e)" by (cases "try_pop_playback_write (so_engine s)")
  then have "ae_log e = ae_log (so_engine s)" using pop_log(3) [of "so_engine s"] by simp
  then show ?case using "1.IH" [OF p [symmetric]] p by (cases w) (simp_all add: take_writes.simps [of s])
qed

lemma retire_log [simp]: "ae_log (so_engine (retire_scope c d s)) = ae_log (so_engine s)"
  by (simp add: retire_scope_def mark_playback_inactive_def Let_def)

lemma request_fence_log [simp]: "ae_log (so_engine (request_fence s)) = ae_log (so_engine s) @ [FenceRequested]"
  by (simp add: request_fence_def request_fade_to_silence_def request_playback_fence_def ae_say_def bump_def Let_def)

lemma output_log: "prefix (ae_log (so_engine s)) (ae_log (so_engine (output_step s x)))"
proof (cases x)
  case (TtsPcm k r c xs)
  have "prefix (ae_log (so_engine s)) (ae_log (snd (enqueue_playback ys j (so_engine s))))" for ys j
    using engine_log [of "so_engine s" "Enqueue ys j"] by simp
  then show ?thesis
    using TtsPcm by (cases xs) (auto simp: on_pcm_def Let_def split_beta)
qed (simp_all add: engine_log start_speech_def advance_speech_def advance_scope_def begin_synthesis_def cancel_speech_def
    admit_ordinary_wake_def interrupt_for_barge_in_def interrupt_for_stop_def on_complete_def on_failed_def Let_def refused_goal_def)

lemma output_run_log: "prefix (ae_log (so_engine s)) (ae_log (so_engine (run output_step s es)))"
  by (induction es arbitrary: s) (auto intro: prefix_order.trans [OF output_log])


subsection \<open>Silent speech\<close>

text \<open>
  Playback is reported for frames that can be heard only, while every chunk counts as queued: a goal whose PCM
  is silent plays to its end and is not completed.
\<close>

fun silent_call :: "output_call \<Rightarrow> bool" where
  "silent_call (StartSpeech g) = False"
| "silent_call (TtsPcm k r c (Some xs)) = (set xs \<subseteq> {0})"
| "silent_call _ = True"

fun callback_silent :: "callback_pc \<Rightarrow> bool" where
  "callback_silent (CbRendered g pg ph i out p) = (\<not> audible out)"
| "callback_silent (CbWritten g pg ph i out p) = (\<not> audible out)"
| "callback_silent _ = True"

definition engine_silent :: "audio_engine \<Rightarrow> bool" where
  "engine_silent e \<longleftrightarrow> (\<forall>p\<in>set (ae_playback e). pk_count p \<le> length (pk_samples p) \<and> set (pk_samples p) \<subseteq> {0})
     \<and> ae_writes e = [] \<and> callback_silent (ae_callback e)"

definition silent_inv :: "speech_output \<Rightarrow> bool" where
  "silent_inv s \<longleftrightarrow> engine_silent (so_engine s) \<and> ps_played (so_active s) = 0
     \<and> (\<forall>r. ScopeResult r \<in> set (so_trace s) \<longrightarrow> sx_code r \<noteq> SpeechCompleted)"

lemma render_silent:
  assumes "engine_silent e" "ae_callback e = CbEntered g pg ph i"
  shows "engine_silent (callback_render g pg ph i e)"
proof -
  obtain p q m where r: "pop_current playback_capacity (\<lambda>p. pk_generation p = pg) (ae_playback e) = (p, q, m)"
    by (cases "pop_current playback_capacity (\<lambda>p. pk_generation p = pg) (ae_playback e)")
  note c = pop_current_subset [OF r]
  have "set (packet_inputs p) \<subseteq> {0}"
    using assms(1) c unfolding engine_silent_def packet_inputs_def
    by (cases p) (auto, metis (no_types, lifting) nth_mem order_less_le_trans signed_0 singletonD subsetD)
  then have "\<not> audible (fst (render_loop gain whole rem (packet_inputs p)))" for gain whole rem
    using render_loop_zero [of "packet_inputs p" gain whole rem] by (auto simp: audible_def)
  then show ?thesis
    using assms c r
    by (auto simp: callback_render_def render_playback_def pop_playback_def take_up_fade_def bump_def Let_def
        split_beta engine_silent_def)
qed

lemma audible_prefix: "\<not> audible out \<Longrightarrow> \<not> (\<exists>x\<in>set (take n out). x \<noteq> 0)"
  unfolding audible_def by (meson in_set_takeD)

lemma callback_keeps_silent: "engine_silent e \<Longrightarrow> engine_silent (callback_step i e)"
proof -
  assume e: "engine_silent e"
  have keep: "engine_silent (commit_pending_discontinuities f)" "engine_silent (bump m n f)"
    "engine_silent (commit_pending_playback_fences f)" "engine_silent (commit_capture_discontinuity w f)"
    "engine_silent (mark_discontinuity r f)" "engine_silent (exit_silent i f)"
    "engine_silent (f\<lparr>ae_callback := CbEntered g pg ph i\<rparr>)" if "engine_silent f" for f m n w r g pg ph
    using that
    by (auto simp: commit_pending_discontinuities_def bump_def set_metric_def commit_pending_playback_fences_def
        commit_capture_discontinuity_def mark_discontinuity_def ae_say_def exit_silent_def engine_silent_def Let_def)
  show ?thesis
  proof (cases "ae_callback e")
    case CbIdle
    have "engine_silent (callback_enter i e)"
      by (rule callback_enter_rule [where Q = engine_silent]) (use e in \<open>simp_all add: keep\<close>)
    then show ?thesis using CbIdle by (simp add: callback_step_def)
  next
    case CbEntered
    then show ?thesis using render_silent [OF e CbEntered] by (simp add: callback_step_def)
  next
    case (CbRendered g pg ph j out p)
    then show ?thesis
      using e by (auto simp: callback_step_def callback_write_def engine_silent_def ae_say_def Let_def)
  next
    case (CbWritten g pg ph j out p)
    then have "\<not> (\<exists>x\<in>set (take n out). x \<noteq> 0)" for n
      using e by (intro audible_prefix) (simp add: engine_silent_def)
    then show ?thesis
      using e CbWritten by (cases p) (auto simp: callback_step_def callback_account_def engine_silent_def Let_def)
  next
    case (CbAccounted g ph j out)
    then show ?thesis
      using e by (auto simp: callback_step_def callback_publish_def commit_capture_discontinuity_def bump_def
          engine_silent_def Let_def)
  qed
qed

lemma engine_keeps_silent: "engine_silent e \<Longrightarrow> engine_call_ok x \<Longrightarrow> engine_silent (engine_step e x)"
proof (cases x)
  case (Callback i)
  then show "engine_silent e \<Longrightarrow> ?thesis" by (simp add: callback_keeps_silent)
qed (auto simp: engine_silent_def try_pop_capture_def capture_pop_def try_pop_reference_def
      set_playback_gain_def request_fade_to_silence_def mark_playback_inactive_def request_playback_fence_def
      mark_discontinuity_def set_phase_def ae_say_def bump_def Let_def split_beta split: option.split)

lemma take_writes_silent: "engine_silent (so_engine s) \<Longrightarrow> take_writes s = s"
  by (simp add: take_writes.simps [of s] engine_silent_def try_pop_playback_write_def)

lemma silent_changes:
  assumes "silent_inv s"
  shows "silent_inv (request_fence s)" "c \<noteq> SpeechCompleted \<Longrightarrow> silent_inv (retire_scope c d s)"
    "silent_inv (so_say (TtsCancel k) s)" "silent_inv (so_say (TtsStart k t) s)"
  using assms
  by (auto simp: silent_inv_def request_fence_def retire_scope_def so_say_def engine_silent_def no_playback_def
      mark_playback_inactive_def request_fade_to_silence_def request_playback_fence_def ae_say_def bump_def Let_def)

lemma silent_active: "silent_inv s \<Longrightarrow> ps_played a = 0 \<Longrightarrow> silent_inv (s\<lparr>so_active := a\<rparr>)"
  by (simp add: silent_inv_def)

lemma silent_pending: "silent_inv s \<Longrightarrow> silent_inv (s\<lparr>so_pending_fence := x\<rparr>)"
  by (simp add: silent_inv_def)

lemma enqueue_keeps_silent:
  assumes e: "engine_silent e" and z: "set xs \<subseteq> {0}"
  shows "engine_silent (snd (enqueue_playback (Some xs) k e))"
  using e z
  by (auto simp: enqueue_playback_def fifo_push_def request_playback_fence_def ae_say_def bump_def engine_silent_def Let_def)

lemma resample_silent: "set xs \<subseteq> {0} \<Longrightarrow> xs \<noteq> [] \<Longrightarrow> length xs \<le> 220 \<Longrightarrow> set (resample xs) \<subseteq> {0}"
  using resample_stays_in_bounds [of xs] by auto

lemma silent_pcm:
  assumes i: "silent_inv s" and z: "silent_call (TtsPcm k r c xs)"
  shows "silent_inv (snd (on_pcm k r c xs s))"
proof (cases xs)
  case (Some ys)
  let ?f = "\<lambda>j. snd (enqueue_playback (Some (resample ys)) j (so_engine s))"
  have f: "engine_silent (?f j)" if "ys \<noteq> []" "length ys \<le> 220" for j
    using i that z Some enqueue_keeps_silent [OF _ resample_silent, of "so_engine s" ys j] by (simp add: silent_inv_def)
  have e: "silent_inv (s\<lparr>so_engine := ?f j\<rparr>)" "silent_inv (s\<lparr>so_engine := ?f j, so_active := a\<rparr>)"
    "silent_inv (s\<lparr>so_active := a, so_engine := ?f j\<rparr>)" if "ps_played a = 0" "ys \<noteq> []" "length ys \<le> 220" for a j
    using i that f by (simp_all add: silent_inv_def)
  have "ps_played (so_active s) = 0" using i by (simp add: silent_inv_def)
  then show ?thesis
    using i e [of "so_active s"] Some
    by (auto simp: on_pcm_def Let_def split_beta silent_active e intro!: silent_changes(2))
qed (use i in \<open>simp add: on_pcm_def Let_def\<close>)

lemma silent_advance:
  assumes i: "silent_inv s"
  shows "silent_inv (snd (advance_speech s))"
proof -
  have t: "take_writes s = s" using i by (intro take_writes_silent) (simp add: silent_inv_def)
  have p: "ps_played (so_active s) = 0" using i by (simp add: silent_inv_def)
  have f: "silent_inv (request_fence (s\<lparr>so_active := a\<rparr>)\<lparr>so_active := b\<rparr>)" if "ps_played a = 0" "ps_played b = 0" for a b
    using silent_active [OF silent_changes(1) [OF silent_active [OF i that(1)]] that(2)] .
  show ?thesis
    unfolding advance_speech_def t advance_scope_def Let_def
    using i p by (cases "ps_enqueued (so_active s) = 0")
      (simp_all add: silent_changes(2) silent_active silent_pending f)
qed

lemma silent_step: "silent_inv s \<Longrightarrow> silent_call x \<Longrightarrow> silent_inv (output_step s x)"
proof (cases x)
  case (TtsPcm k r c xs)
  then show "silent_inv s \<Longrightarrow> silent_call x \<Longrightarrow> ?thesis" by (simp only: output_step.simps silent_pcm)
next
  case AdvanceSpeech
  then show "silent_inv s \<Longrightarrow> ?thesis" by (simp add: silent_advance)
next
  case (OnEngine c)
  then show "silent_inv s \<Longrightarrow> ?thesis" by (simp add: silent_inv_def engine_keeps_silent)
next
  case (BeginSynthesis k)
  then show "silent_inv s \<Longrightarrow> ?thesis"
    by (simp add: begin_synthesis_def Let_def silent_changes(4) [OF silent_active] silent_inv_def)
next
  case (TtsComplete k)
  then show "silent_inv s \<Longrightarrow> ?thesis" by (simp add: on_complete_def Let_def silent_inv_def)
qed (simp_all add: cancel_speech_def admit_ordinary_wake_def interrupt_for_barge_in_def interrupt_for_stop_def
    on_failed_def silent_changes)


end
