(* ===== verification/Audio_Capture.thy ===== *)
theory Audio_Capture
  imports Audio_Engine
begin

text \<open>
  The capture side of the engine as the session uses it: a captured frame is popped together with the render
  reference of the same callback. With the two pops next to each other the reference is always there; a
  discontinuity committed between them takes it away.
\<close>

subsection \<open>Captures and references go together\<close>

definition paired :: "audio_engine \<Rightarrow> bool" where
  "paired e \<longleftrightarrow> map af_generation (ae_reference e) = map af_generation (drop (ae_consumer e) (ae_captures e))
     \<and> ae_consumer e \<le> length (ae_captures e) \<and> length (ae_reference e) < ring_capacity"

fun leaves_capture :: "engine_call \<Rightarrow> bool" where
  "leaves_capture (PopCapture t) = False"
| "leaves_capture PopReference = False"
| "leaves_capture _ = True"

lemma paired_same:
  "paired e \<Longrightarrow> ae_reference f = ae_reference e \<Longrightarrow> ae_consumer f = ae_consumer e \<Longrightarrow> ae_captures f = ae_captures e
     \<Longrightarrow> paired f"
  by (simp add: paired_def)

lemma paired_bump [simp]: "paired (bump m n e) = paired e"
  by (simp add: paired_def bump_def)

lemma paired_keep:
  "paired f \<Longrightarrow> paired (commit_pending_discontinuities f)" "paired f \<Longrightarrow> paired (commit_pending_playback_fences f)"
  "paired f \<Longrightarrow> paired (commit_capture_discontinuity w f)" "paired f \<Longrightarrow> paired (mark_discontinuity r f)"
  "paired f \<Longrightarrow> paired (exit_silent i f)" "paired f \<Longrightarrow> paired (f\<lparr>ae_callback := c\<rparr>)"
  by (simp_all add: commit_pending_discontinuities_def set_metric_def commit_pending_playback_fences_def
      commit_capture_discontinuity_def mark_discontinuity_def ae_say_def exit_silent_def paired_def bump_def Let_def)

lemma paired_publish:
  assumes "paired e"
  shows "paired (callback_publish g ph i out e)"
proof (cases "ph = PhaseCapture \<and> fifo_can_push ring_capacity (ae_reference e)")
  case True
  then show ?thesis
    using assms by (cases "ci_capture i") (auto simp: callback_publish_def Let_def paired_def bump_def fifo_push_def fifo_can_push_def)
next
  case False
  then show ?thesis
    using assms paired_keep by (cases ph) (simp_all add: callback_publish_def Let_def)
qed

lemma paired_callback: "paired e \<Longrightarrow> paired (callback_step i e)"
proof (cases "ae_callback e")
  case CbIdle
  assume p: "paired e"
  have "paired (callback_enter i e)"
    by (rule callback_enter_rule [where Q = paired]) (use p in \<open>simp_all add: paired_keep\<close>)
  then show ?thesis using CbIdle by (simp add: callback_step_def)
next
  case (CbAccounted g ph j out)
  then show "paired e \<Longrightarrow> ?thesis" by (simp add: callback_step_def paired_publish)
qed (auto simp: callback_step_def callback_render_def render_playback_def pop_playback_def take_up_fade_def
    callback_write_def callback_account_def ae_say_def request_playback_fence_def bump_def paired_def
    Let_def split_beta split: option.split)

lemma paired_step: "paired e \<Longrightarrow> leaves_capture x \<Longrightarrow> paired (engine_step e x)"
proof (cases x)
  case (Callback i)
  then show "paired e \<Longrightarrow> ?thesis" by (simp add: paired_callback)
qed (auto simp: paired_def enqueue_playback_def try_pop_playback_write_def set_playback_gain_def
    request_fade_to_silence_def mark_playback_inactive_def request_playback_fence_def mark_discontinuity_def
    set_phase_def ae_say_def bump_def Let_def split_beta split: option.split)

text \<open>The two pops of the session, next to each other.\<close>

definition pop_pair :: "audio_engine \<Rightarrow> (audio_frame \<times> audio_frame option) option \<times> audio_engine" where
  "pop_pair e =
     (case try_pop_capture False e of
        (None, e) \<Rightarrow> (None, e)
      | (Some f, e) \<Rightarrow> (let (r, e) = try_pop_reference e in (Some (f, r), e)))"

datatype capture_call = Pumped | Others engine_call

primrec capture_step :: "audio_engine \<Rightarrow> capture_call \<Rightarrow> audio_engine" where
  "capture_step e Pumped = snd (pop_pair e)"
| "capture_step e (Others x) = (if leaves_capture x then engine_step e x else e)"

lemma paired_pop_capture:
  assumes p: "paired e"
  shows "capture_pop False e =
    (case drop (ae_consumer e) (ae_captures e) of
       [] \<Rightarrow> (None, 0, e)
     | f # fs \<Rightarrow> (Some f, 0, e\<lparr>ae_consumer := ae_consumer e + 1\<rparr>))"
proof -
  have "length (ae_reference e) = length (ae_captures e) - ae_consumer e"
    using p unfolding paired_def by (metis length_drop length_map)
  then have n: "length (ae_captures e) < ae_consumer e + ring_capacity" "ae_consumer e \<le> length (ae_captures e)"
    using p by (auto simp: paired_def)
  show ?thesis
  proof (cases "drop (ae_consumer e) (ae_captures e)")
    case Nil
    then show ?thesis using n by (simp add: capture_pop_def Let_def)
  next
    case (Cons f fs)
    then have "ae_consumer e < length (ae_captures e)" by (metis drop_eq_Nil leI list.distinct(1))
    moreover have "ae_captures e ! ae_consumer e = f"
      using Cons calculation by (metis Cons_nth_drop_Suc list.inject)
    ultimately show ?thesis using n Cons by (auto simp: capture_pop_def Let_def)
  qed
qed

lemma pop_pair_cases:
  assumes p: "paired e"
  shows "paired (snd (pop_pair e)) \<and> (\<forall>f r. fst (pop_pair e) = Some (f, r) \<longrightarrow>
    (\<exists>q. r = Some q \<and> af_generation q = af_generation f \<and> af_generation f = ae_generation e))"
proof (cases "drop (ae_consumer e) (ae_captures e)")
  case Nil
  then show ?thesis using p by (simp add: pop_pair_def try_pop_capture_def paired_pop_capture [OF p])
next
  case (Cons f fs)
  obtain q qs where q: "ae_reference e = q # qs" "af_generation q = af_generation f"
      "map af_generation qs = map af_generation fs"
    using p Cons unfolding paired_def by (cases "ae_reference e") auto
  have d: "drop (Suc (ae_consumer e)) (ae_captures e) = fs"
    using Cons by (metis drop_Suc tl_drop list.sel(3))
  have c: "Suc (ae_consumer e) \<le> length (ae_captures e)"
    using Cons by (metis Suc_leI drop_eq_Nil leI list.distinct(1))
  have t: "try_pop_capture False e = (if af_generation f \<noteq> ae_generation e
      then (None, bump CaptureReportedDrops 1 (bump CaptureOverflows 1
        (e\<lparr>ae_consumer := ae_consumer e + 1, ae_reference := qs\<rparr>)))
      else (Some f, bump CaptureDelivered 1 (e\<lparr>ae_consumer := ae_consumer e + 1\<rparr>)))"
    by (simp add: try_pop_capture_def paired_pop_capture [OF p] Cons q(1) Let_def)
  have r: "pop_current ring_capacity ok (x # xs) = (Some x, xs, 0)" if "ok x" for ok x and xs :: "audio_frame list"
    using that by (simp add: ring_capacity_def numeral_nat)
  show ?thesis
    using p q c d unfolding pop_pair_def t try_pop_reference_def
    by (auto simp: paired_def bump_def r Let_def)
qed

text \<open>
  As long as the two pops of a pump are next to each other, a capture that is delivered comes with a
  render reference of its own, current generation; so the session never fails for want of a reference.
\<close>

lemma capture_finds_its_reference:
  assumes "fst (pop_pair (run capture_step engine_init es)) = Some (f, r)"
  shows "\<exists>q. r = Some q \<and> af_generation q = af_generation f
    \<and> af_generation f = ae_generation (run capture_step engine_init es)"
proof -
  have "paired e \<Longrightarrow> paired (run capture_step e es)" for e
  proof (induction es arbitrary: e)
    case (Cons x es)
    then show ?case by (cases x) (simp_all add: paired_step pop_pair_cases)
  qed simp
  moreover have "paired engine_init" by (simp add: paired_def engine_init_def ring_capacity_def)
  ultimately show ?thesis using pop_pair_cases assms by blast
qed

subsection \<open>A discontinuity between the two pops\<close>

text \<open>
  The callback may commit an input overflow between the two pops: the reference of the delivered capture is
  then of the generation before, and the pop skips it.
\<close>

definition plain_callback :: callback_input where
  "plain_callback = \<lparr>ci_capture = None, ci_output = False, ci_frames = frame_samples, ci_input_overflow = False,
     ci_output_underflow = False, ci_input_underflow = False\<rparr>"

definition overflow_callback :: callback_input where
  "overflow_callback = plain_callback\<lparr>ci_input_overflow := True\<rparr>"

text \<open>One whole callback from a fresh engine.\<close>

lemma one_callback:
  "\<exists>out. ae_captures (engine_run (replicate 5 (Callback plain_callback))) =
      [\<lparr>af_generation = 1, af_samples = silence frame_samples\<rparr>]
    \<and> ae_reference (engine_run (replicate 5 (Callback plain_callback))) =
      [\<lparr>af_generation = 1, af_samples = out\<rparr>]
    \<and> ae_consumer (engine_run (replicate 5 (Callback plain_callback))) = 0
    \<and> ae_generation (engine_run (replicate 5 (Callback plain_callback))) = 1
    \<and> ae_callback (engine_run (replicate 5 (Callback plain_callback))) = CbIdle
    \<and> ae_disc_requests (engine_run (replicate 5 (Callback plain_callback))) = 0
    \<and> ae_disc_observed (engine_run (replicate 5 (Callback plain_callback))) = 0
    \<and> ae_active (engine_run (replicate 5 (Callback plain_callback))) = False"
  by (simp add: engine_run_def numeral_nat engine_init_def plain_callback_def callback_step_def callback_enter_def
      commit_pending_discontinuities_def commit_pending_playback_fences_def callback_render_def render_playback_def
      pop_playback_def take_up_fade_def playback_capacity_def callback_write_def callback_account_def
      callback_publish_def bump_def fifo_push_def fifo_can_push_def ring_capacity_def Let_def split_beta)

lemma overflow_loses_reference:
  assumes "ae_captures e = [f]" "ae_reference e = [r]" "ae_consumer e = 0" "ae_callback e = CbIdle"
    and "ae_disc_requests e = ae_disc_observed e" "\<not> ae_active e" "af_generation f = ae_generation e"
    and "af_generation r = ae_generation e"
  shows "fst (try_pop_capture False e) = Some f
    \<and> fst (try_pop_reference (callback_step overflow_callback (snd (try_pop_capture False e)))) = None"
  using assms
  by (simp add: try_pop_capture_def capture_pop_def ring_capacity_def try_pop_reference_def overflow_callback_def
      plain_callback_def callback_step_def callback_enter_def commit_pending_discontinuities_def
      commit_pending_playback_fences_def commit_capture_discontinuity_def exit_silent_def bump_def fifo_can_push_def
      Let_def split_beta numeral_nat)

text \<open>
  The session's two pops are not one step: after one frame has been captured, an input overflow between
  them delivers the capture and loses its reference, which the session answers by failing.
\<close>

lemma overflow_between_pops_loses_reference:
  "\<exists>f. fst (try_pop_capture False (engine_run (replicate 5 (Callback plain_callback)))) = Some f
    \<and> fst (try_pop_reference (callback_step overflow_callback
        (snd (try_pop_capture False (engine_run (replicate 5 (Callback plain_callback))))))) = None"
proof -
  obtain out where "ae_captures (engine_run (replicate 5 (Callback plain_callback))) =
      [\<lparr>af_generation = 1, af_samples = silence frame_samples\<rparr>]
    \<and> ae_reference (engine_run (replicate 5 (Callback plain_callback))) = [\<lparr>af_generation = 1, af_samples = out\<rparr>]
    \<and> ae_consumer (engine_run (replicate 5 (Callback plain_callback))) = 0
    \<and> ae_generation (engine_run (replicate 5 (Callback plain_callback))) = 1
    \<and> ae_callback (engine_run (replicate 5 (Callback plain_callback))) = CbIdle
    \<and> ae_disc_requests (engine_run (replicate 5 (Callback plain_callback))) = 0
    \<and> ae_disc_observed (engine_run (replicate 5 (Callback plain_callback))) = 0
    \<and> ae_active (engine_run (replicate 5 (Callback plain_callback))) = False"
    using one_callback by blast
  then have "fst (try_pop_capture False (engine_run (replicate 5 (Callback plain_callback)))) =
      Some \<lparr>af_generation = 1, af_samples = silence frame_samples\<rparr>
    \<and> fst (try_pop_reference (callback_step overflow_callback
        (snd (try_pop_capture False (engine_run (replicate 5 (Callback plain_callback))))))) = None"
    by (elim conjE, intro overflow_loses_reference [where r = "\<lparr>af_generation = 1, af_samples = out\<rparr>"])
      (simp_all only: audio_frame.select_convs not_False_eq_True)
  then show ?thesis by blast
qed

end
