(* ===== verification/Dsp_Pipeline.thy ===== *)
theory Dsp_Pipeline
  imports Binary_Float "HOL-Library.Signed_Division"
begin

text \<open>
  The cleaning of captured audio (\<open>DspPipeline\<close>, dsp_pipeline.hpp and .cpp): the order and continuity checks
  around the echo canceller, a parameter here, and the low-pass filter and 3:1 decimation from 48 to 16 kHz.
\<close>

subsection \<open>Frames, configuration and adapter\<close>

datatype dsp_discontinuity = DspNone | DspXrun | DspRingOverflow | DspUnrecoverable

record dsp_input =
  di_generation :: u64
  di_sequence :: u64
  di_delay :: dbl
  di_discontinuity :: dsp_discontinuity
  di_reference :: "u16 list"
  di_capture :: "u16 list"

record dsp_configuration =
  dc_render_rate :: u32
  dc_capture_rate :: u32
  dc_output_rate :: u32
  dc_channels :: u32
  dc_frame_samples :: u32

definition default_configuration :: dsp_configuration where
  "default_configuration = \<lparr>dc_render_rate = 48000, dc_capture_rate = 48000, dc_output_rate = 16000, dc_channels = 1,
     dc_frame_samples = 480\<rparr>"

datatype dsp_status = DspCleaned | DspInvalidConfiguration | DspInvalidDelay | DspDiscontinuous | DspReorderedFrame
  | DspAdapterFailure | DspRejected

text \<open>\<open>DspAdapter\<close>: the render reference, the stream delay, the capture cleaned in place, and the reset.\<close>

record 'd dsp_adapter =
  da_render :: "u16 list \<Rightarrow> 'd \<Rightarrow> bool \<times> 'd"
  da_delay :: "int \<Rightarrow> 'd \<Rightarrow> bool \<times> 'd"
  da_capture :: "u16 list \<Rightarrow> 'd \<Rightarrow> bool \<times> u16 list \<times> 'd"
  da_reset :: "'d \<Rightarrow> 'd"

record 'd dsp_pipeline =
  dp_valid :: bool
  dp_has_generation :: bool
  dp_generation :: u64
  dp_quarantined :: bool
  dp_expected :: u64
  dp_phase :: nat
  dp_history :: "int list"
  dp_initialized :: bool
  dp_adapter :: 'd

definition configuration_valid :: "dsp_configuration \<Rightarrow> bool" where
  "configuration_valid c \<longleftrightarrow> dc_render_rate c = 48000 \<and> dc_capture_rate c = 48000 \<and> dc_output_rate c = 16000
     \<and> dc_channels c = 1 \<and> dc_frame_samples c = 480"

definition dsp_init :: "dsp_configuration \<Rightarrow> 'd \<Rightarrow> 'd dsp_pipeline" where
  "dsp_init c d = \<lparr>dp_valid = configuration_valid c, dp_has_generation = False, dp_generation = 0,
     dp_quarantined = False, dp_expected = 0, dp_phase = 0, dp_history = replicate 6 0, dp_initialized = False,
     dp_adapter = d\<rparr>"

subsection \<open>The resampler\<close>

definition resample_taps :: "int list" where
  "resample_taps = [1, 6, 15, 20, 15, 6, 1]"

definition saturate_sample :: "int \<Rightarrow> u16" where
  "saturate_sample v = word_of_int (max (- 32768) (min v 32767))"

definition fir_filter :: "int \<Rightarrow> int list \<Rightarrow> int" where
  "fir_filter x history = x * resample_taps ! 0
     + (\<Sum>i\<leftarrow>[0..<length history]. history ! i * resample_taps ! (i + 1))"

definition fir_round :: "int \<Rightarrow> int" where
  "fir_round v = (if 0 \<le> v then (v + 32) sdiv 64 else (v - 32) sdiv 64)"

fun decimate :: "u16 list \<Rightarrow> int list \<Rightarrow> nat \<Rightarrow> u16 list \<times> int list \<times> nat" where
  "decimate [] history phase = ([], history, phase)"
| "decimate (x # xs) history phase =
     (let v = fir_filter (sint x) history;
          history' = sint x # butlast history;
          out = (if phase = 2 then [saturate_sample (fir_round v)] else []);
          (ys, h, p) = decimate xs history' ((phase + 1) mod 3)
      in (out @ ys, h, p))"

subsection \<open>Processing\<close>

definition reset_processing :: "'d dsp_adapter \<Rightarrow> 'd dsp_pipeline \<Rightarrow> 'd dsp_pipeline" where
  "reset_processing a p = p\<lparr>dp_adapter := da_reset a (dp_adapter p), dp_expected := 0, dp_phase := 0,
     dp_history := replicate 6 0, dp_initialized := False\<rparr>"

definition dsp_reject :: "'d dsp_adapter \<Rightarrow> bool \<Rightarrow> 'd dsp_pipeline \<Rightarrow> 'd dsp_pipeline" where
  "dsp_reject a quarantine p0 =
     (let p = reset_processing a p0
      in p\<lparr>dp_quarantined := dp_quarantined p \<or> quarantine \<and> dp_has_generation p\<rparr>)"

definition dsp_begin_generation :: "'d dsp_adapter \<Rightarrow> dsp_input \<Rightarrow> 'd dsp_pipeline \<Rightarrow> 'd dsp_pipeline" where
  "dsp_begin_generation a i p =
     (if \<not> dp_has_generation p \<or> dp_generation p < di_generation i
      then (if dp_has_generation p then reset_processing a p else p)\<lparr>dp_has_generation := True,
        dp_generation := di_generation i, dp_quarantined := False, dp_expected := di_sequence i\<rparr>
      else p)"

definition delay_invalid :: "dbl \<Rightarrow> bool" where
  "delay_invalid d \<longleftrightarrow> \<not> isfinite d \<or> dlt d (Fin 40) \<or> dlt (Fin 250) d"

definition lround :: "dbl \<Rightarrow> int" where
  "lround d = (if 0 \<le> dval d then \<lfloor>dval d + 1 / 2\<rfloor> else - \<lfloor>- dval d + 1 / 2\<rfloor>)"

text \<open>The three calls of the adapter, each made only when the one before succeeded.\<close>

definition run_adapter :: "'d dsp_adapter \<Rightarrow> dsp_input \<Rightarrow> 'd \<Rightarrow> bool \<times> u16 list \<times> 'd" where
  "run_adapter a i d =
     (let (ok, d) = da_render a (di_reference i) d in
      if \<not> ok then (False, di_capture i, d)
      else
        let (ok, d) = da_delay a (lround (di_delay i)) d in
        if \<not> ok then (False, di_capture i, d) else da_capture a (di_capture i) d)"

definition dsp_process :: "'d dsp_adapter \<Rightarrow> dsp_input \<Rightarrow> 'd dsp_pipeline \<Rightarrow> (dsp_status \<times> u16 list) \<times> 'd dsp_pipeline" where
  "dsp_process a i p0 =
     (let none = replicate 160 0 in
      if \<not> dp_valid p0 then ((DspInvalidConfiguration, none), dsp_reject a False p0)
      else if dp_has_generation p0 \<and> di_generation i < dp_generation p0 then ((DspRejected, none), p0)
      else
        let p = dsp_begin_generation a i p0 in
        if delay_invalid (di_delay i) then ((DspInvalidDelay, none), dsp_reject a True p)
        else if dp_quarantined p then ((DspRejected, none), p)
        else if di_discontinuity i \<noteq> DspNone then ((DspDiscontinuous, none), dsp_reject a True p)
        else if di_sequence i \<noteq> dp_expected p then ((DspReorderedFrame, none), dsp_reject a True p)
        else
          let (ok, cleaned, d) = run_adapter a i (dp_adapter p); p = p\<lparr>dp_adapter := d\<rparr> in
          if \<not> ok then ((DspAdapterFailure, none), dsp_reject a True p)
          else
            let history = (if dp_initialized p then dp_history p else replicate 6 (sint (hd cleaned)));
                (out, history, phase) = decimate cleaned history (dp_phase p)
            in ((DspCleaned, out), p\<lparr>dp_initialized := True, dp_history := history, dp_phase := phase,
                 dp_expected := di_sequence i + 1\<rparr>))"

subsection \<open>The resampler stays in bounds\<close>

text \<open>Every third sample gives one of the output, from the phase on.\<close>

lemma decimate_length:
  "phase < 3 \<Longrightarrow> length (fst (decimate xs h phase)) = (length xs + phase) div 3
     \<and> snd (snd (decimate xs h phase)) = (length xs + phase) mod 3"
proof (induction xs arbitrary: h phase)
  case (Cons x xs)
  have p: "(phase + 1) mod 3 < 3" by simp
  have "phase = 0 \<or> phase = 1 \<or> phase = 2" using Cons.prems by auto
  then show ?case
    using Cons.IH [OF p] by (elim disjE) (simp_all add: Let_def split_beta)
qed simp

lemma decimate_history: "length h = 6 \<Longrightarrow> length (fst (snd (decimate xs h phase))) = 6"
  by (induction xs arbitrary: h phase) (simp_all add: Let_def split_beta)

text \<open>The contract of the adapter: a cleaned frame has as many samples as the captured one.\<close>

definition keeps_length :: "'d dsp_adapter \<Rightarrow> bool" where
  "keeps_length a \<longleftrightarrow> (\<forall>xs d. length (fst (snd (da_capture a xs d))) = length xs)"

text \<open>Between frames the phase is zero and the history has six samples.\<close>

definition dsp_inv :: "'d dsp_pipeline \<Rightarrow> bool" where
  "dsp_inv p \<longleftrightarrow> dp_phase p = 0 \<and> length (dp_history p) = 6"

lemma dsp_inv_process:
  assumes "dsp_inv p" "keeps_length a" "length (di_capture i) = 480"
  shows "dsp_inv (snd (dsp_process a i p)) \<and> length (snd (fst (dsp_process a i p))) = 160"
proof -
  have b: "dsp_inv (dsp_begin_generation a i p)" "dsp_inv (dsp_reject a q r)" for q r
    using assms(1) by (simp_all add: dsp_inv_def dsp_begin_generation_def dsp_reject_def reset_processing_def Let_def)
  have l: "length (fst (snd (run_adapter a i d))) = 480" for d
    using assms(2,3) by (simp add: run_adapter_def keeps_length_def Let_def split_beta)
  have "dsp_inv (q\<lparr>dp_adapter := d, dp_initialized := True, dp_history := fst (snd (decimate xs h 0)),
      dp_phase := snd (snd (decimate xs h 0)), dp_expected := e\<rparr>)" "length (fst (decimate xs h 0)) = 160"
    if "length xs = 480" "length h = 6" for q d xs h e
    using that decimate_length [of 0 xs h] decimate_history [of h xs 0] by (simp_all add: dsp_inv_def)
  note finished = this
  have h: "dp_phase (dsp_begin_generation a i p) = 0" "length (dp_history (dsp_begin_generation a i p)) = 6"
    using b(1) by (simp_all add: dsp_inv_def)
  show ?thesis
    using assms(1) b by (simp add: dsp_process_def Let_def split_beta h l finished)
qed

text \<open>A steady signal passes unchanged: the taps sum to the divisor of the rounding.\<close>

lemma fir_constant: "fir_filter c (replicate 6 c) = 64 * c"
  by (simp add: fir_filter_def resample_taps_def upt_rec numeral_nat)

lemma fir_round_exact: "fir_round (64 * c) = c"
proof -
  have "\<bar>64 * c + 32\<bar> div 64 = \<bar>c\<bar>" if "0 \<le> c" using that by simp
  moreover have "\<bar>64 * c - 32\<bar> div 64 = \<bar>c\<bar>" if "c < 0" using that by simp
  ultimately show ?thesis
    by (auto simp: fir_round_def signed_divide_int_def sgn_if)
qed

lemma saturate_sint: "saturate_sample (sint x) = x"
proof -
  have "- 32768 \<le> sint x" "sint x < 32768"
    using sint_range_size [of x] by (simp_all add: word_size)
  then show ?thesis by (simp add: saturate_sample_def)
qed

lemma decimate_constant:
  "phase < 3 \<Longrightarrow> fst (decimate (replicate n x) (replicate 6 (sint x)) phase) = replicate ((n + phase) div 3) x"
proof (induction n arbitrary: phase)
  case (Suc n)
  have h: "sint x # butlast (replicate 6 (sint x)) = replicate 6 (sint x)" by (simp add: numeral_nat)
  have p: "(phase + 1) mod 3 < 3" by simp
  have "phase = 0 \<or> phase = 1 \<or> phase = 2" using Suc.prems by auto
  then show ?case
    using Suc.IH [OF p] h
    by (elim disjE) (simp_all add: Let_def split_beta fir_constant fir_round_exact saturate_sint)
qed simp

end
