(* ===== verification/Voice_Session.thy ===== *)
theory Voice_Session
  imports Voice_Coordination Speech_Output Audio_Capture Dsp_Pipeline
begin

text \<open>
  The continuous session (\<open>ContinuousVadSession\<close>, continuous_vad_session.hpp and .cpp) over the voice pipeline
  (\<open>VoicePipeline\<close>, voice_pipeline.cpp): captured frames go through the engine, the cleaning and the speech
  input, whose wakes and STOP turns reach the speech output. The recognizer and the echo canceller are
  parameters; a pump is two steps, so that callbacks come between its two pops.
\<close>

subsection \<open>The pipeline\<close>

text \<open>The output as the coordination uses it.\<close>

definition pipeline_control :: "speech_output output_control" where
  "pipeline_control = \<lparr>oc_wake = admit_ordinary_wake, oc_stop = interrupt_for_stop\<rparr>"

definition pipeline_coordination :: "speech_output voice_link coordination option" where
  "pipeline_coordination = Some (voice_coordination pipeline_control)"

text \<open>Starting and stopping the device's stream (\<open>PortAudioAdapter\<close>), as the engine sees it.\<close>

definition stream_lifecycle :: "audio_engine \<Rightarrow> audio_engine" where
  "stream_lifecycle e = mark_discontinuity DrStreamLifecycle (set_phase PhaseCapture e)"

record 'd voice_session =
  vs_input :: "speech_output voice_link speech_input"
  vs_dsp :: "'d dsp_pipeline"
  vs_publisher :: bool
  vs_warmup :: nat
  vs_next_seq :: u64
  vs_captured :: "audio_frame option"
  vs_failed :: bool
  vs_fed :: "clean_frame list"

definition session_init :: "u8 list option \<Rightarrow> 'd \<Rightarrow> 'd voice_session" where
  "session_init identity d =
     \<lparr>vs_input = input_init identity (link_init (output_init (stream_lifecycle engine_init))),
      vs_dsp = dsp_init default_configuration d, vs_publisher = False, vs_warmup = 0, vs_next_seq = 1,
      vs_captured = None, vs_failed = False, vs_fed = []\<rparr>"

definition session_engine :: "'d voice_session \<Rightarrow> audio_engine" where
  "session_engine v = so_engine (vl_output (si_coordination (vs_input v)))"

definition on_output :: "(speech_output \<Rightarrow> speech_output) \<Rightarrow> 'd voice_session \<Rightarrow> 'd voice_session" where
  "on_output f v = v\<lparr>vs_input := (vs_input v)\<lparr>si_coordination := (si_coordination (vs_input v))
     \<lparr>vl_output := f (vl_output (si_coordination (vs_input v)))\<rparr>\<rparr>\<rparr>"

definition put_engine :: "audio_engine \<Rightarrow> 'd voice_session \<Rightarrow> 'd voice_session" where
  "put_engine e = on_output (\<lambda>x. x\<lparr>so_engine := e\<rparr>)"

subsection \<open>The pump\<close>

text \<open>A failure stops the capture; the node ends with it, so nothing is pumped afterwards.\<close>

definition session_fail :: "'d voice_session \<Rightarrow> 'd voice_session" where
  "session_fail v = (put_engine (stream_lifecycle (session_engine v)) v)\<lparr>vs_failed := True\<rparr>"

definition pump_capture :: "bool \<Rightarrow> 'd voice_session \<Rightarrow> 'd voice_session" where
  "pump_capture torn v =
     (if vs_failed v \<or> vs_captured v \<noteq> None then v
      else let (f, e) = try_pop_capture torn (session_engine v) in (put_engine e v)\<lparr>vs_captured := f\<rparr>)"

definition session_frame :: "dsp_input \<Rightarrow> u16 list \<Rightarrow> clean_frame" where
  "session_frame i xs = \<lparr>cf_rate = 16000, cf_channels = 1, cf_generation = di_generation i, cf_seq = di_sequence i,
     cf_valid = 160, cf_samples = xs\<rparr>"

definition pump_input :: "audio_frame \<Rightarrow> audio_frame \<Rightarrow> u64 \<Rightarrow> dsp_input" where
  "pump_input f r k = \<lparr>di_generation = af_generation f, di_sequence = k, di_delay = Fin 100,
     di_discontinuity = DspNone, di_reference = af_samples r, di_capture = af_samples f\<rparr>"

text \<open>
  The rest of the pump: the cleaning of a capture with its reference, and what becomes of it; \<open>activated\<close>
  says that the publisher could be created.
\<close>

definition pump_frame ::
    "'d dsp_adapter \<Rightarrow> bool \<Rightarrow> audio_frame \<Rightarrow> audio_frame \<Rightarrow> 'd voice_session \<Rightarrow> 'd voice_session" where
  "pump_frame a activated f r v =
     (let i = pump_input f r (vs_next_seq v);
          ((status, out), dsp) = dsp_process a i (vs_dsp v);
          v = v\<lparr>vs_next_seq := vs_next_seq v + 1, vs_dsp := dsp\<rparr>
      in if status \<noteq> DspCleaned then session_fail v
         else if \<not> vs_publisher v then
           (let v = v\<lparr>vs_warmup := vs_warmup v + 1\<rparr>
            in if vs_warmup v < 3 then v
               else if \<not> activated then session_fail v
               else v\<lparr>vs_publisher := True\<rparr>)
         else v\<lparr>vs_input := accept_cleaned_frame (session_frame i out) (vs_input v),
                vs_fed := vs_fed v @ [session_frame i out]\<rparr>)"

definition pump_rest :: "'d dsp_adapter \<Rightarrow> bool \<Rightarrow> 'd voice_session \<Rightarrow> 'd voice_session" where
  "pump_rest a activated v =
     (case vs_captured v of
        None \<Rightarrow> v
      | Some f \<Rightarrow>
          let (r, e) = try_pop_reference (session_engine v);
              v = (put_engine e v)\<lparr>vs_captured := None\<rparr>
          in case r of None \<Rightarrow> session_fail v | Some r \<Rightarrow> pump_frame a activated f r v)"

datatype session_call = PumpCapture bool | PumpRest bool | Recognized speech_event | StopAnswered stop_mission_response
  | OnOutput output_call

primrec session_step :: "'d dsp_adapter \<Rightarrow> 'd voice_session \<Rightarrow> session_call \<Rightarrow> 'd voice_session" where
  "session_step a v (PumpCapture torn) = pump_capture torn v"
| "session_step a v (PumpRest activated) = pump_rest a activated v"
| "session_step a v (Recognized e) = v\<lparr>vs_input := on_speech_event pipeline_coordination e (vs_input v)\<rparr>"
| "session_step a v (StopAnswered r) =
     v\<lparr>vs_input := (vs_input v)\<lparr>si_coordination := on_stop_response r (si_coordination (vs_input v))\<rparr>\<rparr>"
| "session_step a v (OnOutput c) = on_output (\<lambda>x. output_step x c) v"

subsection \<open>The frames of a session reach the recognizer\<close>

text \<open>
  What the input needs of the session: it is at the number before the session's next, and not ahead of the
  cleaning's generation; or the session has failed, or has fed nothing yet.
\<close>

definition in_step :: "nat \<Rightarrow> 'd voice_session \<Rightarrow> bool" where
  "in_step n v \<longleftrightarrow>
     vs_failed v \<or> (\<not> si_has_seq (vs_input v) \<and> \<not> si_has_generation (vs_input v))
      \<or> (vs_publisher v \<and> si_has_seq (vs_input v) \<and> si_latest_seq (vs_input v) + 1 = of_nat n
         \<and> dp_has_generation (vs_dsp v) \<and> si_generation (vs_input v) \<le> dp_generation (vs_dsp v))"

definition session_inv :: "nat \<Rightarrow> 'd voice_session \<Rightarrow> bool" where
  "session_inv n v \<longleftrightarrow> 0 < n \<and> vs_next_seq v = of_nat n \<and> si_ready (vs_input v) \<and> \<not> si_quarantined (vs_input v)
     \<and> processed (si_trace (vs_input v)) = vs_fed v \<and> in_step n v \<and> (vs_failed v \<longrightarrow> vs_captured v = None)"

lemma session_init_inv: "identity \<noteq> None \<Longrightarrow> session_inv 1 (session_init identity d)"
  by (simp add: session_inv_def session_init_def input_init_def in_step_def)

lemma on_output_fields [simp]:
  "vs_dsp (on_output f v) = vs_dsp v" "vs_publisher (on_output f v) = vs_publisher v"
  "vs_warmup (on_output f v) = vs_warmup v" "vs_next_seq (on_output f v) = vs_next_seq v"
  "vs_captured (on_output f v) = vs_captured v" "vs_failed (on_output f v) = vs_failed v"
  "vs_fed (on_output f v) = vs_fed v" "si_ready (vs_input (on_output f v)) = si_ready (vs_input v)"
  "si_quarantined (vs_input (on_output f v)) = si_quarantined (vs_input v)"
  "si_trace (vs_input (on_output f v)) = si_trace (vs_input v)"
  "si_has_seq (vs_input (on_output f v)) = si_has_seq (vs_input v)"
  "si_has_generation (vs_input (on_output f v)) = si_has_generation (vs_input v)"
  "si_latest_seq (vs_input (on_output f v)) = si_latest_seq (vs_input v)"
  "si_generation (vs_input (on_output f v)) = si_generation (vs_input v)"
  by (simp_all add: on_output_def)

lemma put_engine_inv [simp]: "session_inv n (put_engine e v) = session_inv n v"
  by (simp add: session_inv_def put_engine_def in_step_def)

lemma session_output: "session_inv n v \<Longrightarrow> session_inv n (on_output f v)"
  by (simp add: session_inv_def in_step_def)

lemma event_ready [simp]: "si_ready (on_speech_event co e s) = si_ready s"
  by (simp add: on_speech_event_def on_wake_def on_endpoint_def publish_final_eq Let_def split_beta
      split: speech_kind.split)

lemma session_event: "session_inv n v \<Longrightarrow> session_inv n (v\<lparr>vs_input := on_speech_event co e (vs_input v)\<rparr>)"
  using event_same_stream [of "vs_input v" co e] by (simp add: session_inv_def in_step_def same_stream_def)

lemma session_failed:
  "vs_next_seq v = of_nat n \<Longrightarrow> 0 < n \<Longrightarrow> si_ready (vs_input v) \<Longrightarrow> \<not> si_quarantined (vs_input v)
     \<Longrightarrow> processed (si_trace (vs_input v)) = vs_fed v \<Longrightarrow> vs_captured v = None \<Longrightarrow> session_inv n (session_fail v)"
  by (simp add: session_fail_def session_inv_def put_engine_def in_step_def)

text \<open>A cleaned frame: its generation is the pipeline's, and not before what it was.\<close>

lemma cleaned_generation:
  assumes "fst (fst (dsp_process a i p)) = DspCleaned"
  shows "dp_has_generation (snd (dsp_process a i p)) \<and> dp_generation (snd (dsp_process a i p)) = di_generation i
    \<and> (dp_has_generation p \<longrightarrow> dp_generation p \<le> di_generation i)"
  using assms
  by (auto simp: dsp_process_def dsp_begin_generation_def reset_processing_def Let_def split_beta split: if_splits)

text \<open>The step of the input on the session's next frame.\<close>

lemma accept_next:
  assumes r: "si_ready s" and q: "\<not> si_quarantined s" and f: "f = session_frame i xs"
    and g: "si_has_generation s \<Longrightarrow> si_generation s \<le> di_generation i"
    and n: "si_has_seq s \<Longrightarrow> si_latest_seq s \<noteq> u64_max \<and> di_sequence i = si_latest_seq s + 1"
    and z: "di_sequence i \<noteq> 0"
  shows "si_ready (accept_cleaned_frame f s) \<and> \<not> si_quarantined (accept_cleaned_frame f s)
    \<and> processed (si_trace (accept_cleaned_frame f s)) = processed (si_trace s) @ [f]
    \<and> si_has_seq (accept_cleaned_frame f s) \<and> si_has_generation (accept_cleaned_frame f s)
    \<and> si_latest_seq (accept_cleaned_frame f s) = di_sequence i
    \<and> si_generation (accept_cleaned_frame f s) = di_generation i"
proof -
  have "\<not> frame_malformed f" by (simp add: f session_frame_def frame_malformed_def)
  moreover have "\<not> (si_has_generation s \<and> cf_generation f < si_generation s)"
    using g by (auto simp: f session_frame_def)
  ultimately show ?thesis
    using r q g n z
    by (auto simp: accept_cleaned_frame_def admit_frame_def begin_generation_def si_say_def f session_frame_def Let_def)
qed

lemma session_pump:
  assumes i: "session_inv n v" and l: "n < 2 ^ 64"
  shows "\<exists>m\<le>Suc n. session_inv m (pump_rest a activated v)"
proof (cases "vs_captured v")
  case None
  then show ?thesis using i by (auto simp: pump_rest_def intro!: exI [of _ n])
next
  case (Some f)
  obtain r e where r: "try_pop_reference (session_engine v) = (r, e)" by (cases "try_pop_reference (session_engine v)")
  define w where "w = (put_engine e v)\<lparr>vs_captured := None\<rparr>"
  have w: "vs_next_seq w = of_nat n" "0 < n" "si_ready (vs_input w)" "\<not> si_quarantined (vs_input w)"
    "processed (si_trace (vs_input w)) = vs_fed w" "vs_captured w = None" "in_step n w" "\<not> vs_failed w"
    using i Some unfolding w_def by (auto simp: session_inv_def in_step_def put_engine_def)
  show ?thesis
  proof (cases r)
    case None
    then have "pump_rest a activated v = session_fail w" using Some r by (simp add: pump_rest_def w_def Let_def)
    then show ?thesis using session_failed [OF w(1-6)] by (auto intro!: exI [of _ n])
  next
    case (Some q)
    define d where "d = pump_input f q (vs_next_seq w)"
    obtain status out dsp where p: "dsp_process a d (vs_dsp w) = ((status, out), dsp)"
      by (metis surj_pair)
    have d: "di_sequence d = of_nat n" "di_generation d = af_generation f" using w(1) by (simp_all add: d_def pump_input_def)
    define u where "u = w\<lparr>vs_next_seq := vs_next_seq w + 1, vs_dsp := dsp\<rparr>"
    have pr: "pump_rest a activated v =
       (if status \<noteq> DspCleaned then session_fail u
        else if \<not> vs_publisher u then
          (if vs_warmup u + 1 < 3 then u\<lparr>vs_warmup := vs_warmup u + 1\<rparr>
           else if \<not> activated then session_fail (u\<lparr>vs_warmup := vs_warmup u + 1\<rparr>)
           else u\<lparr>vs_warmup := vs_warmup u + 1, vs_publisher := True\<rparr>)
        else u\<lparr>vs_input := accept_cleaned_frame (session_frame d out) (vs_input u),
               vs_fed := vs_fed u @ [session_frame d out]\<rparr>)"
    proof -
      have "pump_rest a activated v = pump_frame a activated f q w"
        using \<open>vs_captured v = Some f\<close> r Some by (simp add: pump_rest_def w_def)
      then show ?thesis
        unfolding pump_frame_def Let_def d_def [symmetric] p prod.case u_def [symmetric] by simp
    qed
    have u: "vs_next_seq u = of_nat (Suc n)" "0 < Suc n" "si_ready (vs_input u)" "\<not> si_quarantined (vs_input u)"
      "processed (si_trace (vs_input u)) = vs_fed u" "vs_captured u = None"
      using w by (simp_all add: u_def)
    have fail: "session_inv (Suc n) (session_fail (u\<lparr>vs_warmup := k\<rparr>))" "session_inv (Suc n) (session_fail u)" for k
      by (rule session_failed; use u in simp)+
    have fresh: "\<not> si_has_seq (vs_input u) \<and> \<not> si_has_generation (vs_input u)" if "\<not> vs_publisher u"
      using that w(7,8) by (auto simp: in_step_def u_def)
    have "session_inv (Suc n) (pump_rest a activated v)"
    proof (cases "status = DspCleaned \<and> vs_publisher u")
      case True
      have c: "dp_has_generation dsp" "dp_generation dsp = di_generation d"
        "dp_has_generation (vs_dsp w) \<longrightarrow> dp_generation (vs_dsp w) \<le> di_generation d"
        using cleaned_generation [of a d "vs_dsp w"] p True by simp_all
      have nz: "(of_nat n :: u64) \<noteq> 0"
        using unat_u64_of_nat [OF l] w(2) by (metis less_numeral_extra(3) unat_0)
      have "si_generation (vs_input u) \<le> di_generation d" if "si_has_generation (vs_input u)"
        using that w(7,8) c by (auto simp: in_step_def u_def)
      moreover have "si_latest_seq (vs_input u) \<noteq> u64_max \<and> di_sequence d = si_latest_seq (vs_input u) + 1"
        if "si_has_seq (vs_input u)"
        using that w(7,8) d(1) nz by (auto simp: in_step_def u_def u64_max_def)
      ultimately have "si_ready (accept_cleaned_frame (session_frame d out) (vs_input u))
          \<and> \<not> si_quarantined (accept_cleaned_frame (session_frame d out) (vs_input u))
          \<and> processed (si_trace (accept_cleaned_frame (session_frame d out) (vs_input u))) =
              processed (si_trace (vs_input u)) @ [session_frame d out]
          \<and> si_has_seq (accept_cleaned_frame (session_frame d out) (vs_input u))
          \<and> si_has_generation (accept_cleaned_frame (session_frame d out) (vs_input u))
          \<and> si_latest_seq (accept_cleaned_frame (session_frame d out) (vs_input u)) = di_sequence d
          \<and> si_generation (accept_cleaned_frame (session_frame d out) (vs_input u)) = di_generation d"
        using u nz d(1) by (intro accept_next) simp_all
      then show ?thesis
        using True u c d(1) w(8) unfolding pr by (simp add: session_inv_def in_step_def u_def)
    next
      case False
      then show ?thesis
        using u fail fresh w(8) unfolding pr by (auto simp: session_inv_def in_step_def)
    qed
    then show ?thesis by blast
  qed
qed

lemma session_step_inv:
  assumes i: "session_inv n v" and l: "n < 2 ^ 64"
  shows "\<exists>m\<le>Suc n. session_inv m (session_step a v x)"
proof -
  have same: "session_inv n w \<Longrightarrow> \<exists>m\<le>Suc n. session_inv m w" for w by (auto intro: exI [of _ n])
  show ?thesis
  proof (cases x)
    case (PumpRest b)
    then show ?thesis using session_pump [OF assms] by simp
  next
    case (PumpCapture t)
    have "session_inv n (pump_capture t v)"
      using i by (auto simp: pump_capture_def Let_def split_beta session_inv_def in_step_def put_engine_def)
    then show ?thesis using same PumpCapture by simp
  next
    case (Recognized e)
    then show ?thesis using same [OF session_event [OF i]] by simp
  next
    case (StopAnswered r)
    have "session_inv n (session_step a v x)"
      using i StopAnswered by (simp add: session_inv_def in_step_def)
    then show ?thesis by (rule same)
  next
    case (OnOutput c)
    then show ?thesis using same [OF session_output [OF i]] by simp
  qed
qed

lemma session_run_inv:
  "session_inv n v \<Longrightarrow> n + length es < 2 ^ 64 \<Longrightarrow> \<exists>m. session_inv m (run (session_step a) v es)"
proof (induction es arbitrary: n v)
  case (Cons x es)
  obtain m where "m \<le> Suc n" "session_inv m (session_step a v x)"
    using session_step_inv [OF Cons.prems(1), of a x] Cons.prems(2) by auto
  then show ?case using Cons.IH [of m "session_step a v x"] Cons.prems(2) by simp
qed auto


end
