(* ===== verification/Voice_Runs.thy ===== *)
theory Voice_Runs
  imports Voice_Session
begin

text \<open>
  Concrete runs of the speech and audio machines: the properties of their theories at inputs where their
  hypotheses hold.
\<close>

subsection \<open>Input and rings\<close>

definition one_stop_events :: "nat voice_call list" where
  "one_stop_events =
     [InputCall (FrameIn \<lparr>cf_rate = 16000, cf_channels = 1, cf_generation = 1, cf_seq = 1, cf_valid = 160,
        cf_samples = replicate 160 0\<rparr>),
      InputCall (EventIn (default_event\<lparr>se_kind := EndpointFinal, se_generation := 1, se_seq := 1,
        se_text := emergency_stop, se_confidence := Fin 1, se_turn_kind := TurnStop\<rparr>))]"

theorem every_stop_turn_is_requested_once_witness:
  "vl_requests (si_coordination (voice_input \<lparr>oc_wake = Pair True, oc_stop = \<lambda>n. (0 < n, n - 1)\<rparr> (Some (replicate 16 7)) 2
      one_stop_events)) =
    map request_of (stops_of (published (si_trace (voice_input \<lparr>oc_wake = Pair True, oc_stop = \<lambda>n. (0 < n, n - 1)\<rparr>
      (Some (replicate 16 7)) 2 one_stop_events))))"
  using every_stop_turn_is_requested_once [of one_stop_events "\<lparr>oc_wake = Pair True, oc_stop = \<lambda>n. (0 < n, n - 1)\<rparr>"
    "Some (replicate 16 7)" 2] by (simp add: one_stop_events_def)

theorem overwrite_ring_never_tears_witness:
  "length (or_delivered (ring_run (replicate 900 (Produce \<lparr>af_generation = 1, af_samples = replicate frame_samples 7\<rparr>)
      @ replicate 900 Consume))) +
    or_drops (ring_run (replicate 900 (Produce \<lparr>af_generation = 1, af_samples = replicate frame_samples 7\<rparr>)
      @ replicate 900 Consume)) =
    or_consumer (ring_run (replicate 900 (Produce \<lparr>af_generation = 1, af_samples = replicate frame_samples 7\<rparr>)
      @ replicate 900 Consume))"
  using overwrite_ring_never_tears [of "replicate 900 (Produce \<lparr>af_generation = 1, af_samples = replicate frame_samples 7\<rparr>)
      @ replicate 900 Consume"] by (simp add: list_all_iff)

theorem spsc_ring_is_fifo_witness:
  "length (sp_pushed (run spsc_access (spsc_start 2 (0 :: nat)) [ByProducer 7, ByProducer 7, ByConsumer, ByProducer 7])) <
     length (sp_popped (run spsc_access (spsc_start 2 (0 :: nat)) [ByProducer 7, ByProducer 7, ByConsumer, ByProducer 7])) + 2"
  using spsc_ring_is_fifo [of 2 "0 :: nat" "[ByProducer 7, ByProducer 7, ByConsumer, ByProducer 7]"] by simp

theorem capture_finds_its_reference_witness:
  "\<exists>f r. fst (pop_pair (run capture_step engine_init (replicate 5 (Others (Callback plain_callback))))) = Some (f, r)
    \<and> (\<exists>q. r = Some q \<and> af_generation q = af_generation f)"
proof -
  have "run capture_step engine_init (replicate 5 (Others (Callback plain_callback))) =
      engine_run (replicate 5 (Callback plain_callback))"
    by (simp add: engine_run_def numeral_nat)
  moreover obtain f e where "pop_pair (engine_run (replicate 5 (Callback plain_callback))) = (Some f, e)"
    using overflow_between_pops_loses_reference by (auto simp: pop_pair_def Let_def split_beta split: prod.splits)
  ultimately show ?thesis
    using capture_finds_its_reference [of "replicate 5 (Others (Callback plain_callback))" "fst f" "snd f"]
    by (cases f) auto
qed

subsection \<open>Playback\<close>

definition hello_goal :: speech_goal where
  "hello_goal = \<lparr>sg_instance = ''i'', sg_seq = 1, sg_session = ''s'', sg_turn = ''t'', sg_priority = normal_priority,
     sg_text = ''hello'', sg_barge_in = True\<rparr>"


text \<open>A packet that begins with a loud sample is heard, also at the start of a fade.\<close>

lemma loud_packet_heard:
  assumes "pk_samples k ! 0 = 7" and "0 < pk_count k" and "t = 0 \<or> t = 480"
  shows "audible (fst (render_loop 32768 t t (packet_inputs (Some k))))"
proof -
  obtain ys where "packet_inputs (Some k) = 7 # ys"
    using assms(1,2) by (simp add: packet_inputs_def frame_samples_def upt_rec [of 0])
  moreover have "7 \<in> set (fst (render_loop 32768 t t (7 # ys)))"
    using assms(3) by (auto simp: Let_def split_beta saturate_def)
  ultimately show ?thesis unfolding audible_def by (intro bexI [of _ 7]) simp_all
qed

definition loud_callback :: callback_input where
  "loud_callback = plain_callback\<lparr>ci_output := True\<rparr>"

definition hello_packet :: "u64 \<Rightarrow> u64 \<Rightarrow> u16 list \<Rightarrow> playback_packet" where
  "hello_packet g k xs = \<lparr>pk_generation = g, pk_scope = k, pk_count = length xs, pk_samples = xs @ replicate 474 0\<rparr>"

lemma pop_current_first: "0 < n \<Longrightarrow> ok x \<Longrightarrow> pop_current n ok (x # xs) = (Some x, xs, 0)"
  by (cases n) simp_all

lemmas callback_evaluation = pop_current_first callback_step_def callback_enter_def commit_pending_discontinuities_def
  commit_pending_playback_fences_def callback_render_def render_playback_def pop_playback_def take_up_fade_def
  playback_capacity_def callback_write_def has_pending_discontinuities_def has_pending_playback_fences_def
  bump_def fifo_push_def fifo_can_push_def ring_capacity_def frame_samples_def Let_def split_beta ae_say_def
  loud_callback_def plain_callback_def

lemma heard_run:
  assumes "e = engine_run [Enqueue (Some (replicate 6 7)) 1, Callback loud_callback, Callback loud_callback, Callback loud_callback]"
  shows "ae_log e = [PcmQueued (hello_packet 1 1 (replicate 6 7)),
    DeviceOutput (fst (render_loop 32768 0 0 (packet_inputs (Some (hello_packet 1 1 (replicate 6 7)))))) (Some (hello_packet 1 1 (replicate 6 7)))]"
  unfolding assms
  by (simp add: callback_evaluation engine_run_def engine_init_def enqueue_playback_def hello_packet_def)


definition quiet_callback :: callback_input where
  "quiet_callback = plain_callback\<lparr>ci_output_underflow := True\<rparr>"

text \<open>A goal is interrupted by a STOP; the next one is heard.\<close>

definition after_stop :: "output_call list" where
  "after_stop = [OnEngine (Callback quiet_callback), StartSpeech hello_goal, AdvanceSpeech, BeginSynthesis 2,
     TtsPcm 2 22050 1 (Some [7, 7, 7]), OnEngine (Callback loud_callback), OnEngine (Callback loud_callback),
     OnEngine (Callback loud_callback)]"

lemmas output_evaluation = output_run_def output_init_def engine_init_def start_speech_def hello_goal_def goal_valid_def
  normal_priority_def urgent_priority_def goal_scope_def no_playback_def begin_synthesis_def so_say_def on_pcm_def
  converted_count_def resample_def enqueue_playback_def frame_samples_def playback_capacity_def fifo_push_def
  fifo_can_push_def on_complete_def advance_speech_def take_writes.simps try_pop_playback_write_def
  advance_scope_def cancel_speech_def retire_scope_def request_fence_def ae_say_def bump_def interrupt_for_stop_def
  request_playback_fence_def request_fade_to_silence_def mark_playback_inactive_def Let_def

lemma upto_six: "[0..<6] = [0, 1, 2, 3, 4, 5 :: nat]"
  by (simp add: upt_rec)

lemma stop_run:
  "ae_log (so_engine (output_run ([StartSpeech hello_goal] @ VoiceStop # after_stop))) =
     ae_log (so_engine (output_run ([StartSpeech hello_goal] @ [VoiceStop]))) @ [PcmQueued (hello_packet 2 2 [7, 7, 7, 7, 7, 7])] @
       DeviceOutput (fst (render_loop 32768 480 480 (packet_inputs (Some (hello_packet 2 2 [7, 7, 7, 7, 7, 7]))))) (Some (hello_packet 2 2 [7, 7, 7, 7, 7, 7])) # []"
  by (simp add: output_evaluation callback_evaluation after_stop_def quiet_callback_def exit_silent_def hello_packet_def
      upto_six)


definition plain_adapter :: "unit dsp_adapter" where
  "plain_adapter = \<lparr>da_render = (\<lambda>xs d. (True, d)), da_delay = (\<lambda>n d. (True, d)), da_capture = (\<lambda>xs d. (True, xs, d)),
     da_reset = (\<lambda>d. d)\<rparr>"


end
