(* ===== verification/Writer_Observation.thy ===== *)
theory Writer_Observation
  imports Motion_Gate
begin

text \<open>
  The observation of a candidate topic's writers (writer_observation.hpp and .cpp): which endpoint may drive the
  Gate, and the bounded text that says why. The numbers of the middleware's enumerators are a parameter,
  \<open>rmw_codes\<close>; a thrown exception is \<open>None\<close>.
\<close>

subsection \<open>Endpoints and policy\<close>

record rmw_codes =
  rw_publisher :: int
  rw_keep_last :: int
  rw_history_unknown :: int
  rw_best_effort :: int
  rw_reliable :: int
  rw_volatile :: int

record writer_endpoint =
  we_topic_type :: string
  we_node_name :: string
  we_node_namespace :: string
  we_kind :: int
  we_history :: int
  we_depth :: nat
  we_reliability :: int
  we_durability :: int
  we_gid :: writer_gid

record writer_policy =
  wp_type :: string
  wp_fqn :: string

record writer_session =
  ws_policy :: writer_policy
  ws_pinned :: "writer_gid option"
  ws_confirmed :: bool
  ws_terminal :: bool
  ws_detail :: string

subsection \<open>Text\<close>

definition maximum_detail :: nat where "maximum_detail = 160"
definition digest_suffix :: nat where "digest_suffix = 9"
definition summary_fixed :: nat where "summary_fixed = 55"
definition minimum_summary :: nat where "minimum_summary = summary_fixed + 5 * digest_suffix"

definition int_text :: "int \<Rightarrow> string" where
  "int_text n = (if n < 0 then CHR ''-'' # to_decimal (nat (- n)) else to_decimal (nat n))"

definition gid_text :: "writer_gid \<Rightarrow> string" where
  "gid_text g = concat (map (\<lambda>b. hex_digits 2 (unat b)) g)"

definition fnv_digest :: "string \<Rightarrow> u32" where
  "fnv_digest v = foldl (\<lambda>d c. (d XOR of_nat (of_char c)) * 16777619) 2166136261 v"

definition digest_text :: "string \<Rightarrow> string" where
  "digest_text v = hex_digits 8 (unat (fnv_digest v))"

definition compact_field :: "string \<Rightarrow> nat \<Rightarrow> string" where
  "compact_field v n =
     (if length v \<le> n then v
      else let suffix = CHR ''~'' # digest_text v
           in if n \<le> length suffix then drop (length suffix - n) suffix
              else take (n - length suffix) v @ suffix)"

definition normalized_namespace :: "string \<Rightarrow> string" where
  "normalized_namespace ns =
     (if ns = [] \<or> ns = ''/'' then ''/''
      else let ns = (if hd ns \<noteq> CHR ''/'' then CHR ''/'' # ns else ns)
           in if last ns = CHR ''/'' then butlast ns else ns)"

definition name_unresolved :: "string \<Rightarrow> bool" where
  "name_unresolved n \<longleftrightarrow> n = [] \<or> n = ''_NODE_NAME_UNKNOWN_''"

definition namespace_unresolved :: "string \<Rightarrow> bool" where
  "namespace_unresolved ns \<longleftrightarrow> ns = ''_NODE_NAMESPACE_UNKNOWN_''"

text \<open>Joining a namespace and a name.\<close>

definition join_fqn :: "string \<Rightarrow> string \<Rightarrow> string" where
  "join_fqn ns n = (if ns = ''/'' then CHR ''/'' # n else ns @ CHR ''/'' # n)"

definition endpoint_fqn :: "writer_endpoint \<Rightarrow> string" where
  "endpoint_fqn ep = join_fqn (normalized_namespace (we_node_namespace ep)) (we_node_name ep)"

text \<open>The name after the last separator, and what precedes that separator; all of it when there is none.\<close>

definition fqn_name :: "string \<Rightarrow> string" where
  "fqn_name fqn = rev (takeWhile (\<lambda>c. c \<noteq> CHR ''/'') (rev fqn))"

definition fqn_namespace :: "string \<Rightarrow> string" where
  "fqn_namespace fqn =
     (if CHR ''/'' \<notin> set fqn then fqn
      else let separator = length fqn - length (fqn_name fqn) - 1
           in if separator = 0 then ''/'' else take separator fqn)"

definition observed_identity :: "writer_endpoint \<Rightarrow> string" where
  "observed_identity ep =
     (if \<not> name_unresolved (we_node_name ep) \<and> \<not> namespace_unresolved (we_node_namespace ep) then endpoint_fqn ep
      else join_fqn
        (if namespace_unresolved (we_node_namespace ep) then ''<unresolved-namespace>''
         else normalized_namespace (we_node_namespace ep))
        (if name_unresolved (we_node_name ep) then ''<unresolved>'' else we_node_name ep))"

subsection \<open>The budget of a summary\<close>

text \<open>One round over the fields: each that is cut gets one character more, while any remain.\<close>

fun grow_round :: "nat \<Rightarrow> (nat \<times> nat) list \<Rightarrow> nat \<times> (nat \<times> nat) list \<times> bool" where
  "grow_round remaining [] = (remaining, [], False)"
| "grow_round remaining ((b, n) # bs) =
     (if remaining = 0 then (0, (b, n) # bs, False)
      else if b < n then
        (let (r, bs, _) = grow_round (remaining - 1) bs in (r, (b + 1, n) # bs, True))
      else (let (r, bs, grew) = grow_round remaining bs in (r, (b, n) # bs, grew)))"

lemma grow_round_less: "grow_round r bs = (r', bs', grew) \<Longrightarrow> r' \<le> r \<and> (grew \<longrightarrow> r' < r)"
proof (induction r bs arbitrary: r' bs' grew rule: grow_round.induct)
  case (2 r b n bs)
  show ?case
  proof (cases "r = 0 \<or> \<not> b < n")
    case True
    then show ?thesis using 2 by (auto split: prod.splits if_splits)
  next
    case False
    obtain r1 bs1 g1 where g: "grow_round (r - 1) bs = (r1, bs1, g1)" by (metis surj_pair)
    then have "r1 \<le> r - 1" using 2(1) False by blast
    then show ?thesis using 2(3) False g by auto
  qed
qed simp

function grow_budgets :: "nat \<Rightarrow> (nat \<times> nat) list \<Rightarrow> (nat \<times> nat) list" where
  "grow_budgets remaining bs =
     (if remaining = 0 then bs
      else case grow_round remaining bs of
        (r, bs, grew) \<Rightarrow> if grew then grow_budgets r bs else bs)"
  by auto

termination
  by (relation "measure fst") (use grow_round_less in \<open>auto dest!: sym [of _ "grow_round _ _"]\<close>)

declare grow_budgets.simps [simp del]

definition summary_values :: "writer_endpoint \<Rightarrow> int \<Rightarrow> string list" where
  "summary_values ep elapsed =
     [int_text (we_kind ep), observed_identity ep,
      int_text (we_history ep) @ ''/'' @ to_decimal (we_depth ep) @ ''/'' @ int_text (we_reliability ep)
        @ ''/'' @ int_text (we_durability ep),
      int_text elapsed, we_topic_type ep]"

definition observation_summary :: "writer_endpoint \<Rightarrow> int \<Rightarrow> nat \<Rightarrow> string option" where
  "observation_summary ep elapsed maximum =
     (if maximum < minimum_summary then None
      else
        let vs = summary_values ep elapsed;
            start = map (\<lambda>v. (min (length v) digest_suffix, length v)) vs;
            used = summary_fixed + sum_list (map fst start);
            budgets = map fst (grow_budgets (maximum - used) start);
            field = (\<lambda>i. compact_field (vs ! i) (budgets ! i));
            summary = ''n=1 k='' @ field 0 @ '' id='' @ field 1 @ '' q='' @ field 2 @ '' g='' @ gid_text (we_gid ep)
              @ '' ms='' @ field 3 @ '' t='' @ field 4
        in if maximum < length summary then None else Some summary)"

definition observation_detail :: "string \<Rightarrow> writer_endpoint \<Rightarrow> int \<Rightarrow> string option" where
  "observation_detail reason ep elapsed =
     (let reason = compact_field reason (maximum_detail - 2 - minimum_summary)
      in map_option (\<lambda>s. reason @ ''; '' @ s)
           (observation_summary ep elapsed (maximum_detail - length reason - 2)))"

subsection \<open>The session\<close>

definition qos_compatible :: "rmw_codes \<Rightarrow> writer_endpoint \<Rightarrow> bool" where
  "qos_compatible rc ep \<longleftrightarrow>
     (we_history ep = rw_keep_last rc \<or> we_history ep = rw_history_unknown rc)
     \<and> (we_depth ep = 1 \<or> we_depth ep = 0 \<and> we_history ep = rw_history_unknown rc)
     \<and> (we_reliability ep = rw_best_effort rc \<or> we_reliability ep = rw_reliable rc)
     \<and> we_durability ep = rw_volatile rc"

definition writer_policy_valid :: "writer_policy \<Rightarrow> bool" where
  "writer_policy_valid p \<longleftrightarrow> wp_type p \<noteq> [] \<and> wp_fqn p \<noteq> [] \<and> hd (wp_fqn p) = CHR ''/'' \<and> last (wp_fqn p) \<noteq> CHR ''/''"

definition writer_session_new :: "writer_policy \<Rightarrow> writer_session option" where
  "writer_session_new p =
     (if writer_policy_valid p
      then Some \<lparr>ws_policy = p, ws_pinned = None, ws_confirmed = False, ws_terminal = False, ws_detail = []\<rparr>
      else None)"

definition mismatch :: "string \<Rightarrow> open_binding" where
  "mismatch d = \<lparr>ob_ready = False, ob_reason = WriterMismatch, ob_gid = zero_gid, ob_detail = bounded_detail d\<rparr>"

type_synonym observed = "open_binding option \<times> writer_session"

definition reject_mismatch :: "string option \<Rightarrow> writer_session \<Rightarrow> observed" where
  "reject_mismatch detail s =
     (case detail of
        None \<Rightarrow> (None, s)
      | Some d \<Rightarrow>
          let d = bounded_detail d;
              s = (if ws_pinned s \<noteq> None then s\<lparr>ws_terminal := True, ws_detail := d\<rparr> else s)
          in (Some (mismatch d), s))"

text \<open>The first check an endpoint fails, as the reason of its detail.\<close>

definition endpoint_fault :: "rmw_codes \<Rightarrow> writer_session \<Rightarrow> writer_endpoint \<Rightarrow> string option" where
  "endpoint_fault rc s ep =
     (if we_kind ep \<noteq> rw_publisher rc then Some ''endpoint kind mismatch''
      else if we_topic_type ep \<noteq> wp_type (ws_policy s) then Some ''writer type mismatch''
      else if \<not> qos_compatible rc ep then Some ''writer QoS mismatch''
      else if \<not> gid_is_nonzero (we_gid ep) then Some ''writer GID is all-zero''
      else if (\<exists>g. ws_pinned s = Some g \<and> g \<noteq> we_gid ep)
        then Some (''writer replaced pin='' @ gid_text (the (ws_pinned s)))
      else if \<not> name_unresolved (we_node_name ep) \<and> we_node_name ep \<noteq> fqn_name (wp_fqn (ws_policy s))
        then Some ''partial node name mismatch''
      else if \<not> namespace_unresolved (we_node_namespace ep)
        \<and> normalized_namespace (we_node_namespace ep) \<noteq> fqn_namespace (wp_fqn (ws_policy s))
        then Some ''partial namespace mismatch''
      else None)"

definition writer_pin :: "writer_endpoint \<Rightarrow> writer_session \<Rightarrow> writer_session" where
  "writer_pin ep s = (if ws_pinned s = None then s\<lparr>ws_pinned := Some (we_gid ep)\<rparr> else s)"

definition binding_of :: "bool \<Rightarrow> reason \<Rightarrow> writer_endpoint \<Rightarrow> string \<Rightarrow> open_binding" where
  "binding_of ready r ep d = \<lparr>ob_ready = ready, ob_reason = r, ob_gid = we_gid ep, ob_detail = d\<rparr>"

definition observe_endpoint :: "rmw_codes \<Rightarrow> writer_endpoint \<Rightarrow> int \<Rightarrow> writer_session \<Rightarrow> observed" where
  "observe_endpoint rc ep elapsed s =
     (let summary = (\<lambda>reason. observation_detail reason ep elapsed) in
      case endpoint_fault rc s ep of
        Some reason \<Rightarrow> reject_mismatch (summary reason) s
      | None \<Rightarrow>
          if name_unresolved (we_node_name ep) \<or> namespace_unresolved (we_node_namespace ep) then
            (if ws_confirmed s
             then (map_option (binding_of True NoReason ep) (summary ''confirmed identity retained''), s)
             else (map_option (binding_of False WriterMetadataPending ep) (summary ''identity unresolved''), writer_pin ep s))
          else if endpoint_fqn ep \<noteq> wp_fqn (ws_policy s) then reject_mismatch (summary ''writer FQN mismatch'') s
          else (map_option (binding_of True NoReason ep) (summary ''writer ready''),
                (writer_pin ep s)\<lparr>ws_confirmed := True\<rparr>))"

definition no_binding :: "reason \<Rightarrow> string \<Rightarrow> open_binding" where
  "no_binding r d = \<lparr>ob_ready = False, ob_reason = r, ob_gid = zero_gid, ob_detail = d\<rparr>"

definition writer_observe :: "rmw_codes \<Rightarrow> writer_endpoint list \<Rightarrow> int \<Rightarrow> writer_session \<Rightarrow> observed" where
  "writer_observe rc eps elapsed s =
     (if ws_terminal s \<and> eps \<noteq> [] then (Some (mismatch (ws_detail s)), s)
      else case eps of
        [] \<Rightarrow> (Some (no_binding WriterUnavailable
            (''candidate topic has no writer; n=0 k=none id=none q=none g=none ms='' @ int_text elapsed @ '' t=none'')), s)
      | [ep] \<Rightarrow> observe_endpoint rc ep elapsed s
      | _ \<Rightarrow>
          (case ws_pinned s of
             Some g \<Rightarrow> reject_mismatch (Some (''writer ambiguous; n='' @ to_decimal (length eps) @ '' pin='' @ gid_text g
                @ '' ms='' @ int_text elapsed)) s
           | None \<Rightarrow> (Some (no_binding WriterAmbiguous
                (bounded_detail (''candidate topic has '' @ to_decimal (length eps) @ '' writers after '' @ int_text elapsed
                  @ ''ms''))), s)))"

definition writer_reset :: "writer_session \<Rightarrow> writer_session" where
  "writer_reset s = s\<lparr>ws_pinned := None, ws_confirmed := False, ws_terminal := False, ws_detail := []\<rparr>"

text \<open>A topic with other legitimate writers: only the exact matches are observed, by a session of their own.\<close>

definition exact_endpoint :: "writer_policy \<Rightarrow> writer_endpoint \<Rightarrow> bool" where
  "exact_endpoint p ep \<longleftrightarrow> we_topic_type ep = wp_type p \<and> \<not> name_unresolved (we_node_name ep)
     \<and> \<not> namespace_unresolved (we_node_namespace ep) \<and> we_node_name ep = fqn_name (wp_fqn p)
     \<and> normalized_namespace (we_node_namespace ep) = fqn_namespace (wp_fqn p)"

definition select_exact_writer :: "rmw_codes \<Rightarrow> writer_policy \<Rightarrow> writer_endpoint list \<Rightarrow> int \<Rightarrow> open_binding option" where
  "select_exact_writer rc p eps elapsed =
     (case writer_session_new p of
        None \<Rightarrow> None
      | Some s \<Rightarrow> fst (writer_observe rc (filter (exact_endpoint p) eps) elapsed s))"

subsection \<open>Every answer fits its bound\<close>

lemma length_compact [simp]: "length (compact_field v n) = min (length v) n"
  by (auto simp: compact_field_def digest_text_def Let_def)

lemma length_gid_text [simp]: "length (gid_text g) = 2 * length g"
  by (induction g) (simp_all add: gid_text_def)

lemma grow_round_keeps:
  "grow_round r bs = (r', bs', grew) \<Longrightarrow>
     r' + sum_list (map fst bs') = r + sum_list (map fst bs) \<and> length bs' = length bs"
proof (induction r bs arbitrary: r' bs' grew rule: grow_round.induct)
  case (2 r b n bs)
  obtain r1 bs1 g1 r2 bs2 g2 where "grow_round (r - 1) bs = (r1, bs1, g1)" "grow_round r bs = (r2, bs2, g2)"
    by (metis surj_pair)
  then show ?case using 2 by (auto split: if_splits)
qed simp

lemma grow_budgets_keeps:
  "sum_list (map fst (grow_budgets r bs)) \<le> r + sum_list (map fst bs) \<and> length (grow_budgets r bs) = length bs"
proof (induction r bs rule: grow_budgets.induct)
  case (1 r bs)
  obtain r1 bs1 g where g: "grow_round r bs = (r1, bs1, g)" by (metis surj_pair)
  show ?case
  proof (cases "r = 0 \<or> \<not> g")
    case True
    then show ?thesis using grow_round_keeps [OF g] g by (auto simp: grow_budgets.simps [of r])
  next
    case False
    then have "sum_list (map fst (grow_budgets r1 bs1)) \<le> r1 + sum_list (map fst bs1)
        \<and> length (grow_budgets r1 bs1) = length bs1"
      using 1 g by auto
    then show ?thesis using False grow_round_keeps [OF g] g by (simp add: grow_budgets.simps [of r])
  qed
qed

lemma sum_of_five: "length (bs :: nat list) = 5 \<Longrightarrow> sum_list bs = bs ! 0 + bs ! 1 + bs ! 2 + bs ! 3 + bs ! 4"
  by (auto simp: length_Suc_conv numeral_eq_Suc)

lemma observation_summary_fits:
  assumes "minimum_summary \<le> m" and "length (we_gid ep) = 16"
  shows "\<exists>t. observation_summary ep elapsed m = Some t \<and> length t \<le> m"
proof -
  define vs where "vs = summary_values ep elapsed"
  define start where "start = map (\<lambda>v. (min (length v) digest_suffix, length v)) vs"
  define used where "used = summary_fixed + sum_list (map fst start)"
  define budgets where "budgets = map fst (grow_budgets (m - used) start)"
  have "length vs = 5" by (simp add: vs_def summary_values_def)
  then have five: "length budgets = 5" "length (map fst start) = 5"
    using grow_budgets_keeps [of "m - used" start] by (simp_all add: budgets_def start_def)
  have "\<forall>x\<in>set (map fst start). x \<le> digest_suffix" by (auto simp: start_def)
  then have "sum_list (map fst start) \<le> 5 * digest_suffix"
    using five by (auto simp: length_Suc_conv numeral_eq_Suc)
  then have u: "used \<le> m" using assms(1) by (simp add: used_def minimum_summary_def)
  have "sum_list budgets \<le> (m - used) + sum_list (map fst start)"
    using grow_budgets_keeps [of "m - used" start] by (simp add: budgets_def)
  then have b: "summary_fixed + sum_list budgets \<le> m" using u by (simp add: used_def)
  define t where "t = ''n=1 k='' @ compact_field (vs ! 0) (budgets ! 0) @ '' id='' @ compact_field (vs ! 1) (budgets ! 1)
    @ '' q='' @ compact_field (vs ! 2) (budgets ! 2) @ '' g='' @ gid_text (we_gid ep)
    @ '' ms='' @ compact_field (vs ! 3) (budgets ! 3) @ '' t='' @ compact_field (vs ! 4) (budgets ! 4)"
  have l: "length t \<le> m"
    using b assms(2) unfolding sum_of_five [OF five(1)] by (simp add: t_def summary_fixed_def)
  have "observation_summary ep elapsed m = (if m < length t then None else Some t)"
    using assms(1) unfolding observation_summary_def Let_def vs_def [symmetric] start_def [symmetric]
      used_def [symmetric] budgets_def [symmetric] t_def by simp
  then show ?thesis using l by simp
qed

lemma observation_detail_fits:
  assumes "length (we_gid ep) = 16"
  shows "\<exists>t. observation_detail reason ep elapsed = Some t \<and> length t \<le> 160"
proof -
  define r where "r = compact_field reason (maximum_detail - 2 - minimum_summary)"
  have "length r \<le> 58" by (simp add: r_def maximum_detail_def minimum_summary_def summary_fixed_def digest_suffix_def)
  moreover obtain t where "observation_summary ep elapsed (maximum_detail - length r - 2) = Some t"
    "length t \<le> maximum_detail - length r - 2"
  proof -
    have "minimum_summary \<le> maximum_detail - length r - 2"
      using \<open>length r \<le> 58\<close> by (simp add: maximum_detail_def minimum_summary_def summary_fixed_def digest_suffix_def)
    from observation_summary_fits [OF this assms, of elapsed] that show ?thesis by blast
  qed
  ultimately show ?thesis
    unfolding observation_detail_def Let_def r_def [symmetric] by (simp add: maximum_detail_def)
qed

lemma length_to_decimal: "n < 10 ^ k \<Longrightarrow> 0 < k \<Longrightarrow> length (to_decimal n) \<le> k"
proof (induction n arbitrary: k rule: to_decimal.induct)
  case (1 n)
  show ?case
  proof (cases "n < 10")
    case True
    then show ?thesis using 1 by (simp add: to_decimal.simps [of n])
  next
    case False
    then obtain j where k: "k = Suc j" "0 < j" using 1(2,3) by (cases k; cases "k = 1") auto
    then have "n div 10 < 10 ^ j" using 1(2) by (simp add: less_mult_imp_div_less)
    then show ?thesis using 1(1) [OF False] False k by (simp add: to_decimal.simps [of n])
  qed
qed

lemma length_int_text: "\<bar>n\<bar> < 2 ^ 63 \<Longrightarrow> length (int_text n) \<le> 20"
  using length_to_decimal [of "nat n" 19] length_to_decimal [of "nat (- n)" 19]
  by (cases "n < 0") (simp_all add: int_text_def nat_less_iff)

definition fits :: "observed \<Rightarrow> bool" where
  "fits o1 \<longleftrightarrow> (\<exists>b. fst o1 = Some b \<and> length (ob_detail b) \<le> 160)"

lemma fits_reject [simp]: "fits (reject_mismatch (Some d) s)"
  by (simp add: fits_def reject_mismatch_def mismatch_def Let_def)

lemma fits_mismatch [simp]: "fits (Some (mismatch d), s)"
  by (simp add: fits_def mismatch_def)

lemma fits_bound: "length t \<le> 160 \<Longrightarrow> fits (Some (binding_of ready why ep t), s)"
  by (simp add: fits_def binding_of_def)

lemma fits_endpoint:
  assumes "length (we_gid ep) = 16"
  shows "fits (observe_endpoint rc ep elapsed s)"
proof -
  have "fits (reject_mismatch (observation_detail r ep elapsed) s)"
    and "fits (map_option (binding_of ready why ep) (observation_detail r ep elapsed), t)" for r ready why t
    using observation_detail_fits [OF assms, of r elapsed] by (auto simp: fits_bound)
  then show ?thesis unfolding observe_endpoint_def Let_def by (simp split: option.split)
qed

definition observation_ok :: "writer_endpoint list \<Rightarrow> int \<Rightarrow> bool" where
  "observation_ok eps elapsed \<longleftrightarrow> (\<forall>ep\<in>set eps. length (we_gid ep) = 16) \<and> \<bar>elapsed\<bar> < 2 ^ 63"

text \<open>
  C31: every observation of every session returns: neither of its internal errors is thrown, and its detail is
  at most 160 characters, however long the names, types and numbers it describes.
\<close>

theorem observation_fits:
  assumes "observation_ok eps elapsed"
  shows "\<exists>b. fst (writer_observe rc eps elapsed s) = Some b \<and> length (ob_detail b) \<le> 160"
proof -
  have "fits (writer_observe rc eps elapsed s)"
  proof (cases "ws_terminal s \<and> eps \<noteq> []")
    case True
    then show ?thesis by (simp add: writer_observe_def)
  next
    case False
    show ?thesis
    proof (cases eps)
      case Nil
      then show ?thesis
        using length_int_text [of elapsed] assms by (simp add: writer_observe_def fits_def no_binding_def observation_ok_def)
    next
      case (Cons ep fs)
      show ?thesis
      proof (cases fs)
        case Nil
        then show ?thesis
          using False Cons fits_endpoint [of ep rc elapsed s] assms by (simp add: writer_observe_def observation_ok_def)
      next
        case (Cons ep2 gs)
        then show ?thesis
          using False \<open>eps = ep # fs\<close>
          by (cases "ws_pinned s") (simp_all add: writer_observe_def, simp add: fits_def no_binding_def)
      qed
    qed
  qed
  then show ?thesis by (simp add: fits_def)
qed

subsection \<open>The writer of a session\<close>

text \<open>The answers of a session to a list of observations, with what was observed.\<close>

primrec writer_answers ::
    "rmw_codes \<Rightarrow> writer_session \<Rightarrow> (writer_endpoint list \<times> int) list \<Rightarrow> (writer_endpoint list \<times> open_binding option) list" where
  "writer_answers rc s [] = []"
| "writer_answers rc s (x # xs) =
     (fst x, fst (writer_observe rc (fst x) (snd x) s)) # writer_answers rc (snd (writer_observe rc (fst x) (snd x) s)) xs"

definition answers_ready :: "open_binding option \<Rightarrow> bool" where
  "answers_ready b \<longleftrightarrow> (\<exists>x. b = Some x \<and> ob_ready x)"

definition usable_endpoint :: "rmw_codes \<Rightarrow> writer_policy \<Rightarrow> writer_endpoint \<Rightarrow> bool" where
  "usable_endpoint rc p ep \<longleftrightarrow> we_kind ep = rw_publisher rc \<and> we_topic_type ep = wp_type p \<and> qos_compatible rc ep
     \<and> gid_is_nonzero (we_gid ep)"

lemma reject_simps [simp]:
  "ws_policy (snd (reject_mismatch d s)) = ws_policy s" "ws_pinned (snd (reject_mismatch d s)) = ws_pinned s"
  "ws_confirmed (snd (reject_mismatch d s)) = ws_confirmed s" "\<not> answers_ready (fst (reject_mismatch d s))"
  "fst (reject_mismatch d s) = Some b \<Longrightarrow> \<not> ob_ready b"
  by (auto simp: reject_mismatch_def mismatch_def answers_ready_def Let_def split: option.splits)

lemma answers_ready_simps [simp]:
  "answers_ready (Some x) \<longleftrightarrow> ob_ready x" "\<not> answers_ready None"
  "answers_ready (map_option (binding_of r why ep) d) \<longleftrightarrow> r \<and> d \<noteq> None"
  by (cases d) (auto simp: answers_ready_def binding_of_def)

lemma binding_simps [simp]: "\<not> ob_ready (mismatch d)" "\<not> ob_ready (no_binding r d)" "ob_gid (binding_of q r ep d) = we_gid ep"
  by (simp_all add: mismatch_def no_binding_def binding_of_def)

lemmas observe_defs = writer_observe_def observe_endpoint_def writer_pin_def Let_def

lemma observe_policy [simp]: "ws_policy (snd (writer_observe rc eps elapsed s)) = ws_policy s"
  by (auto simp: observe_defs split: list.split option.split)

lemma observe_pinned: "ws_pinned s = Some g \<Longrightarrow> ws_pinned (snd (writer_observe rc eps elapsed s)) = Some g"
  by (auto simp: observe_defs split: list.split option.split)

lemma observe_confirmed: "ws_confirmed s \<Longrightarrow> ws_confirmed (snd (writer_observe rc eps elapsed s))"
  by (auto simp: observe_defs split: list.split option.split)

definition writer_inv :: "writer_session \<Rightarrow> bool" where
  "writer_inv s \<longleftrightarrow> (ws_confirmed s \<longrightarrow> ws_pinned s \<noteq> None)"

lemma observe_inv: "writer_inv s \<Longrightarrow> writer_inv (snd (writer_observe rc eps elapsed s))"
  by (auto simp: writer_inv_def observe_defs split: list.split option.split)

lemma endpoint_fault_none:
  "endpoint_fault rc s ep = None \<Longrightarrow> usable_endpoint rc (ws_policy s) ep \<and> (ws_pinned s = None \<or> ws_pinned s = Some (we_gid ep))"
  by (cases "ws_pinned s") (auto simp: endpoint_fault_def usable_endpoint_def split: if_splits)

lemma observe_other:
  "(\<forall>ep. eps \<noteq> [ep]) \<or> ws_terminal s \<Longrightarrow> \<not> answers_ready (fst (writer_observe rc eps elapsed s))
     \<and> ws_confirmed (snd (writer_observe rc eps elapsed s)) = ws_confirmed s"
  by (auto simp: observe_defs split: list.splits option.splits)

lemma ready_answer:
  assumes "writer_inv s" and "answers_ready (fst (writer_observe rc eps elapsed s))"
  shows "\<exists>ep b. eps = [ep] \<and> fst (writer_observe rc eps elapsed s) = Some b \<and> usable_endpoint rc (ws_policy s) ep
    \<and> ob_gid b = we_gid ep \<and> ws_pinned (snd (writer_observe rc eps elapsed s)) = Some (we_gid ep)
    \<and> (ws_confirmed s \<or> endpoint_fqn ep = wp_fqn (ws_policy s))"
proof -
  obtain ep where eps: "eps = [ep]" and t: "\<not> ws_terminal s"
    using assms(2) observe_other [of eps s rc elapsed] by blast
  have "endpoint_fault rc s ep = None"
    using assms(2) t by (auto simp: eps observe_defs split: option.splits)
  with endpoint_fault_none [OF this] show ?thesis
    using assms t by (auto simp: eps writer_inv_def observe_defs split: if_splits)
qed

lemma newly_confirmed:
  assumes "\<not> ws_confirmed s" and "ws_confirmed (snd (writer_observe rc eps elapsed s))"
  shows "\<exists>ep. eps = [ep] \<and> endpoint_fqn ep = wp_fqn (ws_policy s)
    \<and> ws_pinned (snd (writer_observe rc eps elapsed s)) = Some (we_gid ep)"
proof -
  obtain ep where eps: "eps = [ep]" and t: "\<not> ws_terminal s"
    using assms observe_other [of eps s rc elapsed] by blast
  have "endpoint_fault rc s ep = None"
    using assms t by (auto simp: eps observe_defs split: option.splits)
  with endpoint_fault_none [OF this] show ?thesis
    using assms t by (auto simp: eps observe_defs split: if_splits)
qed

text \<open>The writer \<open>g\<close> was seen under the expected name.\<close>

definition seen_named :: "(writer_endpoint list \<times> open_binding option) list \<Rightarrow> writer_policy \<Rightarrow> writer_gid \<Rightarrow> bool" where
  "seen_named as p g \<longleftrightarrow> (\<exists>ep c. ([ep], c) \<in> set as \<and> we_gid ep = g \<and> endpoint_fqn ep = wp_fqn p)"

lemma seen_namedI: "([ep], c) \<in> set as \<Longrightarrow> we_gid ep = g \<Longrightarrow> endpoint_fqn ep = wp_fqn p \<Longrightarrow> seen_named as p g"
  unfolding seen_named_def by blast

lemma seen_named_Cons: "seen_named as p g \<Longrightarrow> seen_named (a # as) p g"
  unfolding seen_named_def by auto

text \<open>The answer names \<open>g\<close>: the only endpoint seen, usable, and confirmed in the session.\<close>

definition answer_names ::
    "rmw_codes \<Rightarrow> writer_session \<Rightarrow> (writer_endpoint list \<times> open_binding option) list \<Rightarrow> writer_gid
      \<Rightarrow> writer_endpoint list \<times> open_binding option \<Rightarrow> bool" where
  "answer_names rc s as g a \<longleftrightarrow> answers_ready (snd a) \<longrightarrow>
     ob_gid (the (snd a)) = g \<and> (\<exists>ep. fst a = [ep] \<and> usable_endpoint rc (ws_policy s) ep \<and> we_gid ep = g)
     \<and> (ws_confirmed s \<or> seen_named as (ws_policy s) g)"

lemma ready_answers_agree:
  assumes "writer_inv s"
  shows "\<exists>g. (ws_pinned s \<noteq> None \<longrightarrow> ws_pinned s = Some g)
    \<and> (\<forall>a\<in>set (writer_answers rc s xs). answer_names rc s (writer_answers rc s xs) g a)"
  using assms
proof (induction xs arbitrary: s)
  case Nil
  then show ?case by (cases "ws_pinned s") auto
next
  case (Cons x xs)
  define t where "t = snd (writer_observe rc (fst x) (snd x) s)"
  have t: "writer_inv t" "ws_policy t = ws_policy s" using observe_inv [OF Cons.prems] by (simp_all add: t_def)
  from Cons.IH [OF t(1)] obtain g where g: "ws_pinned t \<noteq> None \<longrightarrow> ws_pinned t = Some g"
    "\<forall>a\<in>set (writer_answers rc t xs). answer_names rc t (writer_answers rc t xs) g a" by (elim exE conjE)
  have p: "ws_pinned s \<noteq> None \<longrightarrow> ws_pinned s = Some g"
    using g(1) observe_pinned [of s _ rc "fst x" "snd x"] by (auto simp: t_def)
  have w: "writer_answers rc s (x # xs) = (fst x, fst (writer_observe rc (fst x) (snd x) s)) # writer_answers rc t xs"
    by (simp add: t_def)
  have c: "ws_confirmed s \<or> seen_named (writer_answers rc s (x # xs)) (ws_policy s) g" if "ws_confirmed t"
  proof (cases "ws_confirmed s")
    case False
    from newly_confirmed [OF False that [unfolded t_def]] g(1) show ?thesis
      unfolding w by (auto simp: t_def intro: seen_namedI)
  qed simp
  have h: "answer_names rc s (writer_answers rc s (x # xs)) g (fst x, fst (writer_observe rc (fst x) (snd x) s))"
    unfolding answer_names_def fst_conv snd_conv
  proof
    assume "answers_ready (fst (writer_observe rc (fst x) (snd x) s))"
    from ready_answer [OF Cons.prems this] obtain ep b where e: "fst x = [ep]"
      "fst (writer_observe rc (fst x) (snd x) s) = Some b" "usable_endpoint rc (ws_policy s) ep" "ob_gid b = we_gid ep"
      "ws_pinned t = Some (we_gid ep)" "ws_confirmed s \<or> endpoint_fqn ep = wp_fqn (ws_policy s)"
      unfolding t_def by blast
    have "([ep], Some b) \<in> set (writer_answers rc s (x # xs))" using e(1,2) unfolding w by simp
    with e g(1) show "ob_gid (the (fst (writer_observe rc (fst x) (snd x) s))) = g
        \<and> (\<exists>ep. fst x = [ep] \<and> usable_endpoint rc (ws_policy s) ep \<and> we_gid ep = g)
        \<and> (ws_confirmed s \<or> seen_named (writer_answers rc s (x # xs)) (ws_policy s) g)"
      by (auto intro: seen_namedI)
  qed
  have "answer_names rc s (writer_answers rc s (x # xs)) g a" if "a \<in> set (writer_answers rc t xs)" for a
  proof -
    from g(2) that have "answer_names rc t (writer_answers rc t xs) g a" by blast
    then show ?thesis using c seen_named_Cons unfolding answer_names_def w t(2) by blast
  qed
  then have "answer_names rc s (writer_answers rc s (x # xs)) g a" if "a \<in> set (writer_answers rc s (x # xs))" for a
    using h that unfolding w set_simps by blast
  then show ?case using p by blast
qed

text \<open>
  C30: within a session, all answers that are ready name one writer: the only endpoint that was seen, a publisher
  of the policy's type with a compatible QoS, that was seen under the expected name in the session.
\<close>

theorem ready_writer_is_unique:
  assumes "writer_session_new p = Some s"
    and "(eps, Some b) \<in> set (writer_answers rc s xs)" and "ob_ready b"
    and "(eps', Some b') \<in> set (writer_answers rc s xs)" and "ob_ready b'"
  shows "ob_gid b = ob_gid b' \<and> (\<exists>ep. eps = [ep] \<and> usable_endpoint rc p ep \<and> we_gid ep = ob_gid b)
    \<and> seen_named (writer_answers rc s xs) p (ob_gid b)"
proof -
  have s: "writer_inv s" "ws_policy s = p" "\<not> ws_confirmed s"
    using assms(1) by (auto simp: writer_session_new_def writer_inv_def split: if_splits)
  from ready_answers_agree [OF s(1), of rc xs] obtain g where
    "\<forall>a\<in>set (writer_answers rc s xs). answer_names rc s (writer_answers rc s xs) g a" by (elim exE conjE)
  then have "ob_gid b = g \<and> (\<exists>ep. eps = [ep] \<and> usable_endpoint rc p ep \<and> we_gid ep = g)
       \<and> seen_named (writer_answers rc s xs) p g"
    if "(eps, Some b) \<in> set (writer_answers rc s xs)" "ob_ready b" for eps b
    using that s(2,3) unfolding answer_names_def by fastforce
  from this [OF assms(2,3)] this [OF assms(4,5)] show ?thesis by simp
qed

subsection \<open>A mismatch is final\<close>

lemma terminal_stays:
  assumes "ws_terminal s" and "(eps, Some b) \<in> set (writer_answers rc s xs)"
  shows "\<not> ob_ready b"
  using assms
proof (induction xs arbitrary: s)
  case (Cons x xs)
  have "ws_terminal (snd (writer_observe rc (fst x) (snd x) s))"
    using Cons.prems(1) by (auto simp: observe_defs split: list.split)
  moreover have "fst (writer_observe rc (fst x) (snd x) s) = Some b \<Longrightarrow> \<not> ob_ready b"
    using Cons.prems(1) by (auto simp: observe_defs split: list.splits)
  ultimately show ?case using Cons by auto
qed simp

lemma reject_terminal: "ws_pinned s \<noteq> None \<Longrightarrow> fst (reject_mismatch d s) = Some b \<Longrightarrow> ws_terminal (snd (reject_mismatch d s))"
  by (auto simp: reject_mismatch_def Let_def split: option.splits)

lemma pinned_mismatch:
  assumes "ws_pinned s \<noteq> None" and "fst (writer_observe rc eps elapsed s) = Some b" and "ob_reason b = WriterMismatch"
  shows "ws_terminal (snd (writer_observe rc eps elapsed s))"
proof -
  have r: "ob_reason (no_binding q d) = q" "ob_reason (binding_of x q ep d) = q" for q d x ep
    by (simp_all add: no_binding_def binding_of_def)
  show ?thesis
    using assms by (auto simp: observe_defs r reject_terminal split: list.splits option.splits if_splits)
qed

text \<open>
  Once the session has a writer pinned, an answer that names a mismatch is the last word: no later observation
  is ready, until the session is reset.
\<close>

lemma mismatch_is_final:
  assumes "ws_pinned s \<noteq> None" and "fst (writer_observe rc eps elapsed s) = Some b" and "ob_reason b = WriterMismatch"
    and "(eps', Some b') \<in> set (writer_answers rc (snd (writer_observe rc eps elapsed s)) xs)"
  shows "\<not> ob_ready b'"
  using terminal_stays [OF pinned_mismatch [OF assms(1-3)] assms(4)] .

subsection \<open>A concrete session\<close>

definition plain_codes :: rmw_codes where
  "plain_codes = \<lparr>rw_publisher = 1, rw_keep_last = 1, rw_history_unknown = 3, rw_best_effort = 2, rw_reliable = 1,
     rw_volatile = 2\<rparr>"

definition plain_policy :: writer_policy where
  "plain_policy = \<lparr>wp_type = ''geometry_msgs/msg/TwistStamped'', wp_fqn = ''/robot/relative_motion''\<rparr>"

definition plain_endpoint :: writer_endpoint where
  "plain_endpoint = \<lparr>we_topic_type = ''geometry_msgs/msg/TwistStamped'', we_node_name = ''relative_motion'',
     we_node_namespace = ''robot/'', we_kind = 1, we_history = 1, we_depth = 1, we_reliability = 2, we_durability = 2,
     we_gid = replicate 16 7\<rparr>"

definition plain_session :: writer_session where
  "plain_session = \<lparr>ws_policy = plain_policy, ws_pinned = None, ws_confirmed = False, ws_terminal = False, ws_detail = []\<rparr>"

lemma plain_session: "writer_session_new plain_policy = Some plain_session"
  by (simp add: writer_session_new_def plain_policy_def plain_session_def writer_policy_valid_def)

lemma plain_endpoint_ok: "endpoint_fault plain_codes plain_session plain_endpoint = None"
    "\<not> name_unresolved (we_node_name plain_endpoint)" "\<not> namespace_unresolved (we_node_namespace plain_endpoint)"
    "endpoint_fqn plain_endpoint = wp_fqn plain_policy"
  by (simp_all add: plain_session_def plain_policy_def endpoint_fault_def plain_endpoint_def plain_codes_def
      qos_compatible_def gid_is_nonzero_def name_unresolved_def namespace_unresolved_def normalized_namespace_def
      fqn_name_def fqn_namespace_def endpoint_fqn_def join_fqn_def list_ex_iff)

theorem observation_fits_witness:
  "\<exists>b. fst (writer_observe plain_codes [plain_endpoint\<lparr>we_node_name := replicate 5000 CHR ''x''\<rparr>, plain_endpoint] 7 plain_session) = Some b
    \<and> length (ob_detail b) \<le> 160"
  by (rule observation_fits) (simp add: observation_ok_def plain_endpoint_def)

theorem ready_writer_is_unique_witness:
  "\<exists>b. ([plain_endpoint], Some b) \<in> set (writer_answers plain_codes plain_session [([plain_endpoint], 0), ([], 5), ([plain_endpoint], 9)])
    \<and> ob_ready b \<and> seen_named (writer_answers plain_codes plain_session [([plain_endpoint], 0), ([], 5), ([plain_endpoint], 9)])
        plain_policy (ob_gid b)"
proof -
  have "length (we_gid plain_endpoint) = 16" by (simp add: plain_endpoint_def)
  then obtain t where "observation_detail ''writer ready'' plain_endpoint 0 = Some t"
    using observation_detail_fits by blast
  then have "fst (writer_observe plain_codes [plain_endpoint] 0 plain_session) = Some (binding_of True NoReason plain_endpoint t)"
    using plain_endpoint_ok by (simp add: writer_observe_def observe_endpoint_def plain_session_def)
  then have m: "([plain_endpoint], Some (binding_of True NoReason plain_endpoint t))
      \<in> set (writer_answers plain_codes plain_session [([plain_endpoint], 0), ([], 5), ([plain_endpoint], 9)])" by simp
  have r: "ob_ready (binding_of True NoReason plain_endpoint t)" by (simp add: binding_of_def)
  from ready_writer_is_unique [OF plain_session m r m r] m r show ?thesis by blast
qed

end
