(* ===== verification/Navigation_Ingress.thy ===== *)
theory Navigation_Ingress
  imports Relative_Motion
begin

text \<open>
  What stands between Nav2 and the Gate: the freshness of a source (motion_source_freshness.hpp and .cpp), the
  lifecycle of a navigation goal and the ingress of its velocity commands (navigation_command_ingress.hpp). Each
  operation is one step, under the mutex of its class or on the worker.
\<close>

subsection \<open>Freshness of a source\<close>

record source_freshness =
  sf_timeout :: time
  sf_receipt :: time
  sf_observed :: bool

text \<open>The constructor; \<open>None\<close> when it throws. The timeout is in milliseconds.\<close>

definition freshness_new :: "int \<Rightarrow> source_freshness option" where
  "freshness_new timeout =
     (if timeout \<le> 0 then None else Some \<lparr>sf_timeout = ms timeout, sf_receipt = 0, sf_observed = False\<rparr>)"

definition freshness_observe :: "source_freshness \<Rightarrow> time \<Rightarrow> source_freshness" where
  "freshness_observe s receipt = s\<lparr>sf_receipt := receipt, sf_observed := True\<rparr>"

definition fresh_at :: "source_freshness \<Rightarrow> time \<Rightarrow> bool" where
  "fresh_at s now \<longleftrightarrow> sf_observed s \<and> sf_receipt s \<le> now \<and> now - sf_receipt s \<le> sf_timeout s"

lemma freshness_timeout: "sf_timeout (run freshness_observe s rs) = sf_timeout s"
  by (induction rs arbitrary: s) (simp_all add: freshness_observe_def)

text \<open>A source is fresh exactly from its last receipt to the timeout after it.\<close>

lemma fresh_iff_last_receipt:
  assumes "freshness_new timeout = Some s"
  shows "fresh_at (run freshness_observe s rs) now \<longleftrightarrow>
    rs \<noteq> [] \<and> last rs \<le> now \<and> now \<le> last rs + ms timeout"
proof (cases rs rule: rev_exhaust)
  case Nil
  then show ?thesis using assms by (auto simp: freshness_new_def fresh_at_def split: if_splits)
next
  case (snoc qs r)
  have "sf_timeout s = ms timeout" using assms by (auto simp: freshness_new_def split: if_splits)
  then show ?thesis
    by (auto simp: snoc run_append fresh_at_def freshness_observe_def freshness_timeout)
qed

subsection \<open>The lifecycle of a navigation goal\<close>

type_synonym goal_id = "u8 list"

record goal_lifecycle =
  gl_goal :: goal_id
  gl_active :: bool
  gl_cancel_requested :: bool
  gl_cancel_accepted :: bool
  gl_terminal :: bool

definition lifecycle_init :: goal_lifecycle where
  "lifecycle_init = \<lparr>gl_goal = replicate 16 0, gl_active = False, gl_cancel_requested = False,
     gl_cancel_accepted = False, gl_terminal = False\<rparr>"

definition lifecycle_begin :: "goal_id \<Rightarrow> goal_lifecycle \<Rightarrow> goal_lifecycle" where
  "lifecycle_begin g s = s\<lparr>gl_goal := g, gl_active := True, gl_cancel_requested := False,
     gl_cancel_accepted := False, gl_terminal := False\<rparr>"

definition lifecycle_reset :: "goal_lifecycle \<Rightarrow> goal_lifecycle" where
  "lifecycle_reset s = s\<lparr>gl_active := False, gl_cancel_requested := False, gl_cancel_accepted := False,
     gl_terminal := False, gl_goal := replicate 16 0\<rparr>"

definition request_cancel :: "goal_lifecycle \<Rightarrow> goal_lifecycle" where
  "request_cancel s = (if gl_active s then s\<lparr>gl_cancel_requested := True\<rparr> else s)"

definition accept_cancel_response :: "u8 \<Rightarrow> goal_id list \<Rightarrow> goal_lifecycle \<Rightarrow> bool \<times> goal_lifecycle" where
  "accept_cancel_response code goals s =
     (let s = s\<lparr>gl_cancel_requested := True\<rparr> in
      if \<not> gl_active s \<or> code \<noteq> 0 \<or> gl_goal s \<notin> set goals then (False, s)
      else (True, s\<lparr>gl_cancel_accepted := True\<rparr>))"

definition observe_terminal :: "goal_id \<Rightarrow> goal_lifecycle \<Rightarrow> bool \<times> goal_lifecycle" where
  "observe_terminal g s =
     (if \<not> gl_active s \<or> g \<noteq> gl_goal s then (False, s) else (True, s\<lparr>gl_terminal := True\<rparr>))"

definition cancel_complete :: "goal_lifecycle \<Rightarrow> bool" where
  "cancel_complete s \<longleftrightarrow> gl_cancel_requested s \<and> gl_cancel_accepted s \<and> gl_terminal s"

definition next_generation_allowed :: "goal_lifecycle \<Rightarrow> bool" where
  "next_generation_allowed s \<longleftrightarrow> gl_terminal s \<and> (\<not> gl_cancel_requested s \<or> gl_cancel_accepted s)"

definition blocks_next_generation :: "goal_lifecycle \<Rightarrow> bool" where
  "blocks_next_generation s \<longleftrightarrow> gl_active s \<and> (\<not> gl_terminal s \<or> gl_cancel_requested s \<and> \<not> gl_cancel_accepted s)"

datatype lifecycle_call = GoalBegin goal_id | GoalReset | GoalCancel | GoalCancelAnswer u8 "goal_id list"
  | GoalTerminal goal_id

primrec lifecycle_step :: "goal_lifecycle \<Rightarrow> lifecycle_call \<Rightarrow> goal_lifecycle" where
  "lifecycle_step s (GoalBegin g) = lifecycle_begin g s"
| "lifecycle_step s GoalReset = lifecycle_reset s"
| "lifecycle_step s GoalCancel = request_cancel s"
| "lifecycle_step s (GoalCancelAnswer c gs) = snd (accept_cancel_response c gs s)"
| "lifecycle_step s (GoalTerminal g) = snd (observe_terminal g s)"

definition lifecycle_run :: "lifecycle_call list \<Rightarrow> goal_lifecycle" where
  "lifecycle_run es = run lifecycle_step lifecycle_init es"

text \<open>The calls since the last goal began, and that goal; \<open>None\<close> when none is live.\<close>

definition goal_live_step :: "(goal_id \<times> lifecycle_call list) option \<Rightarrow> lifecycle_call \<Rightarrow> (goal_id \<times> lifecycle_call list) option" where
  "goal_live_step l c = (case c of GoalBegin g \<Rightarrow> Some (g, []) | GoalReset \<Rightarrow> None
     | _ \<Rightarrow> map_option (\<lambda>(g, cs). (g, cs @ [c])) l)"

definition live_goal :: "lifecycle_call list \<Rightarrow> (goal_id \<times> lifecycle_call list) option" where
  "live_goal es = run goal_live_step None es"

definition asks_cancel :: "lifecycle_call \<Rightarrow> bool" where
  "asks_cancel c \<longleftrightarrow> c = GoalCancel \<or> (\<exists>k gs. c = GoalCancelAnswer k gs)"

definition confirms_cancel :: "goal_id \<Rightarrow> lifecycle_call \<Rightarrow> bool" where
  "confirms_cancel g c \<longleftrightarrow> (\<exists>gs. c = GoalCancelAnswer 0 gs \<and> g \<in> set gs)"

definition lifecycle_tracks :: "goal_lifecycle \<Rightarrow> (goal_id \<times> lifecycle_call list) option \<Rightarrow> bool" where
  "lifecycle_tracks s l \<longleftrightarrow>
     (case l of
        None \<Rightarrow> \<not> gl_active s \<and> \<not> gl_terminal s \<and> \<not> gl_cancel_accepted s
      | Some (g, cs) \<Rightarrow> gl_active s \<and> gl_goal s = g
          \<and> (gl_terminal s \<longleftrightarrow> GoalTerminal g \<in> set cs)
          \<and> (gl_cancel_requested s \<longleftrightarrow> list_ex asks_cancel cs)
          \<and> (gl_cancel_accepted s \<longleftrightarrow> list_ex (confirms_cancel g) cs))"

lemma lifecycle_tracks_step: "lifecycle_tracks s l \<Longrightarrow> lifecycle_tracks (lifecycle_step s c) (goal_live_step l c)"
  by (cases c; cases l)
    (auto simp: lifecycle_tracks_def goal_live_step_def lifecycle_begin_def lifecycle_reset_def request_cancel_def
      accept_cancel_response_def observe_terminal_def asks_cancel_def confirms_cancel_def Let_def)

lemma lifecycle_tracks_run: "lifecycle_tracks (lifecycle_run es) (live_goal es)"
proof -
  have "lifecycle_tracks s l \<Longrightarrow> lifecycle_tracks (run lifecycle_step s es) (run goal_live_step l es)" for s l
    by (induction es arbitrary: s l) (simp_all add: lifecycle_tracks_step)
  moreover have "lifecycle_tracks lifecycle_init None" by (simp add: lifecycle_tracks_def lifecycle_init_def)
  ultimately show ?thesis by (simp add: lifecycle_run_def live_goal_def)
qed

text \<open>
  The next generation is allowed exactly when the result of the very goal that is live was observed, and, if
  its cancel was asked for, an accepting answer named it; an acknowledgement alone is never enough.
\<close>

lemma next_generation_waits_for_result:
  "next_generation_allowed (lifecycle_run es) \<longleftrightarrow>
     (\<exists>g cs. live_goal es = Some (g, cs) \<and> GoalTerminal g \<in> set cs
       \<and> (list_ex asks_cancel cs \<longrightarrow> list_ex (confirms_cancel g) cs))"
  using lifecycle_tracks_run [of es]
  by (cases "live_goal es") (auto simp: lifecycle_tracks_def next_generation_allowed_def)

lemma next_generation_waits_for_result_witness:
  "next_generation_allowed (lifecycle_run [GoalBegin [1], GoalCancel, GoalTerminal [1], GoalCancelAnswer 0 [[2], [1]]])"
  by (subst next_generation_waits_for_result) (simp add: live_goal_def goal_live_step_def asks_cancel_def confirms_cancel_def)

lemma blocks_unless_allowed: "gl_active s \<Longrightarrow> blocks_next_generation s \<longleftrightarrow> \<not> next_generation_allowed s"
  by (auto simp: blocks_next_generation_def next_generation_allowed_def)

subsection \<open>The ingress of velocity commands\<close>

definition command_freshness :: time where "command_freshness = ms 125"

datatype nav_observation = NavAccepted | NavStaleGeneration | NavWriterUnavailable | NavWriterMismatch
  | NavReceiptRegressed | NavInvalidCommand

record nav_ingress =
  ni_active :: bool
  ni_token :: motion_token
  ni_gid :: "writer_gid option"
  ni_command :: motion_command
  ni_receipt :: time
  ni_observed :: bool
  ni_expired :: bool
  ni_reported :: bool

definition nav_init :: nav_ingress where
  "nav_init = \<lparr>ni_active = False, ni_token = no_token, ni_gid = None, ni_command = no_motion, ni_receipt = 0,
     ni_observed = False, ni_expired = False, ni_reported = False\<rparr>"

definition nav_begin :: "motion_token \<Rightarrow> time \<Rightarrow> writer_gid \<Rightarrow> nav_ingress \<Rightarrow> nav_ingress" where
  "nav_begin t started gid s = s\<lparr>ni_active := True, ni_token := t, ni_gid := Some gid, ni_command := no_motion,
     ni_receipt := started, ni_observed := False, ni_expired := False, ni_reported := False\<rparr>"

definition nav_end :: "nav_ingress \<Rightarrow> nav_ingress" where
  "nav_end s = s\<lparr>ni_active := False, ni_gid := None, ni_command := no_motion, ni_observed := False,
     ni_expired := False, ni_reported := False\<rparr>"

definition nav_observe ::
    "motion_token \<Rightarrow> writer_gid \<Rightarrow> motion_command \<Rightarrow> time \<Rightarrow> nav_ingress \<Rightarrow> nav_observation \<times> nav_ingress" where
  "nav_observe t gid c receipt s =
     (if \<not> ni_active s \<or> ni_token s \<noteq> t \<or> ni_expired s then (NavStaleGeneration, s)
      else if \<not> gid_is_nonzero gid then (NavWriterUnavailable, s)
      else if \<not> isfinite (mc_linear c) \<or> \<not> isfinite (mc_angular c) then (NavInvalidCommand, s)
      else if ni_observed s \<and> receipt < ni_receipt s then (NavReceiptRegressed, s)
      else if ni_gid s \<noteq> Some gid then (NavWriterMismatch, s)
      else (NavAccepted, s\<lparr>ni_command := c, ni_receipt := receipt, ni_observed := True\<rparr>))"

text \<open>The command at a time, and whether it has just grown stale.\<close>

definition nav_command :: "motion_token \<Rightarrow> time \<Rightarrow> nav_ingress \<Rightarrow> motion_command \<times> bool" where
  "nav_command t now s =
     (if \<not> ni_active s \<or> ni_token s \<noteq> t \<or> ni_expired s \<or> \<not> ni_observed s then (no_motion, False)
      else if now < ni_receipt s then (no_motion, False)
      else if command_freshness < now - ni_receipt s then (no_motion, True)
      else (ni_command s, False))"

definition nav_take_expired :: "time \<Rightarrow> nav_ingress \<Rightarrow> motion_token option \<times> nav_ingress" where
  "nav_take_expired now s =
     (if \<not> snd (nav_command (ni_token s) now s) \<or> ni_reported s then (None, s)
      else (Some (ni_token s), s\<lparr>ni_expired := True, ni_reported := True\<rparr>))"

datatype nav_call = NavBegin motion_token time writer_gid | NavEnd
  | NavObserve motion_token writer_gid motion_command time | NavTakeExpired time

primrec nav_step :: "nav_ingress \<Rightarrow> nav_call \<Rightarrow> nav_ingress" where
  "nav_step s (NavBegin t started gid) = nav_begin t started gid s"
| "nav_step s NavEnd = nav_end s"
| "nav_step s (NavObserve t gid c receipt) = snd (nav_observe t gid c receipt s)"
| "nav_step s (NavTakeExpired now) = snd (nav_take_expired now s)"

definition nav_run :: "nav_call list \<Rightarrow> nav_ingress" where
  "nav_run es = run nav_step nav_init es"

fun nav_rebinds :: "nav_call \<Rightarrow> bool" where
  "nav_rebinds (NavBegin t started gid) = True"
| "nav_rebinds NavEnd = True"
| "nav_rebinds _ = False"

text \<open>What the state says of the calls: its binding is the last begun, its command the last accepted since.\<close>

definition bound_by :: "nav_call list \<Rightarrow> motion_token \<Rightarrow> writer_gid \<Rightarrow> bool" where
  "bound_by es t gid \<longleftrightarrow> (\<exists>as started bs. es = as @ NavBegin t started gid # bs \<and> \<not> list_ex nav_rebinds bs)"

definition nav_inv :: "nav_call list \<Rightarrow> bool" where
  "nav_inv es \<longleftrightarrow> (let s = nav_run es in
     (ni_active s \<longrightarrow> (\<exists>gid. ni_gid s = Some gid \<and> bound_by es (ni_token s) gid
       \<and> (ni_observed s \<longrightarrow> (\<exists>as bs. es = as @ NavObserve (ni_token s) gid (ni_command s) (ni_receipt s) # bs
            \<and> fst (nav_observe (ni_token s) gid (ni_command s) (ni_receipt s) (nav_run as)) = NavAccepted
            \<and> \<not> list_ex nav_rebinds bs)))))"

lemma nav_run_snoc: "nav_run (es @ [x]) = nav_step (nav_run es) x"
  by (simp add: nav_run_def run_append)

lemma bound_by_snoc: "bound_by es t gid \<Longrightarrow> \<not> nav_rebinds x \<Longrightarrow> bound_by (es @ [x]) t gid"
  unfolding bound_by_def by (elim exE conjE, rule_tac x = as in exI, rule_tac x = started in exI, rule_tac x = "bs @ [x]" in exI) simp

lemma nav_inv_same:
  assumes i: "nav_inv es" and x: "\<not> nav_rebinds x"
    and same: "ni_active (nav_run (es @ [x])) = ni_active (nav_run es)" "ni_token (nav_run (es @ [x])) = ni_token (nav_run es)"
      "ni_gid (nav_run (es @ [x])) = ni_gid (nav_run es)" "ni_observed (nav_run (es @ [x])) = ni_observed (nav_run es)"
      "ni_command (nav_run (es @ [x])) = ni_command (nav_run es)" "ni_receipt (nav_run (es @ [x])) = ni_receipt (nav_run es)"
  shows "nav_inv (es @ [x])"
  unfolding nav_inv_def Let_def same
proof
  assume "ni_active (nav_run es)"
  with i obtain gid where g: "ni_gid (nav_run es) = Some gid" "bound_by es (ni_token (nav_run es)) gid"
    "ni_observed (nav_run es) \<Longrightarrow> \<exists>as bs. es = as @ NavObserve (ni_token (nav_run es)) gid (ni_command (nav_run es)) (ni_receipt (nav_run es)) # bs
       \<and> fst (nav_observe (ni_token (nav_run es)) gid (ni_command (nav_run es)) (ni_receipt (nav_run es)) (nav_run as)) = NavAccepted
       \<and> \<not> list_ex nav_rebinds bs"
    unfolding nav_inv_def Let_def by blast
  show "\<exists>gid. ni_gid (nav_run es) = Some gid \<and> bound_by (es @ [x]) (ni_token (nav_run es)) gid
       \<and> (ni_observed (nav_run es) \<longrightarrow> (\<exists>as bs. es @ [x] = as @ NavObserve (ni_token (nav_run es)) gid (ni_command (nav_run es)) (ni_receipt (nav_run es)) # bs
            \<and> fst (nav_observe (ni_token (nav_run es)) gid (ni_command (nav_run es)) (ni_receipt (nav_run es)) (nav_run as)) = NavAccepted
            \<and> \<not> list_ex nav_rebinds bs))"
  proof (intro exI [of _ gid] conjI impI)
    show "bound_by (es @ [x]) (ni_token (nav_run es)) gid" using g(2) x by (rule bound_by_snoc)
    assume "ni_observed (nav_run es)"
    then obtain as bs where "es = as @ NavObserve (ni_token (nav_run es)) gid (ni_command (nav_run es)) (ni_receipt (nav_run es)) # bs"
       "fst (nav_observe (ni_token (nav_run es)) gid (ni_command (nav_run es)) (ni_receipt (nav_run es)) (nav_run as)) = NavAccepted"
       "\<not> list_ex nav_rebinds bs" using g(3) by blast
    then show "\<exists>as bs. es @ [x] = as @ NavObserve (ni_token (nav_run es)) gid (ni_command (nav_run es)) (ni_receipt (nav_run es)) # bs
            \<and> fst (nav_observe (ni_token (nav_run es)) gid (ni_command (nav_run es)) (ni_receipt (nav_run es)) (nav_run as)) = NavAccepted
            \<and> \<not> list_ex nav_rebinds bs"
      using x by (intro exI [of _ as] exI [of _ "bs @ [x]"]) simp
  qed (rule g(1))
qed

lemma nav_inv_step:
  assumes "nav_inv es"
  shows "nav_inv (es @ [x])"
proof (cases x)
  case (NavBegin t started gid)
  have "bound_by (es @ [x]) t gid" unfolding bound_by_def NavBegin by (intro exI [of _ es] exI [of _ started] exI [of _ "[]"]) simp
  then show ?thesis by (simp add: nav_inv_def nav_run_snoc NavBegin nav_begin_def)
next
  case NavEnd
  then show ?thesis by (simp add: nav_inv_def nav_run_snoc nav_end_def)
next
  case (NavTakeExpired now)
  then show ?thesis by (intro nav_inv_same assms) (simp_all add: nav_run_snoc nav_take_expired_def)
next
  case (NavObserve t gid c r)
  show ?thesis
  proof (cases "fst (nav_observe t gid c r (nav_run es)) = NavAccepted")
    case False
    then show ?thesis using NavObserve
      by (intro nav_inv_same assms) (auto simp: nav_run_snoc nav_observe_def split: if_splits)
  next
    case True
    then have a: "ni_active (nav_run es)" "ni_token (nav_run es) = t" "ni_gid (nav_run es) = Some gid"
      by (auto simp: nav_observe_def split: if_splits)
    have s: "nav_run (es @ [x]) = (nav_run es)\<lparr>ni_command := c, ni_receipt := r, ni_observed := True\<rparr>"
      using True by (auto simp: nav_run_snoc NavObserve nav_observe_def split: if_splits)
    have "bound_by es t gid" using assms a by (auto simp: nav_inv_def Let_def)
    then have "bound_by (es @ [x]) t gid" by (rule bound_by_snoc) (simp add: NavObserve)
    moreover have "\<exists>as bs. es @ [x] = as @ NavObserve t gid c r # bs
        \<and> fst (nav_observe t gid c r (nav_run as)) = NavAccepted \<and> \<not> list_ex nav_rebinds bs"
      using True by (intro exI [of _ es] exI [of _ "[]"]) (simp add: NavObserve)
    ultimately show ?thesis using a by (simp add: nav_inv_def s)
  qed
qed

lemma nav_inv_run: "nav_inv es"
proof (induction es rule: rev_induct)
  case Nil
  show ?case by (simp add: nav_inv_def nav_run_def nav_init_def)
qed (rule nav_inv_step)

text \<open>
  C32: a command that moves was sent at most 125 ms ago by the writer the ingress was begun with, for the token
  it was begun with, and accepted; nothing was begun or ended since.
\<close>

theorem navigation_command_is_fresh:
  assumes "nav_command t now (nav_run es) = (c, stale)" and "c \<noteq> no_motion"
  shows "\<exists>gid r as bs. bound_by es t gid \<and> es = as @ NavObserve t gid c r # bs
    \<and> fst (nav_observe t gid c r (nav_run as)) = NavAccepted \<and> \<not> list_ex nav_rebinds bs
    \<and> r \<le> now \<and> now \<le> r + ms 125"
proof -
  let ?s = "nav_run es"
  have s: "ni_active ?s" "ni_token ?s = t" "ni_observed ?s" "ni_command ?s = c" "ni_receipt ?s \<le> now"
    "now - ni_receipt ?s \<le> ms 125"
    using assms by (auto simp: nav_command_def command_freshness_def split: if_splits)
  then obtain gid as bs where "bound_by es t gid" "es = as @ NavObserve t gid c (ni_receipt ?s) # bs"
    "fst (nav_observe t gid c (ni_receipt ?s) (nav_run as)) = NavAccepted" "\<not> list_ex nav_rebinds bs"
    using nav_inv_run [of es] unfolding nav_inv_def Let_def by blast
  then show ?thesis using s(5,6) by (intro exI [of _ gid] exI [of _ "ni_receipt ?s"] exI [of _ as] exI [of _ bs]) auto
qed

text \<open>Once its expiry is taken, an ingress gives no command and no second expiry until it is begun again.\<close>

lemma expired_stays:
  "ni_expired s \<Longrightarrow> ni_reported s \<Longrightarrow> \<not> list_ex nav_rebinds es \<Longrightarrow>
     ni_expired (run nav_step s es) \<and> ni_reported (run nav_step s es)"
proof (induction es arbitrary: s)
  case (Cons x es)
  then show ?case by (cases x) (auto simp: nav_observe_def nav_take_expired_def)
qed simp

lemma expiry_is_reported_once:
  assumes "nav_take_expired now s = (Some t, s')" and "\<not> list_ex nav_rebinds es"
  shows "nav_command u later (run nav_step s' es) = (no_motion, False)
    \<and> fst (nav_take_expired later (run nav_step s' es)) = None"
proof -
  have "ni_expired s'" "ni_reported s'" using assms(1) by (auto simp: nav_take_expired_def split: if_splits)
  from expired_stays [OF this assms(2)] show ?thesis by (simp add: nav_command_def nav_take_expired_def)
qed

theorem navigation_command_is_fresh_witness:
  "nav_command no_token (ms 200) (nav_run [NavBegin no_token 0 (replicate 16 7),
      NavObserve no_token (replicate 16 7) \<lparr>mc_linear = Fin 1, mc_angular = Fin 0\<rparr> (ms 100)]) =
     (\<lparr>mc_linear = Fin 1, mc_angular = Fin 0\<rparr>, False)
    \<and> bound_by [NavBegin no_token 0 (replicate 16 7),
      NavObserve no_token (replicate 16 7) \<lparr>mc_linear = Fin 1, mc_angular = Fin 0\<rparr> (ms 100)] no_token (replicate 16 7)"
proof -
  let ?es = "[NavBegin no_token 0 (replicate 16 7),
      NavObserve no_token (replicate 16 7) \<lparr>mc_linear = Fin 1, mc_angular = Fin 0\<rparr> (ms 100)]"
  have c: "nav_command no_token (ms 200) (nav_run ?es) = (\<lparr>mc_linear = Fin 1, mc_angular = Fin 0\<rparr>, False)"
    by (simp add: nav_run_def nav_init_def nav_begin_def nav_observe_def nav_command_def command_freshness_def ms_def
        gid_is_nonzero_def list_ex_iff)
  have "\<lparr>mc_linear = Fin 1, mc_angular = Fin 0\<rparr> \<noteq> no_motion" by (simp add: no_motion_def)
  from navigation_command_is_fresh [OF c this] obtain gid r as bs where
    "bound_by ?es no_token gid" "?es = as @ NavObserve no_token gid \<lparr>mc_linear = Fin 1, mc_angular = Fin 0\<rparr> r # bs" by blast
  then have "gid = replicate 16 7" by (auto simp: Cons_eq_append_conv)
  with \<open>bound_by ?es no_token gid\<close> c show ?thesis by simp
qed

end
