(* ===== verification/Sensevoice_Text.thy ===== *)
theory Sensevoice_Text
  imports Main "HOL-Library.Sublist"
begin

text \<open>
  The text of the recognizer (sensevoice_provider.cpp): four metadata tags in a fixed order, or none, and the
  text that remains when they are taken off.
\<close>

subsection \<open>Finding and trimming\<close>

text \<open>\<open>std::string::find\<close>: the first occurrence of a pattern that is not empty, from an index on.\<close>

primrec find_sub :: "string \<Rightarrow> string \<Rightarrow> nat option" where
  "find_sub p [] = None"
| "find_sub p (x # xs) = (if prefix p (x # xs) then Some 0 else map_option Suc (find_sub p xs))"

definition find_from :: "string \<Rightarrow> string \<Rightarrow> nat \<Rightarrow> nat option" where
  "find_from p s i = map_option (\<lambda>n. i + n) (find_sub p (drop i s))"

definition is_blank :: "char \<Rightarrow> bool" where
  "is_blank c \<longleftrightarrow> c = CHR '' '' \<or> c = CHR 0x09 \<or> c = CHR 0x0D \<or> c = CHR 0x0A"

definition trim :: "string \<Rightarrow> string" where
  "trim s = rev (dropWhile is_blank (rev (dropWhile is_blank s)))"

subsection \<open>Tags\<close>

definition tag_labels :: "nat \<Rightarrow> string list" where
  "tag_labels axis =
     (if axis = 0 then [''zh'', ''en'', ''ja'', ''ko'', ''yue'']
      else if axis = 1 then [''NEUTRAL'', ''HAPPY'', ''SAD'', ''ANGRY'']
      else if axis = 2 then [''Speech'', ''Applause'', ''Laughter'', ''Cry'']
      else if axis = 3 then [''withitn'', ''woitn'']
      else [])"

definition allowed_sensevoice_tag :: "nat \<Rightarrow> string \<Rightarrow> bool" where
  "allowed_sensevoice_tag axis label \<longleftrightarrow> label \<in> set (tag_labels axis)"

text \<open>One turn of the loop over the axes: the index after the tag at this index.\<close>

definition take_tag :: "nat \<Rightarrow> string \<Rightarrow> nat \<Rightarrow> nat option" where
  "take_tag axis s i =
     (if length s \<le> i + 1 \<or> s ! i \<noteq> CHR ''<'' \<or> s ! (i + 1) \<noteq> CHR ''|'' then None
      else case find_from ''|>'' s (i + 2) of
        None \<Rightarrow> None
      | Some end1 \<Rightarrow>
          if end1 = i + 2 \<or> \<not> allowed_sensevoice_tag axis (take (end1 - i - 2) (drop (i + 2) s)) then None
          else Some (end1 + 2))"

primrec take_tags :: "nat list \<Rightarrow> string \<Rightarrow> nat \<Rightarrow> nat option" where
  "take_tags [] s i = Some i"
| "take_tags (a # as) s i = (case take_tag a s i of None \<Rightarrow> None | Some j \<Rightarrow> take_tags as s j)"

text \<open>The normalized text; \<open>None\<close> when the text is refused.\<close>

definition nonempty_trim :: "string \<Rightarrow> string option" where
  "nonempty_trim s = (if trim s = [] then None else Some (trim s))"

definition normalize_sensevoice_text :: "string \<Rightarrow> string option" where
  "normalize_sensevoice_text labeled =
     (if find_from ''<|'' labeled 0 = None \<and> find_from ''|>'' labeled 0 = None then nonempty_trim labeled
      else case take_tags [0, 1, 2, 3] labeled 0 of
        None \<Rightarrow> None
      | Some i \<Rightarrow>
          if find_from ''<|'' labeled i \<noteq> None \<or> find_from ''|>'' labeled i \<noteq> None then None
          else nonempty_trim (drop i labeled))"

subsection \<open>What is accepted\<close>

definition tag_of :: "string \<Rightarrow> string" where
  "tag_of label = ''<|'' @ label @ ''|>''"

definition plain_text :: "string \<Rightarrow> bool" where
  "plain_text s \<longleftrightarrow> \<not> sublist ''<|'' s \<and> \<not> sublist ''|>'' s"

definition tag_prefix :: "string \<Rightarrow> bool" where
  "tag_prefix s \<longleftrightarrow> (\<exists>l e v i. allowed_sensevoice_tag 0 l \<and> allowed_sensevoice_tag 1 e \<and> allowed_sensevoice_tag 2 v
     \<and> allowed_sensevoice_tag 3 i \<and> s = tag_of l @ tag_of e @ tag_of v @ tag_of i)"

lemma find_sub_None: "p \<noteq> [] \<Longrightarrow> find_sub p s = None \<longleftrightarrow> \<not> sublist p s"
  by (induction s) (auto simp: sublist_Cons_right)

lemma find_sub_Some: "find_sub p s = Some n \<Longrightarrow> s = take n s @ p @ drop (n + length p) s"
proof (induction s arbitrary: n)
  case (Cons x xs)
  show ?case
  proof (cases "prefix p (x # xs)")
    case True
    then show ?thesis using Cons.prems by (auto simp: prefix_def)
  next
    case False
    then obtain m where "find_sub p xs = Some m" "n = Suc m" using Cons.prems by auto
    with Cons.IH show ?thesis by (metis append_Cons drop_Suc_Cons plus_nat.simps(2) take_Suc_Cons)
  qed
qed simp

lemma find_from_plain: "(find_from ''<|'' s i = None \<and> find_from ''|>'' s i = None) \<longleftrightarrow> plain_text (drop i s)"
  by (simp add: find_from_def find_sub_None plain_text_def)

lemma take_tag_sound:
  assumes "take_tag a s i = Some j"
  shows "\<exists>l. allowed_sensevoice_tag a l \<and> drop i s = tag_of l @ drop j s"
proof -
  have b: "i + 1 < length s" "s ! i = CHR ''<''" "s ! (i + 1) = CHR ''|''"
    using assms by (auto simp: take_tag_def split: if_splits)
  then obtain n where f: "find_sub ''|>'' (drop (i + 2) s) = Some n"
      "allowed_sensevoice_tag a (take n (drop (i + 2) s))" "j = i + 2 + n + 2"
    using assms by (auto simp: take_tag_def find_from_def split: if_splits option.splits)
  have "drop i s = CHR ''<'' # CHR ''|'' # drop (i + 2) s"
    using b by (metis Cons_nth_drop_Suc Suc_1 Suc_eq_plus1 Suc_lessD add_Suc_right)
  also have "drop (i + 2) s = take n (drop (i + 2) s) @ ''|>'' @ drop j s"
    using find_sub_Some [OF f(1)] f(3) by (simp add: add.commute add.left_commute numeral_2_eq_2)
  finally show ?thesis using f(2) by (intro exI [of _ "take n (drop (i + 2) s)"]) (simp add: tag_of_def)
qed

lemma take_tag_complete:
  assumes "allowed_sensevoice_tag a l"
  shows "take_tag a (pre @ tag_of l @ r) (length pre) = Some (length pre + length (tag_of l))"
proof -
  have "l \<noteq> []" "find_sub ''|>'' (l @ ''|>'' @ r) = Some (length l)"
    using assms by (auto simp: allowed_sensevoice_tag_def tag_labels_def split: if_splits)
  then show ?thesis using assms by (simp add: take_tag_def find_from_def tag_of_def nth_append)
qed

lemma take_tags_complete:
  assumes "allowed_sensevoice_tag 0 l" "allowed_sensevoice_tag 1 e" "allowed_sensevoice_tag 2 v" "allowed_sensevoice_tag 3 i"
  shows "take_tags [0, 1, 2, 3] (tag_of l @ tag_of e @ tag_of v @ tag_of i @ r) 0 =
    Some (length (tag_of l @ tag_of e @ tag_of v @ tag_of i))"
  using take_tag_complete [OF assms(1), of "[]" "tag_of e @ tag_of v @ tag_of i @ r"]
    take_tag_complete [OF assms(2), of "tag_of l" "tag_of v @ tag_of i @ r"]
    take_tag_complete [OF assms(3), of "tag_of l @ tag_of e" "tag_of i @ r"]
    take_tag_complete [OF assms(4), of "tag_of l @ tag_of e @ tag_of v" r]
  by (simp add: add.assoc)

lemma take_tags_sound:
  assumes "take_tags [0, 1, 2, 3] s 0 = Some j"
  shows "\<exists>p. tag_prefix p \<and> s = p @ drop j s"
proof -
  obtain j1 j2 j3 where "take_tag 0 s 0 = Some j1" "take_tag 1 s j1 = Some j2" "take_tag 2 s j2 = Some j3"
    "take_tag 3 s j3 = Some j"
    using assms by (auto split: option.splits)
  from this [THEN take_tag_sound] show ?thesis
    unfolding tag_prefix_def by (metis append_assoc drop0)
qed

lemma tag_prefix_not_plain: "tag_prefix p \<Longrightarrow> \<not> plain_text (p @ s)"
  by (auto simp: tag_prefix_def plain_text_def tag_of_def)

lemma plain_text_drop: "plain_text (drop i s) \<longleftrightarrow> find_from ''<|'' s i = None \<and> find_from ''|>'' s i = None"
  by (simp add: find_from_plain)

text \<open>
  C29: a text is accepted exactly when it is the four tags in their order or no tags at all, followed by text
  without tag syntax that is not blank; what is accepted is that text, trimmed.
\<close>

theorem normalize_accepts_tagged_text:
  "normalize_sensevoice_text s = Some t \<longleftrightarrow>
     t \<noteq> [] \<and> (\<exists>p body. s = p @ body \<and> (p = [] \<or> tag_prefix p) \<and> plain_text body \<and> t = trim body)"
proof (cases "plain_text s")
  case True
  then have "normalize_sensevoice_text s = nonempty_trim s"
    using plain_text_drop [of 0 s] by (simp add: normalize_sensevoice_text_def)
  moreover have "(\<exists>p body. s = p @ body \<and> (p = [] \<or> tag_prefix p) \<and> plain_text body \<and> t = trim body) \<longleftrightarrow> t = trim s"
    using True tag_prefix_not_plain by auto
  ultimately show ?thesis by (auto simp: nonempty_trim_def)
next
  case False
  then have n: "normalize_sensevoice_text s =
      (case take_tags [0, 1, 2, 3] s 0 of None \<Rightarrow> None
        | Some i \<Rightarrow> if plain_text (drop i s) then nonempty_trim (drop i s) else None)"
    using plain_text_drop [of 0 s] plain_text_drop [of _ s]
    by (auto simp: normalize_sensevoice_text_def split: option.split)
  show ?thesis
  proof
    assume a: "normalize_sensevoice_text s = Some t"
    then obtain i where i: "take_tags [0, 1, 2, 3] s 0 = Some i" "plain_text (drop i s)" "nonempty_trim (drop i s) = Some t"
      unfolding n by (auto split: option.splits if_splits)
    from take_tags_sound [OF i(1)] obtain p where "tag_prefix p" "s = p @ drop i s" by blast
    with i show "t \<noteq> [] \<and> (\<exists>p body. s = p @ body \<and> (p = [] \<or> tag_prefix p) \<and> plain_text body \<and> t = trim body)"
      by (auto simp: nonempty_trim_def split: if_splits)
  next
    assume "t \<noteq> [] \<and> (\<exists>p body. s = p @ body \<and> (p = [] \<or> tag_prefix p) \<and> plain_text body \<and> t = trim body)"
    then obtain p body where p: "t \<noteq> []" "s = p @ body" "tag_prefix p" "plain_text body" "t = trim body"
      using False by auto
    then obtain l e v i where "allowed_sensevoice_tag 0 l" "allowed_sensevoice_tag 1 e" "allowed_sensevoice_tag 2 v"
      "allowed_sensevoice_tag 3 i" "p = tag_of l @ tag_of e @ tag_of v @ tag_of i"
      unfolding tag_prefix_def by blast
    then have "take_tags [0, 1, 2, 3] s 0 = Some (length p)"
      using take_tags_complete [of l e v i body] p(2) by simp
    then show "normalize_sensevoice_text s = Some t" using p unfolding n by (simp add: nonempty_trim_def)
  qed
qed

lemma normalize_keeps_text:
  assumes "tag_prefix p" and "plain_text body" and "trim body \<noteq> []"
  shows "normalize_sensevoice_text (p @ body) = Some (trim body)"
  using normalize_accepts_tagged_text assms by blast

end
