(* ===== verification/Sensevoice_Provider.thy ===== *)
theory Sensevoice_Provider
  imports Speech_Input Sensevoice_Text
begin

text \<open>
  The continuous recognizer (\<open>SenseVoiceProvider\<close>, sensevoice_provider.hpp and .cpp). Other threads queue frames,
  end the input, report turn scopes and shut it down; one worker takes the frames through voice activity
  detection and, at an endpoint, through inference. The detector and the inference are parameters: a step of
  the worker is given what they would answer. A section of code under one lock is one step; what the worker
  has still to do in its present call is a list of actions.
\<close>

subsection \<open>Detector and state\<close>

datatype vad_decision = VadSilence | VadSpeech | VadEndpoint

record vad_result =
  vr_decision :: vad_decision
  vr_endpoint :: nat

datatype flush_status = FlushEmpty | FlushUnique | FlushMultiple | FlushInvalid

record flush_result =
  fr_status :: flush_status
  fr_endpoint :: nat

text \<open>What the worker does next, each a section of its code between two locks or calls.\<close>

datatype worker_action =
    DoConsume clean_frame | DoVad clean_frame | DoArmed clean_frame vad_result | DoQuarantine clean_frame vad_result
  | DoScope clean_frame vad_result | DoClaim clean_frame | DoRetire | DoReport speech_kind clean_frame
  | DoEmit speech_event | DoDeliver speech_event | DoStopCheck | DoEndpoint nat | DoInfer clean_frame
  | DoInferred clean_frame turn_scope | DoReset | DoFinish | DoFinishFrame | DoFlush clean_frame
  | DoFlushed clean_frame flush_result

text \<open>What others see of it; \<open>FrameCopied\<close> records the samples added to the utterance.\<close>

datatype provider_effect = EventEmitted speech_event | FrameCopied "u16 list" | InferenceRun "u16 list" | TurnReset
  | ProviderStopped

datatype shutdown_pc = ShutdownNone | ShutdownRequested | ShutdownFenced | ShutdownDone

record provider =
  sv_maximum :: nat
  sv_queue :: "clean_frame list"
  sv_stop_requested :: bool
  sv_stopping :: bool
  sv_armed :: bool
  sv_sink :: bool
  sv_samples :: "u16 list"
  sv_admission :: nat
  sv_last_endpoint :: nat
  sv_wake_sent :: bool
  sv_quarantined :: bool
  sv_overflow_pending :: bool
  sv_failure_emitted :: bool
  sv_finish_requested :: bool
  sv_finish_handled :: bool
  sv_duplicate_finish :: bool
  sv_last_frame :: "clean_frame option"
  sv_overflow_frame :: clean_frame
  sv_scope :: turn_scope
  sv_todo :: "worker_action list"
  sv_exited :: bool
  sv_shutdown :: shutdown_pc
  sv_log :: "provider_effect list"

definition frame_capacity :: nat where "frame_capacity = 160"
definition default_maximum_frames :: nat where "default_maximum_frames = 1500"

definition no_frame :: clean_frame where
  "no_frame = \<lparr>cf_rate = 16000, cf_channels = 1, cf_generation = 0, cf_seq = 0, cf_valid = 0,
     cf_samples = replicate frame_capacity 0\<rparr>"

definition provider_init :: "nat \<Rightarrow> provider" where
  "provider_init maximum = \<lparr>sv_maximum = min (if maximum = 0 then default_maximum_frames else maximum) default_maximum_frames,
     sv_queue = [], sv_stop_requested = False, sv_stopping = False, sv_armed = True, sv_sink = False, sv_samples = [],
     sv_admission = 0, sv_last_endpoint = 0, sv_wake_sent = False, sv_quarantined = False, sv_overflow_pending = False,
     sv_failure_emitted = False, sv_finish_requested = False, sv_finish_handled = False, sv_duplicate_finish = False,
     sv_last_frame = None, sv_overflow_frame = no_frame, sv_scope = no_scope, sv_todo = [], sv_exited = False,
     sv_shutdown = ShutdownNone, sv_log = []\<rparr>"

definition sv_say :: "provider_effect \<Rightarrow> provider \<Rightarrow> provider" where
  "sv_say x s = s\<lparr>sv_log := sv_log s @ [x]\<rparr>"

definition is_armed :: "provider \<Rightarrow> bool" where
  "is_armed s \<longleftrightarrow> sv_armed s \<and> \<not> sv_stopping s"

subsection \<open>The calls of other threads\<close>

definition provider_frame :: "clean_frame \<Rightarrow> provider \<Rightarrow> provider" where
  "provider_frame f s =
     (if sv_stopping s then s
      else if sv_finish_requested s then s\<lparr>sv_duplicate_finish := True\<rparr>
      else
        let s = s\<lparr>sv_sink := True\<rparr> in
        if length (sv_queue s) = sv_maximum s
        then s\<lparr>sv_armed := False, sv_quarantined := True, sv_overflow_pending := True, sv_overflow_frame := f, sv_queue := []\<rparr>
        else s\<lparr>sv_queue := sv_queue s @ [f]\<rparr>)"

definition provider_finish :: "provider \<Rightarrow> provider" where
  "provider_finish s =
     (if sv_stopping s then s
      else if \<not> sv_armed s \<or> sv_finish_requested s \<or> sv_finish_handled s
      then (if sv_armed s \<and> (sv_finish_requested s \<or> sv_finish_handled s) then s\<lparr>sv_duplicate_finish := True\<rparr> else s)
      else s\<lparr>sv_finish_requested := True, sv_finish_handled := False\<rparr>)"

definition scope_opened :: "turn_scope \<Rightarrow> provider \<Rightarrow> provider" where
  "scope_opened sc s = s\<lparr>sv_scope := sc\<rparr>"

definition scope_retired :: "turn_scope \<Rightarrow> provider \<Rightarrow> provider" where
  "scope_retired sc s =
     (if ts_id (sv_scope s) = ts_id sc \<and> ts_turn (sv_scope s) = ts_turn sc then s\<lparr>sv_scope := no_scope\<rparr> else s)"

text \<open>The shutdown: the request, the section under the lock, and, once the worker has been joined, its end.\<close>

definition provider_shutdown :: "provider \<Rightarrow> provider" where
  "provider_shutdown s =
     (case sv_shutdown s of
        ShutdownNone \<Rightarrow> s\<lparr>sv_stop_requested := True, sv_shutdown := ShutdownRequested\<rparr>
      | ShutdownRequested \<Rightarrow>
          s\<lparr>sv_stopping := True, sv_armed := False, sv_queue := [], sv_overflow_pending := False, sv_sink := False,
            sv_finish_requested := False, sv_finish_handled := True, sv_duplicate_finish := False,
            sv_shutdown := ShutdownFenced\<rparr>
      | ShutdownFenced \<Rightarrow> if sv_exited s then sv_say ProviderStopped (s\<lparr>sv_shutdown := ShutdownDone\<rparr>) else s
      | ShutdownDone \<Rightarrow> s)"

subsection \<open>The worker's sections\<close>

definition failure_todo :: "clean_frame \<Rightarrow> worker_action list" where
  "failure_todo f = [DoRetire, DoReport SpeechFailure f, DoReset]"

definition report_event :: "speech_kind \<Rightarrow> clean_frame \<Rightarrow> turn_scope \<Rightarrow> speech_event" where
  "report_event k f sc = default_event\<lparr>se_kind := k, se_generation := cf_generation f, se_seq := cf_seq f, se_scope := sc\<rparr>"

text \<open>The head of the loop, once its wait is over: the next frame, the overflow, or the end of the input.\<close>

definition worker_take :: "provider \<Rightarrow> provider" where
  "worker_take s =
     (if \<not> (sv_stopping s \<or> sv_queue s \<noteq> [] \<or> sv_overflow_pending s \<or> sv_finish_requested s \<and> \<not> sv_finish_handled s
          \<or> sv_duplicate_finish s) then s
      else if sv_stopping s \<and> sv_queue s = [] \<and> \<not> sv_overflow_pending s then s\<lparr>sv_exited := True\<rparr>
      else if sv_overflow_pending s then s\<lparr>sv_todo := [DoClaim (sv_overflow_frame s)]\<rparr>
      else case sv_queue s of
        f # q \<Rightarrow> s\<lparr>sv_queue := q, sv_todo := [DoConsume f]\<rparr>
      | [] \<Rightarrow>
          if sv_finish_requested s \<and> \<not> sv_finish_handled s then
            (let s' = s\<lparr>sv_finish_handled := True\<rparr> in
             if sv_armed s then s'\<lparr>sv_todo := [DoFinish]\<rparr>
             else s'\<lparr>sv_finish_requested := False, sv_todo := [DoConsume no_frame]\<rparr>)
          else s\<lparr>sv_duplicate_finish := False, sv_todo := [DoFinish]\<rparr>)"

definition copy_frame :: "clean_frame \<Rightarrow> provider \<Rightarrow> bool \<times> provider" where
  "copy_frame f s =
     (let n = unat (cf_valid f) in
      if n = 0 \<or> frame_capacity < n \<or> sv_maximum s * frame_capacity - n < length (sv_samples s) then (False, s)
      else (True, sv_say (FrameCopied (take n (cf_samples f))) (s\<lparr>sv_samples := sv_samples s @ take n (cf_samples f)\<rparr>)))"

definition do_consume :: "clean_frame \<Rightarrow> provider \<Rightarrow> provider" where
  "do_consume f s =
     (if \<not> is_armed s then s
      else let (ok, s) = copy_frame f (s\<lparr>sv_admission := sv_admission s + 1, sv_last_frame := Some f\<rparr>)
           in s\<lparr>sv_todo := (if ok then [DoVad f] else failure_todo f)\<rparr>)"

text \<open>After the detector: the limit of the turn, the detector's contract, and the wake.\<close>

definition do_quarantine :: "clean_frame \<Rightarrow> vad_result \<Rightarrow> provider \<Rightarrow> provider" where
  "do_quarantine f r s =
     (if sv_quarantined s then s\<lparr>sv_todo := [DoClaim f]\<rparr>
      else if sv_maximum s \<le> sv_admission s then s\<lparr>sv_todo := [DoRetire, DoReport SpeechTimeout f, DoReset]\<rparr>
      else if vr_decision r \<noteq> VadEndpoint \<and> vr_endpoint r \<noteq> 0 then s\<lparr>sv_todo := failure_todo f\<rparr>
      else if vr_decision r = VadSilence then s
      else if \<not> sv_wake_sent s
        then s\<lparr>sv_wake_sent := True, sv_todo := [DoEmit (wake_accepted f), DoStopCheck, DoScope f r]\<rparr>
      else s\<lparr>sv_todo := [DoStopCheck, DoScope f r]\<rparr>)"

definition do_scope :: "clean_frame \<Rightarrow> vad_result \<Rightarrow> provider \<Rightarrow> provider" where
  "do_scope f r s =
     (let sc = sv_scope s; n = vr_endpoint r in
      if vr_decision r = VadSpeech
      then (if ts_id sc \<noteq> 0 then s\<lparr>sv_todo := [DoEmit (activity f sc)]\<rparr> else s)
      else if n = 0 \<or> length (sv_samples s) < n \<or> n \<le> sv_last_endpoint s then s\<lparr>sv_todo := failure_todo f\<rparr>
      else s\<lparr>sv_last_endpoint := n, sv_todo := [DoEndpoint n, DoInfer f, DoReset]\<rparr>)"

definition do_claim :: "clean_frame \<Rightarrow> provider \<Rightarrow> provider" where
  "do_claim f s =
     (if \<not> sv_quarantined s \<or> sv_failure_emitted s \<or> sv_stopping s then s
      else s\<lparr>sv_failure_emitted := True, sv_overflow_pending := False,
             sv_todo := failure_todo (if sv_overflow_pending s then sv_overflow_frame s else f)\<rparr>)"

text \<open>The reset of a turn; the frames that wait are kept.\<close>

definition do_reset :: "provider \<Rightarrow> provider" where
  "do_reset s =
     (if sv_stopping s then s
      else sv_say TurnReset
        (s\<lparr>sv_armed := True, sv_admission := 0, sv_samples := [], sv_last_endpoint := 0, sv_wake_sent := False,
           sv_quarantined := False, sv_overflow_pending := False, sv_failure_emitted := False,
           sv_finish_requested := False, sv_finish_handled := False, sv_duplicate_finish := False,
           sv_last_frame := None, sv_sink := (sv_sink s \<and> sv_queue s \<noteq> [])\<rparr>))"

definition bytes_of :: "string \<Rightarrow> u8 list" where
  "bytes_of t = map (\<lambda>c. of_nat (of_char c)) t"

definition do_inferred :: "clean_frame \<Rightarrow> turn_scope \<Rightarrow> string option \<Rightarrow> provider \<Rightarrow> provider" where
  "do_inferred f sc text s =
     (let s = sv_say (InferenceRun (sv_samples s)) s;
          failure = s\<lparr>sv_todo := DoEmit (report_event SpeechFailure f sc) # sv_todo s\<rparr>
      in case text of
           None \<Rightarrow> failure
         | Some labeled \<Rightarrow>
             if ts_id sc = 0 then failure
             else case normalize_sensevoice_text labeled of
                None \<Rightarrow> failure
              | Some t \<Rightarrow> s\<lparr>sv_todo := DoEmit (endpoint_final f sc (bytes_of t) (Fin 1) TurnCommand) # sv_todo s\<rparr>)"

definition do_finish_frame :: "provider \<Rightarrow> provider" where
  "do_finish_frame s =
     (let duplicate = sv_duplicate_finish s; s = s\<lparr>sv_duplicate_finish := False\<rparr> in
      case sv_last_frame s of
        None \<Rightarrow> s\<lparr>sv_todo := failure_todo no_frame\<rparr>
      | Some f \<Rightarrow> s\<lparr>sv_todo := (if duplicate then failure_todo f else [DoFlush f])\<rparr>)"

definition do_flushed :: "clean_frame \<Rightarrow> flush_result \<Rightarrow> provider \<Rightarrow> provider" where
  "do_flushed f r s =
     (let n = fr_endpoint r in
      if \<not> is_armed s then s
      else if fr_status r \<noteq> FlushUnique \<or> n = 0 \<or> length (sv_samples s) < n \<or> n \<le> sv_last_endpoint s
      then s\<lparr>sv_todo := failure_todo f\<rparr>
      else if \<not> sv_wake_sent s
        then s\<lparr>sv_wake_sent := True, sv_todo := [DoEndpoint n, DoEmit (wake_accepted f), DoStopCheck, DoInfer f, DoReset]\<rparr>
      else s\<lparr>sv_todo := [DoEndpoint n, DoStopCheck, DoInfer f, DoReset]\<rparr>)"

record worker_oracle =
  wo_vad :: vad_result
  wo_flush :: flush_result
  wo_text :: "string option"

text \<open>One action; the actions after it stay in \<open>sv_todo\<close>, unless the action returns from the call.\<close>

primrec worker_act :: "worker_oracle \<Rightarrow> worker_action \<Rightarrow> provider \<Rightarrow> provider" where
  "worker_act w (DoConsume f) s = do_consume f s"
| "worker_act w (DoVad f) s = s\<lparr>sv_todo := [DoArmed f (wo_vad w)]\<rparr>"
| "worker_act w (DoArmed f r) s = (if is_armed s then s\<lparr>sv_todo := [DoQuarantine f r]\<rparr> else s)"
| "worker_act w (DoQuarantine f r) s = do_quarantine f r s"
| "worker_act w (DoScope f r) s = do_scope f r s"
| "worker_act w (DoClaim f) s = do_claim f s"
| "worker_act w DoRetire s = s\<lparr>sv_armed := False, sv_queue := []\<rparr>"
| "worker_act w (DoReport k f) s = s\<lparr>sv_todo := DoEmit (report_event k f (sv_scope s)) # sv_todo s\<rparr>"
| "worker_act w (DoEmit e) s = (if \<not> sv_stopping s \<and> sv_sink s then s\<lparr>sv_todo := DoDeliver e # sv_todo s\<rparr> else s)"
| "worker_act w (DoDeliver e) s = sv_say (EventEmitted e) s"
| "worker_act w DoStopCheck s = (if sv_stop_requested s then s\<lparr>sv_todo := []\<rparr> else s)"
| "worker_act w (DoEndpoint n) s = s\<lparr>sv_armed := False, sv_queue := [], sv_samples := take n (sv_samples s)\<rparr>"
| "worker_act w (DoInfer f) s = s\<lparr>sv_todo := DoInferred f (sv_scope s) # sv_todo s\<rparr>"
| "worker_act w (DoInferred f sc) s = do_inferred f sc (wo_text w) s"
| "worker_act w DoReset s = do_reset s"
| "worker_act w DoFinish s = (if is_armed s then s\<lparr>sv_todo := [DoFinishFrame]\<rparr> else s)"
| "worker_act w DoFinishFrame s = do_finish_frame s"
| "worker_act w (DoFlush f) s = s\<lparr>sv_todo := [DoFlushed f (wo_flush w)]\<rparr>"
| "worker_act w (DoFlushed f r) s = do_flushed f r s"

definition worker_step :: "worker_oracle \<Rightarrow> provider \<Rightarrow> provider" where
  "worker_step w s =
     (if sv_exited s then s
      else case sv_todo s of
        [] \<Rightarrow> worker_take s
      | a # rest \<Rightarrow> worker_act w a (s\<lparr>sv_todo := rest\<rparr>))"

datatype provider_call = ProcessFrame clean_frame | FinishInput | ScopeOpened turn_scope | ScopeRetired turn_scope
  | ShutDown | WorkerRuns worker_oracle

primrec provider_step :: "provider \<Rightarrow> provider_call \<Rightarrow> provider" where
  "provider_step s (ProcessFrame f) = provider_frame f s"
| "provider_step s FinishInput = provider_finish s"
| "provider_step s (ScopeOpened sc) = scope_opened sc s"
| "provider_step s (ScopeRetired sc) = scope_retired sc s"
| "provider_step s ShutDown = provider_shutdown s"
| "provider_step s (WorkerRuns w) = worker_step w s"

definition provider_run :: "nat \<Rightarrow> provider_call list \<Rightarrow> provider" where
  "provider_run maximum es = run provider_step (provider_init maximum) es"

subsection \<open>The turns of the recognizer\<close>

text \<open>
  A turn is idle until its wake, awake until its one terminal event, and over until the reset. Inference is run
  only in a turn that is awake.
\<close>

datatype turn_stage = StageIdle | StageAwake | StageOver

primrec stage_event :: "turn_stage \<Rightarrow> speech_kind \<Rightarrow> turn_stage option" where
  "stage_event st WakeMiss = None"
| "stage_event st WakeAccepted = (if st = StageIdle then Some StageAwake else None)"
| "stage_event st Activity = (if st = StageAwake then Some StageAwake else None)"
| "stage_event st EndpointFinal = (if st = StageAwake then Some StageOver else None)"
| "stage_event st SpeechTimeout = (if st \<noteq> StageOver then Some StageOver else None)"
| "stage_event st SpeechFailure = (if st \<noteq> StageOver then Some StageOver else None)"

primrec stage_next :: "turn_stage \<Rightarrow> provider_effect \<Rightarrow> turn_stage option" where
  "stage_next st (EventEmitted e) = stage_event st (se_kind e)"
| "stage_next st (FrameCopied xs) = (if st \<noteq> StageOver then Some st else None)"
| "stage_next st (InferenceRun xs) = (if st = StageAwake then Some st else None)"
| "stage_next st TurnReset = Some StageIdle"
| "stage_next st ProviderStopped = Some StageOver"

primrec stage_follow :: "turn_stage \<Rightarrow> provider_effect list \<Rightarrow> turn_stage option" where
  "stage_follow st [] = Some st"
| "stage_follow st (x # xs) = (case stage_next st x of None \<Rightarrow> None | Some st' \<Rightarrow> stage_follow st' xs)"

lemma stage_follow_snoc:
  "stage_follow st (xs @ [x]) = (case stage_follow st xs of None \<Rightarrow> None | Some st' \<Rightarrow> stage_next st' x)"
  by (induction xs arbitrary: st) (auto split: option.split)

text \<open>The samples copied since the last reset; each inference takes a first part of them.\<close>

definition collect_step :: "u16 list \<Rightarrow> provider_effect \<Rightarrow> u16 list" where
  "collect_step c x = (case x of FrameCopied xs \<Rightarrow> c @ xs | TurnReset \<Rightarrow> [] | _ \<Rightarrow> c)"

definition collected :: "provider_effect list \<Rightarrow> u16 list" where
  "collected xs = foldl collect_step [] xs"

lemma collected_snoc: "collected (xs @ [x]) = collect_step (collected xs) x"
  by (simp add: collected_def)

definition first_part :: "u16 list \<Rightarrow> u16 list \<Rightarrow> bool" where
  "first_part xs c \<longleftrightarrow> xs \<noteq> [] \<and> prefix xs c"

definition inferences_ok :: "nat \<Rightarrow> provider_effect list \<Rightarrow> bool" where
  "inferences_ok n l \<longleftrightarrow> (\<forall>as xs bs. l = as @ InferenceRun xs # bs \<longrightarrow> first_part xs (collected as) \<and> length xs \<le> n)"

lemma inferences_ok_snoc:
  "inferences_ok n (l @ [x]) \<longleftrightarrow> inferences_ok n l \<and> (\<forall>xs. x = InferenceRun xs \<longrightarrow> first_part xs (collected l) \<and> length xs \<le> n)"
proof
  assume a: "inferences_ok n (l @ [x])"
  have "inferences_ok n l"
    using a unfolding inferences_ok_def by (metis append_Cons append_assoc)
  then show "inferences_ok n l \<and> (\<forall>xs. x = InferenceRun xs \<longrightarrow> first_part xs (collected l) \<and> length xs \<le> n)"
    using a unfolding inferences_ok_def by blast
next
  assume b: "inferences_ok n l \<and> (\<forall>xs. x = InferenceRun xs \<longrightarrow> first_part xs (collected l) \<and> length xs \<le> n)"
  show "inferences_ok n (l @ [x])"
    unfolding inferences_ok_def
  proof (intro allI impI)
    fix as xs bs
    assume e: "l @ [x] = as @ InferenceRun xs # bs"
    show "first_part xs (collected as) \<and> length xs \<le> n"
    proof (cases bs rule: rev_exhaust)
      case Nil
      then show ?thesis using e b by simp
    next
      case (snoc cs y)
      then have "l = as @ InferenceRun xs # cs" using e by simp
      then show ?thesis using b unfolding inferences_ok_def by blast
    qed
  qed
qed

subsection \<open>What the worker's actions rely on\<close>

definition in_turn :: "provider \<Rightarrow> turn_stage \<Rightarrow> bool" where
  "in_turn s st \<longleftrightarrow> sv_stopping s \<or> st = (if sv_wake_sent s then StageAwake else StageIdle)"

definition sink_ok :: "provider \<Rightarrow> bool" where
  "sink_ok s \<longleftrightarrow> sv_sink s \<or> sv_stopping s"

definition awake :: "provider \<Rightarrow> turn_stage \<Rightarrow> bool" where
  "awake s st \<longleftrightarrow> sv_wake_sent s \<and> (sv_stopping s \<or> st = StageAwake)"

definition waking :: "provider \<Rightarrow> turn_stage \<Rightarrow> bool" where
  "waking s st \<longleftrightarrow> sv_wake_sent s \<and> (sv_stopping s \<or> st = StageIdle)"

definition ends_turn :: "speech_kind \<Rightarrow> bool" where
  "ends_turn k \<longleftrightarrow> k = SpeechFailure \<or> k = SpeechTimeout"

definition after_wake :: "worker_action list \<Rightarrow> provider \<Rightarrow> u16 list \<Rightarrow> bool" where
  "after_wake rest s c \<longleftrightarrow> (\<exists>f r. rest = [DoScope f r] \<and> sv_samples s = c)
     \<or> (\<exists>f. rest = [DoInfer f, DoReset] \<and> first_part (sv_samples s) c \<and> \<not> sv_armed s)"

primrec act_inv :: "worker_action \<Rightarrow> worker_action list \<Rightarrow> provider \<Rightarrow> turn_stage \<Rightarrow> u16 list \<Rightarrow> bool" where
  "act_inv (DoConsume f) rest s st c = (rest = [] \<and> in_turn s st \<and> (sv_armed s \<longrightarrow> sink_ok s \<and> sv_samples s = c))"
| "act_inv (DoVad f) rest s st c = (rest = [] \<and> in_turn s st \<and> sink_ok s \<and> sv_samples s = c)"
| "act_inv (DoArmed f r) rest s st c = (rest = [] \<and> in_turn s st \<and> sink_ok s \<and> sv_samples s = c)"
| "act_inv (DoQuarantine f r) rest s st c = (rest = [] \<and> in_turn s st \<and> sink_ok s \<and> sv_samples s = c)"
| "act_inv (DoScope f r) rest s st c = (rest = [] \<and> sv_wake_sent s \<and> st = StageAwake \<and> sv_samples s = c)"
| "act_inv (DoClaim f) rest s st c = (rest = [] \<and> in_turn s st \<and> (sv_armed s \<longrightarrow> sv_samples s = c))"
| "act_inv DoRetire rest s st c =
     ((\<exists>k f. rest = [DoReport k f, DoReset] \<and> ends_turn k) \<and> (sv_stopping s \<or> st \<noteq> StageOver))"
| "act_inv (DoReport k f) rest s st c = (rest = [DoReset] \<and> ends_turn k \<and> (sv_stopping s \<or> st \<noteq> StageOver))"
| "act_inv (DoEmit e) rest s st c =
     (se_kind e = WakeAccepted \<and> (\<exists>more. rest = DoStopCheck # more \<and> after_wake more s c) \<and> waking s st \<and> sink_ok s
      \<or> se_kind e = Activity \<and> rest = [] \<and> sv_wake_sent s \<and> st = StageAwake \<and> sv_samples s = c
      \<or> se_kind e = EndpointFinal \<and> rest = [DoReset] \<and> st = StageAwake
      \<or> ends_turn (se_kind e) \<and> rest = [DoReset] \<and> (sv_stopping s \<or> st \<noteq> StageOver))"
| "act_inv (DoDeliver e) rest s st c =
     (se_kind e = WakeAccepted \<and> (\<exists>more. rest = DoStopCheck # more \<and> after_wake more s c) \<and> sv_wake_sent s \<and> st = StageIdle
      \<or> se_kind e = Activity \<and> rest = [] \<and> sv_wake_sent s \<and> st = StageAwake \<and> sv_samples s = c
      \<or> se_kind e = EndpointFinal \<and> rest = [DoReset] \<and> st = StageAwake
      \<or> ends_turn (se_kind e) \<and> rest = [DoReset] \<and> st \<noteq> StageOver)"
| "act_inv DoStopCheck rest s st c = (after_wake rest s c \<and> awake s st)"
| "act_inv (DoEndpoint n) rest s st c =
     (0 < n \<and> n \<le> length c \<and> sv_samples s = c \<and>
       ((\<exists>f. rest = [DoInfer f, DoReset]) \<and> st = StageAwake
        \<or> (\<exists>e f. rest = [DoEmit e, DoStopCheck, DoInfer f, DoReset] \<and> se_kind e = WakeAccepted) \<and> waking s st \<and> sink_ok s
        \<or> (\<exists>f. rest = [DoStopCheck, DoInfer f, DoReset]) \<and> awake s st))"
| "act_inv (DoInfer f) rest s st c = (rest = [DoReset] \<and> st = StageAwake \<and> first_part (sv_samples s) c)"
| "act_inv (DoInferred f sc) rest s st c = (rest = [DoReset] \<and> st = StageAwake \<and> first_part (sv_samples s) c)"
| "act_inv DoReset rest s st c = (rest = [])"
| "act_inv DoFinish rest s st c = (rest = [] \<and> in_turn s st \<and> (sv_armed s \<longrightarrow> sv_samples s = c))"
| "act_inv DoFinishFrame rest s st c = (rest = [] \<and> in_turn s st \<and> sv_samples s = c)"
| "act_inv (DoFlush f) rest s st c = (rest = [] \<and> in_turn s st \<and> sink_ok s \<and> sv_samples s = c)"
| "act_inv (DoFlushed f r) rest s st c = (rest = [] \<and> in_turn s st \<and> sink_ok s \<and> sv_samples s = c)"

fun todo_inv :: "worker_action list \<Rightarrow> provider \<Rightarrow> turn_stage \<Rightarrow> u16 list \<Rightarrow> bool" where
  "todo_inv [] s st c = (in_turn s st \<and> (sv_armed s \<longrightarrow> sv_samples s = c))"
| "todo_inv (a # rest) s st c = act_inv a rest s st c"

definition resets_turn :: "worker_action list \<Rightarrow> bool" where
  "resets_turn todo \<longleftrightarrow> todo \<noteq> [] \<and> last todo = DoReset"

definition stopped_quiet :: "provider \<Rightarrow> bool" where
  "stopped_quiet s \<longleftrightarrow> (sv_stopping s \<longrightarrow>
     sv_stop_requested s \<and> \<not> sv_armed s \<and> sv_queue s = [] \<and> \<not> sv_overflow_pending s)"

definition frames_have_sink :: "provider \<Rightarrow> bool" where
  "frames_have_sink s \<longleftrightarrow> (sv_queue s \<noteq> [] \<or> sv_last_frame s \<noteq> None \<longrightarrow> sink_ok s)"

definition overflow_quarantines :: "provider \<Rightarrow> bool" where
  "overflow_quarantines s \<longleftrightarrow> (sv_overflow_pending s \<longrightarrow> sv_quarantined s)"

definition failure_resets :: "provider \<Rightarrow> bool" where
  "failure_resets s \<longleftrightarrow> (sv_failure_emitted s \<longrightarrow> sv_stop_requested s \<or> resets_turn (sv_todo s))"

definition rearms :: "provider \<Rightarrow> bool" where
  "rearms s \<longleftrightarrow> sv_armed s \<or> sv_overflow_pending s \<or> sv_stop_requested s \<or> resets_turn (sv_todo s)"

definition shutdown_order :: "provider \<Rightarrow> bool" where
  "shutdown_order s \<longleftrightarrow> (sv_stopping s \<longleftrightarrow> sv_shutdown s = ShutdownFenced \<or> sv_shutdown s = ShutdownDone)
     \<and> (sv_stop_requested s \<longleftrightarrow> sv_shutdown s \<noteq> ShutdownNone) \<and> (sv_exited s \<longrightarrow> sv_stopping s \<and> sv_todo s = [])
     \<and> (sv_shutdown s = ShutdownDone \<longrightarrow> sv_exited s)"

definition flags_inv :: "provider \<Rightarrow> bool" where
  "flags_inv s \<longleftrightarrow> (0 < sv_maximum s \<and> sv_maximum s \<le> default_maximum_frames) \<and> stopped_quiet s \<and> frames_have_sink s \<and> overflow_quarantines s
     \<and> failure_resets s \<and> rearms s \<and> shutdown_order s"

lemmas flags_defs = stopped_quiet_def frames_have_sink_def overflow_quarantines_def failure_resets_def rearms_def
  shutdown_order_def sink_ok_def

definition provider_inv :: "provider \<Rightarrow> bool" where
  "provider_inv s \<longleftrightarrow> flags_inv s \<and> inferences_ok (sv_maximum s * frame_capacity) (sv_log s)
     \<and> length (collected (sv_log s)) \<le> sv_maximum s * frame_capacity
     \<and> (\<exists>st. stage_follow StageIdle (sv_log s) = Some st \<and> todo_inv (sv_todo s) s st (collected (sv_log s)))"

lemma inv_flags: "provider_inv s \<Longrightarrow> flags_inv s"
  by (simp add: provider_inv_def)

lemma provider_init_inv: "provider_inv (provider_init maximum)"
  by (simp add: provider_inv_def provider_init_def flags_inv_def inferences_ok_def collected_def in_turn_def
      default_maximum_frames_def flags_defs)

text \<open>A call of another thread disturbs none of the worker's actions.\<close>

definition undisturbed :: "provider \<Rightarrow> provider \<Rightarrow> bool" where
  "undisturbed s t \<longleftrightarrow> sv_wake_sent t = sv_wake_sent s \<and> sv_samples t = sv_samples s \<and> sv_todo t = sv_todo s
     \<and> (sv_armed t \<longrightarrow> sv_armed s) \<and> (sv_stopping s \<longrightarrow> sv_stopping t) \<and> (sink_ok s \<longrightarrow> sink_ok t)"

lemma act_inv_undisturbed:
  assumes u: "undisturbed s t" and a: "act_inv a rest s st c"
  shows "act_inv a rest t st c"
proof -
  have f: "sv_wake_sent t = sv_wake_sent s" "sv_samples t = sv_samples s" "sv_armed t \<Longrightarrow> sv_armed s"
      "sv_stopping s \<Longrightarrow> sv_stopping t" "sink_ok s \<Longrightarrow> sink_ok t"
    using u by (auto simp: undisturbed_def)
  then have g: "in_turn s st \<Longrightarrow> in_turn t st" "awake s st \<Longrightarrow> awake t st" "waking s st \<Longrightarrow> waking t st"
      "\<And>m. after_wake m s c \<Longrightarrow> after_wake m t c"
    by (auto simp: in_turn_def awake_def waking_def after_wake_def)
  note d = f(3-5) g
  show ?thesis
  proof (cases a)
    case (DoEmit e)
    then show ?thesis using a unfolding DoEmit act_inv.simps f(1,2) using d by blast
  next
    case (DoDeliver e)
    then show ?thesis using a unfolding DoDeliver act_inv.simps f(1,2) using d by blast
  next
    case (DoEndpoint n)
    then show ?thesis using a unfolding DoEndpoint act_inv.simps f(1,2) using d by blast
  qed (use a f(1,2) in \<open>auto dest: d\<close>)
qed

lemma todo_inv_undisturbed:
  assumes u: "undisturbed s t" and i: "todo_inv (sv_todo s) s st c"
  shows "todo_inv (sv_todo t) t st c"
proof (cases "sv_todo s")
  case Nil
  then show ?thesis using u i by (auto simp: undisturbed_def in_turn_def)
next
  case (Cons a rest)
  then have "sv_todo t = a # rest" using u by (simp add: undisturbed_def)
  then show ?thesis using act_inv_undisturbed [OF u, of a rest] i Cons by simp
qed

lemma provider_inv_undisturbed:
  assumes "provider_inv s" and "undisturbed s t" and "flags_inv t" and "sv_log t = sv_log s" and "sv_maximum t = sv_maximum s"
  shows "provider_inv t"
  using assms(1,3,4,5) todo_inv_undisturbed [OF assms(2)] unfolding provider_inv_def by metis

subsection \<open>Every call keeps the invariant\<close>

lemma flagsI:
  "0 < sv_maximum s \<and> sv_maximum s \<le> default_maximum_frames \<Longrightarrow> stopped_quiet s \<Longrightarrow> frames_have_sink s \<Longrightarrow> overflow_quarantines s \<Longrightarrow> failure_resets s \<Longrightarrow>
     rearms s \<Longrightarrow> shutdown_order s \<Longrightarrow> flags_inv s"
  by (simp add: flags_inv_def)

lemma flagsD:
  assumes "flags_inv s"
  shows "0 < sv_maximum s \<and> sv_maximum s \<le> default_maximum_frames" "stopped_quiet s" "frames_have_sink s" "overflow_quarantines s" "failure_resets s"
    "rearms s" "shutdown_order s"
  using assms by (simp_all add: flags_inv_def)

lemma flags_simps [simp]:
  "flags_inv (s\<lparr>sv_duplicate_finish := b\<rparr>) = flags_inv s" "flags_inv (s\<lparr>sv_finish_requested := b\<rparr>) = flags_inv s"
  "flags_inv (s\<lparr>sv_finish_handled := b\<rparr>) = flags_inv s" "flags_inv (s\<lparr>sv_scope := sc\<rparr>) = flags_inv s"
  "flags_inv (s\<lparr>sv_wake_sent := b\<rparr>) = flags_inv s" "flags_inv (s\<lparr>sv_samples := xs\<rparr>) = flags_inv s"
  "flags_inv (s\<lparr>sv_admission := n\<rparr>) = flags_inv s" "flags_inv (s\<lparr>sv_last_endpoint := n\<rparr>) = flags_inv s"
  "flags_inv (s\<lparr>sv_log := l\<rparr>) = flags_inv s" "flags_inv (sv_say x s) = flags_inv s"
  by (simp_all add: flags_inv_def flags_defs sv_say_def)

lemma frame_flags:
  assumes "flags_inv s"
  shows "flags_inv (provider_frame f s)"
  using flagsD [OF assms] by (intro flagsI) (auto simp: provider_frame_def Let_def flags_defs)

lemma frame_keeps:
  assumes "provider_inv s"
  shows "provider_inv (provider_frame f s)"
proof (rule provider_inv_undisturbed [OF assms])
  show "undisturbed s (provider_frame f s)"
    by (simp add: provider_frame_def undisturbed_def sink_ok_def Let_def)
qed (use frame_flags [OF inv_flags [OF assms]] in \<open>simp_all add: provider_frame_def Let_def\<close>)

lemma finish_keeps:
  assumes "provider_inv s"
  shows "provider_inv (provider_finish s)"
proof (rule provider_inv_undisturbed [OF assms])
  show "undisturbed s (provider_finish s)"
    by (simp add: provider_finish_def undisturbed_def sink_ok_def)
  show "flags_inv (provider_finish s)"
    using inv_flags [OF assms] by (simp add: provider_finish_def)
qed (simp_all add: provider_finish_def)

lemma scopes_keep:
  assumes "provider_inv s"
  shows "provider_inv (scope_opened sc s)" and "provider_inv (scope_retired sc s)"
  by (rule provider_inv_undisturbed [OF assms];
      use inv_flags [OF assms] in \<open>simp add: scope_opened_def scope_retired_def undisturbed_def sink_ok_def\<close>)+

lemma shutdown_flags:
  assumes "flags_inv s"
  shows "flags_inv (provider_shutdown s)"
  using flagsD [OF assms] by (intro flagsI) (auto simp: provider_shutdown_def sv_say_def flags_defs split: shutdown_pc.split)

lemma shutdown_keeps:
  assumes "provider_inv s"
  shows "provider_inv (provider_shutdown s)"
proof (cases "sv_shutdown s = ShutdownFenced \<and> sv_exited s")
  case True
  then have "sv_todo s = []" "sv_stopping s" "\<not> sv_armed s"
    using flagsD [OF inv_flags [OF assms]] by (auto simp: flags_defs)
  then show ?thesis
    using assms shutdown_flags [OF inv_flags [OF assms]] True unfolding provider_inv_def
    by (auto simp: provider_shutdown_def sv_say_def inferences_ok_snoc collected_snoc collect_step_def stage_follow_snoc in_turn_def)
next
  case False
  show ?thesis
  proof (rule provider_inv_undisturbed [OF assms])
    show "undisturbed s (provider_shutdown s)"
      using False by (auto simp: provider_shutdown_def undisturbed_def sink_ok_def split: shutdown_pc.split)
  qed (use False shutdown_flags [OF inv_flags [OF assms]] in \<open>auto simp: provider_shutdown_def split: shutdown_pc.split\<close>)
qed

text \<open>A section of the worker that says nothing: the flags, and the actions it leaves.\<close>

lemma quiet_act:
  assumes i: "provider_inv s" and log: "sv_log u = sv_log s" "sv_maximum u = sv_maximum s"
    and u: "flags_inv u"
      "\<And>st. todo_inv (sv_todo s) s st (collected (sv_log s)) \<Longrightarrow> todo_inv (sv_todo u) u st (collected (sv_log s))"
  shows "provider_inv u"
  using i u unfolding provider_inv_def log by blast

lemma flags_todo:
  assumes "flags_inv s" and "\<not> sv_exited s" and "resets_turn (sv_todo s) \<Longrightarrow> resets_turn xs \<or> sv_stop_requested s"
  shows "flags_inv (s\<lparr>sv_todo := xs\<rparr>)"
proof (intro flagsI)
  show "failure_resets (s\<lparr>sv_todo := xs\<rparr>)"
    using flagsD(5) [OF assms(1)] assms(3) by (auto simp: failure_resets_def)
  show "rearms (s\<lparr>sv_todo := xs\<rparr>)"
    using flagsD(6) [OF assms(1)] assms(3) by (auto simp: rearms_def)
  show "shutdown_order (s\<lparr>sv_todo := xs\<rparr>)"
    using flagsD(7) [OF assms(1)] assms(2) by (auto simp: shutdown_order_def)
qed (use flagsD(1-4) [OF assms(1)] in \<open>simp_all add: stopped_quiet_def frames_have_sink_def overflow_quarantines_def sink_ok_def\<close>)

lemma flags_queue: "flags_inv s \<Longrightarrow> sv_queue s \<noteq> [] \<or> q = [] \<Longrightarrow> flags_inv (s\<lparr>sv_queue := q\<rparr>)"
  by (auto simp: flags_inv_def stopped_quiet_def frames_have_sink_def overflow_quarantines_def sink_ok_def
      failure_resets_def rearms_def shutdown_order_def)

lemma flags_exited:
  "flags_inv s \<Longrightarrow> sv_stopping s \<Longrightarrow> sv_todo s = [] \<Longrightarrow> flags_inv (s\<lparr>sv_exited := True\<rparr>)"
  by (auto simp: flags_inv_def stopped_quiet_def frames_have_sink_def overflow_quarantines_def sink_ok_def
      failure_resets_def rearms_def shutdown_order_def)

lemma flags_idle: "resets_turn [] = False"
  by (simp add: resets_turn_def)

lemma take_flags:
  assumes f: "flags_inv s" and t: "sv_todo s = []" and e: "\<not> sv_exited s"
  shows "flags_inv (worker_take s)"
proof -
  have todo: "flags_inv (u\<lparr>sv_todo := xs\<rparr>)" if "flags_inv u" "sv_todo u = []" "\<not> sv_exited u" for u xs
    using that by (intro flags_todo) (simp_all add: flags_idle)
  have "flags_inv (s\<lparr>sv_queue := q, sv_todo := xs\<rparr>)" if "sv_queue s = f # q" for f q xs
    by (rule todo) (use that f t e in \<open>simp_all add: flags_queue\<close>)
  then show ?thesis
    using f t e by (auto simp: worker_take_def Let_def flags_exited todo split: list.split)
qed

lemma take_todo:
  assumes "flags_inv s" and "sv_todo s = []" and "in_turn s st" and "sv_armed s \<longrightarrow> sv_samples s = c"
  shows "todo_inv (sv_todo (worker_take s)) (worker_take s) st c"
  using flagsD(3) [OF assms(1)] assms(2-)
  by (auto simp: worker_take_def Let_def frames_have_sink_def in_turn_def sink_ok_def split: list.split)

lemma take_keeps:
  assumes i: "provider_inv s" and t: "sv_todo s = []" and e: "\<not> sv_exited s"
  shows "provider_inv (worker_take s)"
  by (rule quiet_act [OF i _ _ take_flags [OF inv_flags [OF i] t e]])
    (use t take_todo [OF inv_flags [OF i] t] in \<open>auto simp: worker_take_def Let_def split: list.split\<close>)

lemmas act_defs = do_quarantine_def do_scope_def do_finish_frame_def do_flushed_def failure_todo_def is_armed_def Let_def

lemma resets_simps [simp]:
  "\<not> resets_turn []" "resets_turn [x] \<longleftrightarrow> x = DoReset" "resets_turn (x # y # zs) \<longleftrightarrow> resets_turn (y # zs)"
  by (simp_all add: resets_turn_def)

lemma resets_rest: "resets_turn (x # rest) \<Longrightarrow> x \<noteq> DoReset \<Longrightarrow> resets_turn rest"
  by (cases rest) simp_all

lemma resets_more: "resets_turn rest \<Longrightarrow> resets_turn (x # rest)"
  by (cases rest) simp_all

lemma todo_simps [simp]:
  "in_turn (s\<lparr>sv_todo := xs\<rparr>) st = in_turn s st" "sink_ok (s\<lparr>sv_todo := xs\<rparr>) = sink_ok s"
  "awake (s\<lparr>sv_todo := xs\<rparr>) st = awake s st" "waking (s\<lparr>sv_todo := xs\<rparr>) st = waking s st"
  "after_wake ys (s\<lparr>sv_todo := xs\<rparr>) c = after_wake ys s c"
  by (simp_all add: in_turn_def sink_ok_def awake_def waking_def after_wake_def)

lemma act_inv_todo [simp]: "act_inv a rest (s\<lparr>sv_todo := xs\<rparr>) st c = act_inv a rest s st c"
  by (cases a) simp_all

lemma todo_inv_todo [simp]: "todo_inv ys (s\<lparr>sv_todo := xs\<rparr>) st c = todo_inv ys s st c"
  by (cases ys) simp_all

lemma log_simps [simp]:
  "in_turn (s\<lparr>sv_log := l\<rparr>) st = in_turn s st" "sink_ok (s\<lparr>sv_log := l\<rparr>) = sink_ok s"
  "awake (s\<lparr>sv_log := l\<rparr>) st = awake s st" "waking (s\<lparr>sv_log := l\<rparr>) st = waking s st"
  "after_wake ys (s\<lparr>sv_log := l\<rparr>) c = after_wake ys s c"
  by (simp_all add: in_turn_def sink_ok_def awake_def waking_def after_wake_def)

lemma act_inv_log [simp]: "act_inv a rest (s\<lparr>sv_log := l\<rparr>) st c = act_inv a rest s st c"
  by (cases a) simp_all

lemma todo_inv_log [simp]: "todo_inv ys (s\<lparr>sv_log := l\<rparr>) st c = todo_inv ys s st c"
  by (cases ys) simp_all

text \<open>The actions that only change what is to be done.\<close>

definition plans_only :: "worker_action \<Rightarrow> bool" where
  "plans_only a \<longleftrightarrow> (case a of DoVad f \<Rightarrow> True | DoArmed f r \<Rightarrow> True | DoReport k f \<Rightarrow> True | DoEmit e \<Rightarrow> True
     | DoStopCheck \<Rightarrow> True | DoInfer f \<Rightarrow> True | DoFinish \<Rightarrow> True | DoFlush f \<Rightarrow> True | _ \<Rightarrow> False)"

lemma plan_act:
  assumes "plans_only a"
  shows "worker_act w a (s\<lparr>sv_todo := rest\<rparr>) = s\<lparr>sv_todo := sv_todo (worker_act w a (s\<lparr>sv_todo := rest\<rparr>))\<rparr>"
proof (cases a)
  case (DoEmit e)
  then show ?thesis by (cases "\<not> sv_stopping s \<and> sv_sink s") auto
next
  case (DoArmed f r)
  then show ?thesis by (cases "is_armed s") (auto simp: is_armed_def)
next
  case DoFinish
  then show ?thesis by (cases "is_armed s") (auto simp: is_armed_def)
next
  case DoStopCheck
  then show ?thesis by (cases "sv_stop_requested s") auto
qed (use assms in \<open>simp_all add: plans_only_def\<close>)

lemma plan_resets:
  assumes "plans_only a" and "act_inv a rest s st c" and "resets_turn (a # rest)"
  shows "resets_turn (sv_todo (worker_act w a (s\<lparr>sv_todo := rest\<rparr>))) \<or> sv_stop_requested s"
proof -
  have "a \<noteq> DoReset" using assms(1) by (cases a) (simp_all add: plans_only_def)
  then have r: "resets_turn rest" by (rule resets_rest [OF assms(3)])
  then have n: "rest \<noteq> []" by auto
  show ?thesis
  proof (cases a)
    case (DoVad f)
    then show ?thesis using assms(2) n by simp
  next
    case (DoArmed f q)
    then show ?thesis using assms(2) n by simp
  next
    case DoFinish
    then show ?thesis using assms(2) n by simp
  next
    case (DoFlush f)
    then show ?thesis using assms(2) n by simp
  next
    case (DoEmit e)
    then show ?thesis using r by (simp add: resets_more)
  qed (use assms(1) r in \<open>simp_all add: plans_only_def resets_more\<close>)
qed

lemma plan_todo:
  assumes "plans_only a" and "act_inv a rest s st c" and "flags_inv s" and "worker_act w a (s\<lparr>sv_todo := rest\<rparr>) = u"
  shows "todo_inv (sv_todo u) u st c"
proof (cases a)
  case (DoVad f)
  then show ?thesis using assms by (auto simp: in_turn_def sink_ok_def)
next
  case (DoArmed f r)
  then show ?thesis using assms by (auto simp: in_turn_def sink_ok_def is_armed_def)
next
  case (DoReport k f)
  then show ?thesis using assms by (auto simp: report_event_def ends_turn_def)
next
  case (DoInfer f)
  then show ?thesis using assms by (auto simp: in_turn_def)
next
  case DoFinish
  then show ?thesis using assms by (auto simp: in_turn_def is_armed_def)
next
  case (DoFlush f)
  then show ?thesis using assms by (auto simp: in_turn_def sink_ok_def)
next
  case DoStopCheck
  have "sv_stopping s \<longrightarrow> sv_stop_requested s" using flagsD(2) [OF assms(3)] by (simp add: stopped_quiet_def)
  then show ?thesis using assms DoStopCheck by (auto simp: after_wake_def awake_def in_turn_def)
next
  case (DoEmit e)
  show ?thesis
  proof (cases "\<not> sv_stopping s \<and> sv_sink s")
    case True
    then have "u = s\<lparr>sv_todo := DoDeliver e # rest\<rparr>" using assms(4) DoEmit by simp
    moreover have "act_inv (DoDeliver e) rest s st c"
      using assms(2) True unfolding DoEmit by (auto simp: waking_def)
    ultimately show ?thesis by simp
  next
    case False
    then have u: "u = s\<lparr>sv_todo := rest\<rparr>" using assms(4) DoEmit by auto
    have "todo_inv rest s st c"
      using assms(2) False unfolding DoEmit by (auto simp: waking_def awake_def sink_ok_def in_turn_def)
    then show ?thesis by (simp add: u)
  qed
qed (use assms(1) in \<open>simp_all add: plans_only_def\<close>)

lemma plan_keeps:
  assumes i: "provider_inv s" and t: "sv_todo s = a # rest" and e: "\<not> sv_exited s" and p: "plans_only a"
  shows "provider_inv (worker_act w a (s\<lparr>sv_todo := rest\<rparr>))"
proof -
  obtain st where st: "act_inv a rest s st (collected (sv_log s))" using i t by (auto simp: provider_inv_def)
  define xs where "xs = sv_todo (worker_act w a (s\<lparr>sv_todo := rest\<rparr>))"
  have u: "worker_act w a (s\<lparr>sv_todo := rest\<rparr>) = s\<lparr>sv_todo := xs\<rparr>" unfolding xs_def by (rule plan_act [OF p])
  show ?thesis
  proof (rule quiet_act [OF i])
    show "flags_inv (worker_act w a (s\<lparr>sv_todo := rest\<rparr>))"
      unfolding u using plan_resets [OF p st, of w] t by (intro flags_todo [OF inv_flags [OF i] e]) (simp add: u)
    show "todo_inv (sv_todo (worker_act w a (s\<lparr>sv_todo := rest\<rparr>))) (worker_act w a (s\<lparr>sv_todo := rest\<rparr>)) st' (collected (sv_log s))"
      if "todo_inv (sv_todo s) s st' (collected (sv_log s))" for st'
      using that t plan_todo [OF p _ inv_flags [OF i] refl] by simp
  qed (simp_all add: u)
qed

text \<open>The decisions of the worker, each with the actions it leaves.\<close>

lemma flags_plan: "flags_inv s \<Longrightarrow> \<not> sv_exited s \<Longrightarrow> sv_todo s = [a] \<Longrightarrow> a \<noteq> DoReset \<Longrightarrow> flags_inv (s\<lparr>sv_todo := xs\<rparr>)"
  by (intro flags_todo) simp_all

lemma quarantine_keeps:
  assumes i: "provider_inv s" and t: "sv_todo s = DoQuarantine f r # rest" and e: "\<not> sv_exited s"
  shows "provider_inv (do_quarantine f r (s\<lparr>sv_todo := rest\<rparr>))"
proof (rule quiet_act [OF i])
  have "rest = []" using i t by (auto simp: provider_inv_def)
  then have p: "flags_inv (s\<lparr>sv_todo := xs\<rparr>)" "flags_inv (s\<lparr>sv_todo := xs, sv_wake_sent := True\<rparr>)" for xs
    using flags_plan [OF inv_flags [OF i] e] t by simp_all
  then show "flags_inv (do_quarantine f r (s\<lparr>sv_todo := rest\<rparr>))"
    using flags_plan [of "s\<lparr>sv_wake_sent := True\<rparr>" "DoQuarantine f r"] inv_flags [OF i] e t \<open>rest = []\<close>
    by (simp add: do_quarantine_def failure_todo_def)
  show "todo_inv (sv_todo (do_quarantine f r (s\<lparr>sv_todo := rest\<rparr>))) (do_quarantine f r (s\<lparr>sv_todo := rest\<rparr>)) st (collected (sv_log s))"
    if "todo_inv (sv_todo s) s st (collected (sv_log s))" for st
    using that t by (auto simp: do_quarantine_def failure_todo_def ends_turn_def in_turn_def after_wake_def waking_def
      awake_def wake_accepted_def default_event_def sink_ok_def)
qed (simp_all add: do_quarantine_def)

lemma scope_keeps:
  assumes i: "provider_inv s" and t: "sv_todo s = DoScope f r # rest" and e: "\<not> sv_exited s"
  shows "provider_inv (do_scope f r (s\<lparr>sv_todo := rest\<rparr>))"
proof (rule quiet_act [OF i])
  have "rest = []" using i t by (auto simp: provider_inv_def)
  then show "flags_inv (do_scope f r (s\<lparr>sv_todo := rest\<rparr>))"
    using flags_plan [OF inv_flags [OF i] e] flags_plan [of "s\<lparr>sv_last_endpoint := n\<rparr>" "DoScope f r" for n] inv_flags [OF i] e t
    by (simp add: do_scope_def failure_todo_def Let_def)
  show "todo_inv (sv_todo (do_scope f r (s\<lparr>sv_todo := rest\<rparr>))) (do_scope f r (s\<lparr>sv_todo := rest\<rparr>)) st (collected (sv_log s))"
    if "todo_inv (sv_todo s) s st (collected (sv_log s))" for st
    using that t by (auto simp: do_scope_def failure_todo_def ends_turn_def in_turn_def activity_def default_event_def Let_def)
qed (simp_all add: do_scope_def Let_def)

lemma flushed_keeps:
  assumes i: "provider_inv s" and t: "sv_todo s = DoFlushed f r # rest" and e: "\<not> sv_exited s"
  shows "provider_inv (do_flushed f r (s\<lparr>sv_todo := rest\<rparr>))"
proof (rule quiet_act [OF i])
  have "rest = []" using i t by (auto simp: provider_inv_def)
  then show "flags_inv (do_flushed f r (s\<lparr>sv_todo := rest\<rparr>))"
    using flags_plan [OF inv_flags [OF i] e] flags_plan [of "s\<lparr>sv_wake_sent := True\<rparr>" "DoFlushed f r"] inv_flags [OF i] e t
    by (simp add: do_flushed_def failure_todo_def Let_def)
  show "todo_inv (sv_todo (do_flushed f r (s\<lparr>sv_todo := rest\<rparr>))) (do_flushed f r (s\<lparr>sv_todo := rest\<rparr>)) st (collected (sv_log s))"
    if "todo_inv (sv_todo s) s st (collected (sv_log s))" for st
    using that t by (auto simp: do_flushed_def failure_todo_def ends_turn_def in_turn_def is_armed_def waking_def awake_def
      wake_accepted_def default_event_def sink_ok_def Let_def)
qed (simp_all add: do_flushed_def Let_def)

lemma finish_frame_keeps:
  assumes i: "provider_inv s" and t: "sv_todo s = DoFinishFrame # rest" and e: "\<not> sv_exited s"
  shows "provider_inv (do_finish_frame (s\<lparr>sv_todo := rest\<rparr>))"
proof (rule quiet_act [OF i])
  have "rest = []" using i t by (auto simp: provider_inv_def)
  then show "flags_inv (do_finish_frame (s\<lparr>sv_todo := rest\<rparr>))"
    using flags_plan [of "s\<lparr>sv_duplicate_finish := False\<rparr>" DoFinishFrame] inv_flags [OF i] e t
    by (simp add: do_finish_frame_def failure_todo_def Let_def split: option.split)
  show "todo_inv (sv_todo (do_finish_frame (s\<lparr>sv_todo := rest\<rparr>))) (do_finish_frame (s\<lparr>sv_todo := rest\<rparr>)) st (collected (sv_log s))"
    if "todo_inv (sv_todo s) s st (collected (sv_log s))" for st
    using that t flagsD(3) [OF inv_flags [OF i]]
    by (auto simp: do_finish_frame_def failure_todo_def ends_turn_def in_turn_def frames_have_sink_def sink_ok_def Let_def
      split: option.split if_splits)
qed (simp_all add: do_finish_frame_def Let_def split: option.split)

lemma claim_keeps:
  assumes i: "provider_inv s" and t: "sv_todo s = DoClaim f # rest" and e: "\<not> sv_exited s"
  shows "provider_inv (do_claim f (s\<lparr>sv_todo := rest\<rparr>))"
proof (rule quiet_act [OF i])
  have r: "rest = []" using i t by (auto simp: provider_inv_def)
  note f = flagsD [OF inv_flags [OF i]]
  show "flags_inv (do_claim f (s\<lparr>sv_todo := rest\<rparr>))"
  proof (cases "\<not> sv_quarantined s \<or> sv_failure_emitted s \<or> sv_stopping s")
    case True
    then show ?thesis using flags_plan [OF inv_flags [OF i] e] t r by (auto simp: do_claim_def)
  next
    case False
    define u where "u = s\<lparr>sv_failure_emitted := True, sv_overflow_pending := False,
      sv_todo := failure_todo (if sv_overflow_pending s then sv_overflow_frame s else f)\<rparr>"
    have "flags_inv u"
    proof (rule flagsI)
      show "stopped_quiet u" using f(2) by (simp add: u_def stopped_quiet_def)
      show "frames_have_sink u" using f(3) by (simp add: u_def frames_have_sink_def sink_ok_def)
      show "shutdown_order u" using f(7) e by (simp add: u_def shutdown_order_def)
    qed (use f(1) in \<open>simp_all add: u_def overflow_quarantines_def failure_resets_def rearms_def failure_todo_def\<close>)
    then show ?thesis using False by (cases "sv_overflow_pending s") (simp_all add: do_claim_def u_def)
  qed
  show "todo_inv (sv_todo (do_claim f (s\<lparr>sv_todo := rest\<rparr>))) (do_claim f (s\<lparr>sv_todo := rest\<rparr>)) st (collected (sv_log s))"
    if "todo_inv (sv_todo s) s st (collected (sv_log s))" for st
    using that t by (auto simp: do_claim_def failure_todo_def ends_turn_def in_turn_def split: if_splits)
qed (simp_all add: do_claim_def)

text \<open>The sections that disarm the provider leave its reset to be done.\<close>

lemma flags_disarm:
  assumes "flags_inv s" and "\<not> sv_exited s" and "resets_turn xs"
  shows "flags_inv (s\<lparr>sv_todo := xs, sv_armed := False, sv_queue := []\<rparr>)"
proof (rule flagsI)
  note f = flagsD [OF assms(1)]
  show "stopped_quiet (s\<lparr>sv_todo := xs, sv_armed := False, sv_queue := []\<rparr>)" using f(2) by (simp add: stopped_quiet_def)
  show "frames_have_sink (s\<lparr>sv_todo := xs, sv_armed := False, sv_queue := []\<rparr>)"
    using f(3) by (simp add: frames_have_sink_def sink_ok_def)
  show "shutdown_order (s\<lparr>sv_todo := xs, sv_armed := False, sv_queue := []\<rparr>)" using f(7) assms(2) by (simp add: shutdown_order_def)
  show "overflow_quarantines (s\<lparr>sv_todo := xs, sv_armed := False, sv_queue := []\<rparr>)" using f(4) by (simp add: overflow_quarantines_def)
qed (use flagsD(1) [OF assms(1)] assms(3) in \<open>simp_all add: failure_resets_def rearms_def\<close>)

lemma retire_act_keeps:
  assumes i: "provider_inv s" and t: "sv_todo s = DoRetire # rest" and e: "\<not> sv_exited s"
  shows "provider_inv (worker_act w DoRetire (s\<lparr>sv_todo := rest\<rparr>))"
proof (rule quiet_act [OF i])
  have "resets_turn rest" using i t by (auto simp: provider_inv_def)
  then show "flags_inv (worker_act w DoRetire (s\<lparr>sv_todo := rest\<rparr>))"
    using flags_disarm [OF inv_flags [OF i] e] by simp
  show "todo_inv (sv_todo (worker_act w DoRetire (s\<lparr>sv_todo := rest\<rparr>))) (worker_act w DoRetire (s\<lparr>sv_todo := rest\<rparr>)) st (collected (sv_log s))"
    if "todo_inv (sv_todo s) s st (collected (sv_log s))" for st
    using that t by auto
qed simp_all

lemma first_part_take: "0 < n \<Longrightarrow> n \<le> length c \<Longrightarrow> first_part (take n c) c"
  by (auto simp: first_part_def take_is_prefix)

lemma endpoint_keeps:
  assumes i: "provider_inv s" and t: "sv_todo s = DoEndpoint n # rest" and e: "\<not> sv_exited s"
  shows "provider_inv (worker_act w (DoEndpoint n) (s\<lparr>sv_todo := rest\<rparr>))"
proof (rule quiet_act [OF i])
  have "resets_turn rest" using i t by (auto simp: provider_inv_def)
  then have "flags_inv ((s\<lparr>sv_todo := rest, sv_armed := False, sv_queue := []\<rparr>)\<lparr>sv_samples := take n (sv_samples s)\<rparr>)"
    using flags_disarm [OF inv_flags [OF i] e] by (simp only: flags_simps)
  then show "flags_inv (worker_act w (DoEndpoint n) (s\<lparr>sv_todo := rest\<rparr>))" by simp
  show "todo_inv (sv_todo (worker_act w (DoEndpoint n) (s\<lparr>sv_todo := rest\<rparr>))) (worker_act w (DoEndpoint n) (s\<lparr>sv_todo := rest\<rparr>)) st (collected (sv_log s))"
    if "todo_inv (sv_todo s) s st (collected (sv_log s))" for st
    using that t by (auto simp: first_part_take after_wake_def waking_def awake_def sink_ok_def)
qed simp_all

text \<open>The sections that are seen.\<close>

lemma deliver_keeps:
  assumes i: "provider_inv s" and t: "sv_todo s = DoDeliver x # rest" and e: "\<not> sv_exited s"
  shows "provider_inv (sv_say (EventEmitted x) (s\<lparr>sv_todo := rest\<rparr>))"
proof -
  obtain st where st: "act_inv (DoDeliver x) rest s st (collected (sv_log s))" "stage_follow StageIdle (sv_log s) = Some st"
    using i t by (auto simp: provider_inv_def)
  have r: "resets_turn (sv_todo s) \<Longrightarrow> resets_turn rest" using t by (simp add: resets_rest)
  have "flags_inv (sv_say (EventEmitted x) (s\<lparr>sv_todo := rest\<rparr>))"
    using flags_todo [OF inv_flags [OF i] e, of rest] r by simp
  moreover have "\<exists>st'. stage_event st (se_kind x) = Some st' \<and> todo_inv rest s st' (collected (sv_log s))"
    using st(1) by (auto simp: ends_turn_def awake_def in_turn_def)
  ultimately show ?thesis
    using i st(2) by (auto simp: provider_inv_def sv_say_def inferences_ok_snoc collected_snoc collect_step_def stage_follow_snoc)
qed

lemma said:
  assumes i: "provider_inv s" and x: "stage_follow StageIdle (sv_log s) = Some st" "stage_next st x = Some st'"
    and f: "flags_inv u" "sv_log u = sv_log s" "sv_maximum u = sv_maximum s"
    and c: "length (collect_step (collected (sv_log s)) x) \<le> sv_maximum s * frame_capacity"
    and r: "\<And>xs. x = InferenceRun xs \<Longrightarrow> first_part xs (collected (sv_log s))"
    and t: "todo_inv (sv_todo u) u st' (collect_step (collected (sv_log s)) x)"
  shows "provider_inv (sv_say x u)"
proof -
  have "length xs \<le> sv_maximum s * frame_capacity" if "x = InferenceRun xs" for xs
    using r [OF that] i unfolding first_part_def provider_inv_def by (meson le_trans prefix_length_le)
  then show ?thesis
    using i x f c r t by (auto simp: provider_inv_def sv_say_def inferences_ok_snoc collected_snoc stage_follow_snoc)
qed

lemma inferred_keeps:
  assumes i: "provider_inv s" and t: "sv_todo s = DoInferred f sc # rest" and e: "\<not> sv_exited s"
  shows "provider_inv (do_inferred f sc text (s\<lparr>sv_todo := rest\<rparr>))"
proof -
  obtain st where st: "act_inv (DoInferred f sc) rest s st (collected (sv_log s))"
    "stage_follow StageIdle (sv_log s) = Some st" "length (collected (sv_log s)) \<le> sv_maximum s * frame_capacity"
    using i t by (auto simp: provider_inv_def)
  define k where "k = (case text of None \<Rightarrow> report_event SpeechFailure f sc
    | Some labeled \<Rightarrow> if ts_id sc = 0 then report_event SpeechFailure f sc
        else case normalize_sensevoice_text labeled of None \<Rightarrow> report_event SpeechFailure f sc
          | Some t \<Rightarrow> endpoint_final f sc (bytes_of t) (Fin 1) TurnCommand)"
  have k: "se_kind k = SpeechFailure \<or> se_kind k = EndpointFinal"
    by (simp add: k_def report_event_def endpoint_final_def default_event_def split: option.split)
  have "do_inferred f sc text (s\<lparr>sv_todo := rest\<rparr>) = sv_say (InferenceRun (sv_samples s)) (s\<lparr>sv_todo := DoEmit k # rest\<rparr>)"
    by (simp add: do_inferred_def k_def sv_say_def Let_def split: option.split)
  moreover have "provider_inv (sv_say (InferenceRun (sv_samples s)) (s\<lparr>sv_todo := DoEmit k # rest\<rparr>))"
  proof (rule said [OF i st(2)])
    show "stage_next st (InferenceRun (sv_samples s)) = Some StageAwake" using st(1) by simp
    show "flags_inv (s\<lparr>sv_todo := DoEmit k # rest\<rparr>)" using st(1) t by (intro flags_todo [OF inv_flags [OF i] e]) simp
    show "todo_inv (sv_todo (s\<lparr>sv_todo := DoEmit k # rest\<rparr>)) (s\<lparr>sv_todo := DoEmit k # rest\<rparr>) StageAwake
        (collect_step (collected (sv_log s)) (InferenceRun (sv_samples s)))"
      using st(1) k by (auto simp: collect_step_def ends_turn_def)
  qed (use st in \<open>simp_all add: collect_step_def\<close>)
  ultimately show ?thesis by simp
qed

lemma reset_keeps:
  assumes i: "provider_inv s" and t: "sv_todo s = DoReset # rest" and e: "\<not> sv_exited s"
  shows "provider_inv (do_reset (s\<lparr>sv_todo := rest\<rparr>))"
proof -
  note f = flagsD [OF inv_flags [OF i]]
  have r: "rest = []" using i t by (auto simp: provider_inv_def)
  show ?thesis
  proof (cases "sv_stopping s")
    case True
    have "provider_inv (s\<lparr>sv_todo := []\<rparr>)"
    proof (rule quiet_act [OF i])
      show "flags_inv (s\<lparr>sv_todo := []\<rparr>)"
        using f(2) True by (intro flags_todo [OF inv_flags [OF i] e]) (simp add: stopped_quiet_def)
    qed (use f(2) True in \<open>simp_all add: in_turn_def stopped_quiet_def\<close>)
    then show ?thesis using True r by (simp add: do_reset_def)
  next
    case False
    obtain st where st: "stage_follow StageIdle (sv_log s) = Some st" using i by (auto simp: provider_inv_def)
    have d: "do_reset (s\<lparr>sv_todo := rest\<rparr>) = sv_say TurnReset (s\<lparr>sv_todo := [], sv_armed := True, sv_admission := 0, sv_samples := [],
        sv_last_endpoint := 0, sv_wake_sent := False, sv_quarantined := False, sv_overflow_pending := False,
        sv_failure_emitted := False, sv_finish_requested := False, sv_finish_handled := False, sv_duplicate_finish := False,
        sv_last_frame := None, sv_sink := (sv_sink s \<and> sv_queue s \<noteq> [])\<rparr>)" (is "_ = sv_say TurnReset ?u")
      using False r by (simp add: do_reset_def)
    have "provider_inv (sv_say TurnReset ?u)"
    proof (rule said [OF i st, of _ StageIdle])
      show "flags_inv ?u"
      proof (rule flagsI)
        show "frames_have_sink ?u" using f(3) False by (auto simp: frames_have_sink_def sink_ok_def)
        show "shutdown_order ?u" using f(7) e by (simp add: shutdown_order_def)
      qed (use f(1) False in \<open>simp_all add: stopped_quiet_def overflow_quarantines_def failure_resets_def rearms_def\<close>)
    qed (simp_all add: collect_step_def in_turn_def)
    then show ?thesis by (simp only: d)
  qed
qed

lemma consume_keeps:
  assumes i: "provider_inv s" and t: "sv_todo s = DoConsume f # rest" and e: "\<not> sv_exited s"
  shows "provider_inv (do_consume f (s\<lparr>sv_todo := rest\<rparr>))"
proof -
  obtain st where st: "act_inv (DoConsume f) rest s st (collected (sv_log s))" "stage_follow StageIdle (sv_log s) = Some st"
    "length (collected (sv_log s)) \<le> sv_maximum s * frame_capacity"
    using i t by (auto simp: provider_inv_def)
  note f = flagsD [OF inv_flags [OF i]]
  have todo: "flags_inv (s\<lparr>sv_todo := xs\<rparr>)" for xs using flags_plan [OF inv_flags [OF i] e, of "DoConsume f" xs] t st(1) by simp
  show ?thesis
  proof (cases "is_armed s")
    case False
    have "provider_inv (s\<lparr>sv_todo := []\<rparr>)"
      by (rule quiet_act [OF i _ _ todo]) (use t in simp_all)
    then show ?thesis using False st(1) by (auto simp: do_consume_def is_armed_def)
  next
    case True
    then have a: "sv_armed s" "\<not> sv_stopping s" "sv_sink s" "sv_samples s = collected (sv_log s)"
      "st = (if sv_wake_sent s then StageAwake else StageIdle)"
      using st(1) by (auto simp: is_armed_def sink_ok_def in_turn_def)
    define v where "v = s\<lparr>sv_todo := rest, sv_admission := sv_admission s + 1, sv_last_frame := Some f\<rparr>"
    have fl: "flags_inv (v\<lparr>sv_todo := xs\<rparr>)" for xs
    proof (rule flagsI)
      show "frames_have_sink (v\<lparr>sv_todo := xs\<rparr>)" using a by (simp add: v_def frames_have_sink_def sink_ok_def)
      show "shutdown_order (v\<lparr>sv_todo := xs\<rparr>)" using flagsD(7) [OF todo [of xs]] e by (simp add: v_def shutdown_order_def)
    qed (use flagsD [OF todo [of xs]] in \<open>simp_all add: v_def stopped_quiet_def overflow_quarantines_def failure_resets_def
        rearms_def\<close>)
    have d: "do_consume f (s\<lparr>sv_todo := rest\<rparr>) =
       (let (ok, u) = copy_frame f v in u\<lparr>sv_todo := (if ok then [DoVad f] else failure_todo f)\<rparr>)"
      using True by (simp add: do_consume_def is_armed_def v_def)
    define n where "n = unat (cf_valid f)"
    show ?thesis
    proof (cases "n = 0 \<or> frame_capacity < n \<or> sv_maximum s * frame_capacity - n < length (sv_samples s)")
      case bad: True
      have "provider_inv (v\<lparr>sv_todo := failure_todo f\<rparr>)"
        by (rule quiet_act [OF i _ _ fl]) (use t a in \<open>auto simp: v_def failure_todo_def ends_turn_def in_turn_def split: if_splits\<close>)
      then show ?thesis using bad unfolding d copy_frame_def n_def by (simp add: v_def Let_def)
    next
      case False
      define u where "u = v\<lparr>sv_samples := sv_samples s @ take n (cf_samples f), sv_todo := [DoVad f]\<rparr>"
      have "frame_capacity \<le> sv_maximum s * frame_capacity" using f(1) by simp
      then have n: "length (sv_samples s) + n \<le> sv_maximum s * frame_capacity" using False by linarith
      have "u = v\<lparr>sv_todo := [DoVad f]\<rparr>\<lparr>sv_samples := sv_samples s @ take n (cf_samples f)\<rparr>" by (simp add: u_def)
      then have "flags_inv u" using fl [of "[DoVad f]"] by (simp only: flags_simps)
      moreover have "todo_inv (sv_todo u) u st (collect_step (collected (sv_log s)) (FrameCopied (take n (cf_samples f))))"
        using a by (auto simp: u_def v_def collect_step_def in_turn_def sink_ok_def)
      moreover have "stage_next st (FrameCopied (take n (cf_samples f))) = Some st" using a(5) by (simp split: if_splits)
      moreover have "length (collect_step (collected (sv_log s)) (FrameCopied (take n (cf_samples f)))) \<le> sv_maximum s * frame_capacity"
        using n a(4) by (simp add: collect_step_def)
      moreover have "sv_log u = sv_log s" "sv_maximum u = sv_maximum s" by (simp_all add: u_def v_def)
      ultimately have "provider_inv (sv_say (FrameCopied (take n (cf_samples f))) u)"
        by (intro said [OF i st(2)]) simp_all
      moreover have "do_consume f (s\<lparr>sv_todo := rest\<rparr>) = sv_say (FrameCopied (take n (cf_samples f))) u"
        by (rule provider.equality) (use False in \<open>simp_all add: d copy_frame_def n_def u_def v_def sv_say_def Let_def\<close>)
      ultimately show ?thesis by simp
    qed
  qed
qed

lemma worker_keeps:
  assumes i: "provider_inv s"
  shows "provider_inv (worker_step w s)"
proof (cases "sv_exited s")
  case True
  then show ?thesis using i by (simp add: worker_step_def)
next
  case e: False
  show ?thesis
  proof (cases "sv_todo s")
    case Nil
    then show ?thesis using take_keeps [OF i Nil e] e by (simp add: worker_step_def)
  next
    case (Cons a rest)
    have "provider_inv (worker_act w a (s\<lparr>sv_todo := rest\<rparr>))"
    proof (cases "plans_only a")
      case True
      then show ?thesis by (rule plan_keeps [OF i Cons e])
    next
      case False
      then show ?thesis
        using Cons consume_keeps [OF i _ e] quarantine_keeps [OF i _ e] scope_keeps [OF i _ e] claim_keeps [OF i _ e]
          retire_act_keeps [OF i _ e] endpoint_keeps [OF i _ e] deliver_keeps [OF i _ e] inferred_keeps [OF i _ e]
          reset_keeps [OF i _ e] finish_frame_keeps [OF i _ e] flushed_keeps [OF i _ e]
        by (cases a) (simp_all add: plans_only_def)
    qed
    then show ?thesis using Cons e by (simp add: worker_step_def)
  qed
qed

interpretation recognizer: invariant_machine provider_step provider_inv
  by unfold_locales
    (metis provider_call.exhaust provider_step.simps frame_keeps finish_keeps scopes_keep shutdown_keeps worker_keeps)

lemma provider_run_inv: "provider_inv (provider_run maximum es)"
  unfolding provider_run_def by (rule recognizer.run_inv [OF provider_init_inv])

text \<open>
  C25: whatever the threads, the detector and the inference do, the events of the recognizer follow the protocol of
  turns: at most one wake, activity and inference only after it, and at most one terminal event before the
  reset.
\<close>

theorem recognizer_follows_turns: "stage_follow StageIdle (sv_log (provider_run maximum es)) \<noteq> None"
  using provider_run_inv [of maximum es] by (auto simp: provider_inv_def)

text \<open>
  C26: every inference is given a first part, not empty, of the samples of the frames copied since the last reset,
  within the bound of the utterance buffer.
\<close>

theorem inference_sees_the_utterance:
  assumes "sv_log (provider_run maximum es) = as @ InferenceRun xs # bs"
  shows "xs \<noteq> [] \<and> prefix xs (collected as) \<and> length xs \<le> 240000"
proof -
  let ?s = "provider_run maximum es"
  have "inferences_ok (sv_maximum ?s * frame_capacity) (sv_log ?s)"
    using provider_run_inv by (simp add: provider_inv_def)
  then have "first_part xs (collected as)" "length xs \<le> sv_maximum ?s * frame_capacity"
    using assms unfolding inferences_ok_def by blast+
  moreover have "sv_maximum ?s \<le> 1500"
    using flagsD(1) [OF inv_flags [OF provider_run_inv]] by (simp add: default_maximum_frames_def)
  ultimately show ?thesis by (simp add: first_part_def frame_capacity_def)
qed

subsection \<open>The worker's calls end\<close>

text \<open>How many sections an action may still take, with those it leads to.\<close>

primrec act_weight :: "worker_action \<Rightarrow> nat" where
  "act_weight (DoConsume f) = 14"
| "act_weight (DoVad f) = 13"
| "act_weight (DoArmed f r) = 12"
| "act_weight (DoQuarantine f r) = 11"
| "act_weight (DoScope f r) = 7"
| "act_weight (DoClaim f) = 6"
| "act_weight DoRetire = 1"
| "act_weight (DoReport k f) = 3"
| "act_weight (DoEmit e) = 2"
| "act_weight (DoDeliver e) = 1"
| "act_weight DoStopCheck = 1"
| "act_weight (DoEndpoint n) = 1"
| "act_weight (DoInfer f) = 4"
| "act_weight (DoInferred f sc) = 3"
| "act_weight DoReset = 1"
| "act_weight DoFinish = 13"
| "act_weight DoFinishFrame = 12"
| "act_weight (DoFlush f) = 11"
| "act_weight (DoFlushed f r) = 10"

definition work_left :: "provider \<Rightarrow> nat" where
  "work_left s = sum_list (map act_weight (sv_todo s))"

lemma act_work:
  "sum_list (map act_weight (sv_todo (worker_act w a (s\<lparr>sv_todo := rest\<rparr>)))) < act_weight a + sum_list (map act_weight rest)"
proof (cases a)
  case (DoConsume f)
  then show ?thesis by (simp add: do_consume_def copy_frame_def failure_todo_def sv_say_def Let_def)
next
  case (DoQuarantine f r)
  then show ?thesis by (simp add: do_quarantine_def failure_todo_def)
next
  case (DoScope f r)
  then show ?thesis by (simp add: do_scope_def failure_todo_def Let_def)
next
  case (DoClaim f)
  then show ?thesis by (simp add: do_claim_def failure_todo_def)
next
  case (DoInferred f sc)
  then show ?thesis by (simp add: do_inferred_def sv_say_def Let_def split: option.split)
next
  case DoReset
  then show ?thesis by (simp add: do_reset_def sv_say_def)
next
  case DoFinishFrame
  then show ?thesis by (simp add: do_finish_frame_def failure_todo_def Let_def split: option.split)
next
  case (DoFlushed f r)
  then show ?thesis by (simp add: do_flushed_def failure_todo_def Let_def)
qed (simp_all add: sv_say_def)

lemma worker_work:
  "\<not> sv_exited s \<Longrightarrow> sv_todo s \<noteq> [] \<Longrightarrow> work_left (worker_step w s) < work_left s"
  using act_work by (cases "sv_todo s") (simp_all add: worker_step_def work_left_def)

definition worker_run :: "provider \<Rightarrow> worker_oracle list \<Rightarrow> provider" where
  "worker_run s ws = run provider_step s (map WorkerRuns ws)"

lemma worker_run_simps [simp]: "worker_run s [] = s" "worker_run s (w # ws) = worker_run (worker_step w s) ws"
  by (simp_all add: worker_run_def)

lemma worker_reaches_idle:
  assumes "work_left s \<le> length ws" and "provider_inv s"
  shows "\<exists>j\<le>length ws. sv_todo (worker_run s (take j ws)) = []"
  using assms
proof (induction ws arbitrary: s)
  case Nil
  then have "sum_list (map act_weight (sv_todo s)) = 0" by (simp add: work_left_def)
  moreover have "act_weight a \<noteq> 0" for a by (cases a) simp_all
  ultimately have "sv_todo s = []" by (cases "sv_todo s") auto
  then show ?case by simp
next
  case (Cons w ws)
  show ?case
  proof (cases "sv_todo s = []")
    case True
    then show ?thesis by (intro exI [of _ 0]) simp
  next
    case False
    then have "\<not> sv_exited s" using flagsD(7) [OF inv_flags [OF Cons.prems(2)]] by (auto simp: shutdown_order_def)
    then have "work_left (worker_step w s) \<le> length ws" using worker_work [of s w] False Cons.prems(1) by simp
    from Cons.IH [OF this worker_keeps [OF Cons.prems(2)]] obtain j where
      "j \<le> length ws" "sv_todo (worker_run (worker_step w s) (take j ws)) = []" by blast
    then show ?thesis by (intro exI [of _ "Suc j"]) simp
  qed
qed

text \<open>The worker sets neither the request to stop nor an overflow.\<close>

lemma act_flags:
  "sv_stop_requested (worker_act w a s) = sv_stop_requested s \<and> sv_stopping (worker_act w a s) = sv_stopping s
     \<and> (sv_overflow_pending (worker_act w a s) \<longrightarrow> sv_overflow_pending s)"
proof (cases a)
  case (DoConsume f)
  then show ?thesis by (simp add: do_consume_def copy_frame_def sv_say_def Let_def)
next
  case (DoInferred f sc)
  then show ?thesis by (simp add: do_inferred_def sv_say_def Let_def split: option.split)
qed (simp_all add: do_quarantine_def do_scope_def do_claim_def do_reset_def do_finish_frame_def do_flushed_def sv_say_def Let_def
    split: option.split)

lemma worker_flags:
  "sv_stop_requested (worker_step w s) = sv_stop_requested s \<and> sv_stopping (worker_step w s) = sv_stopping s
     \<and> (sv_overflow_pending (worker_step w s) \<longrightarrow> sv_overflow_pending s)"
proof -
  have "sv_stop_requested (worker_take s) = sv_stop_requested s \<and> sv_stopping (worker_take s) = sv_stopping s
     \<and> (sv_overflow_pending (worker_take s) \<longrightarrow> sv_overflow_pending s)"
    by (simp add: worker_take_def Let_def split: list.split)
  then show ?thesis
    using act_flags [of w "hd (sv_todo s)" "s\<lparr>sv_todo := tl (sv_todo s)\<rparr>"] by (cases "sv_todo s") (simp_all add: worker_step_def)
qed

lemma worker_run_flags:
  "sv_stop_requested (worker_run s ws) = sv_stop_requested s \<and> sv_stopping (worker_run s ws) = sv_stopping s
     \<and> (sv_overflow_pending (worker_run s ws) \<longrightarrow> sv_overflow_pending s)"
proof (induction ws arbitrary: s)
  case (Cons w ws)
  then show ?case using worker_flags [of w s] by (metis worker_run_simps(2))
qed simp

lemma worker_run_inv: "provider_inv s \<Longrightarrow> provider_inv (worker_run s ws)"
  unfolding worker_run_def by (rule recognizer.run_inv)

lemma worker_run_append: "worker_run s (us @ ws) = worker_run (worker_run s us) ws"
  by (simp add: worker_run_def run_append)

text \<open>No call of the worker takes more than fourteen of its sections.\<close>

lemma work_step:
  assumes "work_left s \<le> 14"
  shows "work_left (provider_step s e) \<le> 14"
proof -
  have "work_left (worker_take s) \<le> 14"
    using assms by (simp add: work_left_def worker_take_def Let_def split: list.split)
  then have "work_left (worker_step w s) \<le> 14" for w
    using assms worker_work [of s w] by (cases "sv_exited s"; cases "sv_todo s = []") (auto simp: worker_step_def)
  then show ?thesis
    using assms by (cases e) (simp_all add: work_left_def provider_frame_def provider_finish_def scope_opened_def
      scope_retired_def provider_shutdown_def sv_say_def Let_def split: shutdown_pc.split)
qed

interpretation bounded_work: invariant_machine provider_step "\<lambda>s. work_left s \<le> 14"
  by unfold_locales (rule work_step)

lemma work_bounded: "work_left (provider_run maximum es) \<le> 14"
  unfolding provider_run_def by (rule bounded_work.run_inv) (simp add: work_left_def provider_init_def)

text \<open>
  C27: as long as no shutdown is asked for, the worker left to itself is idle and armed again after at most 21 of
  its sections, from every state and whatever the detector and the inference answer: no failure, timeout or
  overflow leaves the recognizer deaf.
\<close>

theorem recognizer_recovers:
  assumes "\<not> sv_stop_requested (provider_run maximum es)" and "length ws = 21"
  shows "\<exists>j\<le>21. sv_todo (provider_run maximum (es @ map WorkerRuns (take j ws))) = []
    \<and> sv_armed (provider_run maximum (es @ map WorkerRuns (take j ws)))"
proof -
  let ?s = "provider_run maximum es"
  have run: "provider_run maximum (es @ map WorkerRuns us) = worker_run ?s us" for us
    by (simp add: provider_run_def worker_run_def run_append)
  have "work_left ?s \<le> length (take 14 ws)" using work_bounded assms(2) by simp
  from worker_reaches_idle [OF this provider_run_inv] obtain i where i: "i \<le> 14" "sv_todo (worker_run ?s (take i ws)) = []"
    using assms(2) by (auto simp: min_def)
  define u where "u = worker_run ?s (take i ws)"
  have u: "provider_inv u" "\<not> sv_stop_requested u" "sv_todo u = []"
    using worker_run_inv [OF provider_run_inv, of maximum es "take i ws"] worker_run_flags [of ?s "take i ws"] assms(1) i(2)
    by (simp_all add: u_def)
  note f = flagsD [OF inv_flags [OF u(1)]]
  show ?thesis
  proof (cases "sv_armed u")
    case True
    then show ?thesis using i u(3) unfolding run by (intro exI [of _ i]) (simp add: u_def)
  next
    case False
    then have o1: "sv_overflow_pending u" "sv_quarantined u" "\<not> sv_failure_emitted u" "\<not> sv_stopping u" "\<not> sv_exited u"
      using f u(2,3) by (auto simp: rearms_def overflow_quarantines_def failure_resets_def shutdown_order_def)
    obtain w1 w2 vs where vs: "drop i ws = w1 # w2 # vs" "5 \<le> length vs"
    proof -
      have l: "length (drop i ws) = 21 - i" using assms(2) by simp
      then obtain w1 us where "drop i ws = w1 # us" using i(1) by (cases "drop i ws") auto
      moreover from this l i(1) obtain w2 vs where "us = w2 # vs" by (cases us) auto
      ultimately show ?thesis using that l i(1) by simp
    qed
    define v where "v = worker_step w2 (worker_step w1 u)"
    have v: "work_left v = 5" "\<not> sv_overflow_pending v"
      using o1 u(2,3) by (simp_all add: v_def worker_step_def worker_take_def do_claim_def failure_todo_def work_left_def)
    have vi: "provider_inv v" unfolding v_def by (intro worker_keeps u(1))
    define us where "us = take 5 vs"
    have "length us = 5" using vs(2) by (simp add: us_def)
    with worker_reaches_idle [of v us] v(1) vi obtain k where k: "k \<le> 5" "sv_todo (worker_run v (take k us)) = []" by auto
    define t where "t = worker_run v (take k us)"
    have t: "\<not> sv_overflow_pending t" "\<not> sv_stop_requested t" "provider_inv t" "sv_todo t = []"
      using worker_run_flags [of v "take k us"] v(2) worker_run_inv [OF vi] k(2) worker_flags u(2) by (simp_all add: t_def v_def)
    then have "sv_armed t" using flagsD(6) [OF inv_flags [OF t(3)]] by (simp add: rearms_def)
    moreover have "take k us = take k vs" using k(1) by (simp add: us_def min_def)
    then have "take (2 + k) (drop i ws) = w1 # w2 # take k us" using vs(1) by simp
    then have "take (i + (2 + k)) ws = take i ws @ w1 # w2 # take k us" by (simp only: take_add)
    then have "worker_run ?s (take (i + (2 + k)) ws) = t" by (simp add: worker_run_append u_def v_def t_def)
    ultimately show ?thesis using i(1) k(1) t(4) unfolding run by (intro exI [of _ "i + (2 + k)"]) simp
  qed
qed

text \<open>
  C28: once the shutdown holds the flags, the worker ends within fifteen of its sections, so the join returns; and
  when the shutdown is over, nothing is emitted or run any more.
\<close>

theorem shutdown_joins_worker:
  assumes "sv_stopping (provider_run maximum es)" and "length ws = 15"
  shows "sv_exited (provider_run maximum (es @ map WorkerRuns ws))"
proof -
  let ?s = "provider_run maximum es"
  have run: "provider_run maximum (es @ map WorkerRuns us) = worker_run ?s us" for us
    by (simp add: provider_run_def worker_run_def run_append)
  have stays: "sv_exited (worker_run s us)" if "sv_exited s" for s us
    using that by (induction us arbitrary: s) (simp_all add: worker_step_def)
  have "work_left ?s \<le> length (take 14 ws)" using work_bounded assms(2) by simp
  from worker_reaches_idle [OF this provider_run_inv] obtain i where i: "i \<le> 14" "sv_todo (worker_run ?s (take i ws)) = []"
    using assms(2) by (auto simp: min_def)
  define u where "u = worker_run ?s (take i ws)"
  have "provider_inv u" "sv_stopping u" "sv_todo u = []"
    using worker_run_inv [OF provider_run_inv] worker_run_flags [of ?s "take i ws"] assms(1) i(2) by (simp_all add: u_def)
  then have e: "sv_exited (worker_step w u)" for w
    using flagsD(2) [OF inv_flags] by (auto simp: worker_step_def worker_take_def stopped_quiet_def)
  obtain w vs where "drop i ws = w # vs" using i(1) assms(2) by (cases "drop i ws") auto
  then have "ws = take i ws @ w # vs" by (metis append_take_drop_id)
  then have "worker_run ?s ws = worker_run (worker_step w u) vs" by (metis u_def worker_run_append worker_run_simps(2))
  then show ?thesis unfolding run using stays [OF e] by simp
qed

lemma nothing_after_shutdown:
  assumes "provider_inv s" and "sv_shutdown s = ShutdownDone"
  shows "sv_log (provider_step s e) = sv_log s \<and> sv_shutdown (provider_step s e) = ShutdownDone"
proof -
  have "sv_exited s" using flagsD(7) [OF inv_flags [OF assms(1)]] assms(2) by (simp add: shutdown_order_def)
  then show ?thesis
    using assms(2) by (cases e) (simp_all add: provider_frame_def provider_finish_def scope_opened_def scope_retired_def
      provider_shutdown_def worker_step_def Let_def)
qed


subsection \<open>Runs at concrete inputs\<close>

definition one_sample :: clean_frame where
  "one_sample = \<lparr>cf_rate = 16000, cf_channels = 1, cf_generation = 0, cf_seq = 0, cf_valid = 1, cf_samples = [7]\<rparr>"

definition hears_endpoint :: worker_oracle where
  "hears_endpoint = \<lparr>wo_vad = \<lparr>vr_decision = VadEndpoint, vr_endpoint = 1\<rparr>, wo_flush = \<lparr>fr_status = FlushEmpty, fr_endpoint = 0\<rparr>,
     wo_text = None\<rparr>"

definition one_turn :: "provider_call list" where
  "one_turn = [ScopeOpened (no_scope\<lparr>ts_id := 1\<rparr>), ProcessFrame one_sample]
     @ map WorkerRuns [hears_endpoint, hears_endpoint, hears_endpoint, hears_endpoint, hears_endpoint, hears_endpoint,
         hears_endpoint, hears_endpoint, hears_endpoint, hears_endpoint, hears_endpoint, hears_endpoint]"

definition two_shutdowns :: "provider_call list" where
  "two_shutdowns = [ProcessFrame one_sample, WorkerRuns hears_endpoint, ShutDown, ShutDown]"

lemmas recognizer_run_defs = provider_run_def provider_init_def default_maximum_frames_def frame_capacity_def worker_step_def
  worker_take_def provider_frame_def scope_opened_def do_consume_def copy_frame_def is_armed_def do_quarantine_def
  do_scope_def do_inferred_def sv_say_def one_sample_def hears_endpoint_def wake_accepted_def default_event_def
  provider_shutdown_def

lemma one_turn_log:
  "\<exists>e. sv_log (provider_run 0 one_turn) = [FrameCopied [7], EventEmitted e] @ InferenceRun [7] # []"
  by (simp add: one_turn_def recognizer_run_defs no_scope_def)

lemma two_shutdowns_stop: "sv_stopping (provider_run 0 two_shutdowns)"
  by (simp add: two_shutdowns_def recognizer_run_defs)

lemma inference_sees_the_utterance_witness:
  "[7] \<noteq> ([] :: u16 list) \<and> prefix [7 :: u16] (collected [FrameCopied [7], EventEmitted default_event])"
proof -
  obtain e where e: "sv_log (provider_run 0 one_turn) = [FrameCopied [7], EventEmitted e] @ InferenceRun [7] # []"
    using one_turn_log by blast
  from inference_sees_the_utterance [OF e] show ?thesis by (simp add: collected_def collect_step_def)
qed

lemma recognizer_recovers_witness:
  "\<exists>j \<le> 21. sv_armed (provider_run 0 (one_turn @ map WorkerRuns (take j (replicate 21 hears_endpoint))))"
proof -
  have "\<not> sv_stop_requested (provider_run 0 one_turn)"
    by (simp add: one_turn_def recognizer_run_defs no_scope_def)
  from recognizer_recovers [OF this, of "replicate 21 hears_endpoint"] show ?thesis by auto
qed

lemma shutdown_joins_worker_witness:
  "sv_exited (provider_run 0 (two_shutdowns @ map WorkerRuns (replicate 15 hears_endpoint)))"
  by (rule shutdown_joins_worker [OF two_shutdowns_stop]) simp

end
