(* ===== verification/Spec2Isabelle.thy ===== *)
theory Spec2Isabelle
  imports Motion_Gate_Replay Mission_Answers Event_Ingress Relative_Motion_Runs Shutdown_Coordinator Completion_Mailbox Voice_Runs Writer_Observation Navigation_Ingress Sensevoice_Provider
begin

text \<open>
  Verification of the voice navigation workspace: the motion-safety core (\<open>src/src/voice_nav_mission\<close>) and
  the voice front end (\<open>src/src/voice_nav_audio\<close>). File names below are relative to those packages.

  A Mission is a plan of at most three steps that a client asks the robot to carry out. The Runtime
  (\<open>RuntimeCore\<close>) admits Missions one at a time, drives their children and answers them; the Motion
  Gate (\<open>MotionGateCore\<close>) is the last process before the motors and lets a velocity command pass
  only under a lease. The Runtime asks the Gate for leases through the authority convergence loop
  (\<open>MissionAuthorityConvergence\<close>). The front end captures speech, turns it into commands and STOP turns, and
  plays spoken answers, which a STOP silences.

  \<^bold>\<open>Theories.\<close>
  \<^item> \<open>Prelude\<close>: integers of the code as words, times as integers (nanoseconds), identifiers and
    decimal and hexadecimal text, association lists for the standard maps, \<open>run\<close> over a list of
    events, and the locales of machines with an invariant, a latched fault and a monotone counter.
  \<^item> \<open>Binary_Float\<close>, \<open>Float_Arithmetic\<close>: \<open>double\<close> and \<open>float\<close> as rationals with infinities and NaN,
    comparisons, clamp, and correctly rounded arithmetic. The sign of a zero is not represented.
  \<^item> \<open>State_Calculus\<close>: preconditions, postconditions and preserved preorders for state monads.
  \<^item> \<open>Motion_Gate\<close>: \<open>motion_gate_core.hpp/.cpp\<close>, one definition per method, state in the record
    \<open>gate\<close>; providers are their outcome (a value or an exception). \<open>Motion_Gate_Inv\<close> proves the
    invariant, \<open>Motion_Gate_Spec\<close> the refinement of the abstract lease protocol and the safety
    properties, \<open>Motion_Gate_Replay\<close> the idempotence of requests, \<open>Motion_Gate_Runs\<close> concrete runs.
  \<^item> \<open>Mission_Authority\<close>: \<open>mission_authority_convergence.hpp\<close>; the loop is a partial function into
    option, because it ends only when its clock advances, and a termination theorem under that
    hypothesis.
  \<^item> \<open>Mission_Runtime\<close>: \<open>mission_runtime_core.hpp/.cpp\<close> in the state monad over \<open>core\<close>. Ports are
    functions of an abstract environment \<open>'e\<close>, so that any behaviour of the Gate, of the children,
    of the clock and of the permits is covered; callbacks append to \<open>c_out\<close>. The recursion of a
    child that completes inside its own start carries the number of steps left as fuel, which
    \<open>steps_never_run_out\<close> shows to be enough. \<open>Mission_Runtime_Steps\<close> collects, in locales, what a
    relation must satisfy to be preserved by every call; \<open>Mission_Runtime_Spec\<close> and
    \<open>Mission_Runtime_Stop\<close> interpret them. \<open>Mission_Scripted\<close> models the deterministic ports and
    \<open>Mission_Runs\<close> evaluates runs over them.
  \<^item> \<open>Mission_Answers\<close>: \<open>mission_action_result_router.hpp\<close>, the answers of the Action server, composed
    with the core as the Node wires them: \<open>admission_law\<close> is what an admission does to the slot.
  \<^item> \<open>Event_Queue\<close>, \<open>Emergency_Fence\<close>, \<open>Event_Ingress\<close>: \<open>runtime_event_queue.hpp\<close>,
    \<open>runtime_emergency_fence.hpp\<close> and \<open>runtime_event_ingress.hpp\<close>, the path of an event from its
    producer to the worker of the Node. Each operation under one mutex is one step, and the
    properties quantify over every interleaving of steps. \<open>fence_ports\<close> gives the core the fence.
  \<^item> \<open>Admission_Tracker\<close>: \<open>action_admission_tracker.hpp\<close>, the tickets of the Action server and the
    callbacks in flight.
  \<^item> \<open>Transaction_Plane\<close>, \<open>Admission_Gate\<close>, \<open>Shutdown_Coordinator\<close>: \<open>runtime_transaction_plane.hpp\<close>,
    \<open>runtime_admission_gate.hpp\<close> and \<open>runtime_shutdown_coordinator.hpp\<close>, the barrier between the side
    effects of the motion pipeline and the shutdown of the Node. A thread in a transaction is a program
    point (\<open>lease_pc\<close>); \<open>world_step\<close> puts gate, tracker and plane together, and \<open>node_parts\<close> gives the
    coordinator the parts of the Node.
  \<^item> \<open>Completion_Registry\<close>, \<open>Completion_Mailbox\<close>: \<open>runtime_completion_registry.hpp\<close>,
    \<open>runtime_completion_mailbox.hpp\<close>, \<open>runtime_terminal_handoff_lane.hpp\<close> and the shutdown of
    \<open>runtime_execution_plane.hpp\<close>: how the result of a child reaches the core, with the owners of the
    deliveries and the results conserved over every interleaving.
  \<^item> \<open>Float_Laws\<close>: rounding is odd, monotone and exact on the format. \<open>Relative_Motion\<close>:
    \<open>relative_motion_controller.hpp/.cpp\<close>, the controller of MOVE and ROTATE; a call is \<open>None\<close> when
    the code has no result. \<open>Relative_Motion_Spec\<close> bounds its commands and proves its completions,
    \<open>Relative_Motion_Bounds\<close> shows that its calls return and its motions end,
    \<open>Relative_Motion_Runs\<close> evaluates runs.
  \<^item> \<open>Utf8_Text\<close>, \<open>Speech_Input\<close>, \<open>Voice_Coordination\<close>: \<open>speech_input_core.hpp/.cpp\<close> and
    \<open>voice_pipeline_coordination.hpp/.cpp\<close>. The recognizer's events and the cleaned frames are steps; what
    the core hands to the recognizer and the publisher is its trace. The text check is equivalent to being an
    encoding of Unicode scalar values; the turns follow an abstract protocol and each STOP is requested once.
  \<^item> \<open>Overwrite_Ring\<close>, \<open>Spsc_Ring\<close>: the two lock-free rings of \<open>audio_engine.hpp\<close>, at the grain of single
    loads and stores under sequential consistency, for every interleaving of producer and consumer.
  \<^item> \<open>Audio_Engine\<close>, \<open>Audio_Fences\<close>, \<open>Audio_Capture\<close>: \<open>audio_engine.cpp\<close> and \<open>audio_engine_callback.cpp\<close>. A
    callback is five steps between which the other threads call; the fence theorem says which PCM can still
    be heard, the capture theorem that captures and references stay paired.
  \<^item> \<open>Speech_Output\<close>: \<open>speech_output_core.hpp/.cpp\<close> over the engine. \<open>Dsp_Pipeline\<close>: \<open>dsp_pipeline.hpp/.cpp\<close>
    over any echo canceller. \<open>Voice_Session\<close>: \<open>continuous_vad_session.cpp\<close> and the wiring of
    \<open>voice_pipeline.cpp\<close>. \<open>Voice_Runs\<close> evaluates runs of them.
  \<^item> \<open>Sensevoice_Text\<close>, \<open>Sensevoice_Provider\<close>: \<open>sensevoice_provider.hpp/.cpp\<close>. The worker's code between two
    locks is one step and the rest of its call a list of actions, so other threads interleave anywhere; the
    events follow the protocol of turns, and weights of the actions bound the sections until the worker is idle.
  \<^item> \<open>Writer_Observation\<close>, \<open>Navigation_Ingress\<close>: \<open>writer_observation.cpp\<close>, \<open>navigation_command_ingress.hpp\<close>
    and \<open>motion_source_freshness.cpp\<close>: who may send velocities, how long a command is fresh, and when the next
    goal may start.

  \<^bold>\<open>Abstractions.\<close> A child that calls back while it is called is a list of callbacks delivered at
  the end of the call. Callbacks given to the core do not call the core again. Memory exhaustion is
  not modelled. The containers of the code are association lists.

  \<^bold>\<open>Not modelled.\<close> The ROS nodes and adapters but for the dispatch of a control request, the bindings
  to speech models and sound devices, and the file system; they are listed with the manifest.
\<close>

end
